(* ===== verification/Prelude.thy ===== *)
theory Prelude
  imports Main "HOL-Library.Word"
begin

text \<open>
  Shared vocabulary of the development: the fixed-width integer types of the C code, the
  run-time faults a kernel routine can meet (a null dereference, an access outside an array,
  a division by zero, a failed \<^verbatim>\<open>BUG_ON\<close>, a use after free, a shift by the width of the type or more,
  a use of a variable nobody has set), the error codes the routines
  return, the result type \<open>fault + 'a\<close> with its sequencing operator, and the generic lemmas on
  lists, sums and words that the component theories use.
\<close>

unbundle bit_operations_syntax

type_synonym u8 = "8 word"
type_synonym u16 = "16 word"
type_synonym u32 = "32 word"
type_synonym u64 = "64 word"

named_theorems fault_simps \<open>evaluation of the fault-or-value sequencing operator\<close>
named_theorems word_conv \<open>conversion of bounded word arithmetic to natural numbers\<close>

datatype fault = Null_Deref | Out_Of_Bounds | Div_By_Zero | Bug_On | Use_After_Free | Bad_Shift | Uninitialised

datatype errno = EPERM | ENOENT | EIO | ENOMEM | EACCES | EFAULT | EBUSY | ENODEV | EINVAL
  | ENOSYS | EWOULDBLOCK

type_synonym 'a outcome = "fault + 'a"

text \<open>The numbers of the error codes, which routines return negated.\<close>

fun errno_code :: "errno \<Rightarrow> int" where
  "errno_code EPERM = 1"
| "errno_code ENOENT = 2"
| "errno_code EIO = 5"
| "errno_code EWOULDBLOCK = 11"
| "errno_code ENOMEM = 12"
| "errno_code EACCES = 13"
| "errno_code EFAULT = 14"
| "errno_code EBUSY = 16"
| "errno_code ENODEV = 19"
| "errno_code EINVAL = 22"
| "errno_code ENOSYS = 38"

definition seq_ok :: "'a outcome \<Rightarrow> ('a \<Rightarrow> 'b outcome) \<Rightarrow> 'b outcome" where
  "seq_ok r f = (case r of Inl e \<Rightarrow> Inl e | Inr x \<Rightarrow> f x)"

definition c_less_int :: "u32 \<Rightarrow> u32 \<Rightarrow> bool" where
  "c_less_int a b \<longleftrightarrow> sint a < sint b"

definition min_int :: "u32 \<Rightarrow> u32 \<Rightarrow> u32" where
  "min_int a b = (if sint a < sint b then a else b)"

lemma seq_ok_Inr [simp, fault_simps]: "seq_ok (Inr x) f = f x"
  by (simp add: seq_ok_def)

lemma seq_ok_Inl [simp, fault_simps]: "seq_ok (Inl e) f = Inl e"
  by (simp add: seq_ok_def)

lemma seq_ok_eq_Inr_iff: "seq_ok r f = Inr y \<longleftrightarrow> (\<exists>x. r = Inr x \<and> f x = Inr y)"
  by (cases r) auto

lemma seq_ok_assoc: "seq_ok (seq_ok r f) g = seq_ok r (\<lambda>x. seq_ok (f x) g)"
  by (cases r) auto

subsection \<open>Words below their sign bit\<close>

lemma sint_unat_small [word_conv]:
  fixes w :: "u32"
  assumes "unat w < 2 ^ 31"
  shows "sint w = int (unat w)"
proof -
  have "int (unat w) < int (2 ^ 31)"
    using assms by (simp only: of_nat_less_iff)
  then have "uint w < 2 ^ 31"
    by simp
  moreover have "- (2 ^ 31) \<le> uint w"
    by (rule order_trans [OF _ uint_ge_0]) simp
  ultimately have "signed_take_bit 31 (uint w) = uint w"
    by (rule signed_take_bit_int_eq_self [rotated])
  then show ?thesis
    by (simp add: sint_uint)
qed

lemma c_less_int_small [word_conv]:
  assumes "unat a < 2 ^ 31" and "unat b < 2 ^ 31"
  shows "c_less_int a b \<longleftrightarrow> unat a < unat b"
  by (simp only: c_less_int_def sint_unat_small [OF assms(1)] sint_unat_small [OF assms(2)]
      of_nat_less_iff)

lemma unat_add_small [word_conv]:
  fixes a b :: "'a::len word"
  assumes "unat a + unat b < 2 ^ LENGTH('a)"
  shows "unat (a + b) = unat a + unat b"
  using assms by (simp add: unat_word_ariths)

lemma unat_diff_small [word_conv]:
  fixes a b :: "'a::len word"
  assumes "unat b \<le> unat a"
  shows "unat (a - b) = unat a - unat b"
  using assms by (simp add: unat_sub word_le_nat_alt)

subsection \<open>Lists\<close>

lemma nth_upt_map_add:
  assumes "i < n"
  shows "map f [a ..< a + n] ! i = f (a + i)"
  using assms by simp

lemma take_map_upt: "k \<le> n \<Longrightarrow> take k (map f [a ..< a + n]) = map f [a ..< a + k]"
  by (simp add: take_map take_upt)

lemma mod_below_twice:
  fixes x n :: nat
  assumes "x < 2 * n"
  shows "x mod n = (if x < n then x else x - n)"
proof (cases "x < n")
  case True
  then show ?thesis by simp
next
  case False
  then have "x mod n = (x - n) mod n"
    by (simp add: le_mod_geq)
  with False assms show ?thesis by simp
qed

lemma sum_list_update_nat:
  fixes xs :: "nat list"
  assumes "i < length xs"
  shows "sum_list (xs[i := v]) + xs ! i = sum_list xs + v"
  using assms by (induction xs arbitrary: i) (auto split: nat.splits)

end
