(* ===== verification/Module_Ref.thy ===== *)
theory Module_Ref
  imports Prelude
begin

text \<open>
  Module reference counting of \<^verbatim>\<open>src/source/kernel/module.c\<close>, as far as the DMA engine relies
  on it: the two per-CPU counters of \<^verbatim>\<open>struct module_ref\<close>, taking and dropping a reference on
  some CPU, the count that an unload reads, and the step that marks a module as going. The
  predicate \<^verbatim>\<open>module_is_live\<close> of \<^verbatim>\<open>linux/module.h\<close> is a parameter. The locale \<open>ref_counted\<close>
  states what a client of the counters may rely on.
\<close>

datatype module_state = MODULE_STATE_LIVE | MODULE_STATE_COMING | MODULE_STATE_GOING
  | MODULE_STATE_UNFORMED

record kmodule =
  mod_state :: module_state
  incs :: "nat \<Rightarrow> u64"
  decs :: "nat \<Rightarrow> u64"
  wakeups :: nat

record kenv =
  this_cpu :: nat
  possible_cpus :: "nat list"
  online_cpus :: "nat list"
  present_cpus :: "nat list"
  module_is_live :: "module_state \<Rightarrow> bool"

definition module_unload_init :: "kenv \<Rightarrow> bool \<Rightarrow> kmodule \<Rightarrow> errno + kmodule" where
  "module_unload_init env alloc_ok m =
     (if \<not> alloc_ok then Inl ENOMEM
      else Inr (m\<lparr>incs := (\<lambda>_. 0)(this_cpu env := 1), decs := (\<lambda>_. 0)\<rparr>))"

definition module_get :: "kenv \<Rightarrow> kmodule \<Rightarrow> kmodule" where
  "module_get env m = m\<lparr>incs := (incs m)(this_cpu env := incs m (this_cpu env) + 1)\<rparr>"

definition try_module_get :: "kenv \<Rightarrow> kmodule option \<Rightarrow> bool \<times> kmodule option" where
  "try_module_get env mp = (case mp of None \<Rightarrow> (True, None)
     | Some m \<Rightarrow> if module_is_live env (mod_state m) then (True, Some (module_get env m))
                else (False, Some m))"

definition module_put :: "kenv \<Rightarrow> kmodule \<Rightarrow> kmodule" where
  "module_put env m =
     (let m' = m\<lparr>decs := (decs m)(this_cpu env := decs m (this_cpu env) + 1)\<rparr> in
      if \<not> module_is_live env (mod_state m') then m'\<lparr>wakeups := wakeups m' + 1\<rparr> else m')"

definition strong_try_module_get :: "kenv \<Rightarrow> kmodule option \<Rightarrow> (errno option \<times> kmodule option) outcome" where
  "strong_try_module_get env mp = (case mp of None \<Rightarrow> Inr (None, None)
     | Some m \<Rightarrow>
         if mod_state m = MODULE_STATE_UNFORMED then Inl Bug_On
         else if mod_state m = MODULE_STATE_COMING then Inr (Some EBUSY, Some m)
         else (case try_module_get env (Some m) of (ok, mp') \<Rightarrow>
                 if ok then Inr (None, mp') else Inr (Some ENOENT, mp')))"

definition module_refcount :: "kenv \<Rightarrow> kmodule \<Rightarrow> u64" where
  "module_refcount env m =
     (let d = sum_list (map (decs m) (possible_cpus env));
          i = sum_list (map (incs m) (possible_cpus env))
      in i - d)"

definition try_stop_module_nonblock :: "kenv \<Rightarrow> bool \<Rightarrow> kmodule \<Rightarrow> errno option \<times> kmodule" where
  "try_stop_module_nonblock env force m =
     (if module_refcount env m \<noteq> 0 \<and> \<not> force then (Some EWOULDBLOCK, m)
      else (None, m\<lparr>mod_state := MODULE_STATE_GOING\<rparr>))"

definition env_wf :: "kenv \<Rightarrow> bool" where
  "env_wf env \<longleftrightarrow> distinct (possible_cpus env) \<and> this_cpu env \<in> set (possible_cpus env) \<and>
     set (online_cpus env) \<subseteq> set (possible_cpus env) \<and>
     set (present_cpus env) \<subseteq> set (possible_cpus env) \<and> distinct (online_cpus env) \<and>
     distinct (present_cpus env)"

lemma sum_list_bump:
  fixes f :: "nat \<Rightarrow> u64"
  shows "distinct xs \<Longrightarrow> c \<in> set xs \<Longrightarrow>
    sum_list (map (f(c := f c + 1)) xs) = sum_list (map f xs) + 1"
proof (induction xs)
  case Nil
  then show ?case by simp
next
  case (Cons x xs)
  show ?case
  proof (cases "x = c")
    case True
    with Cons.prems show ?thesis
      by (simp add: fun_upd_same map_fun_upd add.assoc add.commute del: fun_upd_apply)
  next
    case False
    with Cons show ?thesis
      by (simp add: fun_upd_other add.assoc del: fun_upd_apply)
  qed
qed

lemma refcount_get [simp]:
  "env_wf env \<Longrightarrow> module_refcount env (module_get env m) = module_refcount env m + 1"
  by (simp add: module_refcount_def module_get_def Let_def env_wf_def sum_list_bump)

lemma refcount_put [simp]:
  "env_wf env \<Longrightarrow> module_refcount env (module_put env m) = module_refcount env m - 1"
  by (simp add: module_refcount_def module_put_def Let_def env_wf_def sum_list_bump)

lemma state_get [simp]: "mod_state (module_get env m) = mod_state m"
  by (simp add: module_get_def)

lemma state_put [simp]: "mod_state (module_put env m) = mod_state m"
  by (simp add: module_put_def Let_def)

lemma refcount_other_cpu:
  assumes "possible_cpus env' = possible_cpus env"
  shows "module_refcount env' m = module_refcount env m"
  using assms by (simp add: module_refcount_def)

text \<open>What a client of a reference counter relies on, wherever the two operations run.\<close>

locale ref_counted =
  fixes ok :: "'e \<Rightarrow> bool"
    and get :: "'e \<Rightarrow> 'm \<Rightarrow> 'm"
    and put :: "'e \<Rightarrow> 'm \<Rightarrow> 'm"
    and refs :: "'e \<Rightarrow> 'm \<Rightarrow> u64"
  assumes refs_get: "ok e \<Longrightarrow> refs e (get e m) = refs e m + 1"
    and refs_put: "ok e \<Longrightarrow> refs e (put e m) = refs e m - 1"
begin

lemma refs_get_put: "ok e \<Longrightarrow> refs e (put e (get e m)) = refs e m"
  by (simp add: refs_get refs_put)

lemma refs_gets: "ok e \<Longrightarrow> refs e ((get e ^^ n) m) = refs e m + of_nat n"
  by (induction n) (simp_all add: refs_get)

end

interpretation mod_ref: ref_counted env_wf module_get module_put module_refcount
  by unfold_locales simp_all

text \<open>
  A reference taken on one CPU and dropped on another leaves the count that an unload reads
  as it was, although both per-CPU counters have moved; a module whose count is not zero is not
  marked as going by an unforced non-blocking unload.
\<close>

theorem refcount_migrates_between_cpus:
  assumes "env_wf env" and "env_wf env'" and "possible_cpus env' = possible_cpus env"
  shows "module_refcount env (module_put env' (module_get env m)) = module_refcount env m \<and>
    (module_refcount env m \<noteq> 0 \<longrightarrow>
      try_stop_module_nonblock env False (module_put env' (module_get env m))
        = (Some EWOULDBLOCK, module_put env' (module_get env m)))"
proof -
  have "module_refcount env (module_put env' (module_get env m)) = module_refcount env m"
    using mod_ref.refs_put [OF assms(2)] mod_ref.refs_get [OF assms(1)]
    by (simp add: refcount_other_cpu [OF assms(3), symmetric])
  then show ?thesis by (simp add: try_stop_module_nonblock_def)
qed

theorem refcount_migrates_between_cpus_witness:
  "module_refcount \<lparr>this_cpu = 0, possible_cpus = [0, 1], online_cpus = [], present_cpus = [],
       module_is_live = (\<lambda>st. st \<noteq> MODULE_STATE_GOING)\<rparr>
     (module_put \<lparr>this_cpu = 1, possible_cpus = [0, 1], online_cpus = [], present_cpus = [],
         module_is_live = (\<lambda>st. st \<noteq> MODULE_STATE_GOING)\<rparr>
       (module_get \<lparr>this_cpu = 0, possible_cpus = [0, 1], online_cpus = [], present_cpus = [],
           module_is_live = (\<lambda>st. st \<noteq> MODULE_STATE_GOING)\<rparr>
         \<lparr>mod_state = MODULE_STATE_LIVE, incs = (\<lambda>_. 2), decs = (\<lambda>_. 1), wakeups = 0\<rparr>)) = 2"
proof -
  let ?e = "\<lambda>c. \<lparr>this_cpu = c, possible_cpus = [0, 1], online_cpus = [], present_cpus = [],
       module_is_live = (\<lambda>st. st \<noteq> MODULE_STATE_GOING)\<rparr>"
  let ?m = "\<lparr>mod_state = MODULE_STATE_LIVE, incs = (\<lambda>_. 2), decs = (\<lambda>_. 1), wakeups = 0\<rparr>"
  have "env_wf (?e 0)" "env_wf (?e 1)" by (simp_all add: env_wf_def)
  from refcount_migrates_between_cpus [OF this, of ?m]
  show ?thesis by (simp add: module_refcount_def)
qed

end
