(* ===== verification/Dma_Types.thy ===== *)
theory Dma_Types
  imports Prelude
begin

text \<open>
  The data model and the inline helpers of \<^verbatim>\<open>src/source/include/linux/dmaengine.h\<close>: statuses,
  transaction types and capability masks, control flags, the copy requests of the three channel
  policies, cookie comparison, alignment checks, the PQ source limit and the dependency links of
  descriptors. Pointers to channels, devices, modules and descriptors are natural numbers that
  index the corresponding store of the engine state; a pointer that may be null is an option.
  Capability masks are sets of transaction types.
\<close>

datatype dma_status = DMA_SUCCESS | DMA_IN_PROGRESS | DMA_PAUSED | DMA_ERROR | DMA_INIT

datatype dma_transaction_type = DMA_MEMCPY | DMA_XOR | DMA_PQ | DMA_XOR_VAL | DMA_PQ_VAL
  | DMA_MEMSET | DMA_INTERRUPT | DMA_SG | DMA_PRIVATE | DMA_ASYNC_TX | DMA_SLAVE | DMA_CYCLIC
  | DMA_INTERLEAVE

datatype dma_transfer_direction = DMA_MEM_TO_MEM | DMA_MEM_TO_DEV | DMA_DEV_TO_MEM
  | DMA_DEV_TO_DEV | DMA_TRANS_NONE

datatype dma_ctrl_cmd = DMA_TERMINATE_ALL | DMA_PAUSE | DMA_RESUME | DMA_SLAVE_CONFIG
  | FSLDMA_EXTERNAL_START

type_synonym dma_cap_mask = "dma_transaction_type set"
type_synonym dma_cookie = int

definition tx_types :: "dma_transaction_type list" where
  "tx_types = [DMA_MEMCPY, DMA_XOR, DMA_PQ, DMA_XOR_VAL, DMA_PQ_VAL, DMA_MEMSET, DMA_INTERRUPT,
     DMA_SG, DMA_PRIVATE, DMA_ASYNC_TX, DMA_SLAVE, DMA_CYCLIC, DMA_INTERLEAVE]"

definition DMA_PREP_INTERRUPT :: u32 where "DMA_PREP_INTERRUPT = push_bit 0 1"
definition DMA_CTRL_ACK :: u32 where "DMA_CTRL_ACK = push_bit 1 1"
definition DMA_COMPL_SKIP_SRC_UNMAP :: u32 where "DMA_COMPL_SKIP_SRC_UNMAP = push_bit 2 1"
definition DMA_COMPL_SKIP_DEST_UNMAP :: u32 where "DMA_COMPL_SKIP_DEST_UNMAP = push_bit 3 1"
definition DMA_COMPL_SRC_UNMAP_SINGLE :: u32 where "DMA_COMPL_SRC_UNMAP_SINGLE = push_bit 4 1"
definition DMA_COMPL_DEST_UNMAP_SINGLE :: u32 where "DMA_COMPL_DEST_UNMAP_SINGLE = push_bit 5 1"
definition DMA_PREP_PQ_DISABLE_P :: u32 where "DMA_PREP_PQ_DISABLE_P = push_bit 6 1"
definition DMA_PREP_PQ_DISABLE_Q :: u32 where "DMA_PREP_PQ_DISABLE_Q = push_bit 7 1"
definition DMA_PREP_CONTINUE :: u32 where "DMA_PREP_CONTINUE = push_bit 8 1"
definition DMA_PREP_FENCE :: u32 where "DMA_PREP_FENCE = push_bit 9 1"

lemmas ctrl_flag_defs = DMA_PREP_INTERRUPT_def DMA_CTRL_ACK_def DMA_COMPL_SKIP_SRC_UNMAP_def
  DMA_COMPL_SKIP_DEST_UNMAP_def DMA_COMPL_SRC_UNMAP_SINGLE_def DMA_COMPL_DEST_UNMAP_SINGLE_def
  DMA_PREP_PQ_DISABLE_P_def DMA_PREP_PQ_DISABLE_Q_def DMA_PREP_CONTINUE_def DMA_PREP_FENCE_def

definition DMA_MIN_COOKIE :: dma_cookie where
  "DMA_MIN_COOKIE = 1"

definition DMA_MAX_COOKIE :: dma_cookie where
  "DMA_MAX_COOKIE = 2147483647"

definition DMA_HIGH_PRIO :: u16 where "DMA_HIGH_PRIO = 0"
definition DMA_LOW_PRIO :: u16 where "DMA_LOW_PRIO = 128"
definition DMA_MAX_CHAN_PRIO :: nat where "DMA_MAX_CHAN_PRIO = 4"

definition dma_submit_error :: "dma_cookie \<Rightarrow> bool" where
  "dma_submit_error cookie \<longleftrightarrow> cookie < 0"

record dma_chan_percpu =
  memcpy_count :: u64
  bytes_transferred :: u64

record dma_tx_state =
  ts_last :: dma_cookie
  ts_used :: dma_cookie
  ts_residue :: u32

text \<open>
  The array of page pointers of a request: never allocated, allocated with its contents, or
  freed with the pointer left in place. A zero entry is a null page pointer.
\<close>

datatype page_array = No_Pages | Pages "nat list" | Freed_Pages

record request_copy =
  rq_chan :: "nat option"
  user_base :: u64
  kernel_base :: u64
  rq_len :: u64
  pages :: page_array
  nr_pages :: u32
  dma_cookie_f :: dma_cookie
  rq_status :: dma_status

record request_copy_prio = request_copy +
  rq_priority :: u16

record dma_chan_copy =
  cc_chan :: "nat option"
  cc_use :: u16

record list_dma_chan_prio =
  chan_prio :: "nat option list"
  priority :: "u16 list"
  prio_size :: u16

definition PIN_FAILED :: int where "PIN_FAILED = 0"
definition PIN_SUCCESSFUL :: int where "PIN_SUCCESSFUL = 1"
definition PIN_NO_USER :: int where "PIN_NO_USER = 2"
definition SET_DIRTY_ON :: bool where "SET_DIRTY_ON = True"
definition SET_DIRTY_OFF :: bool where "SET_DIRTY_OFF = False"
definition PIN_WRITE :: bool where "PIN_WRITE = True"
definition PIN_READ :: bool where "PIN_READ = False"

lemmas pin_defs = PIN_FAILED_def PIN_SUCCESSFUL_def PIN_NO_USER_def SET_DIRTY_ON_def
  SET_DIRTY_OFF_def PIN_WRITE_def PIN_READ_def

definition init_req_copy_prio :: "u64 \<Rightarrow> u64 \<Rightarrow> u64 \<Rightarrow> u16 \<Rightarrow> request_copy_prio" where
  "init_req_copy_prio user_b kernel_b n prio =
     \<lparr>rq_chan = None, user_base = user_b, kernel_base = kernel_b, rq_len = n, pages = No_Pages,
      nr_pages = 0, dma_cookie_f = 0, rq_status = DMA_INIT, rq_priority = prio\<rparr>"

definition init_req_copy :: "u64 \<Rightarrow> u64 \<Rightarrow> u64 \<Rightarrow> request_copy" where
  "init_req_copy user_b kernel_b n =
     \<lparr>rq_chan = None, user_base = user_b, kernel_base = kernel_b, rq_len = n, pages = No_Pages,
      nr_pages = 0, dma_cookie_f = 0, rq_status = DMA_INIT\<rparr>"

subsection \<open>Capabilities, alignment, cookies\<close>

definition dma_has_cap :: "dma_transaction_type \<Rightarrow> dma_cap_mask \<Rightarrow> bool" where
  "dma_has_cap tx msk \<longleftrightarrow> tx \<in> msk"

definition dma_cap_set :: "dma_transaction_type \<Rightarrow> dma_cap_mask \<Rightarrow> dma_cap_mask" where
  "dma_cap_set tx msk = insert tx msk"

definition dma_cap_clear :: "dma_transaction_type \<Rightarrow> dma_cap_mask \<Rightarrow> dma_cap_mask" where
  "dma_cap_clear tx msk = msk - {tx}"

definition dma_cap_zero :: dma_cap_mask where
  "dma_cap_zero = {}"

definition for_each_dma_cap_mask :: "dma_cap_mask \<Rightarrow> dma_transaction_type list" where
  "for_each_dma_cap_mask msk = filter (\<lambda>tx. tx \<in> msk) tx_types"

definition is_slave_direction :: "dma_transfer_direction \<Rightarrow> bool" where
  "is_slave_direction direction \<longleftrightarrow> direction = DMA_MEM_TO_DEV \<or> direction = DMA_DEV_TO_MEM"

text \<open>
  \<open>(1 << align) - 1\<close> is an \<^verbatim>\<open>int\<close> that is converted to \<^verbatim>\<open>size_t\<close>, hence the sign extension.
\<close>

definition dmaengine_check_align :: "u8 \<Rightarrow> u64 \<Rightarrow> u64 \<Rightarrow> u64 \<Rightarrow> bool" where
  "dmaengine_check_align align off1 off2 n =
     (if align = 0 then True
      else let msk = scast (push_bit (unat align) (1 :: u32) - 1) :: u64 in
        if msk AND (off1 OR off2 OR n) \<noteq> 0 then False else True)"

definition dma_async_is_complete :: "dma_cookie \<Rightarrow> dma_cookie \<Rightarrow> dma_cookie \<Rightarrow> dma_status" where
  "dma_async_is_complete cookie last_complete last_used =
     (if last_complete \<le> last_used then
        (if cookie \<le> last_complete \<or> last_used < cookie then DMA_SUCCESS else DMA_IN_PROGRESS)
      else
        (if cookie \<le> last_complete \<and> last_used < cookie then DMA_SUCCESS else DMA_IN_PROGRESS))"

definition dma_set_tx_state ::
  "dma_tx_state option \<Rightarrow> dma_cookie \<Rightarrow> dma_cookie \<Rightarrow> u32 \<Rightarrow> dma_tx_state option" where
  "dma_set_tx_state st l u r = (case st of None \<Rightarrow> None
     | Some x \<Rightarrow> Some (x\<lparr>ts_last := l, ts_used := u, ts_residue := r\<rparr>))"

definition async_tx_ack :: "u32 \<Rightarrow> u32" where
  "async_tx_ack flags = flags OR DMA_CTRL_ACK"

definition async_tx_clear_ack :: "u32 \<Rightarrow> u32" where
  "async_tx_clear_ack flags = flags AND NOT DMA_CTRL_ACK"

definition async_tx_test_ack :: "u32 \<Rightarrow> bool" where
  "async_tx_test_ack flags \<longleftrightarrow> flags AND DMA_CTRL_ACK = DMA_CTRL_ACK"

subsection \<open>The number of PQ sources\<close>

definition DMA_HAS_PQ_CONTINUE :: u16 where
  "DMA_HAS_PQ_CONTINUE = push_bit 15 1"

definition dma_set_maxpq :: "int \<Rightarrow> bool \<Rightarrow> u16" where
  "dma_set_maxpq maxpq has_pq_continue =
     (if has_pq_continue then word_of_int maxpq OR DMA_HAS_PQ_CONTINUE else word_of_int maxpq)"

definition dmaf_continue :: "u32 \<Rightarrow> bool" where
  "dmaf_continue flags \<longleftrightarrow> flags AND DMA_PREP_CONTINUE = DMA_PREP_CONTINUE"

definition dmaf_p_disabled_continue :: "u32 \<Rightarrow> bool" where
  "dmaf_p_disabled_continue flags \<longleftrightarrow>
     (let msk = DMA_PREP_CONTINUE OR DMA_PREP_PQ_DISABLE_P in flags AND msk = msk)"

definition dma_dev_has_pq_continue :: "u16 \<Rightarrow> bool" where
  "dma_dev_has_pq_continue max_pq \<longleftrightarrow> max_pq AND DMA_HAS_PQ_CONTINUE = DMA_HAS_PQ_CONTINUE"

definition dma_dev_to_maxpq :: "u16 \<Rightarrow> u16" where
  "dma_dev_to_maxpq max_pq = max_pq AND NOT DMA_HAS_PQ_CONTINUE"

definition dma_maxpq :: "u16 \<Rightarrow> u32 \<Rightarrow> int outcome" where
  "dma_maxpq max_pq flags =
     (if dma_dev_has_pq_continue max_pq \<or> \<not> dmaf_continue flags
      then Inr (int (unat (dma_dev_to_maxpq max_pq)))
      else if dmaf_p_disabled_continue flags then Inr (int (unat (dma_dev_to_maxpq max_pq)) - 1)
      else if dmaf_continue flags then Inr (int (unat (dma_dev_to_maxpq max_pq)) - 3)
      else Inl Bug_On)"

subsection \<open>Alignment\<close>

lemma align_mask_eq:
  assumes "unat align < 31"
  shows "(scast (push_bit (unat align) (1 :: u32) - 1) :: u64) = mask (unat align)"
proof -
  have "push_bit (unat align) (1 :: u32) - 1 = mask (unat align)"
    by (simp add: mask_eq_decr_exp push_bit_eq_mult)
  moreover have "(scast (mask (unat align) :: u32) :: u64) = mask (unat align)"
    using assms by (intro bit_word_eqI) (auto simp: bit_signed_iff bit_mask_iff)
  ultimately show ?thesis by simp
qed

lemma take_bit_eq_0_dvd:
  fixes w :: "'a::len word"
  shows "take_bit n w = 0 \<longleftrightarrow> 2 ^ n dvd unat w"
proof -
  have "take_bit n w = 0 \<longleftrightarrow> unat (take_bit n w) = 0"
    by (simp add: unat_eq_0)
  also have "\<dots> \<longleftrightarrow> 2 ^ n dvd unat w"
    by (subst unsigned_take_bit_eq) (simp add: take_bit_eq_mod dvd_eq_mod_eq_0)
  finally show ?thesis .
qed

lemma check_align_iff:
  assumes "unat align < 31"
  shows "dmaengine_check_align align off1 off2 n \<longleftrightarrow>
    2 ^ unat align dvd unat off1 \<and> 2 ^ unat align dvd unat off2 \<and> 2 ^ unat align dvd unat n"
proof (cases "align = 0")
  case True
  then show ?thesis by (simp add: dmaengine_check_align_def)
next
  case False
  have "mask (unat align) AND (off1 OR off2 OR n)
      = take_bit (unat align) off1 OR take_bit (unat align) off2 OR take_bit (unat align) n"
    by (simp add: take_bit_eq_mask [symmetric] and.commute [of "mask _"])
  then show ?thesis
    unfolding dmaengine_check_align_def Let_def align_mask_eq [OF assms]
    using False by (simp add: take_bit_eq_0_dvd or_eq_0_iff)
qed

subsection \<open>Cookies in circular order\<close>

definition next_cookie :: "dma_cookie \<Rightarrow> dma_cookie" where
  "next_cookie c = (if c = DMA_MAX_COOKIE then DMA_MIN_COOKIE else c + 1)"

definition cookie_range :: "dma_cookie \<Rightarrow> bool" where
  "cookie_range c \<longleftrightarrow> DMA_MIN_COOKIE \<le> c \<and> c \<le> DMA_MAX_COOKIE"

lemmas cookie_defs = next_cookie_def cookie_range_def DMA_MIN_COOKIE_def DMA_MAX_COOKIE_def

lemma next_cookie_iter:
  assumes "cookie_range c" and "i < 2147483647"
  shows "(next_cookie ^^ i) c = (if c + int i \<le> 2147483647 then c + int i
    else c + int i - 2147483647)"
  using assms(2)
proof (induction i)
  case 0
  then show ?case using assms(1) by (simp add: cookie_defs)
next
  case (Suc i)
  then show ?case using assms(1) by (auto simp: cookie_defs)
qed

lemma is_complete_window:
  assumes "cookie_range c" and "k < 2147483647" and "i < 2147483647"
  shows "dma_async_is_complete ((next_cookie ^^ i) c) c ((next_cookie ^^ k) c)
    = (if 1 \<le> i \<and> i \<le> k then DMA_IN_PROGRESS else DMA_SUCCESS)"
  using assms
  by (simp add: next_cookie_iter dma_async_is_complete_def cookie_defs)

subsection \<open>PQ limits\<close>

lemma bit_pq_flag: "bit DMA_HAS_PQ_CONTINUE n \<longleftrightarrow> n = 15"
  by (subst DMA_HAS_PQ_CONTINUE_def, subst bit_push_bit_iff) (auto simp: bit_1_iff)

lemma pq_continue_bit: "dma_dev_has_pq_continue w \<longleftrightarrow> bit w 15"
proof
  assume "dma_dev_has_pq_continue w"
  then have "bit (w AND DMA_HAS_PQ_CONTINUE) 15"
    by (simp add: dma_dev_has_pq_continue_def bit_pq_flag)
  then show "bit w 15" by (simp add: bit_and_iff)
next
  assume "bit w 15"
  then show "dma_dev_has_pq_continue w"
    unfolding dma_dev_has_pq_continue_def
    by (intro bit_word_eqI) (auto simp: bit_and_iff bit_pq_flag)
qed

lemma maxpq_clear_bit:
  assumes "unat w < 32768"
  shows "dma_dev_to_maxpq (w OR DMA_HAS_PQ_CONTINUE) = w" and "dma_dev_to_maxpq w = w"
    and "\<not> bit w 15"
proof -
  have "take_bit 15 (unat w) = unat w"
    using assms by (simp add: take_bit_nat_eq_self)
  then have w: "take_bit 15 w = w"
    by (metis unsigned_take_bit_eq unsigned_word_eqI)
  then show nb: "\<not> bit w 15" by (metis bit_take_bit_iff less_irrefl)
  have le: "bit w i \<Longrightarrow> i \<noteq> 15" for i using nb by blast
  show "dma_dev_to_maxpq (w OR DMA_HAS_PQ_CONTINUE) = w" and "dma_dev_to_maxpq w = w"
    by (auto simp: dma_dev_to_maxpq_def bit_and_iff bit_or_iff bit_not_iff bit_pq_flag
        dest: le intro!: bit_word_eqI)
qed

subsection \<open>Properties\<close>

text \<open>
  A cookie counts as in progress exactly when it was handed out after the last completed one
  and not later than the last one used, in the circular order of the 31-bit cookie space, also
  when the counter has wrapped from \<open>DMA_MAX_COOKIE\<close> to \<open>DMA_MIN_COOKIE\<close> in between.
\<close>

theorem cookie_in_progress_iff_outstanding:
  assumes "cookie_range c" and "k < 2147483647" and "i < 2147483647"
  shows "dma_async_is_complete ((next_cookie ^^ i) c) c ((next_cookie ^^ k) c) = DMA_IN_PROGRESS
    \<longleftrightarrow> 1 \<le> i \<and> i \<le> k"
  by (simp add: is_complete_window [OF assms])

theorem cookie_in_progress_iff_outstanding_witness:
  "dma_async_is_complete 1 2147483646 2 = DMA_IN_PROGRESS"
  using cookie_in_progress_iff_outstanding [of 2147483646 3 2]
  by (simp add: cookie_defs numeral_2_eq_2 numeral_3_eq_3)

text \<open>
  For every alignment shift below 31 the mask test of \<open>dmaengine_check_align\<close> accepts a copy
  exactly when both offsets and the length are multiples of the alignment.
\<close>

theorem check_align_is_divisibility:
  assumes "unat align < 31"
  shows "dmaengine_check_align align off1 off2 n \<longleftrightarrow>
    2 ^ unat align dvd unat off1 \<and> 2 ^ unat align dvd unat off2 \<and> 2 ^ unat align dvd unat n"
  by (rule check_align_iff [OF assms])

theorem check_align_is_divisibility_witness:
  "\<not> dmaengine_check_align 2 1 1 1 \<and> dmaengine_check_align 2 4096 64 8"
  using check_align_is_divisibility [of 2 1 1 1] check_align_is_divisibility [of 2 4096 64 8]
  by simp

text \<open>
  \<open>dma_set_maxpq\<close> packs a source limit below 32768 and the continuation flag into one 16-bit
  field; both are read back unchanged, and \<open>dma_maxpq\<close> on that field never reaches its
  \<^verbatim>\<open>BUG()\<close>: it subtracts nothing when the engine continues natively or the operation does not
  continue, one source when P is disabled, three otherwise.
\<close>

theorem maxpq_roundtrip:
  assumes "0 \<le> maxpq" and "maxpq < 32768"
  shows "dma_dev_has_pq_continue (dma_set_maxpq maxpq hc) = hc \<and>
    int (unat (dma_dev_to_maxpq (dma_set_maxpq maxpq hc))) = maxpq \<and>
    dma_maxpq (dma_set_maxpq maxpq hc) flags =
      Inr (maxpq - (if hc \<or> \<not> dmaf_continue flags then 0
                    else if dmaf_p_disabled_continue flags then 1 else 3))"
proof -
  let ?w = "word_of_int maxpq :: u16"
  have u: "int (unat ?w) = maxpq"
    using assms by (simp add: take_bit_int_eq_self unsigned_of_int)
  then have "unat ?w < 32768" using assms by linarith
  note clr = maxpq_clear_bit [OF this]
  have hc: "dma_dev_has_pq_continue (dma_set_maxpq maxpq hc) = hc"
    using clr(3) by (simp add: dma_set_maxpq_def pq_continue_bit bit_or_iff bit_pq_flag)
  moreover have mq: "int (unat (dma_dev_to_maxpq (dma_set_maxpq maxpq hc))) = maxpq"
    using clr(1,2) u by (simp add: dma_set_maxpq_def)
  ultimately show ?thesis by (auto simp: dma_maxpq_def)
qed

theorem maxpq_roundtrip_witness:
  "dma_maxpq (dma_set_maxpq 8 False) (DMA_PREP_CONTINUE OR DMA_PREP_PQ_DISABLE_P) = Inr 7"
  using maxpq_roundtrip [of 8 False "DMA_PREP_CONTINUE OR DMA_PREP_PQ_DISABLE_P"]
  by (simp add: dmaf_continue_def dmaf_p_disabled_continue_def ctrl_flag_defs)

end
