(* ===== verification/Dma_Engine.thy ===== *)
theory Dma_Engine
  imports Module_Ref Dma_Types "HOL-Library.Multiset"
begin

text \<open>
  The DMA subsystem of \<^verbatim>\<open>src/source/drivers/dma/dmaengine.c\<close>: channels and devices, the
  reference counts of clients, devices and driver modules, private and public allocation, and
  the per-CPU channel table. A device carries the routines of its driver as record fields, as
  \<^verbatim>\<open>struct dma_device\<close> does; they act on an opaque driver state \<open>'d\<close>, which the engine state
  holds. Every function that runs under \<^verbatim>\<open>dma_list_mutex\<close> is one atomic state transformer.
\<close>

text \<open>The per-CPU statistics pointer: null, allocated, or freed with the pointer left in place.\<close>

datatype percpu_ptr = No_Local | Local "nat \<Rightarrow> dma_chan_percpu" | Freed_Local

record dma_chan =
  ch_device :: nat
  ch_id :: nat
  ch_sysfs :: bool
  ch_local :: percpu_ptr
  client_count :: int
  table_count :: int

text \<open>The routine pointers whose presence \<open>dma_async_device_register\<close> checks.\<close>

datatype dma_routine = Prep_Memcpy | Prep_Xor | Prep_Xor_Val | Prep_Pq | Prep_Pq_Val | Prep_Memset
  | Prep_Interrupt | Prep_Sg | Prep_Cyclic | Dev_Control | Prep_Interleaved | Alloc_Resources
  | Free_Resources | Tx_Status | Issue_Pending | Struct_Device

record 'd dma_device =
  chancnt :: nat
  privatecnt :: u32
  channels :: "nat list"
  cap_mask :: dma_cap_mask
  copy_align :: u8
  dev_id :: nat
  dev_owner :: "nat option"
  routines :: "dma_routine set"
  device_alloc_chan_resources :: "nat \<Rightarrow> 'd \<Rightarrow> (errno + nat) \<times> 'd"
  device_free_chan_resources :: "nat \<Rightarrow> 'd \<Rightarrow> 'd"
  device_prep_dma_memcpy :: "nat \<Rightarrow> u64 \<Rightarrow> u64 \<Rightarrow> u64 \<Rightarrow> u32 \<Rightarrow> 'd \<Rightarrow> nat option \<times> 'd"
  tx_submit :: "nat \<Rightarrow> 'd \<Rightarrow> dma_cookie \<times> 'd"
  device_tx_status :: "nat \<Rightarrow> dma_cookie \<Rightarrow> 'd \<Rightarrow> dma_status \<times> 'd"
  device_issue_pending :: "nat \<Rightarrow> 'd \<Rightarrow> 'd"

datatype map_kind = Map_Single | Map_Page
datatype map_dir = To_Device | From_Device

type_synonym dma_mapping = "map_kind \<times> u64 \<times> u64 \<times> map_dir"

record 'd engine =
  dma_device_list :: "nat list"
  dma_idr :: "nat set"
  idr_ref :: "nat \<Rightarrow> int"
  dmaengine_ref_count :: int
  copy_dmaengine_ref_count :: int
  channel_table :: "dma_transaction_type \<Rightarrow> nat \<Rightarrow> nat option"
  percpu_chan_copy :: "nat \<Rightarrow> dma_chan_copy"
  list_chan_prio :: list_dma_chan_prio
  devs :: "nat \<Rightarrow> 'd dma_device"
  chans :: "nat \<Rightarrow> dma_chan"
  mods :: "nat \<Rightarrow> kmodule"
  live_maps :: "dma_mapping multiset"
  drv :: 'd

definition upd_chan :: "nat \<Rightarrow> (dma_chan \<Rightarrow> dma_chan) \<Rightarrow> 'd engine \<Rightarrow> 'd engine" where
  "upd_chan c f s = s\<lparr>chans := (chans s)(c := f (chans s c))\<rparr>"

definition upd_dev :: "nat \<Rightarrow> ('d dma_device \<Rightarrow> 'd dma_device) \<Rightarrow> 'd engine \<Rightarrow> 'd engine" where
  "upd_dev d f s = s\<lparr>devs := (devs s)(d := f (devs s d))\<rparr>"

definition upd_owner :: "nat option \<Rightarrow> (kmodule \<Rightarrow> kmodule) \<Rightarrow> 'd engine \<Rightarrow> 'd engine" where
  "upd_owner mp f s = (case mp of None \<Rightarrow> s | Some m \<Rightarrow> s\<lparr>mods := (mods s)(m := f (mods s m))\<rparr>)"

subsection \<open>Channel reference counts\<close>

definition dma_device_satisfies_mask :: "'d dma_device \<Rightarrow> dma_cap_mask \<Rightarrow> bool" where
  "dma_device_satisfies_mask device want =
     (let has = want \<inter> cap_mask device in want = has)"

definition dma_chan_to_owner :: "'d engine \<Rightarrow> nat \<Rightarrow> nat option" where
  "dma_chan_to_owner s c = dev_owner (devs s (ch_device (chans s c)))"

definition chan_public :: "'d engine \<Rightarrow> nat \<Rightarrow> bool" where
  "chan_public s c \<longleftrightarrow> \<not> dma_has_cap DMA_PRIVATE (cap_mask (devs s (ch_device (chans s c))))"

definition take_ref :: "kenv \<Rightarrow> nat \<Rightarrow> 'd engine \<Rightarrow> 'd engine" where
  "take_ref env c s =
     upd_chan c (\<lambda>ch. ch\<lparr>client_count := client_count ch + 1\<rparr>)
       (upd_owner (dma_chan_to_owner s c) (module_get env) s)"

function balance_ref_count :: "kenv \<Rightarrow> nat \<Rightarrow> 'd engine \<Rightarrow> 'd engine" where
  "balance_ref_count env c s =
     (if client_count (chans s c) < dmaengine_ref_count s
      then balance_ref_count env c (take_ref env c s) else s)"
  by pat_completeness auto
termination
  by (relation "measure (\<lambda>(env, c, s). nat (dmaengine_ref_count s - client_count (chans s c)))")
     (auto simp: take_ref_def upd_chan_def upd_owner_def split: option.splits)

declare balance_ref_count.simps [simp del]

definition owner_live :: "kenv \<Rightarrow> 'd engine \<Rightarrow> nat option \<Rightarrow> bool" where
  "owner_live env s mp = (case mp of None \<Rightarrow> True | Some m \<Rightarrow> module_is_live env (mod_state (mods s m)))"

definition call_alloc :: "nat \<Rightarrow> 'd engine \<Rightarrow> (errno + nat) \<times> 'd engine" where
  "call_alloc c s = (case device_alloc_chan_resources (devs s (ch_device (chans s c))) c (drv s) of
     (r, d') \<Rightarrow> (r, s\<lparr>drv := d'\<rparr>))"

definition call_free :: "nat \<Rightarrow> 'd engine \<Rightarrow> 'd engine" where
  "call_free c s = s\<lparr>drv := device_free_chan_resources (devs s (ch_device (chans s c))) c (drv s)\<rparr>"

text \<open>
  \<open>dma_chan_get\<close> returns the error, if any. \<open>__module_get\<close> and a successful \<open>try_module_get\<close>
  have the same effect on the counters; they differ in the liveness check.
\<close>

definition dma_chan_get :: "kenv \<Rightarrow> nat \<Rightarrow> 'd engine \<Rightarrow> errno option \<times> 'd engine" where
  "dma_chan_get env c s =
     (if client_count (chans s c) \<noteq> 0 \<or> owner_live env s (dma_chan_to_owner s c) then
        let s1 = take_ref env c s in
          if client_count (chans s1 c) = 1 then
            (case call_alloc c s1 of
               (Inl e, s2) \<Rightarrow>
                 (Some e, upd_owner (dma_chan_to_owner s c) (module_put env)
                            (upd_chan c (\<lambda>ch. ch\<lparr>client_count := 0\<rparr>) s2))
             | (Inr desc_cnt, s2) \<Rightarrow>
                 (None, if chan_public s2 c then balance_ref_count env c s2 else s2))
          else (None, s1)
      else (Some ENODEV, s))"

definition dma_chan_put :: "kenv \<Rightarrow> nat \<Rightarrow> 'd engine \<Rightarrow> 'd engine" where
  "dma_chan_put env c s =
     (if client_count (chans s c) = 0 then s
      else
        let s1 = upd_owner (dma_chan_to_owner s c) (module_put env)
                   (upd_chan c (\<lambda>ch. ch\<lparr>client_count := client_count ch - 1\<rparr>) s)
        in if client_count (chans s1 c) = 0 then call_free c s1 else s1)"

subsection \<open>The channel table\<close>

definition dma_cap_mask_all :: dma_cap_mask where
  "dma_cap_mask_all = set tx_types - {DMA_INTERRUPT, DMA_PRIVATE, DMA_SLAVE}"

fun alloc_tables :: "(dma_transaction_type \<Rightarrow> bool) \<Rightarrow> dma_transaction_type list
    \<Rightarrow> errno option \<times> dma_transaction_type list" where
  "alloc_tables alloc_ok [] = (None, [])"
| "alloc_tables alloc_ok (cap # caps) =
     (if alloc_ok cap then (case alloc_tables alloc_ok caps of (e, ts) \<Rightarrow> (e, cap # ts))
      else (Some ENOMEM, []))"

text \<open>The result holds the tables that stay allocated: none when one allocation failed.\<close>

definition dma_channel_table_init ::
  "(dma_transaction_type \<Rightarrow> bool) \<Rightarrow> errno option \<times> dma_transaction_type list" where
  "dma_channel_table_init alloc_ok =
     (case alloc_tables alloc_ok (for_each_dma_cap_mask dma_cap_mask_all) of
        (None, ts) \<Rightarrow> (None, ts) | (Some e, ts) \<Rightarrow> (Some e, []))"

definition dma_find_channel :: "kenv \<Rightarrow> dma_transaction_type \<Rightarrow> 'd engine \<Rightarrow> nat option" where
  "dma_find_channel env tx_type s = channel_table s tx_type (this_cpu env)"

definition copy_aligned :: "'d engine \<Rightarrow> nat option \<Rightarrow> nat option" where
  "copy_aligned s cp = (case cp of None \<Rightarrow> None
     | Some c \<Rightarrow> if \<not> dmaengine_check_align (copy_align (devs s (ch_device (chans s c)))) 1 1 1
                then None else Some c)"

definition net_dma_find_channel :: "kenv \<Rightarrow> 'd engine \<Rightarrow> nat option" where
  "net_dma_find_channel env s = copy_aligned s (dma_find_channel env DMA_MEMCPY s)"

definition init_copy_dmaengine_ref_count :: "'d engine \<Rightarrow> 'd engine" where
  "init_copy_dmaengine_ref_count s = s\<lparr>copy_dmaengine_ref_count := 0\<rparr>"

fun prio_scan :: "u16 \<Rightarrow> nat \<Rightarrow> nat option list \<Rightarrow> u16 list \<Rightarrow> nat option" where
  "prio_scan p 0 cs ps = None"
| "prio_scan p (Suc n) (c # cs) (q # ps) = (if q = p then c else prio_scan p n cs ps)"
| "prio_scan p (Suc n) _ _ = None"

definition copy_dma_get_channel_prio :: "u16 \<Rightarrow> 'd engine \<Rightarrow> nat option" where
  "copy_dma_get_channel_prio p s =
     (let l = list_chan_prio s in
      copy_aligned s (prio_scan p (unat (prio_size l)) (chan_prio l) (priority l)))"

definition copy_dma_get_channel_sh :: "kenv \<Rightarrow> 'd engine \<Rightarrow> nat option" where
  "copy_dma_get_channel_sh env s =
     copy_aligned s (if 0 < copy_dmaengine_ref_count s then dma_find_channel env DMA_MEMCPY s
                     else None)"

definition copy_dma_get_channel_excl :: "kenv \<Rightarrow> 'd engine \<Rightarrow> nat option" where
  "copy_dma_get_channel_excl env s = copy_aligned s (cc_chan (percpu_chan_copy s (this_cpu env)))"

text \<open>The two build options that select the channel of the boot-time copy path.\<close>

datatype boot_policy = CONFIG_EXCL | CONFIG_SHARED | CONFIG_DYNAMIC

definition copy_dma_get_channel_boot :: "boot_policy \<Rightarrow> kenv \<Rightarrow> 'd engine \<Rightarrow> nat option" where
  "copy_dma_get_channel_boot cfg env s =
     copy_aligned s (case cfg of
        CONFIG_EXCL \<Rightarrow> cc_chan (percpu_chan_copy s (this_cpu env))
      | CONFIG_SHARED \<Rightarrow> (if 0 < copy_dmaengine_ref_count s then dma_find_channel env DMA_MEMCPY s
                         else None)
      | CONFIG_DYNAMIC \<Rightarrow> None)"

fun issue_pending_chans :: "nat \<Rightarrow> nat list \<Rightarrow> 'd engine \<Rightarrow> 'd engine" where
  "issue_pending_chans d [] s = s"
| "issue_pending_chans d (c # cs) s =
     issue_pending_chans d cs
       (if client_count (chans s c) \<noteq> 0
        then s\<lparr>drv := device_issue_pending (devs s d) c (drv s)\<rparr> else s)"

fun issue_pending_devs :: "nat list \<Rightarrow> 'd engine \<Rightarrow> 'd engine" where
  "issue_pending_devs [] s = s"
| "issue_pending_devs (d # ds) s =
     issue_pending_devs ds
       (if dma_has_cap DMA_PRIVATE (cap_mask (devs s d)) then s
        else issue_pending_chans d (channels (devs s d)) s)"

definition dma_issue_pending_all :: "'d engine \<Rightarrow> 'd engine" where
  "dma_issue_pending_all s = issue_pending_devs (dma_device_list s) s"

text \<open>
  \<open>nth_chan\<close>: the scan carries the counter \<open>n\<close> and the channel with the lowest table count
  seen so far, and stops at the first channel it meets when \<open>n\<close> is zero.
\<close>

fun scan_chans :: "'d engine \<Rightarrow> nat list \<Rightarrow> int \<Rightarrow> nat option \<Rightarrow> nat option \<times> int \<times> nat option" where
  "scan_chans s [] n m = (None, n, m)"
| "scan_chans s (c # cs) n m =
     (if client_count (chans s c) = 0 then scan_chans s cs n m
      else
        let m' = (case m of None \<Rightarrow> Some c
                  | Some x \<Rightarrow> if table_count (chans s c) < table_count (chans s x) then Some c
                             else Some x)
        in if n = 0 then (Some c, n - 1, m') else scan_chans s cs (n - 1) m')"

fun scan_devs :: "'d engine \<Rightarrow> dma_transaction_type \<Rightarrow> nat list \<Rightarrow> int \<Rightarrow> nat option
    \<Rightarrow> nat option \<times> nat option" where
  "scan_devs s cap [] n m = (None, m)"
| "scan_devs s cap (d # ds) n m =
     (if \<not> dma_has_cap cap (cap_mask (devs s d)) \<or> dma_has_cap DMA_PRIVATE (cap_mask (devs s d))
      then scan_devs s cap ds n m
      else case scan_chans s (channels (devs s d)) n m of
        (Some c, n', m') \<Rightarrow> (Some c, m')
      | (None, n', m') \<Rightarrow> scan_devs s cap ds n' m')"

definition nth_chan :: "dma_transaction_type \<Rightarrow> int \<Rightarrow> 'd engine \<Rightarrow> nat option \<times> 'd engine" where
  "nth_chan cap n s =
     (case scan_devs s cap (dma_device_list s) n None of (ret, m) \<Rightarrow>
        let ret' = (case ret of None \<Rightarrow> m | Some c \<Rightarrow> Some c) in
        (ret', case ret' of None \<Rightarrow> s
               | Some c \<Rightarrow> upd_chan c (\<lambda>ch. ch\<lparr>table_count := table_count ch + 1\<rparr>) s))"

fun zero_table_counts :: "nat list \<Rightarrow> 'd engine \<Rightarrow> 'd engine" where
  "zero_table_counts [] s = s"
| "zero_table_counts (d # ds) s =
     zero_table_counts ds
       (if dma_has_cap DMA_PRIVATE (cap_mask (devs s d)) then s
        else fold (\<lambda>c. upd_chan c (\<lambda>ch. ch\<lparr>table_count := 0\<rparr>)) (channels (devs s d)) s)"

definition set_table :: "dma_transaction_type \<Rightarrow> nat \<Rightarrow> nat option \<Rightarrow> 'd engine \<Rightarrow> 'd engine" where
  "set_table cap cpu c s =
     s\<lparr>channel_table := (channel_table s)(cap := (channel_table s cap)(cpu := c))\<rparr>"

fun assign_cpus :: "kenv \<Rightarrow> dma_transaction_type \<Rightarrow> nat list \<Rightarrow> int \<Rightarrow> 'd engine \<Rightarrow> int \<times> 'd engine" where
  "assign_cpus env cap [] n s = (n, s)"
| "assign_cpus env cap (cpu # cpus) n s =
     (if 1 < length (possible_cpus env)
      then (case nth_chan cap n s of (c, s') \<Rightarrow>
              assign_cpus env cap cpus (n + 1) (set_table cap cpu c s'))
      else (case nth_chan cap (- 1) s of (c, s') \<Rightarrow>
              assign_cpus env cap cpus n (set_table cap cpu c s')))"

fun assign_caps :: "kenv \<Rightarrow> dma_transaction_type list \<Rightarrow> int \<Rightarrow> 'd engine \<Rightarrow> 'd engine" where
  "assign_caps env [] n s = s"
| "assign_caps env (cap # caps) n s =
     (case assign_cpus env cap (online_cpus env) n s of (n', s') \<Rightarrow> assign_caps env caps n' s')"

definition clear_table :: "kenv \<Rightarrow> 'd engine \<Rightarrow> 'd engine" where
  "clear_table env s =
     s\<lparr>channel_table := (\<lambda>cap cpu.
         if cap \<in> dma_cap_mask_all \<and> cpu \<in> set (possible_cpus env) then None
         else channel_table s cap cpu)\<rparr>"

definition dma_channel_rebalance :: "kenv \<Rightarrow> 'd engine \<Rightarrow> 'd engine" where
  "dma_channel_rebalance env s =
     (let s1 = zero_table_counts (dma_device_list s) (clear_table env s) in
      if dmaengine_ref_count s1 = 0 then s1
      else assign_caps env (for_each_dma_cap_mask dma_cap_mask_all) 0 s1)"

subsection \<open>Private channels\<close>

fun first_free :: "'d engine \<Rightarrow> (nat \<Rightarrow> bool) option \<Rightarrow> nat list \<Rightarrow> nat option" where
  "first_free s fn [] = None"
| "first_free s fn (c # cs) =
     (if client_count (chans s c) \<noteq> 0 then first_free s fn cs
      else case fn of None \<Rightarrow> Some c | Some f \<Rightarrow> if \<not> f c then first_free s fn cs else Some c)"

definition private_candidate ::
  "dma_cap_mask \<Rightarrow> nat \<Rightarrow> (nat \<Rightarrow> bool) option \<Rightarrow> 'd engine \<Rightarrow> nat option" where
  "private_candidate msk d fn s =
     (let dev = devs s d in
      if \<not> dma_device_satisfies_mask dev msk then None
      else if 1 < chancnt dev \<and> \<not> dma_has_cap DMA_PRIVATE (cap_mask dev) \<and>
          (\<exists>c\<in>set (channels dev). client_count (chans s c) \<noteq> 0) then None
      else first_free s fn (channels dev))"

definition set_private :: "'d dma_device \<Rightarrow> 'd dma_device" where
  "set_private dev = dev\<lparr>cap_mask := dma_cap_set DMA_PRIVATE (cap_mask dev),
     privatecnt := privatecnt dev + 1\<rparr>"

definition drop_private :: "'d dma_device \<Rightarrow> 'd dma_device" where
  "drop_private dev =
     (let dev' = dev\<lparr>privatecnt := privatecnt dev - 1\<rparr> in
      if privatecnt dev' = 0 then dev'\<lparr>cap_mask := dma_cap_clear DMA_PRIVATE (cap_mask dev')\<rparr>
      else dev')"

definition list_del_dev :: "nat \<Rightarrow> 'd engine \<Rightarrow> 'd engine" where
  "list_del_dev d s = s\<lparr>dma_device_list := remove1 d (dma_device_list s)\<rparr>"

fun request_scan :: "kenv \<Rightarrow> dma_cap_mask \<Rightarrow> (nat \<Rightarrow> bool) option \<Rightarrow> nat list \<Rightarrow> 'd engine
    \<Rightarrow> nat option \<times> 'd engine" where
  "request_scan env msk fn [] s = (None, s)"
| "request_scan env msk fn (d # ds) s =
     (case private_candidate msk d fn s of None \<Rightarrow> request_scan env msk fn ds s
      | Some c \<Rightarrow>
          (case dma_chan_get env c (upd_dev d set_private s) of
             (None, s1) \<Rightarrow> (Some c, s1)
           | (Some e, s1) \<Rightarrow>
               request_scan env msk fn ds
                 (upd_dev d drop_private (if e = ENODEV then list_del_dev d s1 else s1))))"

definition dma_request_channel ::
  "kenv \<Rightarrow> dma_cap_mask \<Rightarrow> (nat \<Rightarrow> bool) option \<Rightarrow> 'd engine \<Rightarrow> nat option \<times> 'd engine" where
  "dma_request_channel env msk fn s = request_scan env msk fn (dma_device_list s) s"

definition dma_release_channel :: "kenv \<Rightarrow> nat \<Rightarrow> 'd engine \<Rightarrow> 'd engine" where
  "dma_release_channel env c s =
     (let s1 = dma_chan_put env c s in upd_dev (ch_device (chans s1 c)) drop_private s1)"

subsection \<open>Public channels\<close>

fun get_chans :: "kenv \<Rightarrow> nat \<Rightarrow> nat list \<Rightarrow> 'd engine \<Rightarrow> 'd engine" where
  "get_chans env d [] s = s"
| "get_chans env d (c # cs) s =
     (case dma_chan_get env c s of (e, s1) \<Rightarrow>
        if e = Some ENODEV then list_del_dev d s1 else get_chans env d cs s1)"

fun get_devs :: "kenv \<Rightarrow> nat list \<Rightarrow> 'd engine \<Rightarrow> 'd engine" where
  "get_devs env [] s = s"
| "get_devs env (d # ds) s =
     get_devs env ds
       (if dma_has_cap DMA_PRIVATE (cap_mask (devs s d)) then s
        else get_chans env d (channels (devs s d)) s)"

definition dmaengine_get :: "kenv \<Rightarrow> 'd engine \<Rightarrow> 'd engine" where
  "dmaengine_get env s =
     (let s1 = s\<lparr>dmaengine_ref_count := dmaengine_ref_count s + 1\<rparr>;
          s2 = get_devs env (dma_device_list s1) s1
      in if dmaengine_ref_count s2 = 1 then dma_channel_rebalance env s2 else s2)"

fun put_devs :: "kenv \<Rightarrow> nat list \<Rightarrow> 'd engine \<Rightarrow> 'd engine" where
  "put_devs env [] s = s"
| "put_devs env (d # ds) s =
     put_devs env ds
       (if dma_has_cap DMA_PRIVATE (cap_mask (devs s d)) then s
        else fold (dma_chan_put env) (channels (devs s d)) s)"

definition dmaengine_put :: "kenv \<Rightarrow> 'd engine \<Rightarrow> 'd engine outcome" where
  "dmaengine_put env s =
     (let s1 = s\<lparr>dmaengine_ref_count := dmaengine_ref_count s - 1\<rparr> in
      if dmaengine_ref_count s1 < 0 then Inl Bug_On
      else Inr (put_devs env (dma_device_list s1) s1))"

text \<open>
  The two halves of the copy reference counter run in two separate critical sections.
\<close>

definition copy_ref_inc :: "'d engine \<Rightarrow> 'd engine" where
  "copy_ref_inc s = s\<lparr>copy_dmaengine_ref_count := copy_dmaengine_ref_count s + 1\<rparr>"

definition copy_ref_dec :: "'d engine \<Rightarrow> 'd engine" where
  "copy_ref_dec s = s\<lparr>copy_dmaengine_ref_count := copy_dmaengine_ref_count s - 1\<rparr>"

definition copy_dmaengine_get :: "kenv \<Rightarrow> 'd engine \<Rightarrow> 'd engine" where
  "copy_dmaengine_get env s = copy_ref_inc (dmaengine_get env s)"

text \<open>A client that leaves runs its critical sections one after the other; others may run in between.\<close>

type_synonym 'd crit_section = "'d engine \<Rightarrow> 'd engine outcome"

fun run_sections :: "'d crit_section list \<Rightarrow> 'd engine \<Rightarrow> 'd engine outcome" where
  "run_sections [] s = Inr s"
| "run_sections (f # fs) s = seq_ok (f s) (run_sections fs)"

definition copy_put_sections :: "kenv \<Rightarrow> 'd crit_section list" where
  "copy_put_sections env = [dmaengine_put env, \<lambda>s. Inr (copy_ref_dec s)]"

definition copy_dmaengine_put :: "kenv \<Rightarrow> 'd engine \<Rightarrow> 'd engine outcome" where
  "copy_dmaengine_put env s = run_sections (copy_put_sections env) s"

subsection \<open>Statistics in sysfs\<close>

definition sum_local :: "kenv \<Rightarrow> (dma_chan_percpu \<Rightarrow> u64) \<Rightarrow> percpu_ptr \<Rightarrow> u64 outcome" where
  "sum_local env f p = (case p of No_Local \<Rightarrow> Inl Null_Deref | Freed_Local \<Rightarrow> Inl Use_After_Free
     | Local l \<Rightarrow> Inr (sum_list (map (\<lambda>i. f (l i)) (possible_cpus env))))"

definition show_memcpy_count :: "kenv \<Rightarrow> nat \<Rightarrow> 'd engine \<Rightarrow> (errno + u64) outcome" where
  "show_memcpy_count env c s =
     (if ch_sysfs (chans s c)
      then seq_ok (sum_local env memcpy_count (ch_local (chans s c))) (\<lambda>n. Inr (Inr n))
      else Inr (Inl ENODEV))"

definition show_bytes_transferred :: "kenv \<Rightarrow> nat \<Rightarrow> 'd engine \<Rightarrow> (errno + u64) outcome" where
  "show_bytes_transferred env c s =
     (if ch_sysfs (chans s c)
      then seq_ok (sum_local env bytes_transferred (ch_local (chans s c))) (\<lambda>n. Inr (Inr n))
      else Inr (Inl ENODEV))"

definition show_in_use :: "nat \<Rightarrow> 'd engine \<Rightarrow> errno + int" where
  "show_in_use c s = (if ch_sysfs (chans s c) then Inr (client_count (chans s c)) else Inl ENODEV)"

subsection \<open>Device registration\<close>

text \<open>
  The outcome of the calls that can fail outside this component: the allocations and the
  registration of each channel's sysfs node.
\<close>

record reg_env =
  idr_ref_ok :: bool
  idr_rc :: "errno + nat"
  percpu_ok :: "nat \<Rightarrow> bool"
  chan_dev_ok :: "nat \<Rightarrow> bool"
  device_register_rc :: "nat \<Rightarrow> errno option"

record async_tx_config =
  CONFIG_ASYNC_TX_DMA :: bool
  CONFIG_ASYNC_MEMCPY :: bool
  CONFIG_ASYNC_MEMSET :: bool
  CONFIG_ASYNC_XOR :: bool
  CONFIG_ASYNC_TX_DISABLE_XOR_VAL_DMA :: bool
  CONFIG_ASYNC_PQ :: bool
  CONFIG_ASYNC_TX_DISABLE_PQ_VAL_DMA :: bool

definition device_has_all_tx_types :: "async_tx_config \<Rightarrow> 'd dma_device \<Rightarrow> bool" where
  "device_has_all_tx_types cfg device =
     (let has = (\<lambda>tx. dma_has_cap tx (cap_mask device)) in
      if CONFIG_ASYNC_TX_DMA cfg \<and> \<not> has DMA_INTERRUPT then False
      else if CONFIG_ASYNC_MEMCPY cfg \<and> \<not> has DMA_MEMCPY then False
      else if CONFIG_ASYNC_MEMSET cfg \<and> \<not> has DMA_MEMSET then False
      else if CONFIG_ASYNC_XOR cfg \<and> \<not> has DMA_XOR then False
      else if CONFIG_ASYNC_XOR cfg \<and> \<not> CONFIG_ASYNC_TX_DISABLE_XOR_VAL_DMA cfg \<and>
        \<not> has DMA_XOR_VAL then False
      else if CONFIG_ASYNC_PQ cfg \<and> \<not> has DMA_PQ then False
      else if CONFIG_ASYNC_PQ cfg \<and> \<not> CONFIG_ASYNC_TX_DISABLE_PQ_VAL_DMA cfg \<and>
        \<not> has DMA_PQ_VAL then False
      else True)"

definition required_routines :: "(dma_transaction_type \<times> dma_routine) list" where
  "required_routines = [(DMA_MEMCPY, Prep_Memcpy), (DMA_XOR, Prep_Xor), (DMA_XOR_VAL, Prep_Xor_Val),
     (DMA_PQ, Prep_Pq), (DMA_PQ_VAL, Prep_Pq_Val), (DMA_MEMSET, Prep_Memset),
     (DMA_INTERRUPT, Prep_Interrupt), (DMA_SG, Prep_Sg), (DMA_CYCLIC, Prep_Cyclic),
     (DMA_SLAVE, Dev_Control), (DMA_INTERLEAVE, Prep_Interleaved)]"

definition device_routines_valid :: "'d dma_device \<Rightarrow> bool" where
  "device_routines_valid device \<longleftrightarrow>
     list_all (\<lambda>(tx, r). dma_has_cap tx (cap_mask device) \<longrightarrow> r \<in> routines device) required_routines \<and>
     {Alloc_Resources, Free_Resources, Tx_Status, Issue_Pending, Struct_Device} \<subseteq> routines device"

definition get_dma_id :: "errno + nat \<Rightarrow> nat \<Rightarrow> 'd engine \<Rightarrow> errno option \<times> 'd engine" where
  "get_dma_id rc d s = (case rc of Inl e \<Rightarrow> (Some e, s)
     | Inr i \<Rightarrow> (None, upd_dev d (\<lambda>dev. dev\<lparr>dev_id := i\<rparr>) (s\<lparr>dma_idr := insert i (dma_idr s)\<rparr>)))"

text \<open>
  \<^verbatim>\<open>device_unregister\<close> drops the last reference of a channel's sysfs node, whose release
  routine is \<open>chan_dev_release\<close>; the counter \<^verbatim>\<open>idr_ref\<close> of a registration is indexed by its device.
\<close>

definition chan_dev_release :: "nat \<Rightarrow> 'd engine \<Rightarrow> 'd engine" where
  "chan_dev_release d s =
     (let s1 = s\<lparr>idr_ref := (idr_ref s)(d := idr_ref s d - 1)\<rparr> in
      if idr_ref s1 d = 0 then s1\<lparr>dma_idr := dma_idr s1 - {dev_id (devs s1 d)}\<rparr> else s1)"

definition unregister_chan :: "nat \<Rightarrow> nat \<Rightarrow> 'd engine \<Rightarrow> 'd engine" where
  "unregister_chan d c s =
     upd_chan c (\<lambda>ch. ch\<lparr>ch_local := Freed_Local\<rparr>)
       (chan_dev_release d (upd_chan c (\<lambda>ch. ch\<lparr>ch_sysfs := False\<rparr>) s))"

text \<open>
  The first loop of the registration: \<open>cnt\<close> is the number of channels numbered so far.
\<close>

fun register_chans :: "reg_env \<Rightarrow> nat \<Rightarrow> nat list \<Rightarrow> nat \<Rightarrow> 'd engine
    \<Rightarrow> errno option \<times> nat \<times> 'd engine" where
  "register_chans re d [] cnt s = (None, cnt, s)"
| "register_chans re d (c # cs) cnt s =
     (if \<not> percpu_ok re c \<or> \<not> chan_dev_ok re c
      then (Some ENOMEM, cnt, upd_chan c (\<lambda>ch. ch\<lparr>ch_local := No_Local\<rparr>) s)
      else
        let s1 = upd_chan c (\<lambda>ch. ch\<lparr>ch_local := Local (\<lambda>_. \<lparr>memcpy_count = 0, bytes_transferred = 0\<rparr>),
                   ch_id := cnt, ch_sysfs := True\<rparr>) (s\<lparr>idr_ref := (idr_ref s)(d := idr_ref s d + 1)\<rparr>)
        in case device_register_rc re c of
          Some e \<Rightarrow> (Some e, cnt + 1,
            (upd_chan c (\<lambda>ch. ch\<lparr>ch_local := No_Local, ch_sysfs := False\<rparr>) s1)
              \<lparr>idr_ref := (idr_ref s1)(d := idr_ref s1 d - 1)\<rparr>)
        | None \<Rightarrow> register_chans re d cs (cnt + 1) (upd_chan c (\<lambda>ch. ch\<lparr>client_count := 0\<rparr>) s1))"

fun register_refs :: "kenv \<Rightarrow> nat list \<Rightarrow> 'd engine \<Rightarrow> bool \<times> 'd engine" where
  "register_refs env [] s = (True, s)"
| "register_refs env (c # cs) s =
     (case dma_chan_get env c s of (e, s1) \<Rightarrow>
        if e = Some ENODEV then (False, s1) else register_refs env cs s1)"

text \<open>A channel the loop did not reach keeps its pointer: a stale one is used after its release.\<close>

fun err_out_chans :: "nat \<Rightarrow> nat list \<Rightarrow> 'd engine \<Rightarrow> 'd engine outcome" where
  "err_out_chans d [] s = Inr s"
| "err_out_chans d (c # cs) s =
     (case ch_local (chans s c) of No_Local \<Rightarrow> err_out_chans d cs s
      | Freed_Local \<Rightarrow> Inl Use_After_Free
      | Local l \<Rightarrow> err_out_chans d cs (unregister_chan d c s))"

definition register_err_out :: "nat \<Rightarrow> 'd engine \<Rightarrow> 'd engine outcome" where
  "register_err_out d s =
     (if idr_ref s d = 0 then Inr (s\<lparr>dma_idr := dma_idr s - {dev_id (devs s d)}\<rparr>)
      else err_out_chans d (channels (devs s d)) s)"

definition publish_device :: "kenv \<Rightarrow> nat \<Rightarrow> 'd engine \<Rightarrow> 'd engine" where
  "publish_device env d s =
     (let s1 = s\<lparr>dma_device_list := dma_device_list s @ [d]\<rparr> in
      dma_channel_rebalance env
        (if dma_has_cap DMA_PRIVATE (cap_mask (devs s1 d))
         then upd_dev d (\<lambda>dev. dev\<lparr>privatecnt := privatecnt dev + 1\<rparr>) s1 else s1))"

definition dma_async_device_register ::
  "kenv \<Rightarrow> async_tx_config \<Rightarrow> reg_env \<Rightarrow> nat option \<Rightarrow> 'd engine
    \<Rightarrow> (errno option \<times> 'd engine) outcome" where
  "dma_async_device_register env cfg re device s = (case device of None \<Rightarrow> Inr (Some ENODEV, s)
   | Some d \<Rightarrow>
     if \<not> device_routines_valid (devs s d) then Inl Bug_On
     else
       let s0 = (if device_has_all_tx_types cfg (devs s d)
                 then upd_dev d (\<lambda>dev. dev\<lparr>cap_mask := dma_cap_set DMA_ASYNC_TX (cap_mask dev)\<rparr>) s
                 else s)
       in if \<not> idr_ref_ok re then Inr (Some ENOMEM, s0)
       else case get_dma_id (idr_rc re) d s0 of
         (Some e, s1) \<Rightarrow> Inr (Some e, s1)
       | (None, s1) \<Rightarrow>
           (case register_chans re d (channels (devs s1 d)) 0 (s1\<lparr>idr_ref := (idr_ref s1)(d := 0)\<rparr>) of
              (Some e, cnt, s2) \<Rightarrow> seq_ok (register_err_out d s2) (\<lambda>s3. Inr (Some e, s3))
            | (None, cnt, s2) \<Rightarrow>
                let s3 = upd_dev d (\<lambda>dev. dev\<lparr>chancnt := cnt\<rparr>) s2
                in case (if dmaengine_ref_count s3 \<noteq> 0 \<and> \<not> dma_has_cap DMA_PRIVATE (cap_mask (devs s3 d))
                         then register_refs env (channels (devs s3 d)) s3 else (True, s3)) of
                     (False, s4) \<Rightarrow> seq_ok (register_err_out d s4) (\<lambda>s5. Inr (Some ENODEV, s5))
                   | (True, s4) \<Rightarrow> Inr (None, publish_device env d s4)))"

definition dma_async_device_unregister :: "kenv \<Rightarrow> nat \<Rightarrow> 'd engine \<Rightarrow> 'd engine" where
  "dma_async_device_unregister env d s =
     (let s1 = dma_channel_rebalance env (list_del_dev d s) in
      fold (unregister_chan d) (channels (devs s1 d)) s1)"

subsection \<open>A small machine\<close>

text \<open>Two CPUs and one driver with one device of two channels, held by \<open>r\<close> clients, for examples.\<close>

definition demo_env :: kenv where
  "demo_env = \<lparr>this_cpu = 0, possible_cpus = [0, 1], online_cpus = [0, 1], present_cpus = [0, 1],
     module_is_live = (\<lambda>st. st \<noteq> MODULE_STATE_GOING)\<rparr>"

definition demo_device :: "unit dma_device" where
  "demo_device = \<lparr>chancnt = 2, privatecnt = 0, channels = [4, 5], cap_mask = {DMA_MEMCPY},
     copy_align = 0, dev_id = 0, dev_owner = Some 0, routines = UNIV,
     device_alloc_chan_resources = (\<lambda>c d. (Inr 1, d)), device_free_chan_resources = (\<lambda>c d. d),
     device_prep_dma_memcpy = (\<lambda>c dest src n flags d. (Some 0, d)), tx_submit = (\<lambda>t d. (1, d)),
     device_tx_status = (\<lambda>c k d. (DMA_SUCCESS, d)), device_issue_pending = (\<lambda>c d. d)\<rparr>"

definition demo_chan :: "int \<Rightarrow> int \<Rightarrow> dma_chan" where
  "demo_chan r t = \<lparr>ch_device = 0, ch_id = 0, ch_sysfs = True,
     ch_local = Local (\<lambda>_. \<lparr>memcpy_count = 0, bytes_transferred = 0\<rparr>),
     client_count = r, table_count = t\<rparr>"

definition demo_engine :: "int \<Rightarrow> unit engine" where
  "demo_engine r = \<lparr>dma_device_list = [0], dma_idr = {0}, idr_ref = (\<lambda>_. 2),
     dmaengine_ref_count = r, copy_dmaengine_ref_count = 0, channel_table = (\<lambda>_ _. None),
     percpu_chan_copy = (\<lambda>_. \<lparr>cc_chan = None, cc_use = 0\<rparr>),
     list_chan_prio = \<lparr>chan_prio = [None, None, None, None], priority = [0, 0, 0, 0], prio_size = 0\<rparr>,
     devs = (\<lambda>_. demo_device), chans = (\<lambda>c. if c = 4 \<or> c = 5 then demo_chan r (int c) else demo_chan 0 0),
     mods = (\<lambda>m. \<lparr>mod_state = MODULE_STATE_LIVE, incs = (\<lambda>_. if m = 0 then of_int r else 0),
        decs = (\<lambda>_. 0), wakeups = 0\<rparr>),
     live_maps = {#}, drv = ()\<rparr>"

lemmas demo_defs = demo_env_def demo_device_def demo_chan_def demo_engine_def

lemma demo_fields [simp]:
  "dma_device_list (demo_engine r) = [0]" "dmaengine_ref_count (demo_engine r) = r"
  "copy_dmaengine_ref_count (demo_engine r) = 0" "channel_table (demo_engine r) = (\<lambda>_ _. None)"
  "devs (demo_engine r) d = demo_device" "live_maps (demo_engine r) = {#}"
  "chans (demo_engine r) c = (if c = 4 \<or> c = 5 then demo_chan r (int c) else demo_chan 0 0)"
  "channels demo_device = [4, 5]" "cap_mask demo_device = {DMA_MEMCPY}" "privatecnt demo_device = 0"
  "chancnt demo_device = 2" "dev_owner demo_device = Some 0" "copy_align demo_device = 0"
  "client_count (demo_chan k t) = k" "table_count (demo_chan k t) = t" "ch_device (demo_chan k t) = 0"
  "possible_cpus demo_env = [0, 1]" "online_cpus demo_env = [0, 1]" "present_cpus demo_env = [0, 1]"
  "this_cpu demo_env = 0"
  by (simp_all add: demo_defs)

end
