(* ===== verification/Dma_Engine_Inv.thy ===== *)
theory Dma_Engine_Inv
  imports Dma_Engine
begin

text \<open>
  Invariants of the DMA engine: a device is either public, and then every channel it could
  allocate is held once per registered client, or private, and then every channel is held at
  most once; the references on a driver module are the references held on its channels. Each
  operation of \<^verbatim>\<open>dmaengine.c\<close> that moves a reference is shown to keep both.
\<close>

subsection \<open>What a change of one reference count leaves alone\<close>

definition same_but_counts :: "nat set \<Rightarrow> 'd engine \<Rightarrow> 'd engine \<Rightarrow> bool" where
  "same_but_counts C s s' \<longleftrightarrow> devs s' = devs s \<and> dma_idr s' = dma_idr s \<and> idr_ref s' = idr_ref s \<and>
     dmaengine_ref_count s' = dmaengine_ref_count s \<and>
     copy_dmaengine_ref_count s' = copy_dmaengine_ref_count s \<and>
     channel_table s' = channel_table s \<and> percpu_chan_copy s' = percpu_chan_copy s \<and>
     list_chan_prio s' = list_chan_prio s \<and> live_maps s' = live_maps s \<and>
     (\<forall>c. chans s' c = (chans s c)\<lparr>client_count := client_count (chans s' c)\<rparr>) \<and>
     (\<forall>c. c \<notin> C \<longrightarrow> chans s' c = chans s c) \<and>
     (\<forall>m. mod_state (mods s' m) = mod_state (mods s m))"

text \<open>\<open>k\<close> references on the owner of channel \<open>c\<close> have been taken (or dropped, when negative).\<close>

definition refs_moved :: "kenv \<Rightarrow> nat \<Rightarrow> int \<Rightarrow> 'd engine \<Rightarrow> 'd engine \<Rightarrow> bool" where
  "refs_moved env c k s s' \<longleftrightarrow> (\<forall>m. module_refcount env (mods s' m) =
     module_refcount env (mods s m) + (if dma_chan_to_owner s c = Some m then of_int k else 0))"

text \<open>The whole effect of an operation that moves the count of channel \<open>c\<close> to \<open>n\<close>.\<close>

definition count_step :: "kenv \<Rightarrow> nat \<Rightarrow> int \<Rightarrow> 'd engine \<Rightarrow> 'd engine \<Rightarrow> bool" where
  "count_step env c n s s' \<longleftrightarrow> same_but_counts {c} s s' \<and>
     dma_device_list s' = dma_device_list s \<and> client_count (chans s' c) = n \<and>
     refs_moved env c (n - client_count (chans s c)) s s'"

lemma same_but_counts_refl: "same_but_counts C s s"
  by (simp add: same_but_counts_def)

lemma same_but_countsD:
  assumes "same_but_counts C s s'"
  shows "devs s' = devs s" "dmaengine_ref_count s' = dmaengine_ref_count s"
    "channel_table s' = channel_table s" "percpu_chan_copy s' = percpu_chan_copy s"
    "list_chan_prio s' = list_chan_prio s" "live_maps s' = live_maps s"
    "copy_dmaengine_ref_count s' = copy_dmaengine_ref_count s"
    "ch_device (chans s' c) = ch_device (chans s c)"
    "table_count (chans s' c) = table_count (chans s c)"
    "mod_state (mods s' m) = mod_state (mods s m)"
    "dma_chan_to_owner s' c = dma_chan_to_owner s c"
    "chan_public s' c = chan_public s c"
proof -
  from assms have *: "chans s' c = (chans s c)\<lparr>client_count := client_count (chans s' c)\<rparr>"
    by (simp add: same_but_counts_def)
  show "ch_device (chans s' c) = ch_device (chans s c)"
    by (subst *) simp
  moreover show "table_count (chans s' c) = table_count (chans s c)"
    by (subst *) simp
  moreover show "devs s' = devs s" "dmaengine_ref_count s' = dmaengine_ref_count s"
    "channel_table s' = channel_table s" "percpu_chan_copy s' = percpu_chan_copy s"
    "list_chan_prio s' = list_chan_prio s" "live_maps s' = live_maps s"
    "copy_dmaengine_ref_count s' = copy_dmaengine_ref_count s"
    "mod_state (mods s' m) = mod_state (mods s m)"
    using assms by (simp_all add: same_but_counts_def)
  ultimately show "dma_chan_to_owner s' c = dma_chan_to_owner s c"
    "chan_public s' c = chan_public s c"
    by (simp_all add: dma_chan_to_owner_def chan_public_def)
qed

lemma same_but_counts_other: "same_but_counts C s s' \<Longrightarrow> c \<notin> C \<Longrightarrow> chans s' c = chans s c"
  by (simp add: same_but_counts_def)

lemma same_but_counts_trans:
  assumes "same_but_counts C s s'" and "same_but_counts D s' s''"
  shows "same_but_counts (C \<union> D) s s''"
proof -
  have "chans s'' c = (chans s c)\<lparr>client_count := client_count (chans s'' c)\<rparr>" for c
  proof -
    have "chans s'' c = (chans s' c)\<lparr>client_count := client_count (chans s'' c)\<rparr>"
      using assms(2) by (simp add: same_but_counts_def)
    also have "chans s' c = (chans s c)\<lparr>client_count := client_count (chans s' c)\<rparr>"
      using assms(1) by (simp add: same_but_counts_def)
    finally show ?thesis by simp
  qed
  with assms show ?thesis by (simp add: same_but_counts_def)
qed

lemma same_but_counts_mono: "same_but_counts C s s' \<Longrightarrow> C \<subseteq> D \<Longrightarrow> same_but_counts D s s'"
  by (auto simp: same_but_counts_def)

subsection \<open>The operations on one channel\<close>

lemma take_ref_step:
  assumes "env_wf env"
  shows "count_step env c (client_count (chans s c) + 1) s (take_ref env c s)"
    and "drv (take_ref env c s) = drv s"
  using assms
  by (auto simp: count_step_def same_but_counts_def refs_moved_def take_ref_def upd_chan_def
      upd_owner_def split: option.splits)

lemma count_step_trans:
  assumes "count_step env c n s s'" and "count_step env c k s' s''"
  shows "count_step env c k s s''"
proof -
  have "same_but_counts {c} s s''"
    using same_but_counts_trans [of "{c}" s s' "{c}" s''] assms by (simp add: count_step_def)
  moreover have "refs_moved env c (k - client_count (chans s c)) s s''"
    using assms same_but_countsD(11) [of "{c}" s s' c]
    by (auto simp: count_step_def refs_moved_def)
  ultimately show ?thesis using assms by (simp add: count_step_def)
qed

lemma take_ref_ref_count [simp]:
  "dmaengine_ref_count (take_ref env c s) = dmaengine_ref_count s"
  "client_count (chans (take_ref env c s) c) = client_count (chans s c) + 1"
  by (simp_all add: take_ref_def upd_chan_def upd_owner_def split: option.splits)

lemma count_step_refl: "count_step env c (client_count (chans s c)) s s"
  by (simp add: count_step_def same_but_counts_refl refs_moved_def)

lemma balance_step:
  "env_wf env \<Longrightarrow> count_step env c (max (client_count (chans s c)) (dmaengine_ref_count s)) s
      (balance_ref_count env c s)"
proof (induction env c s rule: balance_ref_count.induct)
  case (1 env c s)
  show ?case
  proof (cases "client_count (chans s c) < dmaengine_ref_count s")
    case True
    have "max (client_count (chans s c) + 1) (dmaengine_ref_count s) = dmaengine_ref_count s"
      using True by simp
    then have "count_step env c (dmaengine_ref_count s) (take_ref env c s)
        (balance_ref_count env c (take_ref env c s))"
      using 1 True by simp
    from count_step_trans [OF take_ref_step(1) [OF 1(2)] this] show ?thesis
      using True by (subst balance_ref_count.simps) simp
  next
    case False
    then show ?thesis
      by (subst balance_ref_count.simps) (simp add: count_step_refl max_def)
  qed
qed

lemma count_step_drv:
  assumes "count_step env c n s s'"
  shows "count_step env c n s (s'\<lparr>drv := d\<rparr>)"
  using assms by (simp add: count_step_def same_but_counts_def refs_moved_def)

lemma call_alloc_eq: "call_alloc c s = (r, s') \<Longrightarrow> \<exists>d. s' = s\<lparr>drv := d\<rparr>"
  by (auto simp: call_alloc_def split: prod.splits)

text \<open>Dropping a count to \<open>n\<close> and giving back one module reference.\<close>

lemma drop_ref_step:
  assumes "env_wf env" and "n = client_count (chans s c) - 1"
  shows "count_step env c n s (upd_owner (dma_chan_to_owner s c) (module_put env)
    (upd_chan c (\<lambda>ch. ch\<lparr>client_count := n\<rparr>) s))"
  using assms
  by (auto simp: count_step_def same_but_counts_def refs_moved_def upd_chan_def
      upd_owner_def split: option.splits)

lemma count_stepD:
  assumes "count_step env c n s s'"
  shows "client_count (chans s' c) = n" "dma_device_list s' = dma_device_list s"
    "same_but_counts {c} s s'"
  using assms by (simp_all add: count_step_def)

lemma chan_get_step:
  assumes "env_wf env" and "dma_chan_get env c s = (e, s')"
  shows "client_count (chans s c) \<noteq> 0 \<and> e = None \<and>
        count_step env c (client_count (chans s c) + 1) s s' \<or>
     client_count (chans s c) = 0 \<and> e = None \<and>
        count_step env c (if chan_public s c then max 1 (dmaengine_ref_count s) else 1) s s' \<or>
     client_count (chans s c) = 0 \<and> e \<noteq> None \<and> count_step env c 0 s s'"
proof -
  let ?n = "client_count (chans s c)"
  let ?s1 = "take_ref env c s"
  have t: "count_step env c (?n + 1) s ?s1" by (rule take_ref_step(1) [OF assms(1)])
  consider (busy) "?n \<noteq> 0" | (dead) "?n = 0" "\<not> owner_live env s (dma_chan_to_owner s c)"
    | (live) "?n = 0" "owner_live env s (dma_chan_to_owner s c)" by blast
  then show ?thesis
  proof cases
    case busy
    then have "s' = ?s1" "e = None" using assms(2) by (auto simp: dma_chan_get_def Let_def)
    with busy t show ?thesis by simp
  next
    case dead
    then have "s' = s" "e = Some ENODEV" using assms(2) by (auto simp: dma_chan_get_def)
    with dead show ?thesis using count_step_refl [of env c s] by simp
  next
    case live
    obtain r s2 where a: "call_alloc c ?s1 = (r, s2)" by (cases "call_alloc c ?s1")
    then obtain d where s2: "s2 = ?s1\<lparr>drv := d\<rparr>" using call_alloc_eq by blast
    with t live have t2: "count_step env c 1 s s2" using count_step_drv by fastforce
    note same = same_but_countsD [OF count_stepD(3) [OF t2]]
    show ?thesis
    proof (cases r)
      case (Inl err)
      then have "e = Some err" and "s' = upd_owner (dma_chan_to_owner s2 c) (module_put env)
          (upd_chan c (\<lambda>ch. ch\<lparr>client_count := 0\<rparr>) s2)"
        using assms(2) live a same(11) by (auto simp: dma_chan_get_def Let_def)
      moreover have "client_count (chans s2 c) = 1" using count_stepD(1) [OF t2] .
      ultimately show ?thesis
        using live count_step_trans [OF t2 drop_ref_step [OF assms(1)]] by fastforce
    next
      case (Inr cnt)
      then have e: "e = None"
        and s': "s' = (if chan_public s2 c then balance_ref_count env c s2 else s2)"
        using assms(2) live a by (auto simp: dma_chan_get_def Let_def)
      have "count_step env c (if chan_public s c then max 1 (dmaengine_ref_count s) else 1) s s'"
      proof (cases "chan_public s c")
        case True
        then have "s' = balance_ref_count env c s2" using s' same(12) by simp
        then show ?thesis
          using True count_step_trans [OF t2 balance_step [OF assms(1)]] count_stepD(1) [OF t2] same(2)
          by simp
      next
        case False
        then show ?thesis using s' same(12) t2 by simp
      qed
      with live e show ?thesis by simp
    qed
  qed
qed

lemma chan_put_step:
  assumes "env_wf env"
  shows "count_step env c
    (if client_count (chans s c) = 0 then 0 else client_count (chans s c) - 1) s (dma_chan_put env c s)"
proof (cases "client_count (chans s c) = 0")
  case True
  then show ?thesis using count_step_refl [of env c s] by (simp add: dma_chan_put_def)
next
  case False
  let ?n = "client_count (chans s c) - 1"
  let ?s1 = "upd_owner (dma_chan_to_owner s c) (module_put env)
    (upd_chan c (\<lambda>ch. ch\<lparr>client_count := ?n\<rparr>) s)"
  have eq: "upd_chan c (\<lambda>ch. ch\<lparr>client_count := client_count ch - 1\<rparr>) s
      = upd_chan c (\<lambda>ch. ch\<lparr>client_count := ?n\<rparr>) s"
    by (simp add: upd_chan_def)
  have st: "count_step env c ?n s ?s1" by (rule drop_ref_step [OF assms refl])
  show ?thesis
    using False st count_step_drv [OF st]
    by (simp add: dma_chan_put_def Let_def eq call_free_def)
qed

subsection \<open>References on modules\<close>

text \<open>The references that the channels of a set hold on one module.\<close>

definition held :: "nat set \<Rightarrow> 'd engine \<Rightarrow> nat \<Rightarrow> int" where
  "held U s m = (\<Sum>c | c \<in> U \<and> dma_chan_to_owner s c = Some m. client_count (chans s c))"

definition refs_balanced :: "kenv \<Rightarrow> nat set \<Rightarrow> (nat \<Rightarrow> u64) \<Rightarrow> 'd engine \<Rightarrow> bool" where
  "refs_balanced env U base s \<longleftrightarrow>
     (\<forall>m. module_refcount env (mods s m) = base m + of_int (held U s m))"

text \<open>A step that keeps the ownership structure and moves module and channel references together.\<close>

definition keeps :: "kenv \<Rightarrow> nat set \<Rightarrow> 'd engine \<Rightarrow> 'd engine \<Rightarrow> bool" where
  "keeps env U s s' \<longleftrightarrow>
     (\<forall>c. ch_device (chans s' c) = ch_device (chans s c)) \<and>
     (\<forall>d. channels (devs s' d) = channels (devs s d) \<and> dev_owner (devs s' d) = dev_owner (devs s d)) \<and>
     (\<forall>m. module_refcount env (mods s' m) - of_int (held U s' m) =
           module_refcount env (mods s m) - of_int (held U s m))"

lemma keeps_refl: "keeps env U s s"
  by (simp add: keeps_def)

lemma keeps_trans: "keeps env U s s' \<Longrightarrow> keeps env U s' s'' \<Longrightarrow> keeps env U s s''"
  by (simp add: keeps_def)

lemma keeps_channels: "keeps env U s s' \<Longrightarrow> channels (devs s' d) = channels (devs s d)"
  by (simp add: keeps_def)

lemma keeps_balanced:
  assumes "keeps env U s s'" and "refs_balanced env U base s"
  shows "refs_balanced env U base s'"
  unfolding refs_balanced_def
proof
  fix m
  have "module_refcount env (mods s' m) - of_int (held U s' m) = base m"
    using assms by (simp add: keeps_def refs_balanced_def)
  then show "module_refcount env (mods s' m) = base m + of_int (held U s' m)"
    by (simp add: diff_eq_eq)
qed

lemma held_count_step:
  assumes "count_step env c n s s'" and "finite U" and "c \<in> U"
  shows "held U s' m = held U s m
    + (if dma_chan_to_owner s c = Some m then n - client_count (chans s c) else 0)"
proof -
  have own: "dma_chan_to_owner s' x = dma_chan_to_owner s x" for x
    using same_but_countsD(11) [OF count_stepD(3) [OF assms(1)]] .
  have oth: "x \<noteq> c \<Longrightarrow> client_count (chans s' x) = client_count (chans s x)" for x
    using same_but_counts_other [OF count_stepD(3) [OF assms(1)]] by simp
  let ?S = "{x. x \<in> U \<and> dma_chan_to_owner s x = Some m}"
  have fin: "finite ?S" using assms(2) by simp
  show ?thesis
  proof (cases "dma_chan_to_owner s c = Some m")
    case True
    then have c: "c \<in> ?S" using assms(3) by simp
    have "(\<Sum>x\<in>?S - {c}. client_count (chans s' x)) = (\<Sum>x\<in>?S - {c}. client_count (chans s x))"
      by (rule sum.cong) (auto simp: oth)
    then show ?thesis
      using True count_stepD(1) [OF assms(1)]
      by (simp add: held_def own sum.remove [OF fin c])
  next
    case False
    then have "(\<Sum>x\<in>?S. client_count (chans s' x)) = (\<Sum>x\<in>?S. client_count (chans s x))"
      by (intro sum.cong) (auto intro!: oth)
    with False show ?thesis by (simp add: held_def own)
  qed
qed

lemma keeps_count_step:
  assumes "count_step env c n s s'" and "finite U" and "c \<in> U"
  shows "keeps env U s s'"
proof -
  have "refs_moved env c (n - client_count (chans s c)) s s'"
    using assms(1) by (simp add: count_step_def)
  moreover note same_but_countsD [OF count_stepD(3) [OF assms(1)]]
  ultimately show ?thesis
    by (simp add: keeps_def held_count_step [OF assms] refs_moved_def)
qed

text \<open>A step that leaves modules, owners and counts alone keeps everything.\<close>

lemma keeps_frame:
  assumes "mods s' = mods s"
    and "\<And>c. ch_device (chans s' c) = ch_device (chans s c)"
    and "\<And>c. client_count (chans s' c) = client_count (chans s c)"
    and "\<And>d. channels (devs s' d) = channels (devs s d)"
    and "\<And>d. dev_owner (devs s' d) = dev_owner (devs s d)"
  shows "keeps env U s s'"
  using assms by (simp add: keeps_def held_def dma_chan_to_owner_def)

lemma keeps_upd_dev:
  assumes "\<And>v. channels (f v) = channels v" and "\<And>v. dev_owner (f v) = dev_owner v"
  shows "keeps env U s (upd_dev d f s)"
  by (rule keeps_frame) (auto simp: upd_dev_def assms)

lemma keeps_chan_get:
  assumes "env_wf env" and "finite U" and "c \<in> U"
  shows "keeps env U s (snd (dma_chan_get env c s))"
  using chan_get_step [OF assms(1), of c s] keeps_count_step [OF _ assms(2,3)]
  by (cases "dma_chan_get env c s") fastforce

lemma keeps_chan_put:
  assumes "env_wf env" and "finite U" and "c \<in> U"
  shows "keeps env U s (dma_chan_put env c s)"
  by (rule keeps_count_step [OF chan_put_step [OF assms(1)] assms(2,3)])

lemma keeps_list_del [simp]: "keeps env U s (list_del_dev d s)"
  by (rule keeps_frame) (auto simp: list_del_dev_def)

lemma private_fields [simp]:
  "channels (set_private v) = channels v" "dev_owner (set_private v) = dev_owner v"
  "channels (drop_private v) = channels v" "dev_owner (drop_private v) = dev_owner v"
  by (simp_all add: set_private_def drop_private_def Let_def)

subsection \<open>The channel table\<close>

text \<open>The fields that the redistribution of channels leaves alone.\<close>

definition table_step :: "'d engine \<Rightarrow> 'd engine \<Rightarrow> bool" where
  "table_step s s' \<longleftrightarrow> (\<exists>T ct. s' = s\<lparr>channel_table := T,
     chans := (\<lambda>c. (chans s c)\<lparr>table_count := ct c\<rparr>)\<rparr>)"

lemma table_stepI:
  "s' = s\<lparr>channel_table := T, chans := (\<lambda>c. (chans s c)\<lparr>table_count := ct c\<rparr>)\<rparr> \<Longrightarrow> table_step s s'"
  by (auto simp: table_step_def)

lemma table_step_refl [simp]: "table_step s s"
  by (rule table_stepI [where T = "channel_table s" and ct = "\<lambda>c. table_count (chans s c)"]) simp

lemma table_step_trans:
  assumes "table_step s s'" and "table_step s' s''"
  shows "table_step s s''"
proof -
  from assms obtain T ct U cu where
    "s' = s\<lparr>channel_table := T, chans := (\<lambda>c. (chans s c)\<lparr>table_count := ct c\<rparr>)\<rparr>"
    "s'' = s'\<lparr>channel_table := U, chans := (\<lambda>c. (chans s' c)\<lparr>table_count := cu c\<rparr>)\<rparr>"
    by (auto simp: table_step_def)
  then show ?thesis by (intro table_stepI [where T = U and ct = cu]) simp
qed

lemma table_step_count:
  "table_step s (upd_chan c (\<lambda>ch. ch\<lparr>table_count := f ch\<rparr>) s)"
  by (rule table_stepI [where T = "channel_table s"
        and ct = "(\<lambda>x. table_count (chans s x))(c := f (chans s c))"])
     (simp add: upd_chan_def fun_eq_iff)

lemma table_step_table: "table_step s (s\<lparr>channel_table := T\<rparr>)"
  by (rule table_stepI [where T = T and ct = "\<lambda>c. table_count (chans s c)"]) simp

lemma table_stepD:
  assumes "table_step s s'"
  shows "devs s' = devs s" "mods s' = mods s" "dma_device_list s' = dma_device_list s"
    "dmaengine_ref_count s' = dmaengine_ref_count s" "live_maps s' = live_maps s"
    "copy_dmaengine_ref_count s' = copy_dmaengine_ref_count s" "drv s' = drv s"
    "percpu_chan_copy s' = percpu_chan_copy s" "list_chan_prio s' = list_chan_prio s"
    "client_count (chans s' c) = client_count (chans s c)"
    "ch_device (chans s' c) = ch_device (chans s c)"
    "dma_idr s' = dma_idr s" "idr_ref s' = idr_ref s" "ch_local (chans s' c) = ch_local (chans s c)"
  using assms by (auto simp: table_step_def)

lemma nth_chan_step: "nth_chan cap n s = (r, s') \<Longrightarrow> table_step s s'"
  by (auto simp: nth_chan_def Let_def table_step_count split: prod.splits option.splits)

lemma fold_table_count_step:
  "table_step s (fold (\<lambda>c. upd_chan c (\<lambda>ch. ch\<lparr>table_count := 0\<rparr>)) cs s)"
proof (induction cs arbitrary: s)
  case (Cons c cs)
  show ?case using table_step_trans [OF table_step_count [of s c "\<lambda>_. 0"] Cons] by simp
qed simp

lemma zero_table_counts_step: "table_step s (zero_table_counts ds s)"
proof (induction ds arbitrary: s)
  case (Cons d ds)
  show ?case using table_step_trans [OF fold_table_count_step Cons] Cons by simp
qed simp

lemma assign_cpus_step: "assign_cpus env cap cpus n s = (n', s') \<Longrightarrow> table_step s s'"
proof (induction cpus arbitrary: n s)
  case (Cons cpu cpus)
  obtain k i where k: "assign_cpus env cap (cpu # cpus) n s =
      (case nth_chan cap k s of (c, s1) \<Rightarrow> assign_cpus env cap cpus i (set_table cap cpu c s1))"
    by (cases "1 < length (possible_cpus env)") auto
  obtain c s1 where n: "nth_chan cap k s = (c, s1)" by (cases "nth_chan cap k s")
  have "table_step s1 (set_table cap cpu c s1)"
    by (simp add: set_table_def table_step_table)
  then have "table_step s (set_table cap cpu c s1)"
    using nth_chan_step [OF n] table_step_trans by blast
  moreover have "table_step (set_table cap cpu c s1) s'"
    by (rule Cons.IH [where n = i]) (use Cons.prems k n in simp)
  ultimately show ?case using table_step_trans by blast
qed simp

lemma assign_caps_step: "table_step s (assign_caps env caps n s)"
proof (induction caps arbitrary: n s)
  case (Cons cap caps)
  obtain n' s' where a: "assign_cpus env cap (online_cpus env) n s = (n', s')"
    by (cases "assign_cpus env cap (online_cpus env) n s")
  show ?case using table_step_trans [OF assign_cpus_step [OF a] Cons] a by simp
qed simp

lemma rebalance_step: "table_step s (dma_channel_rebalance env s)"
proof -
  let ?s1 = "zero_table_counts (dma_device_list s) (clear_table env s)"
  have "table_step s (clear_table env s)" by (simp add: clear_table_def table_step_table)
  then have "table_step s ?s1" using zero_table_counts_step table_step_trans by blast
  then show ?thesis
    by (auto simp: dma_channel_rebalance_def Let_def intro: table_step_trans assign_caps_step)
qed

lemmas rebalance_fields [simp] = table_stepD [OF rebalance_step]

lemma keeps_table_step: "table_step s s' \<Longrightarrow> keeps env U s s'"
  by (rule keeps_frame) (simp_all add: table_stepD)

subsection \<open>Public and private devices\<close>

definition dev_private :: "'d engine \<Rightarrow> nat \<Rightarrow> bool" where
  "dev_private s d \<longleftrightarrow> dma_has_cap DMA_PRIVATE (cap_mask (devs s d))"

definition busy :: "'d engine \<Rightarrow> nat \<Rightarrow> nat set" where
  "busy s d = {c \<in> set (channels (devs s d)). client_count (chans s c) \<noteq> 0}"

text \<open>
  A public device with \<open>r\<close> registered clients holds each channel \<open>r\<close> times or, where the
  allocation failed, not at all; a private device holds each channel at most once, and its
  private count is the number of channels held, or one more when it is private for good.
\<close>

definition dev_disc :: "int \<Rightarrow> 'd engine \<Rightarrow> nat \<Rightarrow> bool" where
  "dev_disc r s d \<longleftrightarrow>
     (if dev_private s d
      then (\<forall>c\<in>set (channels (devs s d)). client_count (chans s c) \<in> {0, 1}) \<and>
           privatecnt (devs s d) \<noteq> 0 \<and> card (busy s d) \<le> unat (privatecnt (devs s d)) \<and>
           unat (privatecnt (devs s d)) \<le> card (busy s d) + 1
      else privatecnt (devs s d) = 0 \<and>
           (\<forall>c\<in>set (channels (devs s d)). client_count (chans s c) \<in> {0, r}))"

definition dev_topo :: "'d engine \<Rightarrow> nat \<Rightarrow> bool" where
  "dev_topo s d \<longleftrightarrow> distinct (channels (devs s d)) \<and> chancnt (devs s d) = length (channels (devs s d)) \<and>
     length (channels (devs s d)) < 2 ^ 32 - 1 \<and>
     (\<forall>c\<in>set (channels (devs s d)). ch_device (chans s c) = d)"

text \<open>
  \<open>K\<close> is the set of devices that have been registered. A device that was taken off the list
  because its module went away keeps the discipline while a client holds one of its channels.
\<close>

definition eng_inv :: "nat set \<Rightarrow> 'd engine \<Rightarrow> bool" where
  "eng_inv K s \<longleftrightarrow> 0 \<le> dmaengine_ref_count s \<and> distinct (dma_device_list s) \<and>
     set (dma_device_list s) \<subseteq> K \<and>
     (\<forall>d\<in>K. dev_topo s d \<and>
        (d \<in> set (dma_device_list s) \<or> dev_private s d \<longrightarrow> dev_disc (dmaengine_ref_count s) s d))"

lemma eng_invD:
  assumes "eng_inv K s" and "d \<in> K"
  shows "dev_topo s d"
    and "d \<in> set (dma_device_list s) \<Longrightarrow> dev_disc (dmaengine_ref_count s) s d"
    and "dev_private s d \<Longrightarrow> dev_disc (dmaengine_ref_count s) s d"
  using assms by (auto simp: eng_inv_def)

lemma eng_inv_listed:
  assumes "eng_inv K s" and "d \<in> set (dma_device_list s)"
  shows "d \<in> K" and "dev_topo s d" and "dev_disc (dmaengine_ref_count s) s d"
  using assms by (auto simp: eng_inv_def)

lemma dev_disc_cong:
  assumes "devs s' d = devs s d"
    and "\<And>c. c \<in> set (channels (devs s d)) \<Longrightarrow> client_count (chans s' c) = client_count (chans s c)"
  shows "dev_disc r s' d = dev_disc r s d"
proof -
  have "busy s' d = busy s d" using assms by (auto simp: busy_def)
  with assms show ?thesis by (simp add: dev_disc_def dev_private_def)
qed

lemma dev_topo_cong:
  assumes "devs s' d = devs s d" and "\<And>c. ch_device (chans s' c) = ch_device (chans s c)"
  shows "dev_topo s' d = dev_topo s d"
  using assms by (simp add: dev_topo_def)

lemma dev_disc_private: "dev_private s d \<Longrightarrow> dev_disc r s d = dev_disc r' s d"
  by (simp add: dev_disc_def)

lemma topo_disjoint:
  assumes "dev_topo s d" and "dev_topo s d'" and "c \<in> set (channels (devs s d))" and "d \<noteq> d'"
  shows "c \<notin> set (channels (devs s d'))"
  using assms by (auto simp: dev_topo_def)

lemma eng_inv_table_step: "table_step s s' \<Longrightarrow> eng_inv K s \<Longrightarrow> eng_inv K s'"
  using dev_disc_cong [of s' _ s] dev_topo_cong [of s' _ s]
  by (simp add: eng_inv_def table_stepD dev_private_def)

lemma same_but_counts_topo: "same_but_counts C s s' \<Longrightarrow> dev_topo s' d = dev_topo s d"
  by (rule dev_topo_cong) (simp_all add: same_but_countsD)

lemma same_but_counts_private: "same_but_counts C s s' \<Longrightarrow> dev_private s' d = dev_private s d"
  by (simp add: dev_private_def same_but_countsD)

lemma same_but_counts_disc:
  assumes "same_but_counts C s s'" and "C \<inter> set (channels (devs s d)) = {}"
  shows "dev_disc r s' d = dev_disc r s d"
proof (rule dev_disc_cong)
  show "client_count (chans s' c) = client_count (chans s c)" if "c \<in> set (channels (devs s d))" for c
  proof -
    have "c \<notin> C" using that assms(2) by blast
    then show ?thesis using same_but_counts_other [OF assms(1)] by simp
  qed
qed (simp add: same_but_countsD [OF assms(1)])

lemma same_but_counts_list_del:
  "same_but_counts C s s' \<Longrightarrow> same_but_counts C s (list_del_dev d s')"
  by (simp add: same_but_counts_def list_del_dev_def)

subsection \<open>Taking and dropping the references of one client\<close>

lemma get_chans_step:
  assumes "env_wf env" and "\<forall>c\<in>set cs. chan_public s c" and "distinct cs"
    and "dmaengine_ref_count s = r + 1" and "0 \<le> r"
    and "\<forall>c\<in>set cs. client_count (chans s c) \<in> {0, r}"
  shows "same_but_counts (set cs) s (get_chans env d cs s) \<and>
    (dma_device_list (get_chans env d cs s) = dma_device_list s \<and>
      (\<forall>c\<in>set cs. client_count (chans (get_chans env d cs s) c) \<in> {0, r + 1}) \<or>
     dma_device_list (get_chans env d cs s) = remove1 d (dma_device_list s))"
  using assms
proof (induction cs arbitrary: s)
  case Nil
  then show ?case by (simp add: same_but_counts_refl)
next
  case (Cons c cs)
  obtain e s1 where g: "dma_chan_get env c s = (e, s1)" by (cases "dma_chan_get env c s")
  obtain n where st: "count_step env c n s s1" and n: "n \<in> {0, r + 1}"
    using chan_get_step [OF Cons.prems(1) g] Cons.prems by (auto simp: max_def split: if_splits)
  note sb = count_stepD(3) [OF st]
  show ?case
  proof (cases "e = Some ENODEV")
    case True
    then show ?thesis
      using g same_but_counts_list_del [OF same_but_counts_mono [OF sb]] count_stepD(2) [OF st]
      by (simp add: list_del_dev_def)
  next
    case False
    let ?s' = "get_chans env d cs s1"
    have o: "x \<in> set cs \<Longrightarrow> chans s1 x = chans s x" for x
      using same_but_counts_other [OF sb, of x] Cons.prems(3) by auto
    have IH: "same_but_counts (set cs) s1 ?s' \<and>
      (dma_device_list ?s' = dma_device_list s1 \<and>
        (\<forall>c\<in>set cs. client_count (chans ?s' c) \<in> {0, r + 1}) \<or>
       dma_device_list ?s' = remove1 d (dma_device_list s1))"
      by (rule Cons.IH) (use Cons.prems o same_but_countsD [OF sb] in auto)
    then have "same_but_counts (set (c # cs)) s ?s'"
      using same_but_counts_trans [OF sb] by fastforce
    moreover have "chans ?s' c = chans s1 c"
      using IH same_but_counts_other Cons.prems(3) by fastforce
    ultimately show ?thesis
      using IH g False n count_stepD(1,2) [OF st] by simp
  qed
qed

lemma dev_chans_public:
  assumes "dev_topo s d" and "\<not> dev_private s d"
  shows "\<forall>c\<in>set (channels (devs s d)). chan_public s c"
  using assms by (simp add: dev_topo_def dev_private_def chan_public_def)

definition pub_chans :: "'d engine \<Rightarrow> nat list \<Rightarrow> nat set" where
  "pub_chans s ds = (\<Union>d\<in>{d \<in> set ds. \<not> dev_private s d}. set (channels (devs s d)))"

lemma pub_chans_same:
  assumes "same_but_counts C s s'"
  shows "pub_chans s' ds = pub_chans s ds"
  by (simp add: pub_chans_def same_but_countsD(1) [OF assms] same_but_counts_private [OF assms])

lemma pub_chans_Cons:
  assumes "same_but_counts C s s'"
  shows "pub_chans s (d # ds) =
    (if dev_private s d then {} else set (channels (devs s d))) \<union> pub_chans s' ds"
  unfolding pub_chans_same [OF assms] by (auto simp: pub_chans_def)

lemma pub_chans_disjoint:
  assumes "dev_private s d" and "dev_topo s d" and "\<forall>x\<in>set ds. dev_topo s x"
  shows "pub_chans s ds \<inter> set (channels (devs s d)) = {}"
  using assms topo_disjoint [of s d] by (fastforce simp: pub_chans_def)

lemma get_devs_step:
  assumes "env_wf env" and "distinct ds" and "distinct (dma_device_list s)"
    and "\<forall>d\<in>set ds. dev_topo s d \<and> dev_disc r s d"
    and "dmaengine_ref_count s = r + 1" and "0 \<le> r"
  shows "same_but_counts (pub_chans s ds) s (get_devs env ds s) \<and>
    distinct (dma_device_list (get_devs env ds s)) \<and>
    set (dma_device_list (get_devs env ds s)) \<subseteq> set (dma_device_list s) \<and>
    (\<forall>d\<in>set ds \<inter> set (dma_device_list (get_devs env ds s)). dev_disc (r + 1) (get_devs env ds s) d)"
  using assms
proof (induction ds arbitrary: s)
  case Nil
  then show ?case by (simp add: same_but_counts_refl)
next
  case (Cons d ds)
  let ?D = "set (channels (devs s d))"
  let ?P = "if dev_private s d then {} else ?D"
  let ?s1 = "if dev_private s d then s else get_chans env d (channels (devs s d)) s"
  let ?s' = "get_devs env ds ?s1"
  have one: "same_but_counts ?P s ?s1 \<and> distinct (dma_device_list ?s1) \<and>
      set (dma_device_list ?s1) \<subseteq> set (dma_device_list s) \<and>
      (d \<in> set (dma_device_list ?s1) \<longrightarrow> dev_disc (r + 1) ?s1 d)"
  proof (cases "dev_private s d")
    case True
    then show ?thesis
      using Cons.prems dev_disc_private [OF True] by (auto simp: same_but_counts_refl)
  next
    case False
    have "\<forall>c\<in>?D. client_count (chans s c) \<in> {0, r}" and p0: "privatecnt (devs s d) = 0"
      using Cons.prems(4) False by (simp_all add: dev_disc_def)
    with Cons.prems False
    have g: "same_but_counts ?D s ?s1 \<and>
        (dma_device_list ?s1 = dma_device_list s \<and>
          (\<forall>c\<in>?D. client_count (chans ?s1 c) \<in> {0, r + 1}) \<or>
         dma_device_list ?s1 = remove1 d (dma_device_list s))"
      using get_chans_step [OF Cons.prems(1) dev_chans_public [of s d]] by (simp add: dev_topo_def)
    then have sb: "same_but_counts ?D s ?s1" by blast
    note f = same_but_countsD(1) [OF sb] same_but_counts_private [OF sb, of d]
    show ?thesis
      using g Cons.prems(3) p0 f False
      by (auto simp: dev_disc_def distinct_remove1 dest: notin_set_remove1
          intro: subsetD [OF set_remove1_subset])
  qed
  then have sb: "same_but_counts ?P s ?s1" by blast
  have dj: "?P \<inter> set (channels (devs s x)) = {}" if "x \<in> set ds" for x
    using that Cons.prems(2,4) topo_disjoint [of s d x] by (auto split: if_splits)
  have "\<forall>x\<in>set ds. dev_topo ?s1 x \<and> dev_disc r ?s1 x"
    using Cons.prems(4) same_but_counts_topo [OF sb] same_but_counts_disc [OF sb dj] by simp
  then have IH: "same_but_counts (pub_chans ?s1 ds) ?s1 ?s' \<and>
      distinct (dma_device_list ?s') \<and> set (dma_device_list ?s') \<subseteq> set (dma_device_list ?s1) \<and>
      (\<forall>x\<in>set ds \<inter> set (dma_device_list ?s'). dev_disc (r + 1) ?s' x)"
    using Cons.prems one same_but_countsD(2) [OF sb] by (intro Cons.IH) simp_all
  then have sb2: "same_but_counts (pub_chans ?s1 ds) ?s1 ?s'" by blast
  have "pub_chans ?s1 ds \<inter> set (channels (devs ?s1 d)) = {}"
    using Cons.prems(2,4) topo_disjoint [of s _ d]
    by (fastforce simp: pub_chans_def same_but_countsD(1) [OF sb])
  from same_but_counts_disc [OF sb2 this]
  have "dev_disc (r + 1) ?s' d = dev_disc (r + 1) ?s1 d" .
  moreover have "same_but_counts (pub_chans s (d # ds)) s ?s'"
    using same_but_counts_trans [OF sb sb2] by (simp add: pub_chans_Cons [OF sb])
  moreover have "get_devs env (d # ds) s = ?s'"
    by (simp add: dev_private_def)
  ultimately show ?case using IH one by auto
qed

lemma put_chans_step:
  assumes "env_wf env" and "distinct cs" and "\<forall>c\<in>set cs. client_count (chans s c) \<in> {0, r}"
  shows "same_but_counts (set cs) s (fold (dma_chan_put env) cs s) \<and>
    dma_device_list (fold (dma_chan_put env) cs s) = dma_device_list s \<and>
    (\<forall>c\<in>set cs. client_count (chans (fold (dma_chan_put env) cs s) c) \<in> {0, r - 1})"
  using assms
proof (induction cs arbitrary: s)
  case Nil
  then show ?case by (simp add: same_but_counts_refl)
next
  case (Cons c cs)
  let ?s1 = "dma_chan_put env c s"
  let ?s' = "fold (dma_chan_put env) cs ?s1"
  note st = chan_put_step [OF Cons.prems(1), of c s]
  note sb = count_stepD(3) [OF st]
  have "\<forall>x\<in>set cs. client_count (chans ?s1 x) \<in> {0, r}"
  proof
    fix x assume x: "x \<in> set cs"
    then have "x \<noteq> c" using Cons.prems(2) by auto
    then show "client_count (chans ?s1 x) \<in> {0, r}"
      using same_but_counts_other [OF sb, of x] Cons.prems(3) x by simp
  qed
  then have IH: "same_but_counts (set cs) ?s1 ?s' \<and> dma_device_list ?s' = dma_device_list ?s1 \<and>
      (\<forall>c\<in>set cs. client_count (chans ?s' c) \<in> {0, r - 1})"
    using Cons.prems by (intro Cons.IH) auto
  then have "chans ?s' c = chans ?s1 c"
    using same_but_counts_other [of "set cs" ?s1 ?s' c] Cons.prems(2) by simp
  moreover have "same_but_counts (set (c # cs)) s ?s'"
    using same_but_counts_trans [OF sb] IH by fastforce
  moreover have "client_count (chans ?s1 c) \<in> {0, r - 1}"
    using count_stepD(1) [OF st] Cons.prems(3) by (auto split: if_splits)
  ultimately show ?case using IH count_stepD(2) [OF st] by simp
qed

lemma put_devs_step:
  assumes "env_wf env" and "distinct ds" and "\<forall>d\<in>set ds. dev_topo s d \<and> dev_disc r s d"
  shows "same_but_counts (pub_chans s ds) s (put_devs env ds s) \<and>
    dma_device_list (put_devs env ds s) = dma_device_list s \<and>
    (\<forall>d\<in>set ds. dev_disc (r - 1) (put_devs env ds s) d)"
  using assms
proof (induction ds arbitrary: s)
  case Nil
  then show ?case by (simp add: same_but_counts_refl)
next
  case (Cons d ds)
  let ?D = "set (channels (devs s d))"
  let ?P = "if dev_private s d then {} else ?D"
  let ?s1 = "if dev_private s d then s else fold (dma_chan_put env) (channels (devs s d)) s"
  let ?s' = "put_devs env ds ?s1"
  have one: "same_but_counts ?P s ?s1 \<and> dma_device_list ?s1 = dma_device_list s \<and>
      dev_disc (r - 1) ?s1 d"
  proof (cases "dev_private s d")
    case True
    then show ?thesis
      using Cons.prems dev_disc_private [OF True] by (auto simp: same_but_counts_refl)
  next
    case False
    have c0: "\<forall>c\<in>?D. client_count (chans s c) \<in> {0, r}" and p0: "privatecnt (devs s d) = 0"
      and di: "distinct (channels (devs s d))"
      using Cons.prems(3) False by (simp_all add: dev_disc_def dev_topo_def)
    note g = put_chans_step [OF Cons.prems(1) di c0]
    then have sb: "same_but_counts ?D s (fold (dma_chan_put env) (channels (devs s d)) s)" by blast
    show ?thesis
      using g p0 False same_but_countsD(1) [OF sb] same_but_counts_private [OF sb, of d]
      by (simp add: dev_disc_def)
  qed
  then have sb: "same_but_counts ?P s ?s1" by blast
  have dj: "?P \<inter> set (channels (devs s x)) = {}" if "x \<in> set ds" for x
    using that Cons.prems(2,3) topo_disjoint [of s d x] by (auto split: if_splits)
  have "\<forall>x\<in>set ds. dev_topo ?s1 x \<and> dev_disc r ?s1 x"
    using Cons.prems(3) same_but_counts_topo [OF sb] same_but_counts_disc [OF sb dj] by simp
  then have IH: "same_but_counts (pub_chans ?s1 ds) ?s1 ?s' \<and>
      dma_device_list ?s' = dma_device_list ?s1 \<and> (\<forall>x\<in>set ds. dev_disc (r - 1) ?s' x)"
    using Cons.prems by (intro Cons.IH) simp_all
  then have sb2: "same_but_counts (pub_chans ?s1 ds) ?s1 ?s'" by blast
  have "pub_chans ?s1 ds \<inter> set (channels (devs ?s1 d)) = {}"
    using Cons.prems(2,3) topo_disjoint [of s _ d]
    by (fastforce simp: pub_chans_def same_but_countsD(1) [OF sb])
  from same_but_counts_disc [OF sb2 this]
  have "dev_disc (r - 1) ?s' d = dev_disc (r - 1) ?s1 d" .
  moreover have "same_but_counts (pub_chans s (d # ds)) s ?s'"
    using same_but_counts_trans [OF sb sb2] by (simp add: pub_chans_Cons [OF sb])
  moreover have "put_devs env (d # ds) s = ?s'"
    by (simp add: dev_private_def)
  ultimately show ?case using IH one by simp
qed

lemma ref_count_disc: "dev_disc r (s\<lparr>dmaengine_ref_count := k\<rparr>) d = dev_disc r s d"
  by (rule dev_disc_cong) simp_all

lemma ref_count_topo: "dev_topo (s\<lparr>dmaengine_ref_count := k\<rparr>) d = dev_topo s d"
  by (rule dev_topo_cong) simp_all

lemma ref_count_private: "dev_private (s\<lparr>dmaengine_ref_count := k\<rparr>) d = dev_private s d"
  by (simp add: dev_private_def)

lemma ref_count_pub: "pub_chans (s\<lparr>dmaengine_ref_count := k\<rparr>) ds = pub_chans s ds"
  by (simp add: pub_chans_def ref_count_private)

lemma off_list_disc:
  assumes "same_but_counts (pub_chans (s\<lparr>dmaengine_ref_count := k\<rparr>) (dma_device_list s))
      (s\<lparr>dmaengine_ref_count := k\<rparr>) s'"
    and "eng_inv K s" and "d \<in> K" and "dev_private s' d"
  shows "dev_disc r s' d"
proof -
  let ?s1 = "s\<lparr>dmaengine_ref_count := k\<rparr>"
  have pv: "dev_private ?s1 d" using assms(4) same_but_counts_private [OF assms(1)] by simp
  moreover have "\<forall>x\<in>set (dma_device_list s). dev_topo ?s1 x"
    using eng_inv_listed(2) [OF assms(2)] by (simp add: ref_count_topo)
  ultimately have "pub_chans ?s1 (dma_device_list s) \<inter> set (channels (devs ?s1 d)) = {}"
    using eng_invD(1) [OF assms(2,3)] by (intro pub_chans_disjoint) (simp_all add: ref_count_topo)
  from same_but_counts_disc [OF assms(1) this] pv eng_invD(3) [OF assms(2,3)] show ?thesis
    using dev_disc_private [of s d r "dmaengine_ref_count s"]
    by (simp add: ref_count_disc ref_count_private)
qed

lemma get_devs_inv:
  assumes "env_wf env" and "eng_inv K s"
    and "s1 = s\<lparr>dmaengine_ref_count := dmaengine_ref_count s + 1\<rparr>"
    and "s2 = get_devs env (dma_device_list s) s1"
  shows "eng_inv K s2" and "dmaengine_ref_count s2 = dmaengine_ref_count s + 1"
    and "same_but_counts (pub_chans s1 (dma_device_list s)) s1 s2"
proof -
  have g: "same_but_counts (pub_chans s1 (dma_device_list s)) s1 s2 \<and>
      distinct (dma_device_list s2) \<and> set (dma_device_list s2) \<subseteq> set (dma_device_list s1) \<and>
      (\<forall>d\<in>set (dma_device_list s) \<inter> set (dma_device_list s2).
         dev_disc (dmaengine_ref_count s + 1) s2 d)"
    using assms(1,2) eng_inv_listed [OF assms(2)] unfolding assms(3,4)
    by (intro get_devs_step) (simp_all add: eng_inv_def ref_count_disc ref_count_topo)
  then show sb: "same_but_counts (pub_chans s1 (dma_device_list s)) s1 s2" by blast
  show r2: "dmaengine_ref_count s2 = dmaengine_ref_count s + 1"
    using same_but_countsD(2) [OF sb] by (simp add: assms(3))
  have "dev_disc (dmaengine_ref_count s + 1) s2 d" if "d \<in> K" "dev_private s2 d" for d
    by (rule off_list_disc [OF sb [unfolded assms(3)] assms(2) that])
  then show "eng_inv K s2"
    using g assms(2) r2 same_but_counts_topo [OF sb] by (auto simp: assms(3) eng_inv_def ref_count_topo)
qed

lemma dmaengine_get_eq:
  assumes "s1 = s\<lparr>dmaengine_ref_count := dmaengine_ref_count s + 1\<rparr>"
    and "s2 = get_devs env (dma_device_list s) s1"
  shows "dmaengine_get env s = (if dmaengine_ref_count s2 = 1 then dma_channel_rebalance env s2 else s2)"
  by (simp add: assms dmaengine_get_def Let_def)

lemma dmaengine_get_inv:
  assumes "env_wf env" and "eng_inv K s"
  shows "eng_inv K (dmaengine_get env s)"
    and "dmaengine_ref_count (dmaengine_get env s) = dmaengine_ref_count s + 1"
proof -
  define s1 where "s1 = s\<lparr>dmaengine_ref_count := dmaengine_ref_count s + 1\<rparr>"
  define s2 where "s2 = get_devs env (dma_device_list s) s1"
  note g = get_devs_inv [OF assms s1_def s2_def]
  show "eng_inv K (dmaengine_get env s)"
    using g(1) by (auto simp: dmaengine_get_eq [OF s1_def s2_def] intro: eng_inv_table_step rebalance_step)
  show "dmaengine_ref_count (dmaengine_get env s) = dmaengine_ref_count s + 1"
    using g(2) by (auto simp: dmaengine_get_eq [OF s1_def s2_def])
qed

lemma dmaengine_put_inv:
  assumes "env_wf env" and "eng_inv K s" and "0 < dmaengine_ref_count s"
  shows "\<exists>s'. dmaengine_put env s = Inr s' \<and> eng_inv K s' \<and>
    dmaengine_ref_count s' = dmaengine_ref_count s - 1 \<and> dma_device_list s' = dma_device_list s \<and>
    same_but_counts (pub_chans s (dma_device_list s))
      (s\<lparr>dmaengine_ref_count := dmaengine_ref_count s - 1\<rparr>) s'"
proof -
  let ?s1 = "s\<lparr>dmaengine_ref_count := dmaengine_ref_count s - 1\<rparr>"
  let ?s2 = "put_devs env (dma_device_list s) ?s1"
  have g: "same_but_counts (pub_chans ?s1 (dma_device_list s)) ?s1 ?s2 \<and>
      dma_device_list ?s2 = dma_device_list ?s1 \<and>
      (\<forall>d\<in>set (dma_device_list s). dev_disc (dmaengine_ref_count s - 1) ?s2 d)"
    using assms eng_inv_listed [OF assms(2)]
    by (intro put_devs_step) (simp_all add: eng_inv_def ref_count_disc ref_count_topo)
  then have sb: "same_but_counts (pub_chans ?s1 (dma_device_list s)) ?s1 ?s2"
    by blast
  have "dev_disc (dmaengine_ref_count s - 1) ?s2 d" if "d \<in> K" "dev_private ?s2 d" for d
    by (rule off_list_disc [OF sb assms(2) that])
  then have "eng_inv K ?s2"
    using g assms same_but_countsD(2) [OF sb] same_but_counts_topo [OF sb]
    by (simp add: eng_inv_def ref_count_topo)
  then show ?thesis
    using assms(3) g same_but_countsD(2) [OF sb] by (simp add: dmaengine_put_def ref_count_pub)
qed

subsection \<open>Requesting and releasing a private channel\<close>

lemma first_freeD:
  "first_free s fn cs = Some c \<Longrightarrow>
    c \<in> set cs \<and> client_count (chans s c) = 0 \<and> (\<forall>f. fn = Some f \<longrightarrow> f c)"
  by (induction cs) (auto split: if_splits option.splits)

lemma candidateD:
  assumes "private_candidate msk d fn s = Some c" and "dev_topo s d" and "dev_disc r s d"
  shows "c \<in> set (channels (devs s d))" "client_count (chans s c) = 0"
    "fn = Some f \<Longrightarrow> f c" "msk \<subseteq> cap_mask (devs s d)" "ch_device (chans s c) = d"
    "\<not> dev_private s d \<Longrightarrow> busy s d = {}"
proof -
  have ff: "first_free s fn (channels (devs s d)) = Some c"
    and msk: "dma_device_satisfies_mask (devs s d) msk"
    and nb: "\<not> dev_private s d \<Longrightarrow> 1 < chancnt (devs s d) \<Longrightarrow>
      \<forall>c\<in>set (channels (devs s d)). client_count (chans s c) = 0"
    using assms(1) by (auto simp: private_candidate_def Let_def dev_private_def split: if_splits)
  from first_freeD [OF ff] show c: "c \<in> set (channels (devs s d))" "client_count (chans s c) = 0"
    "fn = Some f \<Longrightarrow> f c" by auto
  show "msk \<subseteq> cap_mask (devs s d)"
    using msk by (auto simp: dma_device_satisfies_mask_def Let_def)
  show "ch_device (chans s c) = d" using c assms(2) by (simp add: dev_topo_def)
  assume pub: "\<not> dev_private s d"
  show "busy s d = {}"
  proof (cases "1 < chancnt (devs s d)")
    case True
    with nb pub show ?thesis by (auto simp: busy_def)
  next
    case False
    then have "length (channels (devs s d)) \<le> 1" using assms(2) by (simp add: dev_topo_def)
    with c(1) have "set (channels (devs s d)) = {c}"
      by (cases "channels (devs s d)" rule: list.exhaust) auto
    with c(2) show ?thesis by (auto simp: busy_def)
  qed
qed

lemma busy_card_bound:
  assumes "dev_topo s d" and "c \<in> set (channels (devs s d))" and "client_count (chans s c) = 0"
  shows "card (busy s d) < length (channels (devs s d))"
proof -
  have "busy s d \<subset> set (channels (devs s d))" using assms(2,3) by (auto simp: busy_def)
  then have "card (busy s d) < card (set (channels (devs s d)))" by (rule psubset_card_mono [rotated]) simp
  with card_length show ?thesis by (meson less_le_trans)
qed

lemma privatecnt_bound:
  assumes "dev_topo s d" and "dev_disc r s d" and "c \<in> set (channels (devs s d))"
    and "client_count (chans s c) = 0"
  shows "unat (privatecnt (devs s d) + 1) = unat (privatecnt (devs s d)) + 1"
    and "privatecnt (devs s d) + 1 \<noteq> 0"
proof -
  have "unat (privatecnt (devs s d)) \<le> length (channels (devs s d))"
    using busy_card_bound [OF assms(1,3,4)] assms(2) by (simp add: dev_disc_def split: if_splits)
  also have "\<dots> < 2 ^ 32 - 1" using assms(1) by (simp add: dev_topo_def)
  finally have "unat (privatecnt (devs s d)) + unat (1 :: u32) < 2 ^ LENGTH(32)" by simp
  from unat_add_small [OF this]
  show u: "unat (privatecnt (devs s d) + 1) = unat (privatecnt (devs s d)) + 1" by simp
  show "privatecnt (devs s d) + 1 \<noteq> 0"
  proof
    assume "privatecnt (devs s d) + 1 = 0"
    with u show False by simp
  qed
qed

text \<open>Withdrawing a request that failed restores the device.\<close>

lemma drop_set_private:
  assumes "dev_disc r s d"
  shows "drop_private (set_private (devs s d)) = devs s d"
proof -
  have "DMA_PRIVATE \<in> cap_mask (devs s d) \<longleftrightarrow> privatecnt (devs s d) \<noteq> 0"
    using assms by (auto simp: dev_disc_def dev_private_def dma_has_cap_def split: if_splits)
  then show ?thesis
    by (auto simp: drop_private_def set_private_def Let_def dma_cap_set_def dma_cap_clear_def
        insert_absorb)
qed

lemma upd_dev_chans [simp]:
  "chans (upd_dev d f s) = chans s" "mods (upd_dev d f s) = mods s"
  "dma_device_list (upd_dev d f s) = dma_device_list s"
  "dmaengine_ref_count (upd_dev d f s) = dmaengine_ref_count s"
  "channel_table (upd_dev d f s) = channel_table s"
  "devs (upd_dev d f s) = (devs s)(d := f (devs s d))"
  "copy_dmaengine_ref_count (upd_dev d f s) = copy_dmaengine_ref_count s"
  by (simp_all add: upd_dev_def)

lemma busy_insert:
  assumes "channels (devs s' d) = channels (devs s d)" and "c \<in> set (channels (devs s d))"
    and "client_count (chans s c) = 0" and "client_count (chans s' c) \<noteq> 0"
    and "\<And>x. x \<noteq> c \<Longrightarrow> chans s' x = chans s x"
  shows "busy s' d = insert c (busy s d)" and "card (busy s' d) = card (busy s d) + 1"
proof -
  show eq: "busy s' d = insert c (busy s d)"
  proof (rule set_eqI)
    fix x
    show "x \<in> busy s' d \<longleftrightarrow> x \<in> insert c (busy s d)"
      using assms by (cases "x = c") (simp_all add: busy_def)
  qed
  have "finite (busy s d)" "c \<notin> busy s d" using assms(3) by (simp_all add: busy_def)
  with eq show "card (busy s' d) = card (busy s d) + 1" by simp
qed

lemma grab_private_inv:
  assumes "env_wf env" and "eng_inv K s" and "d \<in> set (dma_device_list s)"
    and "private_candidate msk d fn s = Some c"
    and "dma_chan_get env c (upd_dev d set_private s) = (None, s')"
  shows "eng_inv K s'" and "client_count (chans s' c) = 1" and "dev_private s' d"
    and "\<forall>x. x \<noteq> c \<longrightarrow> chans s' x = chans s x"
    and "dma_device_list s' = dma_device_list s"
    and "dmaengine_ref_count s' = dmaengine_ref_count s"
    and "devs s' = (devs s)(d := set_private (devs s d))"
proof -
  let ?s1 = "upd_dev d set_private s"
  have topo: "dev_topo s d" and disc: "dev_disc (dmaengine_ref_count s) s d"
    by (rule eng_inv_listed [OF assms(2,3)])+
  note cand = candidateD [OF assms(4) topo disc]
  have "\<not> chan_public ?s1 c"
    using cand(5) by (simp add: chan_public_def set_private_def dma_cap_set_def dma_has_cap_def)
  with cand(2) have st: "count_step env c 1 ?s1 s'"
    using chan_get_step [OF assms(1,5)] by simp
  note sb = count_stepD(3) [OF st] and D = same_but_countsD [OF count_stepD(3) [OF st]]
  show dv: "devs s' = (devs s)(d := set_private (devs s d))" using D(1) by simp
  show cc: "client_count (chans s' c) = 1" by (rule count_stepD(1) [OF st])
  have oth: "x \<noteq> c \<Longrightarrow> chans s' x = chans s x" for x
    using same_but_counts_other [OF sb, of x] by simp
  then show "\<forall>x. x \<noteq> c \<longrightarrow> chans s' x = chans s x" by blast
  show ls: "dma_device_list s' = dma_device_list s" using count_stepD(2) [OF st] by simp
  show rc: "dmaengine_ref_count s' = dmaengine_ref_count s" using D(2) by simp
  show pv: "dev_private s' d"
    by (simp add: dv dev_private_def set_private_def dma_cap_set_def dma_has_cap_def)
  have chs: "channels (devs s' d) = channels (devs s d)" by (simp add: dv)
  have bz: "card (busy s' d) = card (busy s d) + 1"
    by (rule busy_insert(2) [OF chs cand(1,2)]) (use cc oth in auto)
  note pb = privatecnt_bound [OF topo disc cand(1,2)]
  have cnt: "client_count (chans s' x) \<in> {0, 1}" if "x \<in> set (channels (devs s d))" for x
  proof (cases "x = c")
    case False
    then show ?thesis
      using that disc cand(6) oth [of x] by (auto simp: dev_disc_def busy_def split: if_splits)
  qed (simp add: cc)
  have "dev_disc (dmaengine_ref_count s') s' d"
    using cnt pv bz pb disc cand(6)
    by (auto simp: dev_disc_def dv set_private_def split: if_splits)
  moreover have "dev_disc (dmaengine_ref_count s') s' x"
    if x: "x \<in> K" "x \<noteq> d" "x \<in> set (dma_device_list s) \<or> dev_private s' x" for x
  proof -
    have pv: "dev_private s' x = dev_private s x" using x by (simp add: dv dev_private_def)
    have "c \<notin> set (channels (devs s x))"
      using x topo_disjoint [OF topo eng_invD(1) [OF assms(2)] cand(1)] by simp
    then have "dev_disc (dmaengine_ref_count s) s' x = dev_disc (dmaengine_ref_count s) s x"
      using x(2) oth by (intro dev_disc_cong) (simp add: dv, metis)
    with x eng_invD [OF assms(2), of x] rc pv show ?thesis by auto
  qed
  moreover have "dev_topo s' x" if x: "x \<in> K" for x
    using x assms(2) D(8) by (auto simp: eng_inv_def dev_topo_def dv set_private_def)
  ultimately show "eng_inv K s'" using assms(2) ls rc unfolding eng_inv_def by (metis (full_types))
qed

text \<open>A request that fails on a device leaves every count and every device as it was.\<close>

lemma failed_grab:
  assumes "env_wf env" and "eng_inv K s" and "d \<in> set (dma_device_list s)"
    and "private_candidate msk d fn s = Some c"
    and "dma_chan_get env c (upd_dev d set_private s) = (Some e, s1)"
    and "s' = upd_dev d drop_private (if e = ENODEV then list_del_dev d s1 else s1)"
  shows "eng_inv K s'" and "chans s' = chans s" and "devs s' = devs s"
    and "dma_device_list s' = (if e = ENODEV then remove1 d (dma_device_list s) else dma_device_list s)"
    and "dmaengine_ref_count s' = dmaengine_ref_count s"
proof -
  have topo: "dev_topo s d" and disc: "dev_disc (dmaengine_ref_count s) s d"
    by (rule eng_inv_listed [OF assms(2,3)])+
  note cand = candidateD [OF assms(4) topo disc]
  have st: "count_step env c 0 (upd_dev d set_private s) s1"
    using chan_get_step [OF assms(1,5)] by simp
  note sb = count_stepD(3) [OF st] and D = same_but_countsD [OF count_stepD(3) [OF st]]
  have "chans s1 x = chans s x" for x
  proof (cases "x = c")
    case True
    have "chans s1 c = (chans s c)\<lparr>client_count := client_count (chans s1 c)\<rparr>"
      using sb by (simp add: same_but_counts_def)
    with count_stepD(1) [OF st] cand(2) True show ?thesis by simp
  qed (use same_but_counts_other [OF sb, of x] in simp)
  then show ch: "chans s' = chans s" by (auto simp: assms(6) list_del_dev_def)
  show dv: "devs s' = devs s"
    using D(1) drop_set_private [OF disc] by (simp add: assms(6) list_del_dev_def)
  show ls: "dma_device_list s' =
      (if e = ENODEV then remove1 d (dma_device_list s) else dma_device_list s)"
    using count_stepD(2) [OF st] by (simp add: assms(6) list_del_dev_def)
  show rc: "dmaengine_ref_count s' = dmaengine_ref_count s"
    using D(2) by (simp add: assms(6) list_del_dev_def)
  have "set (dma_device_list s') \<subseteq> set (dma_device_list s)" "distinct (dma_device_list s')"
    using assms(2) ls set_remove1_subset by (auto simp: eng_inv_def)
  then show "eng_inv K s'"
    using assms(2) rc dev_disc_cong [of s' _ s] dev_topo_cong [of s' _ s] ch dv
    by (auto simp: eng_inv_def dev_private_def)
qed

text \<open>What a successful and an unsuccessful scan for a private channel do.\<close>

definition exclusive_grant :: "dma_cap_mask \<Rightarrow> (nat \<Rightarrow> bool) option \<Rightarrow> 'd engine \<Rightarrow> nat \<Rightarrow> 'd engine \<Rightarrow> bool"
  where
  "exclusive_grant msk fn s c s' \<longleftrightarrow> (let d = ch_device (chans s c) in
     d \<in> set (dma_device_list s) \<and> c \<in> set (channels (devs s d)) \<and> msk \<subseteq> cap_mask (devs s d) \<and>
     (\<forall>f. fn = Some f \<longrightarrow> f c) \<and> client_count (chans s c) = 0 \<and> client_count (chans s' c) = 1 \<and>
     (\<forall>x. x \<noteq> c \<longrightarrow> chans s' x = chans s x) \<and> dev_private s' d \<and>
     (\<not> dev_private s d \<longrightarrow> busy s d = {}) \<and>
     devs s' = (devs s)(d := set_private (devs s d)))"

lemma request_scan_inv:
  assumes "env_wf env" and "eng_inv K s" and "set ds \<subseteq> set (dma_device_list s)" and "distinct ds"
    and "request_scan env msk fn ds s = (r, s')"
  shows "eng_inv K s' \<and> dmaengine_ref_count s' = dmaengine_ref_count s \<and>
    (case r of None \<Rightarrow> chans s' = chans s \<and> devs s' = devs s | Some c \<Rightarrow> exclusive_grant msk fn s c s')"
  using assms
proof (induction ds arbitrary: s)
  case Nil
  then show ?case by simp
next
  case (Cons d ds)
  have d: "d \<in> set (dma_device_list s)" using Cons.prems(3) by simp
  show ?case
  proof (cases "private_candidate msk d fn s")
    case None
    with Cons show ?thesis by simp
  next
    case (Some c)
    have topo: "dev_topo s d" and disc: "dev_disc (dmaengine_ref_count s) s d"
      by (rule eng_inv_listed [OF Cons.prems(2) d])+
    note cand = candidateD [OF Some topo disc]
    obtain e s1 where g: "dma_chan_get env c (upd_dev d set_private s) = (e, s1)"
      by (cases "dma_chan_get env c (upd_dev d set_private s)")
    show ?thesis
    proof (cases e)
      case None
      then have rs: "r = Some c" "s' = s1" using Cons.prems(5) Some g by simp_all
      from grab_private_inv [OF Cons.prems(1,2) d Some g [unfolded None]] cand d
      show ?thesis unfolding rs by (auto simp: exclusive_grant_def Let_def)
    next
      case e: (Some err)
      define s2 where "s2 = upd_dev d drop_private (if err = ENODEV then list_del_dev d s1 else s1)"
      note f = failed_grab [OF Cons.prems(1,2) d Some g [unfolded e] s2_def]
      have sub: "set ds \<subseteq> set (dma_device_list s2)" "set (dma_device_list s2) \<subseteq> set (dma_device_list s)"
        using Cons.prems(2,3,4) f(4) by (auto simp: eng_inv_def)
      have sc: "request_scan env msk fn ds s2 = (r, s')"
        using Cons.prems(5) Some g e by (simp add: s2_def)
      have "distinct ds" using Cons.prems(4) by simp
      from Cons.IH [OF Cons.prems(1) f(1) sub(1) this sc] f sub(2)
      show ?thesis
        by (auto simp: exclusive_grant_def Let_def dev_private_def busy_def split: option.splits)
    qed
  qed
qed

lemma request_channel_inv:
  assumes "env_wf env" and "eng_inv K s" and "dma_request_channel env msk fn s = (r, s')"
  shows "eng_inv K s'" "dmaengine_ref_count s' = dmaengine_ref_count s"
    "r = None \<Longrightarrow> chans s' = chans s \<and> devs s' = devs s"
    "r = Some c \<Longrightarrow> exclusive_grant msk fn s c s'"
proof -
  have "distinct (dma_device_list s)" using assms(2) by (simp add: eng_inv_def)
  from request_scan_inv [OF assms(1,2) subset_refl this assms(3) [unfolded dma_request_channel_def]]
  show "eng_inv K s'" "dmaengine_ref_count s' = dmaengine_ref_count s"
    "r = None \<Longrightarrow> chans s' = chans s \<and> devs s' = devs s"
    "r = Some c \<Longrightarrow> exclusive_grant msk fn s c s'" by auto
qed

lemma busy_remove:
  assumes "channels (devs s' d) = channels (devs s d)" and "c \<in> set (channels (devs s d))"
    and "client_count (chans s c) \<noteq> 0" and "client_count (chans s' c) = 0"
    and "\<And>x. x \<noteq> c \<Longrightarrow> chans s' x = chans s x"
  shows "card (busy s d) = card (busy s' d) + 1"
  by (rule busy_insert(2) [of s d s' c]) (use assms in auto)

text \<open>A channel that a client holds privately.\<close>

definition held_privately :: "'d engine \<Rightarrow> nat \<Rightarrow> bool" where
  "held_privately s c \<longleftrightarrow> client_count (chans s c) = 1 \<and> dev_private s (ch_device (chans s c)) \<and>
     c \<in> set (channels (devs s (ch_device (chans s c))))"

lemma release_channel_step:
  assumes "env_wf env" and "held_privately s c"
  shows "client_count (chans (dma_release_channel env c s) c) = 0"
    and "\<forall>x. x \<noteq> c \<longrightarrow> chans (dma_release_channel env c s) x = chans s x"
    and "ch_device (chans (dma_release_channel env c s) x) = ch_device (chans s x)"
    and "devs (dma_release_channel env c s) =
      (devs s)(ch_device (chans s c) := drop_private (devs s (ch_device (chans s c))))"
    and "dma_device_list (dma_release_channel env c s) = dma_device_list s"
    and "dmaengine_ref_count (dma_release_channel env c s) = dmaengine_ref_count s"
proof -
  have st: "count_step env c 0 s (dma_chan_put env c s)"
    using chan_put_step [OF assms(1), of c s] assms(2) by (simp add: held_privately_def)
  note D = same_but_countsD [OF count_stepD(3) [OF st]]
  show "client_count (chans (dma_release_channel env c s) c) = 0"
    using count_stepD(1) [OF st] by (simp add: dma_release_channel_def Let_def)
  show "\<forall>x. x \<noteq> c \<longrightarrow> chans (dma_release_channel env c s) x = chans s x"
    using same_but_counts_other [OF count_stepD(3) [OF st]]
    by (simp add: dma_release_channel_def Let_def)
  show "ch_device (chans (dma_release_channel env c s) x) = ch_device (chans s x)"
    using D(8) by (simp add: dma_release_channel_def Let_def)
  show "devs (dma_release_channel env c s) =
      (devs s)(ch_device (chans s c) := drop_private (devs s (ch_device (chans s c))))"
    using D(1,8) by (simp add: dma_release_channel_def Let_def)
  show "dma_device_list (dma_release_channel env c s) = dma_device_list s"
    "dmaengine_ref_count (dma_release_channel env c s) = dmaengine_ref_count s"
    using count_stepD(2) [OF st] D(2) by (simp_all add: dma_release_channel_def Let_def)
qed

lemma release_channel_inv:
  assumes "env_wf env" and "eng_inv K s" and "held_privately s c"
  shows "eng_inv K (dma_release_channel env c s)"
proof -
  let ?s' = "dma_release_channel env c s"
  let ?d = "ch_device (chans s c)"
  note R = release_channel_step [OF assms(1,3)]
  have hp: "client_count (chans s c) = 1" "dev_private s ?d" "c \<in> set (channels (devs s ?d))"
    using assms(3) by (simp_all add: held_privately_def)
  have "dev_topo ?s' x \<and> dev_disc (dmaengine_ref_count ?s') ?s' x" if x: "x \<in> K"
    "x \<in> set (dma_device_list s) \<or> dev_private s x" for x
  proof (cases "x = ?d")
    case False
    have topo: "dev_topo s x" and disc: "dev_disc (dmaengine_ref_count s) s x"
      using x eng_invD [OF assms(2), of x] by auto
    have "c \<notin> set (channels (devs s x))" using topo False by (auto simp: dev_topo_def)
    then have "dev_disc (dmaengine_ref_count s) ?s' x = dev_disc (dmaengine_ref_count s) s x"
      using False R by (intro dev_disc_cong) (auto, metis)
    moreover have "dev_topo ?s' x = dev_topo s x"
      using False R by (intro dev_topo_cong) auto
    ultimately show ?thesis using topo disc R(6) by simp
  next
    case True
    have topo: "dev_topo s ?d" and disc: "dev_disc (dmaengine_ref_count s) s ?d"
      using x True eng_invD [OF assms(2), of ?d] hp(2) by auto
    let ?p = "privatecnt (devs s ?d)"
    have chs: "channels (devs ?s' ?d) = channels (devs s ?d)" by (simp add: R(4))
    have bz: "card (busy s ?d) = card (busy ?s' ?d) + 1"
      by (rule busy_remove [OF chs hp(3)]) (use hp R in auto)
    have p: "?p \<noteq> 0" "card (busy s ?d) \<le> unat ?p" "unat ?p \<le> card (busy s ?d) + 1"
      and c01: "\<forall>y\<in>set (channels (devs s ?d)). client_count (chans s y) \<in> {0, 1}"
      using disc hp(2) by (simp_all add: dev_disc_def)
    have up: "unat (?p - 1) = unat ?p - 1"
      using p(2) bz by (simp add: unat_diff_small)
    have cnt: "client_count (chans ?s' y) \<in> {0, 1}" if "y \<in> set (channels (devs s ?d))" for y
      using that c01 R(1,2) by (cases "y = c") auto
    have "dev_disc (dmaengine_ref_count s) ?s' ?d"
    proof (cases "?p - 1 = 0")
      case True
      then have "unat ?p \<le> 1" using up by simp
      then have "card (busy ?s' ?d) = 0" using p(2) bz by simp
      then have "busy ?s' ?d = {}" by (simp add: busy_def)
      then have "\<forall>y\<in>set (channels (devs s ?d)). client_count (chans ?s' y) = 0"
        using chs by (auto simp: busy_def)
      with True show ?thesis
        by (simp add: dev_disc_def dev_private_def R(4) drop_private_def Let_def dma_has_cap_def
            dma_cap_clear_def)
    next
      case False
      then show ?thesis
        using cnt p bz up hp(2)
        by (simp add: dev_disc_def dev_private_def R(4) drop_private_def Let_def) linarith
    qed
    moreover have "dev_topo ?s' ?d"
      using topo by (simp add: dev_topo_def R drop_private_def Let_def)
    ultimately show ?thesis using True R(6) by simp
  qed
  moreover have "dev_topo ?s' x" if "x \<in> K" for x
    using that eng_invD(1) [OF assms(2), of x] by (auto simp: dev_topo_def R drop_private_def Let_def)
  moreover have "dev_private s x" if "dev_private ?s' x" for x
    using that hp(2) R(4) by (auto simp: dev_private_def split: if_splits)
  ultimately show ?thesis using assms(2) R(5,6) unfolding eng_inv_def by metis
qed

subsection \<open>Module references follow channel references\<close>

text \<open>The channels of every device on the list belong to the accounted set.\<close>

definition listed_in :: "nat set \<Rightarrow> 'd engine \<Rightarrow> bool" where
  "listed_in U s \<longleftrightarrow> finite U \<and> (\<forall>d\<in>set (dma_device_list s). set (channels (devs s d)) \<subseteq> U)"

lemma keeps_get_chans:
  assumes "env_wf env" and "finite U" and "set cs \<subseteq> U"
  shows "keeps env U s (get_chans env d cs s)"
  using assms(3)
proof (induction cs arbitrary: s)
  case (Cons c cs)
  obtain e s1 where g: "dma_chan_get env c s = (e, s1)" by (cases "dma_chan_get env c s")
  have k: "keeps env U s s1"
    using keeps_chan_get [OF assms(1,2), of c s] Cons.prems g by simp
  show ?case
    using g keeps_trans [OF k] Cons keeps_list_del [of env U s1 d] by simp
qed (simp add: keeps_refl)

lemma keeps_get_devs:
  assumes "env_wf env" and "finite U" and "\<forall>d\<in>set ds. set (channels (devs s d)) \<subseteq> U"
  shows "keeps env U s (get_devs env ds s)"
  using assms(3)
proof (induction ds arbitrary: s)
  case (Cons d ds)
  let ?s1 = "if dma_has_cap DMA_PRIVATE (cap_mask (devs s d)) then s
    else get_chans env d (channels (devs s d)) s"
  have k: "keeps env U s ?s1"
    using Cons.prems by (simp add: keeps_refl keeps_get_chans [OF assms(1,2)])
  have "keeps env U ?s1 (get_devs env ds ?s1)"
    using Cons.prems keeps_channels [OF k] by (intro Cons.IH) simp
  with k show ?case using keeps_trans by fastforce
qed (simp add: keeps_refl)

lemma keeps_put_chans:
  assumes "env_wf env" and "finite U" and "set cs \<subseteq> U"
  shows "keeps env U s (fold (dma_chan_put env) cs s)"
  using assms(3)
proof (induction cs arbitrary: s)
  case (Cons c cs)
  then show ?case
    using keeps_trans [OF keeps_chan_put [OF assms(1,2), of c s]] by simp
qed (simp add: keeps_refl)

lemma keeps_put_devs:
  assumes "env_wf env" and "finite U" and "\<forall>d\<in>set ds. set (channels (devs s d)) \<subseteq> U"
  shows "keeps env U s (put_devs env ds s)"
  using assms(3)
proof (induction ds arbitrary: s)
  case (Cons d ds)
  let ?s1 = "if dma_has_cap DMA_PRIVATE (cap_mask (devs s d)) then s
    else fold (dma_chan_put env) (channels (devs s d)) s"
  have k: "keeps env U s ?s1"
    using Cons.prems by (simp add: keeps_refl keeps_put_chans [OF assms(1,2)])
  have "keeps env U ?s1 (put_devs env ds ?s1)"
    using Cons.prems keeps_channels [OF k] by (intro Cons.IH) simp
  with k show ?case using keeps_trans by fastforce
qed (simp add: keeps_refl)

lemma keeps_ref_count: "keeps env U s (s\<lparr>dmaengine_ref_count := k\<rparr>)"
  by (rule keeps_frame) simp_all

lemma keeps_dmaengine_get:
  assumes "env_wf env" and "listed_in U s"
  shows "keeps env U s (dmaengine_get env s)"
proof -
  let ?s1 = "s\<lparr>dmaengine_ref_count := dmaengine_ref_count s + 1\<rparr>"
  have k: "keeps env U s (get_devs env (dma_device_list s) ?s1)"
    using assms by (intro keeps_trans [OF keeps_ref_count keeps_get_devs]) (simp_all add: listed_in_def)
  then show ?thesis
    by (auto simp: dmaengine_get_def Let_def
        intro: keeps_trans keeps_table_step rebalance_step)
qed

lemma keeps_dmaengine_put:
  assumes "env_wf env" and "listed_in U s" and "dmaengine_put env s = Inr s'"
  shows "keeps env U s s'"
proof -
  let ?s1 = "s\<lparr>dmaengine_ref_count := dmaengine_ref_count s - 1\<rparr>"
  have k: "keeps env U s (put_devs env (dma_device_list s) ?s1)"
    using assms by (intro keeps_trans [OF keeps_ref_count keeps_put_devs]) (simp_all add: listed_in_def)
  then show ?thesis using assms(3) by (auto simp: dmaengine_put_def Let_def split: if_splits)
qed

lemma keeps_request_scan:
  assumes "env_wf env" and "finite U" and "\<forall>d\<in>set ds. set (channels (devs s d)) \<subseteq> U"
  shows "keeps env U s (snd (request_scan env msk fn ds s))"
  using assms(3)
proof (induction ds arbitrary: s)
  case (Cons d ds)
  show ?case
  proof (cases "private_candidate msk d fn s")
    case None
    with Cons show ?thesis by simp
  next
    case (Some c)
    obtain e s1 where g: "dma_chan_get env c (upd_dev d set_private s) = (e, s1)"
      by (cases "dma_chan_get env c (upd_dev d set_private s)")
    have "c \<in> set (channels (devs s d))"
      using Some by (auto simp: private_candidate_def Let_def dest: first_freeD split: if_splits)
    then have "c \<in> U" using Cons.prems by auto
    from keeps_chan_get [OF assms(1,2) this, of "upd_dev d set_private s"]
    have k: "keeps env U s s1"
      using g keeps_trans [OF keeps_upd_dev [of set_private env U s d]] by simp
    let ?s2 = "upd_dev d drop_private (if e = Some ENODEV then list_del_dev d s1 else s1)"
    have "keeps env U s1 ?s2"
      by (auto intro: keeps_trans [OF keeps_list_del keeps_upd_dev] keeps_upd_dev)
    with k have k2: "keeps env U s ?s2" by (rule keeps_trans)
    have "keeps env U ?s2 (snd (request_scan env msk fn ds ?s2))"
      using Cons.prems keeps_channels [OF k2] by (intro Cons.IH) simp
    with k k2 show ?thesis using Some g keeps_trans by (auto split: option.splits)
  qed
qed (simp add: keeps_refl)

lemma keeps_release:
  assumes "env_wf env" and "finite U" and "c \<in> U"
  shows "keeps env U s (dma_release_channel env c s)"
  unfolding dma_release_channel_def Let_def
  by (rule keeps_trans [OF keeps_chan_put [OF assms] keeps_upd_dev]) simp_all

end
