(* ===== verification/Dma_Table.thy ===== *)
theory Dma_Table
  imports Dma_Engine_Inv
begin

text \<open>
  The per-CPU channel table of \<^verbatim>\<open>dmaengine.c\<close>: the nested scan of \<open>nth_chan\<close> is shown equal to a
  reference definition on the flat list of eligible channels, and \<open>dma_channel_rebalance\<close> to fill
  the table with eligible channels only and to give every CPU a channel of its own for
  memory copies as long as there are enough of them.
\<close>

definition dev_eligible :: "'d engine \<Rightarrow> dma_transaction_type \<Rightarrow> nat \<Rightarrow> bool" where
  "dev_eligible s cap d \<longleftrightarrow>
     dma_has_cap cap (cap_mask (devs s d)) \<and> \<not> dma_has_cap DMA_PRIVATE (cap_mask (devs s d))"

text \<open>The channels a client may be given for an operation, in the order of the device list.\<close>

definition eligible :: "'d engine \<Rightarrow> dma_transaction_type \<Rightarrow> nat list" where
  "eligible s cap = concat (map (\<lambda>d. filter (\<lambda>c. client_count (chans s c) \<noteq> 0) (channels (devs s d)))
     (filter (dev_eligible s cap) (dma_device_list s)))"

text \<open>The first channel with the lowest table count, starting from a candidate.\<close>

definition pick_min :: "'d engine \<Rightarrow> nat option \<Rightarrow> nat \<Rightarrow> nat option" where
  "pick_min s m c = (case m of None \<Rightarrow> Some c
     | Some x \<Rightarrow> if table_count (chans s c) < table_count (chans s x) then Some c else Some x)"

definition min_table :: "'d engine \<Rightarrow> nat option \<Rightarrow> nat list \<Rightarrow> nat option" where
  "min_table s m cs = foldl (pick_min s) m cs"

definition nth_or_min :: "'d engine \<Rightarrow> int \<Rightarrow> nat option \<Rightarrow> nat list \<Rightarrow> nat option" where
  "nth_or_min s n m cs =
     (if 0 \<le> n \<and> nat n < length cs then Some (cs ! nat n) else min_table s m cs)"

lemma min_table_simps [simp]:
  "min_table s m [] = m" "min_table s m (c # cs) = min_table s (pick_min s m c) cs"
  by (simp_all add: min_table_def)

lemma min_table_append: "min_table s m (xs @ ys) = min_table s (min_table s m xs) ys"
  by (simp add: min_table_def)

lemma nth_or_min_Cons:
  "nth_or_min s n m (c # cs) =
     (if n = 0 then Some c else nth_or_min s (n - 1) (pick_min s m c) cs)"
  by (auto simp: nth_or_min_def nth_Cons' nat_diff_distrib)

lemma scan_chans_eq:
  "scan_chans s cs n m =
     (let fs = filter (\<lambda>c. client_count (chans s c) \<noteq> 0) cs in
      if 0 \<le> n \<and> nat n < length fs
      then (Some (fs ! nat n), - 1, min_table s m (take (nat n + 1) fs))
      else (None, n - int (length fs), min_table s m fs))"
proof (induction cs arbitrary: n m)
  case Nil
  then show ?case by simp
next
  case (Cons c cs)
  show ?case
  proof (cases "client_count (chans s c) = 0")
    case True
    then show ?thesis using Cons by simp
  next
    case False
    have p: "(case m of None \<Rightarrow> Some c
        | Some x \<Rightarrow> if table_count (chans s c) < table_count (chans s x) then Some c else Some x)
      = pick_min s m c" by (simp add: pick_min_def)
    show ?thesis
    proof (cases "n = 0")
      case True
      with False p show ?thesis by (simp add: Let_def)
    next
      case n: False
      have t: "take (nat n + 1) (c # filter (\<lambda>c. client_count (chans s c) \<noteq> 0) cs) =
          c # take (nat (n - 1) + 1) (filter (\<lambda>c. client_count (chans s c) \<noteq> 0) cs)" if "0 \<le> n"
        using that n by (simp add: take_Cons' nat_diff_distrib)
      show ?thesis
        using False n p t Cons [of "n - 1" "pick_min s m c"]
        by (auto simp: Let_def nth_Cons' nat_diff_distrib)
    qed
  qed
qed

lemma scan_devs_eq:
  "scan_devs s cap ds n m =
     (let cs = concat (map (\<lambda>d. filter (\<lambda>c. client_count (chans s c) \<noteq> 0) (channels (devs s d)))
                 (filter (dev_eligible s cap) ds)) in
      (if 0 \<le> n \<and> nat n < length cs then Some (cs ! nat n) else None,
       min_table s m (if 0 \<le> n \<and> nat n < length cs then take (nat n + 1) cs else cs)))"
proof (induction ds arbitrary: n m)
  case Nil
  then show ?case by simp
next
  case (Cons d ds)
  show ?case
  proof (cases "dev_eligible s cap d")
    case False
    then show ?thesis using Cons by (auto simp: dev_eligible_def)
  next
    case True
    let ?fs = "filter (\<lambda>c. client_count (chans s c) \<noteq> 0) (channels (devs s d))"
    let ?k = "length ?fs"
    have e: "dma_has_cap cap (cap_mask (devs s d))" "\<not> dma_has_cap DMA_PRIVATE (cap_mask (devs s d))"
      using True by (simp_all add: dev_eligible_def)
    show ?thesis
    proof (cases "0 \<le> n \<and> nat n < ?k")
      case True
      then show ?thesis
        using e \<open>dev_eligible s cap d\<close> by (simp add: scan_chans_eq Let_def nth_append)
    next
      case False
      then have "0 \<le> n - int ?k \<longleftrightarrow> 0 \<le> n" and nk: "0 \<le> n \<Longrightarrow> nat (n - int ?k) = nat n - ?k"
        by auto
      with False e \<open>dev_eligible s cap d\<close> show ?thesis
        by (auto simp: scan_chans_eq Let_def Cons nth_append min_table_append nk Suc_diff_le)
    qed
  qed
qed

lemma nth_chan_eq:
  "nth_chan cap n s = (let r = nth_or_min s n None (eligible s cap) in
     (r, case r of None \<Rightarrow> s
         | Some c \<Rightarrow> upd_chan c (\<lambda>ch. ch\<lparr>table_count := table_count ch + 1\<rparr>) s))"
  by (simp add: nth_chan_def scan_devs_eq nth_or_min_def eligible_def Let_def)

lemma pick_min_in: "set_option (pick_min s m c) \<subseteq> insert c (set_option m)"
  by (auto simp: pick_min_def split: option.splits if_splits)

lemma min_table_in: "set_option (min_table s m cs) \<subseteq> set_option m \<union> set cs"
proof (induction cs arbitrary: m)
  case (Cons c cs)
  then show ?case using Cons [of "pick_min s m c"] pick_min_in [of s m c] by auto
qed simp

lemma nth_or_min_in: "nth_or_min s n None cs = Some c \<Longrightarrow> c \<in> set cs"
  using min_table_in [of s None cs] by (auto simp: nth_or_min_def split: if_splits)

text \<open>The fallback is a channel whose table count no eligible channel undercuts.\<close>

lemma min_table_min:
  "min_table s m cs = Some c \<Longrightarrow> x \<in> set_option m \<union> set cs \<Longrightarrow>
    table_count (chans s c) \<le> table_count (chans s x)"
proof (induction cs arbitrary: m x)
  case Nil
  then show ?case by simp
next
  case (Cons a cs)
  have m: "min_table s (pick_min s m a) cs = Some c" using Cons.prems(1) by simp
  obtain y where y: "pick_min s m a = Some y"
    by (cases "pick_min s m a") (auto simp: pick_min_def split: option.splits if_splits)
  have "table_count (chans s c) \<le> table_count (chans s y)"
    using Cons.IH [OF m, of y] y by simp
  then show ?case
  proof (cases "x \<in> set cs")
    case True
    then show ?thesis using Cons.IH [OF m, of x] by simp
  next
    case False
    then have "table_count (chans s y) \<le> table_count (chans s x)"
      using Cons.prems(2) y by (auto simp: pick_min_def split: option.splits if_splits)
    with \<open>table_count (chans s c) \<le> table_count (chans s y)\<close> show ?thesis by simp
  qed
qed

subsection \<open>The whole distribution\<close>

lemma eligible_table_step:
  assumes "table_step s s'"
  shows "eligible s' cap = eligible s cap"
proof -
  have "dev_eligible s' cap = dev_eligible s cap"
    by (simp add: dev_eligible_def fun_eq_iff table_stepD [OF assms])
  then show ?thesis by (simp add: eligible_def table_stepD [OF assms])
qed

lemma eligible_iff:
  "c \<in> set (eligible s cap) \<longleftrightarrow> (\<exists>d\<in>set (dma_device_list s).
     dev_eligible s cap d \<and> c \<in> set (channels (devs s d)) \<and> client_count (chans s c) \<noteq> 0)"
  by (auto simp: eligible_def)

lemma set_table_step: "table_step s (set_table cap cpu c s)"
  by (simp add: set_table_def table_step_table)

lemma set_table_get:
  "channel_table (set_table cap cpu c s) cap' cpu' =
     (if cap' = cap \<and> cpu' = cpu then c else channel_table s cap' cpu')"
  by (simp add: set_table_def)

lemma nth_chan_table: "nth_chan cap n s = (r, s') \<Longrightarrow> channel_table s' = channel_table s"
  by (auto simp: nth_chan_def Let_def upd_chan_def split: prod.splits option.splits)

text \<open>
  One row of the table: every online CPU gets an eligible channel, the \<open>n\<close>th one while there
  are enough, and no other entry changes.
\<close>

definition row_filled :: "kenv \<Rightarrow> dma_transaction_type \<Rightarrow> nat list \<Rightarrow> int \<Rightarrow> 'd engine \<Rightarrow> 'd engine \<Rightarrow> bool"
  where
  "row_filled env cap cpus n s s' \<longleftrightarrow>
     (\<forall>cap' cpu. \<not> (cap' = cap \<and> cpu \<in> set cpus) \<longrightarrow>
        channel_table s' cap' cpu = channel_table s cap' cpu) \<and>
     (\<forall>cpu\<in>set cpus. \<forall>c. channel_table s' cap cpu = Some c \<longrightarrow> c \<in> set (eligible s cap)) \<and>
     (1 < length (possible_cpus env) \<longrightarrow> (\<forall>i<length cpus. 0 \<le> n \<and> nat n + i < length (eligible s cap) \<longrightarrow>
        channel_table s' cap (cpus ! i) = Some (eligible s cap ! (nat n + i))))"

lemma assign_cpus_filled:
  assumes "distinct cpus" and "assign_cpus env cap cpus n s = (n', s')"
  shows "row_filled env cap cpus n s s'"
  using assms
proof (induction cpus arbitrary: n s)
  case Nil
  then show ?case by (simp add: row_filled_def)
next
  case (Cons cpu cpus)
  let ?smp = "1 < length (possible_cpus env)"
  let ?k = "if ?smp then n else - 1"
  let ?n1 = "if ?smp then n + 1 else n"
  obtain c s1 where g: "nth_chan cap ?k s = (c, s1)" by (cases "nth_chan cap ?k s")
  let ?s2 = "set_table cap cpu c s1"
  have a: "assign_cpus env cap cpus ?n1 ?s2 = (n', s')"
    using Cons.prems(2) g by (auto split: if_splits)
  have ts: "table_step s ?s2"
    using table_step_trans [OF nth_chan_step [OF g] set_table_step] .
  have c: "c = nth_or_min s ?k None (eligible s cap)" using g by (simp add: nth_chan_eq Let_def)
  have tab: "channel_table ?s2 cap' cpu' =
      (if cap' = cap \<and> cpu' = cpu then c else channel_table s cap' cpu')" for cap' cpu'
    by (simp add: set_table_get nth_chan_table [OF g])
  have IH: "row_filled env cap cpus ?n1 ?s2 s'" using Cons.IH [OF _ a] Cons.prems(1) by simp
  note el = eligible_table_step [OF ts, of cap]
  have keep: "channel_table s' cap cpu = c"
    using IH Cons.prems(1) tab [of cap cpu] by (simp add: row_filled_def)
  have other: "channel_table s' cap' cpu' = channel_table s cap' cpu'"
    if "\<not> (cap' = cap \<and> cpu' \<in> set (cpu # cpus))" for cap' cpu'
    using IH that tab [of cap' cpu'] by (auto simp: row_filled_def)
  have elig: "x \<in> set (eligible s cap)"
    if "cpu' \<in> set (cpu # cpus)" "channel_table s' cap cpu' = Some x" for cpu' x
    using that IH keep c nth_or_min_in [of s ?k "eligible s cap" x] el
    by (auto simp: row_filled_def)
  have nthc: "channel_table s' cap ((cpu # cpus) ! i) = Some (eligible s cap ! (nat n + i))"
    if "?smp" "i < length (cpu # cpus)" "0 \<le> n" "nat n + i < length (eligible s cap)" for i
  proof (cases i)
    case 0
    then show ?thesis using that keep c by (simp add: nth_or_min_def)
  next
    case (Suc j)
    then show ?thesis using that IH el by (auto simp: row_filled_def nat_add_distrib)
  qed
  show ?case unfolding row_filled_def using other elig nthc by blast
qed

lemma assign_caps_filled:
  assumes "distinct (online_cpus env)" and "distinct caps"
  shows "(\<forall>cap cpu. \<not> (cap \<in> set caps \<and> cpu \<in> set (online_cpus env)) \<longrightarrow>
      channel_table (assign_caps env caps n s) cap cpu = channel_table s cap cpu) \<and>
    (\<forall>cap\<in>set caps. \<forall>cpu\<in>set (online_cpus env). \<forall>c.
      channel_table (assign_caps env caps n s) cap cpu = Some c \<longrightarrow> c \<in> set (eligible s cap))"
  using assms(2)
proof (induction caps arbitrary: n s)
  case Nil
  then show ?case by simp
next
  case (Cons cap caps)
  obtain n1 s1 where a: "assign_cpus env cap (online_cpus env) n s = (n1, s1)"
    by (cases "assign_cpus env cap (online_cpus env) n s")
  note row = assign_cpus_filled [OF assms(1) a] and ts = assign_cpus_step [OF a]
  have IH: "(\<forall>cap cpu. \<not> (cap \<in> set caps \<and> cpu \<in> set (online_cpus env)) \<longrightarrow>
      channel_table (assign_caps env caps n1 s1) cap cpu = channel_table s1 cap cpu) \<and>
    (\<forall>cap\<in>set caps. \<forall>cpu\<in>set (online_cpus env). \<forall>c.
      channel_table (assign_caps env caps n1 s1) cap cpu = Some c \<longrightarrow> c \<in> set (eligible s cap))"
    using Cons.IH [of n1 s1] Cons.prems by (simp add: eligible_table_step [OF ts])
  have "cap \<notin> set caps" using Cons.prems by simp
  then show ?case using IH row a by (auto simp: row_filled_def)
qed

lemma fold_counts_table:
  "channel_table (fold (\<lambda>c. upd_chan c (f c)) cs s) = channel_table s"
  by (induction cs arbitrary: s) (simp_all add: upd_chan_def)

lemma zero_counts_table: "channel_table (zero_table_counts ds s) = channel_table s"
  by (induction ds arbitrary: s) (simp_all add: fold_counts_table)

lemma caps_list: "set (for_each_dma_cap_mask dma_cap_mask_all) = dma_cap_mask_all"
  "distinct (for_each_dma_cap_mask dma_cap_mask_all)"
  "for_each_dma_cap_mask dma_cap_mask_all = DMA_MEMCPY # tl (for_each_dma_cap_mask dma_cap_mask_all)"
  by (auto simp: for_each_dma_cap_mask_def dma_cap_mask_all_def tx_types_def)

text \<open>Nothing outside the rows and CPUs of the table is ever set.\<close>

definition table_shape :: "kenv \<Rightarrow> 'd engine \<Rightarrow> bool" where
  "table_shape env s \<longleftrightarrow> (\<forall>cap cpu. channel_table s cap cpu \<noteq> None \<longrightarrow>
     cap \<in> dma_cap_mask_all \<and> cpu \<in> set (possible_cpus env))"

lemma rebalance_entries:
  assumes "env_wf env" and "table_shape env s"
  shows "table_shape env (dma_channel_rebalance env s)"
    and "channel_table (dma_channel_rebalance env s) cap cpu = Some c \<Longrightarrow>
      dmaengine_ref_count s \<noteq> 0 \<and> c \<in> set (eligible s cap)"
proof -
  let ?s1 = "zero_table_counts (dma_device_list s) (clear_table env s)"
  let ?caps = "for_each_dma_cap_mask dma_cap_mask_all"
  have ts: "table_step s ?s1"
    by (rule table_step_trans [OF _ zero_table_counts_step]) (simp add: clear_table_def table_step_table)
  have none: "channel_table ?s1 cap cpu = None" for cap cpu
    using assms(2) by (cases "channel_table s cap cpu")
      (auto simp: zero_counts_table clear_table_def table_shape_def)
  have on: "distinct (online_cpus env)" "set (online_cpus env) \<subseteq> set (possible_cpus env)"
    using assms(1) by (simp_all add: env_wf_def)
  note f = assign_caps_filled [OF on(1) caps_list(2), of 0 ?s1]
  have off: "cap \<in> set ?caps \<and> cpu \<in> set (online_cpus env)"
    if "channel_table (assign_caps env ?caps 0 ?s1) cap cpu \<noteq> None" for cap cpu
  proof (rule ccontr)
    assume "\<not> ?thesis"
    with f have "channel_table (assign_caps env ?caps 0 ?s1) cap cpu = channel_table ?s1 cap cpu" by blast
    with none that show False by simp
  qed
  have eq: "dma_channel_rebalance env s =
      (if dmaengine_ref_count s = 0 then ?s1 else assign_caps env ?caps 0 ?s1)"
    by (simp add: dma_channel_rebalance_def Let_def table_stepD [OF ts])
  show "table_shape env (dma_channel_rebalance env s)"
  proof (cases "dmaengine_ref_count s = 0")
    case True
    then show ?thesis unfolding eq using none by (simp add: table_shape_def)
  next
    case False
    show ?thesis unfolding table_shape_def
    proof (intro allI impI)
      fix cap cpu assume "channel_table (dma_channel_rebalance env s) cap cpu \<noteq> None"
      then have "cap \<in> set ?caps \<and> cpu \<in> set (online_cpus env)"
        using off [of cap cpu] False eq by simp
      then show "cap \<in> dma_cap_mask_all \<and> cpu \<in> set (possible_cpus env)"
        using caps_list(1) on(2) by auto
    qed
  qed
  assume c: "channel_table (dma_channel_rebalance env s) cap cpu = Some c"
  with eq none have r: "dmaengine_ref_count s \<noteq> 0" by (auto split: if_splits)
  then have "cap \<in> set ?caps \<and> cpu \<in> set (online_cpus env)"
    using c off [of cap cpu] eq by simp
  moreover have "channel_table (assign_caps env ?caps 0 ?s1) cap cpu = Some c" using c r eq by simp
  ultimately have "c \<in> set (eligible ?s1 cap)" using f by blast
  with r show "dmaengine_ref_count s \<noteq> 0 \<and> c \<in> set (eligible s cap)"
    by (simp add: eligible_table_step [OF ts])
qed

lemma rebalance_memcpy_row:
  assumes "env_wf env" and "dmaengine_ref_count s \<noteq> 0" and "1 < length (possible_cpus env)"
    and "length (online_cpus env) \<le> length (eligible s DMA_MEMCPY)" and "i < length (online_cpus env)"
  shows "channel_table (dma_channel_rebalance env s) DMA_MEMCPY (online_cpus env ! i)
    = Some (eligible s DMA_MEMCPY ! i)"
proof -
  let ?s1 = "zero_table_counts (dma_device_list s) (clear_table env s)"
  let ?rest = "tl (for_each_dma_cap_mask dma_cap_mask_all)"
  have ts: "table_step s ?s1"
    by (rule table_step_trans [OF _ zero_table_counts_step]) (simp add: clear_table_def table_step_table)
  have on: "distinct (online_cpus env)" using assms(1) by (simp add: env_wf_def)
  obtain n1 s2 where a: "assign_cpus env DMA_MEMCPY (online_cpus env) 0 ?s1 = (n1, s2)"
    by (cases "assign_cpus env DMA_MEMCPY (online_cpus env) 0 ?s1")
  have eq: "dma_channel_rebalance env s = assign_caps env ?rest n1 s2"
    using assms(2) a by (simp add: dma_channel_rebalance_def Let_def table_stepD [OF ts])
      (subst caps_list(3), simp)
  have r: "distinct ?rest" "DMA_MEMCPY \<notin> set ?rest"
    using caps_list(2) by (subst (asm) caps_list(3), simp)+
  have "channel_table s2 DMA_MEMCPY (online_cpus env ! i) = Some (eligible s DMA_MEMCPY ! i)"
    using assign_cpus_filled [OF on a] assms(3-5) eligible_table_step [OF ts, of DMA_MEMCPY]
    by (simp add: row_filled_def)
  with assign_caps_filled [OF on r(1), of n1 s2] r(2) show ?thesis unfolding eq by simp
qed

lemma eligible_distinct:
  assumes "eng_inv K s"
  shows "distinct (eligible s cap)"
proof -
  have "distinct (concat (map (\<lambda>d. filter (\<lambda>c. client_count (chans s c) \<noteq> 0) (channels (devs s d))) ds))"
    if "distinct ds" "set ds \<subseteq> set (dma_device_list s)" for ds
    using that
  proof (induction ds)
    case (Cons d ds)
    have t: "dev_topo s d" using eng_inv_listed(2) [OF assms] Cons.prems by simp
    have "c \<notin> set (channels (devs s x))" if "c \<in> set (channels (devs s d))" "x \<in> set ds" for c x
      using topo_disjoint [OF t eng_inv_listed(2) [OF assms, of x] that(1)] that(2) Cons.prems by auto
    with Cons t show ?case by (auto simp: dev_topo_def)
  qed simp
  then show ?thesis using assms by (simp add: eligible_def eng_inv_def)
qed

lemma demo_eligible: "eligible (demo_engine 1) DMA_MEMCPY = [4, 5]"
  by (simp add: eligible_def dev_eligible_def dma_has_cap_def)

lemma demo_wf: "env_wf demo_env"
  by (simp add: env_wf_def demo_env_def)

lemma demo_inv: "0 \<le> r \<Longrightarrow> eng_inv {0} (demo_engine r)"
  by (simp add: eng_inv_def dev_topo_def dev_disc_def dev_private_def dma_has_cap_def)

subsection \<open>Properties\<close>

text \<open>
  C7. The nested scan of \<open>nth_chan\<close> over devices and channels returns the \<open>n\<close>th channel that is in
  use, of a public device with the wanted capability, when there is one; otherwise it returns a
  channel of that kind with the lowest table count, and none only when there is no such channel.
\<close>

theorem nth_chan_meets_reference:
  "fst (nth_chan cap n s) =
     (if 0 \<le> n \<and> nat n < length (eligible s cap) then Some (eligible s cap ! nat n)
      else min_table s None (eligible s cap)) \<and>
   (fst (nth_chan cap n s) = None \<longleftrightarrow> eligible s cap = []) \<and>
   (\<forall>c x. min_table s None (eligible s cap) = Some c \<and> x \<in> set (eligible s cap) \<longrightarrow>
      c \<in> set (eligible s cap) \<and> table_count (chans s c) \<le> table_count (chans s x))"
proof -
  have "min_table s m cs = None \<longleftrightarrow> m = None \<and> cs = []" for m cs
    by (induction cs arbitrary: m) (auto simp: pick_min_def split: option.splits if_splits)
  moreover have "c \<in> set (eligible s cap)" if "min_table s None (eligible s cap) = Some c" for c
    using min_table_in [of s None "eligible s cap"] that by simp
  ultimately show ?thesis
    using min_table_min [of s None "eligible s cap"]
    by (auto simp: nth_chan_eq Let_def nth_or_min_def)
qed

theorem nth_chan_meets_reference_witness:
  "fst (nth_chan DMA_MEMCPY 1 (demo_engine 1)) = Some 5 \<and>
   fst (nth_chan DMA_MEMCPY 3 (demo_engine 1)) = Some 4"
  using nth_chan_meets_reference [of DMA_MEMCPY 1 "demo_engine 1"]
    nth_chan_meets_reference [of DMA_MEMCPY 3 "demo_engine 1"]
  by (simp add: demo_eligible pick_min_def)

text \<open>
  C8. When clients are registered, more than one CPU is possible and there are at least as many
  usable memory-copy channels as online CPUs, a redistribution gives the online CPUs pairwise
  different channels for memory copies, each one in use, on a public device with that capability.
\<close>

theorem rebalance_dedicates_channels:
  assumes "env_wf env" and "eng_inv K s" and "dmaengine_ref_count s \<noteq> 0"
    and "1 < length (possible_cpus env)"
    and "length (online_cpus env) \<le> length (eligible s DMA_MEMCPY)"
  shows "map (channel_table (dma_channel_rebalance env s) DMA_MEMCPY) (online_cpus env)
      = map Some (take (length (online_cpus env)) (eligible s DMA_MEMCPY)) \<and>
    distinct (map (channel_table (dma_channel_rebalance env s) DMA_MEMCPY) (online_cpus env)) \<and>
    (\<forall>cpu\<in>set (online_cpus env). \<exists>c. channel_table (dma_channel_rebalance env s) DMA_MEMCPY cpu = Some c \<and>
       c \<in> set (eligible s DMA_MEMCPY))"
proof -
  let ?t = "channel_table (dma_channel_rebalance env s) DMA_MEMCPY"
  have eq: "map ?t (online_cpus env) = map Some (take (length (online_cpus env)) (eligible s DMA_MEMCPY))"
    using assms(5) rebalance_memcpy_row [OF assms(1,3-5)] by (intro nth_equalityI) simp_all
  moreover have "distinct (map Some (take (length (online_cpus env)) (eligible s DMA_MEMCPY)))"
    using eligible_distinct [OF assms(2), of DMA_MEMCPY] by (simp add: distinct_map)
  moreover have "\<exists>c. ?t cpu = Some c \<and> c \<in> set (eligible s DMA_MEMCPY)" if "cpu \<in> set (online_cpus env)" for cpu
  proof -
    have "?t cpu \<in> set (map ?t (online_cpus env))" using that by simp
    then show ?thesis unfolding eq by (auto dest: in_set_takeD)
  qed
  ultimately show ?thesis by simp
qed

theorem rebalance_dedicates_channels_witness:
  "map (channel_table (dma_channel_rebalance demo_env (demo_engine 1)) DMA_MEMCPY) [0, 1]
     = [Some 4, Some 5]"
  using rebalance_dedicates_channels [OF demo_wf demo_inv [of 1]] demo_eligible by simp

end
