(* ===== verification/Dma_Reach.thy ===== *)
theory Dma_Reach
  imports Dma_Table
begin

text \<open>
  The DMA engine as a transition system. A step is one critical section of
  \<^verbatim>\<open>dmaengine.c\<close> run on some CPU (a client registers or leaves, a private channel is requested or
  released, a device is registered or unregistered) or an attempt to stop a driver module. The
  invariant of the reachable states combines the public/private discipline, the balance of
  module and channel references, and the validity of the channel table. The locale
  \<open>exclusive_channels\<close> is the interface that the copy policies rely on.
\<close>

subsection \<open>The channel table in use\<close>

definition table_live :: "nat set \<Rightarrow> 'd engine \<Rightarrow> bool" where
  "table_live K s \<longleftrightarrow> (0 < dmaengine_ref_count s \<longrightarrow>
     (\<forall>cap cpu c. channel_table s cap cpu = Some c \<longrightarrow> (let d = ch_device (chans s c) in
        d \<in> K \<and> c \<in> set (channels (devs s d)) \<and> cap \<in> cap_mask (devs s d) \<and> \<not> dev_private s d \<and>
        0 < client_count (chans s c))))"

lemma table_liveI:
  assumes "\<And>cap cpu c. 0 < dmaengine_ref_count s \<Longrightarrow> channel_table s cap cpu = Some c \<Longrightarrow>
    ch_device (chans s c) \<in> K \<and> c \<in> set (channels (devs s (ch_device (chans s c)))) \<and>
    cap \<in> cap_mask (devs s (ch_device (chans s c))) \<and> \<not> dev_private s (ch_device (chans s c)) \<and>
    0 < client_count (chans s c)"
  shows "table_live K s"
  using assms by (auto simp: table_live_def Let_def)

lemma table_liveD:
  assumes "table_live K s" and "0 < dmaengine_ref_count s" and "channel_table s cap cpu = Some c"
  shows "ch_device (chans s c) \<in> K" "c \<in> set (channels (devs s (ch_device (chans s c))))"
    "cap \<in> cap_mask (devs s (ch_device (chans s c)))" "\<not> dev_private s (ch_device (chans s c))"
    "0 < client_count (chans s c)"
  using assms by (auto simp: table_live_def Let_def)

lemma rebalance_live:
  assumes "env_wf env" and "table_shape env s" and "eng_inv K s"
  shows "table_live K (dma_channel_rebalance env s)"
proof (rule table_liveI)
  let ?s' = "dma_channel_rebalance env s"
  fix cap cpu c
  assume r: "0 < dmaengine_ref_count ?s'" and c: "channel_table ?s' cap cpu = Some c"
  from rebalance_entries(2) [OF assms(1,2) c] obtain d where
    d: "d \<in> set (dma_device_list s)" "dev_eligible s cap d" "c \<in> set (channels (devs s d))"
      "client_count (chans s c) \<noteq> 0" by (auto simp: eligible_iff)
  note l = eng_inv_listed [OF assms(3) d(1)]
  have cd: "ch_device (chans s c) = d" using l(2) d(3) by (simp add: dev_topo_def)
  have np: "\<not> dev_private s d" "cap \<in> cap_mask (devs s d)"
    using d(2) by (simp_all add: dev_eligible_def dev_private_def dma_has_cap_def)
  then have "client_count (chans s c) = dmaengine_ref_count s"
    using l(3) d(3,4) by (auto simp: dev_disc_def)
  then show "ch_device (chans ?s' c) \<in> K \<and> c \<in> set (channels (devs ?s' (ch_device (chans ?s' c)))) \<and>
      cap \<in> cap_mask (devs ?s' (ch_device (chans ?s' c))) \<and> \<not> dev_private ?s' (ch_device (chans ?s' c)) \<and>
      0 < client_count (chans ?s' c)"
    using l(1) cd np d(3) r by (simp add: dev_private_def)
qed

text \<open>The whole invariant; \<open>U\<close> holds all channels of the machine.\<close>

definition engine_ok :: "kenv \<Rightarrow> nat set \<Rightarrow> (nat \<Rightarrow> u64) \<Rightarrow> nat set \<Rightarrow> 'd engine \<Rightarrow> bool" where
  "engine_ok env U base K s \<longleftrightarrow> eng_inv K s \<and> finite U \<and> (\<forall>d\<in>K. set (channels (devs s d)) \<subseteq> U) \<and>
     refs_balanced env U base s \<and> table_shape env s \<and> table_live K s"

lemma engine_ok_rebalance:
  assumes "env_wf env" and "eng_inv K s" and "finite U" and "\<forall>d\<in>K. set (channels (devs s d)) \<subseteq> U"
    and "refs_balanced env U base s" and "table_shape env s"
  shows "engine_ok env U base K (dma_channel_rebalance env s)"
  using assms rebalance_live [OF assms(1,6,2)] rebalance_entries(1) [OF assms(1,6)]
    eng_inv_table_step [OF rebalance_step [of s env] assms(2)]
    keeps_balanced [OF keeps_table_step [OF rebalance_step [of s env]] assms(5)]
  by (simp add: engine_ok_def)

lemma engine_ok_listed: "engine_ok env U base K s \<Longrightarrow> listed_in U s"
  by (auto simp: engine_ok_def listed_in_def eng_inv_def)

subsection \<open>Clients\<close>

lemma chan_get_mono:
  assumes "env_wf env" and "dma_chan_get env x s = (e, s')"
  shows "client_count (chans s c) \<le> client_count (chans s' c)"
proof -
  obtain n where st: "count_step env x n s s'" and n: "client_count (chans s x) \<le> n"
    using chan_get_step [OF assms] by (auto split: if_splits)
  show ?thesis
    using n count_stepD(1) [OF st] same_but_counts_other [OF count_stepD(3) [OF st], of c]
    by (cases "c = x") auto
qed

lemma get_chans_mono:
  assumes "env_wf env"
  shows "client_count (chans s c) \<le> client_count (chans (get_chans env d cs s) c)"
proof (induction cs arbitrary: s)
  case (Cons x cs)
  obtain e s1 where g: "dma_chan_get env x s = (e, s1)" by (cases "dma_chan_get env x s")
  show ?case
    using g Cons [of s1] chan_get_mono [OF assms g, of c] by (auto simp: list_del_dev_def intro: order_trans)
qed simp

lemma get_devs_mono:
  assumes "env_wf env"
  shows "client_count (chans s c) \<le> client_count (chans (get_devs env ds s) c)"
proof (induction ds arbitrary: s)
  case (Cons d ds)
  show ?case
    using Cons [of "get_chans env d (channels (devs s d)) s"] Cons [of s]
      get_chans_mono [OF assms, of s c d "channels (devs s d)"] by (simp split: if_splits)
qed simp

lemma engine_okD:
  assumes "engine_ok env U base K s"
  shows "eng_inv K s" "finite U" "\<forall>d\<in>K. set (channels (devs s d)) \<subseteq> U"
    "refs_balanced env U base s" "table_shape env s" "table_live K s"
  using assms by (simp_all add: engine_ok_def)

lemma engine_ok_get:
  assumes "env_wf env" and "engine_ok env U base K s"
  shows "engine_ok env U base K (dmaengine_get env s)"
proof -
  note ok = engine_okD [OF assms(2)]
  define s1 where "s1 = s\<lparr>dmaengine_ref_count := dmaengine_ref_count s + 1\<rparr>"
  define s2 where "s2 = get_devs env (dma_device_list s) s1"
  note g = get_devs_inv [OF assms(1) ok(1) s1_def s2_def] and eq = dmaengine_get_eq [OF s1_def s2_def]
  note D = same_but_countsD [OF g(3)]
  have k: "keeps env U s (dmaengine_get env s)"
    by (rule keeps_dmaengine_get [OF assms(1) engine_ok_listed [OF assms(2)]])
  have sh: "table_shape env s2" using ok(5) D(3) by (simp add: table_shape_def s1_def)
  show ?thesis
  proof (cases "dmaengine_ref_count s2 = 1")
    case True
    then show ?thesis
      using eq k ok g(1) rebalance_live [OF assms(1) sh g(1)] rebalance_entries(1) [OF assms(1) sh]
        dmaengine_get_inv(1) [OF assms(1) ok(1)] keeps_balanced [OF k ok(4)] keeps_channels [OF k]
      by (simp add: engine_ok_def)
  next
    case False
    then have r: "0 < dmaengine_ref_count s" using g(2) ok(1) by (auto simp: eng_inv_def)
    have "table_live K s2"
    proof (rule table_liveI)
      fix cap cpu c assume "channel_table s2 cap cpu = Some c"
      then have c: "channel_table s cap cpu = Some c" using D(3) by (simp add: s1_def)
      have "client_count (chans s c) \<le> client_count (chans s2 c)"
        using get_devs_mono [OF assms(1), of s1 c] by (simp add: s1_def s2_def)
      then show "ch_device (chans s2 c) \<in> K \<and> c \<in> set (channels (devs s2 (ch_device (chans s2 c)))) \<and>
          cap \<in> cap_mask (devs s2 (ch_device (chans s2 c))) \<and> \<not> dev_private s2 (ch_device (chans s2 c)) \<and>
          0 < client_count (chans s2 c)"
        using table_liveD [OF ok(6) r c] D(1,8) by (simp add: s1_def dev_private_def)
    qed
    then show ?thesis
      using eq False k ok g(1) sh keeps_balanced [OF k ok(4)] keeps_channels [OF k]
      by (simp add: engine_ok_def)
  qed
qed

text \<open>A client that leaves takes at most one reference off every channel.\<close>

lemma put_chans_lower:
  assumes "env_wf env" and "distinct cs"
  shows "client_count (chans s c) - (if c \<in> set cs then 1 else 0)
    \<le> client_count (chans (fold (dma_chan_put env) cs s) c)"
  using assms(2)
proof (induction cs arbitrary: s)
  case (Cons x cs)
  note st = chan_put_step [OF assms(1), of x s]
  have "client_count (chans s c) - (if c = x then 1 else 0) \<le> client_count (chans (dma_chan_put env x s) c)"
    using count_stepD(1) [OF st] same_but_counts_other [OF count_stepD(3) [OF st], of c]
    by (cases "c = x") (auto split: if_splits)
  then show ?case using Cons.IH [of "dma_chan_put env x s"] Cons.prems by (auto split: if_splits)
qed simp

lemma put_chans_same:
  assumes "env_wf env"
  shows "same_but_counts (set cs) s (fold (dma_chan_put env) cs s)"
proof (induction cs arbitrary: s)
  case (Cons x cs)
  show ?case
    using same_but_counts_trans [OF count_stepD(3) [OF chan_put_step [OF assms, of x s]] Cons] by simp
qed (simp add: same_but_counts_refl)

lemma put_devs_lower:
  assumes "env_wf env" and "distinct ds" and "\<forall>d\<in>set ds. dev_topo s d"
  shows "client_count (chans s c) - (if c \<in> (\<Union>d\<in>set ds. set (channels (devs s d))) then 1 else 0)
    \<le> client_count (chans (put_devs env ds s) c)"
  using assms(2,3)
proof (induction ds arbitrary: s)
  case (Cons d ds)
  let ?s1 = "if dev_private s d then s else fold (dma_chan_put env) (channels (devs s d)) s"
  have sb: "same_but_counts (set (channels (devs s d))) s ?s1"
    using put_chans_same [OF assms(1), of "channels (devs s d)" s]
      same_but_counts_mono [OF same_but_counts_refl [of "{}" s]] by simp
  have ch: "devs ?s1 = devs s" by (rule same_but_countsD(1) [OF sb])
  have tp: "\<forall>x\<in>set ds. dev_topo ?s1 x" using Cons.prems same_but_counts_topo [OF sb] by simp
  have di: "distinct (channels (devs s d))" using Cons.prems by (simp add: dev_topo_def)
  have "c \<notin> (\<Union>x\<in>set ds. set (channels (devs s x)))" if "c \<in> set (channels (devs s d))"
    using that Cons.prems topo_disjoint [of s d] by auto
  then show ?case
    using Cons.IH [OF _ tp] Cons.prems put_chans_lower [OF assms(1) di, of s c] ch
    by (auto simp: dev_private_def split: if_splits)
qed simp

lemma engine_ok_put:
  assumes "env_wf env" and "engine_ok env U base K s" and "0 < dmaengine_ref_count s"
    and "dmaengine_put env s = Inr s'"
  shows "engine_ok env U base K s'"
proof -
  note ok = engine_okD [OF assms(2)]
  let ?s1 = "s\<lparr>dmaengine_ref_count := dmaengine_ref_count s - 1\<rparr>"
  have g: "eng_inv K s'" "dmaengine_ref_count s' = dmaengine_ref_count s - 1"
    and sb: "same_but_counts (pub_chans s (dma_device_list s)) ?s1 s'"
    using dmaengine_put_inv [OF assms(1) ok(1) assms(3)] assms(4) by auto
  note D = same_but_countsD [OF sb]
  have s': "s' = put_devs env (dma_device_list s) ?s1"
    using assms(3,4) by (auto simp: dmaengine_put_def Let_def split: if_splits)
  have k: "keeps env U s s'"
    by (rule keeps_dmaengine_put [OF assms(1) engine_ok_listed [OF assms(2)] assms(4)])
  have "table_live K s'"
  proof (rule table_liveI)
    fix cap cpu c assume r: "0 < dmaengine_ref_count s'" and "channel_table s' cap cpu = Some c"
    then have c: "channel_table s cap cpu = Some c" using D(3) by simp
    note l = table_liveD [OF ok(6) assms(3) c]
    have "0 < client_count (chans s' c)"
    proof (cases "c \<in> pub_chans s (dma_device_list s)")
      case False
      then show ?thesis using same_but_counts_other [OF sb False] l(5) by simp
    next
      case True
      then obtain d where d: "d \<in> set (dma_device_list s)" "\<not> dev_private s d"
        "c \<in> set (channels (devs s d))" by (auto simp: pub_chans_def)
      then have "client_count (chans s c) = dmaengine_ref_count s"
        using eng_inv_listed(3) [OF ok(1) d(1)] l(5) by (auto simp: dev_disc_def)
      moreover have "client_count (chans s c) - 1 \<le> client_count (chans s' c)"
        using put_devs_lower [OF assms(1), of "dma_device_list s" ?s1 c] ok(1)
          eng_inv_listed(2) [OF ok(1)] unfolding s'
        by (auto simp: eng_inv_def ref_count_topo split: if_splits)
      ultimately show ?thesis using r g(2) by simp
    qed
    then show "ch_device (chans s' c) \<in> K \<and> c \<in> set (channels (devs s' (ch_device (chans s' c)))) \<and>
        cap \<in> cap_mask (devs s' (ch_device (chans s' c))) \<and> \<not> dev_private s' (ch_device (chans s' c)) \<and>
        0 < client_count (chans s' c)"
      using l D(1,8) by (simp add: dev_private_def)
  qed
  moreover have "table_shape env s'" using ok(5) D(3) by (simp add: table_shape_def)
  ultimately show ?thesis
    using g ok keeps_balanced [OF k ok(4)] keeps_channels [OF k] by (simp add: engine_ok_def)
qed

subsection \<open>Private channels\<close>

lemma chan_get_table:
  assumes "env_wf env"
  shows "channel_table (snd (dma_chan_get env c s)) = channel_table s"
  using chan_get_step [OF assms, of c s "fst (dma_chan_get env c s)" "snd (dma_chan_get env c s)"]
    count_stepD(3) same_but_countsD(3) by (metis prod.collapse)

lemma request_scan_table:
  assumes "env_wf env"
  shows "channel_table (snd (request_scan env msk fn ds s)) = channel_table s"
proof (induction ds arbitrary: s)
  case (Cons d ds)
  show ?case
  proof (cases "private_candidate msk d fn s")
    case (Some c)
    obtain e s1 where g: "dma_chan_get env c (upd_dev d set_private s) = (e, s1)"
      by (cases "dma_chan_get env c (upd_dev d set_private s)")
    have "channel_table s1 = channel_table s"
      using chan_get_table [OF assms, of c "upd_dev d set_private s"] g by simp
    with Some g Cons show ?thesis by (simp add: list_del_dev_def split: option.splits)
  qed (simp add: Cons)
qed simp

lemma engine_ok_request:
  assumes "env_wf env" and "engine_ok env U base K s" and "dma_request_channel env msk fn s = (r, s')"
  shows "engine_ok env U base K s'"
proof -
  note ok = engine_okD [OF assms(2)] and rq = request_channel_inv [OF assms(1) engine_okD(1) [OF assms(2)] assms(3)]
  have k: "keeps env U s s'"
    using keeps_request_scan [OF assms(1) ok(2), of "dma_device_list s" s msk fn]
      engine_ok_listed [OF assms(2)] assms(3)
    by (simp add: dma_request_channel_def listed_in_def)
  have tab: "channel_table s' = channel_table s"
    using request_scan_table [OF assms(1), of msk fn "dma_device_list s" s] assms(3)
    by (simp add: dma_request_channel_def)
  have "table_live K s'"
  proof (rule table_liveI)
    fix cap cpu x assume r: "0 < dmaengine_ref_count s'" and x: "channel_table s' cap cpu = Some x"
    have "0 < dmaengine_ref_count s" using r rq(2) by simp
    from table_liveD [OF ok(6) this x [unfolded tab]] show "ch_device (chans s' x) \<in> K \<and>
        x \<in> set (channels (devs s' (ch_device (chans s' x)))) \<and>
        cap \<in> cap_mask (devs s' (ch_device (chans s' x))) \<and> \<not> dev_private s' (ch_device (chans s' x)) \<and>
        0 < client_count (chans s' x)"
    proof (cases r)
      case None
      then show ?thesis
        using rq(3) table_liveD [OF ok(6) \<open>0 < dmaengine_ref_count s\<close> x [unfolded tab]]
        by (simp add: dev_private_def)
    next
      case (Some c)
      note l = table_liveD [OF ok(6) \<open>0 < dmaengine_ref_count s\<close> x [unfolded tab]]
      have ex: "exclusive_grant msk fn s c s'" by (rule rq(4) [OF Some])
      let ?d = "ch_device (chans s c)"
      have "client_count (chans s c) = 0" using ex by (simp add: exclusive_grant_def Let_def)
      with l(5) have "x \<noteq> c" by auto
      then have sx: "chans s' x = chans s x" using ex by (simp add: exclusive_grant_def Let_def)
      have "ch_device (chans s x) \<noteq> ?d"
      proof
        assume eq: "ch_device (chans s x) = ?d"
        with l(4) ex have "busy s ?d = {}" by (simp add: exclusive_grant_def Let_def)
        moreover have "x \<in> busy s ?d" using l(2,5) eq by (simp add: busy_def)
        ultimately show False by simp
      qed
      then show ?thesis using l sx ex by (simp add: exclusive_grant_def Let_def dev_private_def)
    qed
  qed
  moreover have "table_shape env s'" using ok(5) tab by (simp add: table_shape_def)
  ultimately show ?thesis
    using ok rq(1) keeps_balanced [OF k ok(4)] keeps_channels [OF k] by (simp add: engine_ok_def)
qed

lemma release_table:
  assumes "env_wf env"
  shows "channel_table (dma_release_channel env c s) = channel_table s"
  using same_but_countsD(3) [OF count_stepD(3) [OF chan_put_step [OF assms, of c s]]]
  by (simp add: dma_release_channel_def Let_def)

lemma engine_ok_release:
  assumes "env_wf env" and "engine_ok env U base K s" and "held_privately s c"
    and "ch_device (chans s c) \<in> K"
  shows "engine_ok env U base K (dma_release_channel env c s)"
proof -
  let ?s' = "dma_release_channel env c s"
  note ok = engine_okD [OF assms(2)] and R = release_channel_step [OF assms(1,3)]
  have "c \<in> U" using assms(3,4) ok(3) by (auto simp: held_privately_def)
  then have k: "keeps env U s ?s'" by (rule keeps_release [OF assms(1) ok(2)])
  have "table_live K ?s'"
  proof (rule table_liveI)
    fix cap cpu x assume "0 < dmaengine_ref_count ?s'" and "channel_table ?s' cap cpu = Some x"
    then have "0 < dmaengine_ref_count s" "channel_table s cap cpu = Some x"
      using R(6) by (simp_all add: release_table [OF assms(1)])
    note l = table_liveD [OF ok(6) this]
    have "ch_device (chans s x) \<noteq> ch_device (chans s c)" using l(4) assms(3) by (auto simp: held_privately_def)
    moreover from this have "chans ?s' x = chans s x" using R(2) by auto
    ultimately show "ch_device (chans ?s' x) \<in> K \<and>
        x \<in> set (channels (devs ?s' (ch_device (chans ?s' x)))) \<and>
        cap \<in> cap_mask (devs ?s' (ch_device (chans ?s' x))) \<and> \<not> dev_private ?s' (ch_device (chans ?s' x)) \<and>
        0 < client_count (chans ?s' x)"
      using l R(4) by (simp add: dev_private_def)
  qed
  moreover have "table_shape env ?s'" using ok(5) by (simp add: table_shape_def release_table [OF assms(1)])
  ultimately show ?thesis
    using ok release_channel_inv [OF assms(1) ok(1) assms(3)] keeps_balanced [OF k ok(4)] keeps_channels [OF k]
    by (simp add: engine_ok_def)
qed

subsection \<open>Registration\<close>

text \<open>
  A step that touches only device \<open>d\<close> and the channels \<open>C\<close>: everything another device's
  invariant depends on stays.
\<close>

definition local_step :: "nat \<Rightarrow> nat set \<Rightarrow> 'd engine \<Rightarrow> 'd engine \<Rightarrow> bool" where
  "local_step d C s s' \<longleftrightarrow> dma_device_list s' = dma_device_list s \<and>
     dmaengine_ref_count s' = dmaengine_ref_count s \<and> channel_table s' = channel_table s \<and>
     (\<forall>x. x \<noteq> d \<longrightarrow> devs s' x = devs s x) \<and> channels (devs s' d) = channels (devs s d) \<and>
     dev_owner (devs s' d) = dev_owner (devs s d) \<and> privatecnt (devs s' d) = privatecnt (devs s d) \<and>
     (dev_private s' d = dev_private s d) \<and>
     (\<forall>c. ch_device (chans s' c) = ch_device (chans s c)) \<and>
     (\<forall>c. c \<notin> C \<longrightarrow> client_count (chans s' c) = client_count (chans s c))"

lemma local_step_refl: "local_step d C s s"
  by (simp add: local_step_def)

lemma local_step_trans: "local_step d C s s' \<Longrightarrow> local_step d C s' s'' \<Longrightarrow> local_step d C s s''"
  by (simp add: local_step_def)

lemma local_step_inv:
  assumes "local_step d C s s'" and "eng_inv K s" and "d \<notin> K"
    and "\<forall>c\<in>C. ch_device (chans s c) = d"
  shows "eng_inv K s'"
proof -
  have st: "dev_topo s' x = dev_topo s x \<and> dev_private s' x = dev_private s x \<and>
      dev_disc r s' x = dev_disc r s x" if x: "x \<in> K" for x r
  proof -
    have dx: "devs s' x = devs s x" using assms(1,3) x by (auto simp: local_step_def)
    have "client_count (chans s' c) = client_count (chans s c)" if "c \<in> set (channels (devs s x))" for c
    proof -
      have "ch_device (chans s c) = x" using that eng_invD(1) [OF assms(2) x] by (simp add: dev_topo_def)
      then have "c \<notin> C" using assms(3,4) x by auto
      then show ?thesis using assms(1) by (simp add: local_step_def)
    qed
    moreover have "ch_device (chans s' c) = ch_device (chans s c)" for c
      using assms(1) by (simp add: local_step_def)
    ultimately show ?thesis
      using dx by (auto simp: dev_private_def intro!: dev_topo_cong dev_disc_cong)
  qed
  with assms(1,2) show ?thesis by (simp add: eng_inv_def local_step_def)
qed

lemma local_step_live:
  assumes "local_step d C s s'" and "table_live K s" and "d \<notin> K" and "\<forall>c\<in>C. ch_device (chans s c) = d"
  shows "table_live K s'"
proof (rule table_liveI)
  fix cap cpu c assume "0 < dmaengine_ref_count s'" and "channel_table s' cap cpu = Some c"
  then have "0 < dmaengine_ref_count s" "channel_table s cap cpu = Some c"
    using assms(1) by (simp_all add: local_step_def)
  note l = table_liveD [OF assms(2) this]
  have "ch_device (chans s c) \<noteq> d" using l(1) assms(3) by auto
  moreover from this have "c \<notin> C" using assms(4) by auto
  ultimately show "ch_device (chans s' c) \<in> K \<and> c \<in> set (channels (devs s' (ch_device (chans s' c)))) \<and>
      cap \<in> cap_mask (devs s' (ch_device (chans s' c))) \<and> \<not> dev_private s' (ch_device (chans s' c)) \<and>
      0 < client_count (chans s' c)"
    using l assms(1) by (simp add: local_step_def dev_private_def)
qed

lemma upd_chan_fields [simp]:
  "dma_device_list (upd_chan c f s) = dma_device_list s" "devs (upd_chan c f s) = devs s"
  "dmaengine_ref_count (upd_chan c f s) = dmaengine_ref_count s" "mods (upd_chan c f s) = mods s"
  "channel_table (upd_chan c f s) = channel_table s" "idr_ref (upd_chan c f s) = idr_ref s"
  "dma_idr (upd_chan c f s) = dma_idr s" "drv (upd_chan c f s) = drv s"
  "chans (upd_chan c f s) = (chans s)(c := f (chans s c))"
  by (simp_all add: upd_chan_def)

text \<open>Bookkeeping in sysfs and in the id allocator moves no reference.\<close>

definition admin_step :: "'d engine \<Rightarrow> 'd engine \<Rightarrow> bool" where
  "admin_step s s' \<longleftrightarrow> dma_device_list s' = dma_device_list s \<and> devs s' = devs s \<and>
     dmaengine_ref_count s' = dmaengine_ref_count s \<and> channel_table s' = channel_table s \<and>
     mods s' = mods s \<and> (\<forall>c. ch_device (chans s' c) = ch_device (chans s c)) \<and>
     (\<forall>c. client_count (chans s' c) = client_count (chans s c))"

lemma admin_refl: "admin_step s s"
  by (simp add: admin_step_def)

lemma admin_trans: "admin_step s s' \<Longrightarrow> admin_step s' s'' \<Longrightarrow> admin_step s s''"
  by (simp add: admin_step_def)

lemma admin_local: "admin_step s s' \<Longrightarrow> local_step d C s s'"
  by (simp add: admin_step_def local_step_def dev_private_def)

lemma admin_keeps: "admin_step s s' \<Longrightarrow> keeps env U s s'"
  by (rule keeps_frame) (simp_all add: admin_step_def)

lemma unregister_chan_admin: "admin_step s (unregister_chan d c s)"
  by (auto simp: admin_step_def unregister_chan_def chan_dev_release_def Let_def)

lemma unregister_chans_admin: "admin_step s (fold (unregister_chan d) cs s)"
proof (induction cs arbitrary: s)
  case (Cons c cs)
  show ?case using admin_trans [OF unregister_chan_admin Cons] by simp
qed (simp add: admin_refl)

lemma register_chans_admin:
  assumes "\<forall>c\<in>set cs. client_count (chans s c) = 0" and "register_chans re d cs n s = (e, n', s')"
  shows "admin_step s s'" and "e = None \<Longrightarrow> n' = n + length cs"
proof -
  have "admin_step s s' \<and> (e = None \<longrightarrow> n' = n + length cs)"
    using assms
  proof (induction cs arbitrary: n s)
    case (Cons c cs)
    let ?s1 = "upd_chan c (\<lambda>ch. ch\<lparr>ch_local := Local (\<lambda>_. \<lparr>memcpy_count = 0, bytes_transferred = 0\<rparr>),
        ch_id := n, ch_sysfs := True\<rparr>) (s\<lparr>idr_ref := (idr_ref s)(d := idr_ref s d + 1)\<rparr>)"
    let ?s2 = "upd_chan c (\<lambda>ch. ch\<lparr>client_count := 0\<rparr>) ?s1"
    have a2: "admin_step s ?s2" using Cons.prems(1) by (auto simp: admin_step_def)
    show ?case
    proof (cases "percpu_ok re c \<and> chan_dev_ok re c \<and> device_register_rc re c = None")
      case True
      then have "register_chans re d cs (n + 1) ?s2 = (e, n', s')" using Cons.prems(2) by (simp add: Let_def)
      moreover have "\<forall>x\<in>set cs. client_count (chans ?s2 x) = 0" using Cons.prems(1) by auto
      ultimately show ?thesis using Cons.IH admin_trans [OF a2] by fastforce
    next
      case False
      then show ?thesis
        using Cons.prems(2) by (auto simp: admin_step_def Let_def split: if_splits option.splits)
    qed
  qed (simp add: admin_refl)
  then show "admin_step s s'" and "e = None \<Longrightarrow> n' = n + length cs" by auto
qed

lemma err_out_chans_admin: "err_out_chans d cs s = Inr s' \<Longrightarrow> admin_step s s'"
proof (induction cs arbitrary: s)
  case (Cons c cs)
  show ?case
  proof (cases "ch_local (chans s c)")
    case No_Local
    with Cons show ?thesis by simp
  next
    case (Local l)
    then have "admin_step (unregister_chan d c s) s'" using Cons by simp
    with unregister_chan_admin show ?thesis by (rule admin_trans)
  next
    case Freed_Local
    with Cons.prems show ?thesis by simp
  qed
qed (simp add: admin_refl)

lemma err_out_admin:
  assumes "register_err_out d s = Inr s'"
  shows "admin_step s s'"
proof (cases "idr_ref s d = 0")
  case True
  with assms show ?thesis by (auto simp: register_err_out_def admin_step_def)
next
  case False
  with assms show ?thesis using err_out_chans_admin by (simp add: register_err_out_def)
qed

text \<open>Taking references on behalf of the clients that are already there.\<close>

lemma register_refs_step:
  assumes "env_wf env" and "\<forall>c\<in>set cs. chan_public s c \<and> client_count (chans s c) = 0"
    and "distinct cs" and "0 < dmaengine_ref_count s" and "register_refs env cs s = (ok, s')"
  shows "same_but_counts (set cs) s s' \<and> dma_device_list s' = dma_device_list s \<and>
    (ok \<longrightarrow> (\<forall>c\<in>set cs. client_count (chans s' c) \<in> {0, dmaengine_ref_count s}))"
  using assms
proof (induction cs arbitrary: s)
  case (Cons c cs)
  obtain e s1 where g: "dma_chan_get env c s = (e, s1)" by (cases "dma_chan_get env c s")
  obtain n where st: "count_step env c n s s1" and n: "n \<in> {0, dmaengine_ref_count s}"
    using chan_get_step [OF Cons.prems(1) g] Cons.prems by (auto simp: max_def split: if_splits)
  note sb = count_stepD(3) [OF st] and D = same_but_countsD [OF count_stepD(3) [OF st]]
  show ?case
  proof (cases "e = Some ENODEV")
    case True
    then show ?thesis
      using g Cons.prems(5) same_but_counts_mono [OF sb] count_stepD(2) [OF st] by simp
  next
    case False
    have o: "x \<in> set cs \<Longrightarrow> chans s1 x = chans s x" for x
      using same_but_counts_other [OF sb, of x] Cons.prems(3) by auto
    have IH: "same_but_counts (set cs) s1 s' \<and> dma_device_list s' = dma_device_list s1 \<and>
        (ok \<longrightarrow> (\<forall>c\<in>set cs. client_count (chans s' c) \<in> {0, dmaengine_ref_count s1}))"
      by (rule Cons.IH) (use Cons.prems o D g False in auto)
    then have "same_but_counts (set (c # cs)) s s'" using same_but_counts_trans [OF sb] by fastforce
    moreover have "chans s' c = chans s1 c"
      using IH same_but_counts_other [of "set cs" s1 s' c] Cons.prems(3) by simp
    ultimately show ?thesis using IH n count_stepD(1,2) [OF st] D(2) by simp
  qed
qed (simp add: same_but_counts_refl)

lemma keeps_register_refs:
  assumes "env_wf env" and "finite U" and "set cs \<subseteq> U" and "register_refs env cs s = (ok, s')"
  shows "keeps env U s s'"
  using assms(3,4)
proof (induction cs arbitrary: s)
  case (Cons c cs)
  obtain e s1 where g: "dma_chan_get env c s = (e, s1)" by (cases "dma_chan_get env c s")
  have k: "keeps env U s s1" using keeps_chan_get [OF assms(1,2), of c s] Cons.prems(1) g by simp
  show ?case using Cons.prems g k keeps_trans [OF k Cons.IH] by (auto split: if_splits)
qed (simp add: keeps_refl)

lemma same_but_counts_local:
  assumes "same_but_counts C s s'" and "dma_device_list s' = dma_device_list s"
  shows "local_step d C s s'"
  using assms same_but_countsD [OF assms(1)] same_but_counts_other [OF assms(1)]
  by (simp add: local_step_def dev_private_def)

definition fresh_device :: "nat set \<Rightarrow> nat set \<Rightarrow> 'd engine \<Rightarrow> nat \<Rightarrow> bool" where
  "fresh_device U K s d \<longleftrightarrow> d \<notin> K \<and> distinct (channels (devs s d)) \<and>
     length (channels (devs s d)) < 2 ^ 32 - 1 \<and> set (channels (devs s d)) \<subseteq> U \<and>
     privatecnt (devs s d) = 0 \<and>
     (\<forall>c\<in>set (channels (devs s d)). ch_device (chans s c) = d \<and> client_count (chans s c) = 0)"

text \<open>What every stage of a registration does to the rest of the engine.\<close>

definition reg_step :: "kenv \<Rightarrow> nat set \<Rightarrow> nat \<Rightarrow> nat set \<Rightarrow> 'd engine \<Rightarrow> 'd engine \<Rightarrow> bool" where
  "reg_step env U d C s s' \<longleftrightarrow> local_step d C s s' \<and> keeps env U s s'"

lemma reg_step_refl: "reg_step env U d C s s"
  by (simp add: reg_step_def local_step_refl keeps_refl)

lemma reg_step_trans: "reg_step env U d C s s' \<Longrightarrow> reg_step env U d C s' s'' \<Longrightarrow> reg_step env U d C s s''"
  using local_step_trans keeps_trans by (fastforce simp: reg_step_def)

lemma reg_step_admin: "admin_step s s' \<Longrightarrow> reg_step env U d C s s'"
  by (simp add: reg_step_def admin_local admin_keeps)

lemma reg_step_upd_dev:
  assumes "\<And>v. channels (f v) = channels v" and "\<And>v. dev_owner (f v) = dev_owner v"
    and "\<And>v. privatecnt (f v) = privatecnt v"
    and "\<And>v. dma_has_cap DMA_PRIVATE (cap_mask (f v)) = dma_has_cap DMA_PRIVATE (cap_mask v)"
  shows "reg_step env U d C s (upd_dev d f s)"
  using assms by (simp add: reg_step_def local_step_def keeps_upd_dev dev_private_def)

lemma reg_step_ok:
  assumes "reg_step env U d (set (channels (devs s d))) s s'" and "engine_ok env U base K s"
    and "fresh_device U K s d"
  shows "engine_ok env U base K s'"
proof -
  note ok = engine_okD [OF assms(2)]
  have ls: "local_step d (set (channels (devs s d))) s s'" and k: "keeps env U s s'"
    using assms(1) by (simp_all add: reg_step_def)
  have d: "d \<notin> K" "\<forall>c\<in>set (channels (devs s d)). ch_device (chans s c) = d"
    using assms(3) by (simp_all add: fresh_device_def)
  have "table_shape env s'" using ok(5) ls by (simp add: table_shape_def local_step_def)
  then show ?thesis
    using ok local_step_inv [OF ls ok(1) d] local_step_live [OF ls ok(6) d] keeps_balanced [OF k ok(4)]
      keeps_channels [OF k] by (simp add: engine_ok_def)
qed

text \<open>The stages up to the numbering of the channels.\<close>

lemma register_prepare:
  assumes "fresh_device U K s d"
    and "s0 = (if full then upd_dev d (\<lambda>dev. dev\<lparr>cap_mask := dma_cap_set DMA_ASYNC_TX (cap_mask dev)\<rparr>) s else s)"
    and "get_dma_id rc d s0 = (e, s1)"
  shows "reg_step env U d C s s0" and "reg_step env U d C s s1"
    and "reg_step env U d C s (s1\<lparr>idr_ref := r\<rparr>)" and "chans s1 = chans s"
proof -
  show r0: "reg_step env U d C s s0"
    unfolding assms(2) by (auto simp: reg_step_refl dma_cap_set_def dma_has_cap_def intro!: reg_step_upd_dev)
  have "reg_step env U d C s0 (s0\<lparr>dma_idr := i\<rparr>)" for i
    by (rule reg_step_admin) (simp add: admin_step_def)
  then have "reg_step env U d C s0 s1"
    using assms(3) by (auto simp: get_dma_id_def reg_step_refl split: sum.splits
        intro!: reg_step_trans [OF _ reg_step_upd_dev])
  with r0 show r1: "reg_step env U d C s s1" by (rule reg_step_trans)
  have "reg_step env U d C s1 (s1\<lparr>idr_ref := r\<rparr>)" by (rule reg_step_admin) (simp add: admin_step_def)
  with r1 show "reg_step env U d C s (s1\<lparr>idr_ref := r\<rparr>)" by (rule reg_step_trans)
  show "chans s1 = chans s" using assms(2,3) by (auto simp: get_dma_id_def split: sum.splits)
qed

lemma publish_ok:
  assumes "env_wf env" and "engine_ok env U base K s" and "d \<notin> K" and "dev_topo s d"
    and "set (channels (devs s d)) \<subseteq> U" and "privatecnt (devs s d) = 0"
    and "dev_private s d \<Longrightarrow> busy s d = {}"
    and "\<not> dev_private s d \<Longrightarrow>
      \<forall>c\<in>set (channels (devs s d)). client_count (chans s c) \<in> {0, dmaengine_ref_count s}"
  shows "engine_ok env U base (insert d K) (publish_device env d s)"
proof -
  note ok = engine_okD [OF assms(2)]
  let ?s1 = "s\<lparr>dma_device_list := dma_device_list s @ [d]\<rparr>"
  let ?s2 = "if dev_private s d then upd_dev d (\<lambda>dev. dev\<lparr>privatecnt := privatecnt dev + 1\<rparr>) ?s1 else ?s1"
  have eq: "publish_device env d s = dma_channel_rebalance env ?s2"
    by (simp add: publish_device_def Let_def dev_private_def)
  have k: "keeps env U s ?s2"
    by (rule keeps_frame) (simp_all split: if_splits)
  have same: "dev_topo ?s2 x = dev_topo s x" "dev_private ?s2 x = dev_private s x" for x
    by (auto simp: dev_topo_def dev_private_def)
  have ref: "dmaengine_ref_count ?s2 = dmaengine_ref_count s" by simp
  have other: "dev_disc r ?s2 x = dev_disc r s x" if "x \<in> K" for x r
    using that assms(3) by (intro dev_disc_cong) auto
  have "dev_disc (dmaengine_ref_count s) ?s2 d"
  proof (cases "dev_private s d")
    case True
    have "busy ?s2 d = {}" using assms(7) [OF True] True by (auto simp: busy_def)
    moreover have "\<forall>c\<in>set (channels (devs s d)). client_count (chans s c) = 0"
      using assms(7) [OF True] by (auto simp: busy_def)
    ultimately show ?thesis
      using True same(2) [of d] assms(6) by (simp add: dev_disc_def)
  next
    case False
    then show ?thesis using assms(6) assms(8) [OF False] same(2) [of d] by (simp add: dev_disc_def)
  qed
  with ok(1) assms(3,4) have inv: "eng_inv (insert d K) ?s2"
    using same other ref by (auto simp: eng_inv_def)
  show ?thesis unfolding eq
    using ok assms(5) keeps_channels [OF k] keeps_balanced [OF k ok(4)]
    by (intro engine_ok_rebalance [OF assms(1) inv]) (auto simp: table_shape_def)
qed

lemma register_eq:
  assumes "s0 = (if device_has_all_tx_types cfg (devs s d)
      then upd_dev d (\<lambda>dev. dev\<lparr>cap_mask := dma_cap_set DMA_ASYNC_TX (cap_mask dev)\<rparr>) s else s)"
    and "get_dma_id (idr_rc re) d s0 = (e1, s1)"
    and "register_chans re d (channels (devs s1 d)) 0 (s1\<lparr>idr_ref := (idr_ref s1)(d := 0)\<rparr>) = (e2, n, s2)"
    and "s3 = upd_dev d (\<lambda>dev. dev\<lparr>chancnt := n\<rparr>) s2"
    and "(if dmaengine_ref_count s3 \<noteq> 0 \<and> \<not> dma_has_cap DMA_PRIVATE (cap_mask (devs s3 d))
      then register_refs env (channels (devs s3 d)) s3 else (True, s3)) = (okk, s4)"
  shows "dma_async_device_register env cfg re (Some d) s =
    (if \<not> device_routines_valid (devs s d) then Inl Bug_On
     else if \<not> idr_ref_ok re then Inr (Some ENOMEM, s0)
     else case e1 of Some e \<Rightarrow> Inr (Some e, s1)
       | None \<Rightarrow> (case e2 of Some e \<Rightarrow> seq_ok (register_err_out d s2) (\<lambda>t. Inr (Some e, t))
         | None \<Rightarrow> if okk then Inr (None, publish_device env d s4)
                   else seq_ok (register_err_out d s4) (\<lambda>t. Inr (Some ENODEV, t))))"
  unfolding dma_async_device_register_def option.case Let_def
    assms(1) [symmetric] assms(2) assms(3) prod.case assms(4) [symmetric] assms(5)
  by (auto split: option.splits bool.splits)

lemma engine_ok_register:
  assumes "env_wf env" and "engine_ok env U base K s" and "fresh_device U K s d"
    and "dma_async_device_register env cfg re (Some d) s = Inr (e, s')"
  shows "engine_ok env U base (if e = None then insert d K else K) s'"
proof -
  let ?C = "set (channels (devs s d))"
  note ok = engine_okD [OF assms(2)]
  define s0 where "s0 = (if device_has_all_tx_types cfg (devs s d)
    then upd_dev d (\<lambda>dev. dev\<lparr>cap_mask := dma_cap_set DMA_ASYNC_TX (cap_mask dev)\<rparr>) s else s)"
  obtain e1 s1 where id: "get_dma_id (idr_rc re) d s0 = (e1, s1)" by (cases "get_dma_id (idr_rc re) d s0")
  note prep = register_prepare [OF assms(3) s0_def id]
  define s1' where "s1' = s1\<lparr>idr_ref := (idr_ref s1)(d := 0)\<rparr>"
  have r1: "reg_step env U d ?C s s1'" unfolding s1'_def by (rule prep(3))
  have ch1: "channels (devs s1 d) = channels (devs s d)"
    using prep(2) by (simp add: reg_step_def local_step_def)
  obtain e2 n s2 where rc: "register_chans re d (channels (devs s1 d)) 0 s1' = (e2, n, s2)"
    by (cases "register_chans re d (channels (devs s1 d)) 0 s1'")
  have z: "\<forall>c\<in>set (channels (devs s1 d)). client_count (chans s1' c) = 0"
    using assms(3) ch1 prep(4) by (simp add: fresh_device_def s1'_def)
  note a2 = register_chans_admin [OF z rc]
  have r2: "reg_step env U d ?C s s2" using r1 reg_step_admin [OF a2(1)] by (rule reg_step_trans)
  define s3 where "s3 = upd_dev d (\<lambda>dev. dev\<lparr>chancnt := n\<rparr>) s2"
  have r3: "reg_step env U d ?C s s3"
    using r2 unfolding s3_def by (rule reg_step_trans) (rule reg_step_upd_dev, simp_all)
  obtain okk s4 where rr: "(if dmaengine_ref_count s3 \<noteq> 0 \<and> \<not> dma_has_cap DMA_PRIVATE (cap_mask (devs s3 d))
      then register_refs env (channels (devs s3 d)) s3 else (True, s3)) = (okk, s4)"
    by (cases "if dmaengine_ref_count s3 \<noteq> 0 \<and> \<not> dma_has_cap DMA_PRIVATE (cap_mask (devs s3 d))
      then register_refs env (channels (devs s3 d)) s3 else (True, s3)")
  have cnt3: "client_count (chans s3 c) = client_count (chans s c)" for c
    using a2(1) prep(4) by (simp add: s3_def s1'_def admin_step_def)
  have ch3: "channels (devs s3 d) = channels (devs s d)" and dev3: "ch_device (chans s3 c) = ch_device (chans s c)" for c
    using r3 by (simp_all add: reg_step_def local_step_def)
  let ?refs = "dmaengine_ref_count s3 \<noteq> 0 \<and> \<not> dev_private s3 d"
  have refs: "same_but_counts ?C s3 s4 \<and> dma_device_list s4 = dma_device_list s3 \<and> keeps env U s3 s4 \<and>
      (okk \<longrightarrow> (\<forall>c\<in>?C. client_count (chans s4 c) \<in> {0, dmaengine_ref_count s3}))" if ?refs
  proof -
    have "0 \<le> dmaengine_ref_count s3"
      using r3 ok(1) by (simp add: reg_step_def local_step_def eng_inv_def)
    with that have pos: "0 < dmaengine_ref_count s3" by simp
    have rf: "register_refs env (channels (devs s d)) s3 = (okk, s4)"
      using rr that ch3 by (simp add: dev_private_def)
    have pub: "\<forall>c\<in>?C. chan_public s3 c \<and> client_count (chans s3 c) = 0"
      using assms(3) that cnt3 dev3 by (simp add: fresh_device_def chan_public_def dev_private_def)
    have "distinct (channels (devs s d))" "?C \<subseteq> U" using assms(3) by (simp_all add: fresh_device_def)
    from register_refs_step [OF assms(1) pub this(1) pos rf] keeps_register_refs [OF assms(1) ok(2) this(2) rf]
    show ?thesis by blast
  qed
  have norefs: "okk \<and> s4 = s3" if "\<not> ?refs" using rr that by (auto simp: dev_private_def split: if_splits)
  have "reg_step env U d ?C s3 s4"
    using refs norefs
    by (cases ?refs) (auto simp: reg_step_def local_step_refl keeps_refl intro: same_but_counts_local)
  with r3 have r4: "reg_step env U d ?C s s4" by (rule reg_step_trans)
  have dv4: "devs s4 = devs s3" using refs norefs same_but_countsD(1) by (cases ?refs) blast+
  have fields4: "channels (devs s4 d) = channels (devs s d)" "privatecnt (devs s4 d) = privatecnt (devs s d)"
      "ch_device (chans s4 c) = ch_device (chans s c)" "dmaengine_ref_count s4 = dmaengine_ref_count s"
      "dmaengine_ref_count s3 = dmaengine_ref_count s" for c
    using r4 r3 by (simp_all add: reg_step_def local_step_def)
  have pv4: "dev_private s4 d = dev_private s3 d" by (simp add: dev_private_def dv4)
  have z3: "\<forall>c\<in>?C. client_count (chans s3 c) = 0" using assms(3) cnt3 by (simp add: fresh_device_def)
  have priv4: "busy s4 d = {}" if "dev_private s4 d"
    using that norefs pv4 z3 fields4(1) by (auto simp: busy_def)
  have pub4: "\<forall>c\<in>set (channels (devs s4 d)). client_count (chans s4 c) \<in> {0, dmaengine_ref_count s4}"
    if "\<not> dev_private s4 d" "okk"
    using that refs norefs pv4 z3 fields4 by (cases ?refs) auto
  have err: "engine_ok env U base K t'" if "reg_step env U d ?C s t" "register_err_out d t = Inr t'" for t t'
    using reg_step_ok [OF reg_step_trans [OF that(1) reg_step_admin [OF err_out_admin [OF that(2)]]] assms(2,3)] .
  note run = assms(4) [unfolded register_eq [OF s0_def id rc [unfolded s1'_def] s3_def rr]]
  consider (early) "e \<noteq> None" "s' = s0 \<or> s' = s1"
    | (mid) "e \<noteq> None" "register_err_out d s2 = Inr s' \<or> register_err_out d s4 = Inr s'"
    | (fin) "e = None" "e2 = None" "okk" "s' = publish_device env d s4"
    using run by (auto simp: seq_ok_eq_Inr_iff split: if_splits option.splits)
  then show ?thesis
  proof cases
    case early
    then show ?thesis using prep(1,2) reg_step_ok [OF _ assms(2,3)] by auto
  next
    case mid
    then show ?thesis using err [OF r2] err [OF r4] by auto
  next
    case fin
    have n: "n = length (channels (devs s d))" using a2(2) fin(2) ch1 by simp
    have "dev_topo s4 d"
      using assms(3) fields4 n dv4 by (simp add: fresh_device_def dev_topo_def s3_def)
    moreover have "privatecnt (devs s4 d) = 0" "set (channels (devs s4 d)) \<subseteq> U"
      using assms(3) fields4 by (simp_all add: fresh_device_def)
    ultimately have "engine_ok env U base (insert d K) (publish_device env d s4)"
      using assms(1,3) reg_step_ok [OF r4 assms(2,3)] priv4 pub4 fin(3)
      by (intro publish_ok) (simp_all add: fresh_device_def)
    with fin show ?thesis by simp
  qed
qed

lemma engine_ok_admin:
  assumes "admin_step s s'" and "engine_ok env U base K s"
  shows "engine_ok env U base K s'"
proof -
  note ok = engine_okD [OF assms(2)]
  have f: "devs s' = devs s" "dma_device_list s' = dma_device_list s" "channel_table s' = channel_table s"
    "dmaengine_ref_count s' = dmaengine_ref_count s" "ch_device (chans s' c) = ch_device (chans s c)"
    "client_count (chans s' c) = client_count (chans s c)" for c
    using assms(1) by (simp_all add: admin_step_def)
  have "eng_inv K s'"
    using ok(1) dev_disc_cong [of s' _ s] dev_topo_cong [of s' _ s] f by (simp add: eng_inv_def dev_private_def)
  moreover have "table_live K s'" "table_shape env s'"
    using ok(5,6) f by (simp_all add: table_live_def table_shape_def dev_private_def)
  ultimately show ?thesis
    using ok f keeps_balanced [OF admin_keeps [OF assms(1)] ok(4)] by (simp add: engine_ok_def)
qed

lemma engine_ok_unregister:
  assumes "env_wf env" and "engine_ok env U base K s"
  shows "engine_ok env U base K (dma_async_device_unregister env d s)"
proof -
  note ok = engine_okD [OF assms(2)]
  let ?s1 = "list_del_dev d s"
  have st: "dev_topo ?s1 x = dev_topo s x" "dev_private ?s1 x = dev_private s x" "dev_disc r ?s1 x = dev_disc r s x"
    for x r
    by (simp_all add: dev_private_def list_del_dev_def dev_topo_def dev_disc_def busy_def)
  have "set (dma_device_list ?s1) \<subseteq> set (dma_device_list s)" "distinct (dma_device_list ?s1)"
    "dmaengine_ref_count ?s1 = dmaengine_ref_count s"
    using ok(1) set_remove1_subset [of d "dma_device_list s"] by (auto simp: list_del_dev_def eng_inv_def)
  with ok(1) st have "eng_inv K ?s1" by (auto simp: eng_inv_def)
  moreover have "table_shape env ?s1" "\<forall>d\<in>K. set (channels (devs ?s1 d)) \<subseteq> U"
    using ok(3,5) by (simp_all add: table_shape_def list_del_dev_def)
  moreover have "refs_balanced env U base ?s1" by (rule keeps_balanced [OF keeps_list_del ok(4)])
  ultimately have "engine_ok env U base K (dma_channel_rebalance env ?s1)"
    using ok(2) assms(1) by (intro engine_ok_rebalance)
  then show ?thesis
    unfolding dma_async_device_unregister_def Let_def by (rule engine_ok_admin [OF unregister_chans_admin])
qed

definition stop_module :: "kenv \<Rightarrow> bool \<Rightarrow> nat \<Rightarrow> 'd engine \<Rightarrow> errno option \<times> 'd engine" where
  "stop_module env force m s = (case try_stop_module_nonblock env force (mods s m) of
     (e, km) \<Rightarrow> (e, s\<lparr>mods := (mods s)(m := km)\<rparr>))"

lemma engine_ok_stop:
  assumes "engine_ok env U base K s"
  shows "engine_ok env U base K (snd (stop_module env' force m s))"
proof -
  let ?s' = "snd (stop_module env' force m s)"
  have m: "module_refcount env (mods ?s' x) = module_refcount env (mods s x)" for x
    by (simp add: stop_module_def try_stop_module_nonblock_def module_refcount_def)
  have f: "devs ?s' = devs s" "chans ?s' = chans s" "dma_device_list ?s' = dma_device_list s"
    "channel_table ?s' = channel_table s" "dmaengine_ref_count ?s' = dmaengine_ref_count s"
    by (simp_all add: stop_module_def split: prod.splits)
  have "eng_inv K ?s'"
    using engine_okD(1) [OF assms] dev_disc_cong [of ?s' _ s] dev_topo_cong [of ?s' _ s] f
    by (simp add: eng_inv_def dev_private_def)
  with engine_okD [OF assms] show ?thesis
    by (simp add: engine_ok_def f m table_live_def table_shape_def dev_private_def refs_balanced_def
        held_def dma_chan_to_owner_def)
qed

subsection \<open>One reference per client\<close>

text \<open>The driver of device \<open>d\<close> can always allocate the resources of its channels.\<close>

definition alloc_succeeds :: "'d engine \<Rightarrow> nat \<Rightarrow> bool" where
  "alloc_succeeds s d \<longleftrightarrow> (\<forall>c\<in>set (channels (devs s d)). \<forall>x.
     \<exists>n x'. device_alloc_chan_resources (devs s d) c x = (Inr n, x'))"

lemma chan_get_same:
  assumes "env_wf env" and "dma_chan_get env x s = (e, s')"
  shows "same_but_counts {x} s s'" and "dma_device_list s' = dma_device_list s"
proof -
  obtain n where st: "count_step env x n s s'" using chan_get_step [OF assms] by blast
  show "same_but_counts {x} s s'" "dma_device_list s' = dma_device_list s"
    using count_stepD(2,3) [OF st] by blast+
qed

lemma chan_get_allocates:
  assumes "env_wf env" and "dma_chan_get env c s = (e, s')" and "0 \<le> client_count (chans s c)"
    and "alloc_succeeds s (ch_device (chans s c))"
    and "c \<in> set (channels (devs s (ch_device (chans s c))))" and "e \<noteq> Some ENODEV"
  shows "0 < client_count (chans s' c)"
proof -
  have "e = None"
  proof (rule ccontr)
    assume e: "e \<noteq> None"
    let ?s1 = "take_ref env c s"
    have eq: "devs ?s1 = devs s" "ch_device (chans ?s1 c) = ch_device (chans s c)"
      by (simp_all add: take_ref_def upd_chan_def upd_owner_def split: option.splits)
    obtain n x' where "device_alloc_chan_resources (devs s (ch_device (chans s c))) c (drv ?s1) = (Inr n, x')"
      using assms(4,5) unfolding alloc_succeeds_def by blast
    then have "call_alloc c ?s1 = (Inr n, ?s1\<lparr>drv := x'\<rparr>)" by (simp add: call_alloc_def eq)
    with assms(2,6) e show False by (auto simp: dma_chan_get_def Let_def split: if_splits)
  qed
  then show ?thesis using chan_get_step [OF assms(1,2)] assms(3) count_stepD(1) by fastforce
qed

lemma register_refs_taken:
  assumes "env_wf env" and "register_refs env cs s = (True, s')" and "alloc_succeeds s d"
    and "set cs \<subseteq> set (channels (devs s d))"
    and "\<forall>c\<in>set cs. ch_device (chans s c) = d \<and> 0 \<le> client_count (chans s c)"
  shows "(\<forall>x. client_count (chans s x) \<le> client_count (chans s' x)) \<and>
    (\<forall>c\<in>set cs. 0 < client_count (chans s' c))"
  using assms(2-)
proof (induction cs arbitrary: s)
  case (Cons c cs)
  obtain e s1 where g: "dma_chan_get env c s = (e, s1)" by (cases "dma_chan_get env c s")
  note D = same_but_countsD [OF chan_get_same(1) [OF assms(1) g]] and m = chan_get_mono [OF assms(1) g]
  have e: "e \<noteq> Some ENODEV" and r: "register_refs env cs s1 = (True, s')"
    using Cons.prems(1) g by (auto split: if_splits)
  have "0 < client_count (chans s1 c)"
    by (rule chan_get_allocates [OF assms(1) g _ _ _ e]) (use Cons.prems in auto)
  moreover have "(\<forall>x. client_count (chans s1 x) \<le> client_count (chans s' x)) \<and>
      (\<forall>c\<in>set cs. 0 < client_count (chans s' c))"
    by (rule Cons.IH [OF r]) (use Cons.prems D m in \<open>auto simp: alloc_succeeds_def intro: order_trans\<close>)
  ultimately show ?case using m by (auto intro: order_trans less_le_trans)
qed simp

lemma get_chans_same_frame:
  assumes "env_wf env"
  shows "devs (get_chans env d cs s) = devs s \<and>
    (\<forall>c. ch_device (chans (get_chans env d cs s) c) = ch_device (chans s c)) \<and>
    dma_device_list (get_chans env d cs s) \<in> {dma_device_list s, remove1 d (dma_device_list s)}"
proof (induction cs arbitrary: s)
  case (Cons c cs)
  obtain e s1 where g: "dma_chan_get env c s = (e, s1)" by (cases "dma_chan_get env c s")
  note D = same_but_countsD [OF chan_get_same(1) [OF assms(1) g]] and l = chan_get_same(2) [OF assms(1) g]
  show ?case using Cons [of s1] g D l by (auto simp: list_del_dev_def)
qed simp

lemma get_chans_taken:
  assumes "env_wf env" and "alloc_succeeds s d" and "set cs \<subseteq> set (channels (devs s d))"
    and "\<forall>c\<in>set cs. ch_device (chans s c) = d \<and> 0 \<le> client_count (chans s c)"
    and "distinct (dma_device_list s)" and "d \<in> set (dma_device_list (get_chans env d cs s))" and "c \<in> set cs"
  shows "0 < client_count (chans (get_chans env d cs s) c)"
  using assms(2-)
proof (induction cs arbitrary: s)
  case (Cons x cs)
  obtain e s1 where g: "dma_chan_get env x s = (e, s1)" by (cases "dma_chan_get env x s")
  note D = same_but_countsD [OF chan_get_same(1) [OF assms(1) g]] and m = chan_get_mono [OF assms(1) g]
    and l = chan_get_same(2) [OF assms(1) g]
  have e: "e \<noteq> Some ENODEV" using Cons.prems(4,5) g l by (auto simp: list_del_dev_def)
  have r: "get_chans env d (x # cs) s = get_chans env d cs s1" using g e by simp
  have "0 < client_count (chans s1 x)"
    by (rule chan_get_allocates [OF assms(1) g _ _ _ e]) (use Cons.prems in auto)
  then have "0 < client_count (chans (get_chans env d cs s1) x)"
    using get_chans_mono [OF assms(1), of s1 x d cs] by linarith
  moreover have "0 < client_count (chans (get_chans env d cs s1) c)" if "c \<in> set cs"
    by (rule Cons.IH [OF _ _ _ _ _ that])
      (use Cons.prems D m l r in \<open>auto simp: alloc_succeeds_def intro: order_trans\<close>)
  ultimately show ?case using Cons.prems(6) r by auto
qed simp

lemma get_devs_listed:
  assumes "env_wf env"
  shows "set (dma_device_list (get_devs env ds s)) \<subseteq> set (dma_device_list s)"
proof (induction ds arbitrary: s)
  case (Cons d ds)
  let ?s1 = "get_chans env d (channels (devs s d)) s"
  have "set (dma_device_list ?s1) \<subseteq> set (dma_device_list s)"
    using get_chans_same_frame [OF assms(1), of d "channels (devs s d)" s]
      set_remove1_subset [of d "dma_device_list s"] by auto
  with Cons [of ?s1] Cons [of s] show ?case by (simp split: if_splits) blast
qed simp

lemma get_devs_taken:
  assumes "env_wf env" and "distinct (dma_device_list s)" and "\<forall>x\<in>set ds. dev_topo s x \<and> (\<forall>c\<in>set (channels (devs s x)). 0 \<le> client_count (chans s c))" and "d \<in> set ds" and "d \<in> set (dma_device_list (get_devs env ds s))"
    and "\<not> dev_private s d" and "alloc_succeeds s d" and "c \<in> set (channels (devs s d))"
  shows "0 < client_count (chans (get_devs env ds s) c)"
  using assms(2-)
proof (induction ds arbitrary: s)
  case (Cons x ds)
  let ?s1 = "if dma_has_cap DMA_PRIVATE (cap_mask (devs s x)) then s else get_chans env x (channels (devs s x)) s"
  note F = get_chans_same_frame [OF assms(1), of x "channels (devs s x)" s]
  have mono: "client_count (chans s c) \<le> client_count (chans ?s1 c)" for c
    using get_chans_mono [OF assms(1), of s c x "channels (devs s x)"] by simp
  note sub = get_devs_listed [OF assms(1)]
  have nn: "0 \<le> client_count (chans ?s1 z)" if "y \<in> set ds" "z \<in> set (channels (devs s y))" for y z
    using Cons.prems(2) that mono [of z] by (meson list.set_intros(2) order_trans)
  show ?case
  proof (cases "d \<in> set ds")
    case True
    have "0 < client_count (chans (get_devs env ds ?s1) c)"
      by (rule Cons.IH) (use Cons.prems True F nn in \<open>auto simp: alloc_succeeds_def dev_private_def dev_topo_def split: if_splits\<close>)
    then show ?thesis by simp
  next
    case False
    then have x: "x = d" using Cons.prems(3) by simp
    then have np: "\<not> dma_has_cap DMA_PRIVATE (cap_mask (devs s x))" using Cons.prems(5) by (simp add: dev_private_def)
    have "d \<in> set (dma_device_list ?s1)" using sub [of ds ?s1] Cons.prems(4) by auto
    then have "0 < client_count (chans ?s1 c)"
      using get_chans_taken [OF assms(1), of s d "channels (devs s d)" c] Cons.prems np x
      by (simp add: dev_topo_def)
    then show ?thesis using get_devs_mono [OF assms(1), of ?s1 c ds] np by simp
  qed
qed simp


lemma disc_nonneg:
  assumes "dev_disc r s d" and "0 \<le> r" and "c \<in> set (channels (devs s d))"
  shows "0 \<le> client_count (chans s c)"
  using assms by (fastforce simp: dev_disc_def split: if_splits)

lemma get_takes_refs:
  assumes "env_wf env" and "eng_inv K s" and "d \<in> set (dma_device_list (dmaengine_get env s))"
    and "\<not> dev_private (dmaengine_get env s) d" and "alloc_succeeds s d" and "c \<in> set (channels (devs s d))"
  shows "client_count (chans (dmaengine_get env s) c) = dmaengine_ref_count s + 1"
proof -
  define s1 where "s1 = s\<lparr>dmaengine_ref_count := dmaengine_ref_count s + 1\<rparr>"
  define s2 where "s2 = get_devs env (dma_device_list s) s1"
  note g = get_devs_inv [OF assms(1,2) s1_def s2_def] and eq = dmaengine_get_eq [OF s1_def s2_def]
  have f: "dma_device_list (dmaengine_get env s) = dma_device_list s2" "devs (dmaengine_get env s) = devs s"
    "client_count (chans (dmaengine_get env s) c) = client_count (chans s2 c)"
    using eq same_but_countsD(1) [OF g(3)] by (simp_all add: s1_def)
  have dl: "d \<in> set (dma_device_list s)"
    using get_devs_listed [OF assms(1), of "dma_device_list s" s1] assms(3) f(1) by (auto simp: s1_def s2_def)
  have r: "0 \<le> dmaengine_ref_count s" "distinct (dma_device_list s)" using assms(2) by (simp_all add: eng_inv_def)
  have nn: "0 \<le> client_count (chans s y)" if "x \<in> set (dma_device_list s)" "y \<in> set (channels (devs s x))" for x y
    by (rule disc_nonneg [OF eng_inv_listed(3) [OF assms(2) that(1)] r(1) that(2)])
  have "0 < client_count (chans s2 c)"
    unfolding s2_def
    by (rule get_devs_taken [OF assms(1), where d = d])
      (use assms(3-) dl f r nn eng_inv_listed(2) [OF assms(2)] in
        \<open>auto simp: s1_def s2_def dev_private_def alloc_succeeds_def ref_count_topo\<close>)
  moreover have "dev_disc (dmaengine_ref_count s2) s2 d"
    using eng_inv_listed(3) [OF g(1)] assms(3) f(1) by simp
  ultimately show ?thesis
    using assms(4,6) f g(2) same_but_countsD(1) [OF g(3)] by (auto simp: dev_disc_def dev_private_def s1_def)
qed

lemma put_keeps_refs:
  assumes "env_wf env" and "eng_inv K s" and "0 < dmaengine_ref_count s" and "dmaengine_put env s = Inr s'"
    and "d \<in> set (dma_device_list s)" and "\<not> dev_private s d" and "c \<in> set (channels (devs s d))"
    and "client_count (chans s c) = dmaengine_ref_count s"
  shows "client_count (chans s' c) = dmaengine_ref_count s - 1"
proof -
  let ?s1 = "s\<lparr>dmaengine_ref_count := dmaengine_ref_count s - 1\<rparr>"
  have g: "eng_inv K s'" "dmaengine_ref_count s' = dmaengine_ref_count s - 1" "dma_device_list s' = dma_device_list s"
    and sb: "same_but_counts (pub_chans s (dma_device_list s)) ?s1 s'"
    using dmaengine_put_inv [OF assms(1-3)] assms(4) by auto
  have "dev_disc (dmaengine_ref_count s - 1) s' d" using eng_inv_listed(3) [OF g(1)] g(2,3) assms(5) by simp
  then have "client_count (chans s' c) \<in> {0, dmaengine_ref_count s - 1}"
    using assms(6,7) same_but_countsD(1) [OF sb] by (simp add: dev_disc_def dev_private_def)
  moreover have "s' = put_devs env (dma_device_list s) ?s1"
    using assms(3,4) by (auto simp: dmaengine_put_def Let_def split: if_splits)
  then have "client_count (chans s c) - 1 \<le> client_count (chans s' c)"
    using put_devs_lower [OF assms(1), of "dma_device_list s" ?s1 c] assms(2) eng_inv_listed(2) [OF assms(2)]
    by (auto simp: eng_inv_def ref_count_topo split: if_splits)
  ultimately show ?thesis using assms(8) assms(3) by auto
qed

lemma register_refs_frame:
  assumes "env_wf env" and "register_refs env cs s = (ok, s')"
  shows "devs s' = devs s" and "dmaengine_ref_count s' = dmaengine_ref_count s"
proof -
  have "devs s' = devs s \<and> dmaengine_ref_count s' = dmaengine_ref_count s"
    using assms(2)
  proof (induction cs arbitrary: s)
    case (Cons c cs)
    obtain e s1 where g: "dma_chan_get env c s = (e, s1)" by (cases "dma_chan_get env c s")
    note D = same_but_countsD [OF chan_get_same(1) [OF assms(1) g]]
    show ?case using Cons g D(1,2) by (auto split: if_splits)
  qed simp
  then show "devs s' = devs s" "dmaengine_ref_count s' = dmaengine_ref_count s" by simp_all
qed

lemma register_takes_refs:
  assumes "env_wf env" and "engine_ok env U base K s" and "fresh_device U K s d"
    and "dma_async_device_register env cfg re (Some d) s = Inr (None, s')"
    and "\<not> dev_private s' d" and "alloc_succeeds s d" and "c \<in> set (channels (devs s d))"
  shows "d \<in> set (dma_device_list s') \<and> client_count (chans s' c) = dmaengine_ref_count s"
proof -
  define s0 where "s0 = (if device_has_all_tx_types cfg (devs s d)
    then upd_dev d (\<lambda>dev. dev\<lparr>cap_mask := dma_cap_set DMA_ASYNC_TX (cap_mask dev)\<rparr>) s else s)"
  obtain e1 s1 where id: "get_dma_id (idr_rc re) d s0 = (e1, s1)" by (cases "get_dma_id (idr_rc re) d s0")
  note prep = register_prepare [OF assms(3) s0_def id]
  define s1' where "s1' = s1\<lparr>idr_ref := (idr_ref s1)(d := 0)\<rparr>"
  have r1: "reg_step env U d {} s s1'" unfolding s1'_def by (rule prep(3))
  have f1: "channels (devs s1 d) = channels (devs s d)" "dmaengine_ref_count s1' = dmaengine_ref_count s"
    "ch_device (chans s1' x) = ch_device (chans s x)" for x
    using r1 by (simp_all add: reg_step_def local_step_def s1'_def)
  have al1: "device_alloc_chan_resources (devs s1 d) = device_alloc_chan_resources (devs s d)"
    using id by (auto simp: s0_def get_dma_id_def split: sum.splits if_splits)
  obtain e2 n s2 where rc: "register_chans re d (channels (devs s1 d)) 0 s1' = (e2, n, s2)"
    by (cases "register_chans re d (channels (devs s1 d)) 0 s1'")
  have z: "\<forall>c\<in>set (channels (devs s1 d)). client_count (chans s1' c) = 0"
    using assms(3) f1 prep(4) by (simp add: fresh_device_def s1'_def)
  note a2 = register_chans_admin [OF z rc]
  define s3 where "s3 = upd_dev d (\<lambda>dev. dev\<lparr>chancnt := n\<rparr>) s2"
  have f3: "channels (devs s3 d) = channels (devs s d)" "dmaengine_ref_count s3 = dmaengine_ref_count s"
    "ch_device (chans s3 x) = ch_device (chans s x)" "client_count (chans s3 x) = client_count (chans s x)"
    "device_alloc_chan_resources (devs s3 d) = device_alloc_chan_resources (devs s d)" for x
    using a2(1) f1 al1 prep(4) by (simp_all add: s3_def s1'_def admin_step_def)
  obtain okk s4 where rr: "(if dmaengine_ref_count s3 \<noteq> 0 \<and> \<not> dma_has_cap DMA_PRIVATE (cap_mask (devs s3 d))
      then register_refs env (channels (devs s3 d)) s3 else (True, s3)) = (okk, s4)"
    by (cases "if dmaengine_ref_count s3 \<noteq> 0 \<and> \<not> dma_has_cap DMA_PRIVATE (cap_mask (devs s3 d))
      then register_refs env (channels (devs s3 d)) s3 else (True, s3)")
  note run = assms(4) [unfolded register_eq [OF s0_def id rc [unfolded s1'_def] s3_def rr]]
  then have okk and s': "s' = publish_device env d s4"
    by (auto simp: seq_ok_eq_Inr_iff split: if_splits option.splits)
  have ok': "engine_ok env U base (insert d K) s'" using engine_ok_register [OF assms(1-4)] by simp
  have dl: "d \<in> set (dma_device_list s')" by (simp add: s' publish_device_def Let_def)
  have fp: "client_count (chans s' c) = client_count (chans s4 c)" "dmaengine_ref_count s' = dmaengine_ref_count s4"
    "channels (devs s' d) = channels (devs s4 d)" "dev_private s' d = dev_private s4 d"
    by (simp_all add: s' publish_device_def Let_def dev_private_def)
  have pos: "0 < client_count (chans s4 c)" if r: "dmaengine_ref_count s \<noteq> 0"
  proof -
    have "\<not> dev_private s3 d"
      using rr fp(4) assms(5) by (auto simp: dev_private_def)
    then have rf: "register_refs env (channels (devs s d)) s3 = (True, s4)"
      using rr r f3 \<open>okk\<close> by (simp add: dev_private_def)
    have "alloc_succeeds s3 d" using assms(6) f3 by (simp add: alloc_succeeds_def)
    from register_refs_taken [OF assms(1) rf this] show ?thesis
      using assms(3,7) f3 by (simp add: fresh_device_def)
  qed
  have ref: "devs s4 = devs s3 \<and> dmaengine_ref_count s4 = dmaengine_ref_count s3"
    using rr register_refs_frame [OF assms(1)] by (cases "dmaengine_ref_count s3 = 0 \<or> dev_private s3 d")
      (auto simp: dev_private_def)
  have "dev_disc (dmaengine_ref_count s') s' d" using eng_inv_listed(3) [OF engine_okD(1) [OF ok'] dl] .
  then have "client_count (chans s' c) \<in> {0, dmaengine_ref_count s}"
    using assms(5,7) ref fp(2,3) f3(1,2) by (fastforce simp: dev_disc_def)
  with pos fp(1) dl show ?thesis by fastforce
qed

subsection \<open>What the last client frees\<close>

text \<open>The channels in use of the public devices, in the order in which the clients leave them.\<close>

definition public_in_use :: "'d engine \<Rightarrow> nat list" where
  "public_in_use s = [c \<leftarrow> concat [channels (devs s d). d \<leftarrow> dma_device_list s, \<not> dev_private s d].
     client_count (chans s c) \<noteq> 0]"

definition free_chan :: "'d engine \<Rightarrow> nat \<Rightarrow> 'd \<Rightarrow> 'd" where
  "free_chan s c x = device_free_chan_resources (devs s (ch_device (chans s c))) c x"

lemma chan_put_drv:
  assumes "client_count (chans s c) \<in> {0, 1}"
  shows "drv (dma_chan_put env c s) =
    (if client_count (chans s c) = 0 then drv s else free_chan s c (drv s))"
  using assms by (auto simp: dma_chan_put_def Let_def call_free_def free_chan_def upd_chan_def upd_owner_def
      split: option.splits)

lemma put_chans_drv:
  assumes "env_wf env" and "distinct cs" and "\<forall>c\<in>set cs. client_count (chans s c) \<in> {0, 1}"
  shows "drv (fold (dma_chan_put env) cs s) =
    fold (free_chan s) [c \<leftarrow> cs. client_count (chans s c) \<noteq> 0] (drv s)"
  using assms(2,3)
proof (induction cs arbitrary: s)
  case (Cons c cs)
  let ?s1 = "dma_chan_put env c s"
  note sb = count_stepD(3) [OF chan_put_step [OF assms(1), of c s]]
  note D = same_but_countsD [OF sb]
  have o: "chans ?s1 x = chans s x" if "x \<in> set cs" for x
    using same_but_counts_other [OF sb, of x] Cons.prems(1) that by auto
  have fr: "free_chan ?s1 = free_chan s" by (simp add: fun_eq_iff free_chan_def D)
  have fi: "[x \<leftarrow> cs. client_count (chans ?s1 x) \<noteq> 0] = [x \<leftarrow> cs. client_count (chans s x) \<noteq> 0]"
    using o by (auto intro: filter_cong)
  have "drv (fold (dma_chan_put env) cs ?s1) = fold (free_chan ?s1) [c \<leftarrow> cs. client_count (chans ?s1 c) \<noteq> 0] (drv ?s1)"
    using Cons.prems o by (intro Cons.IH) auto
  then show ?case using chan_put_drv [of s c env] Cons.prems(2) by (simp add: fr fi)
qed simp

lemma put_devs_drv:
  assumes "env_wf env" and "distinct ds"
    and "\<forall>d\<in>set ds. dev_topo s d \<and> (\<not> dev_private s d \<longrightarrow> (\<forall>c\<in>set (channels (devs s d)). client_count (chans s c) \<in> {0, 1}))"
  shows "drv (put_devs env ds s) = fold (free_chan s)
    [c \<leftarrow> concat [channels (devs s d). d \<leftarrow> ds, \<not> dev_private s d]. client_count (chans s c) \<noteq> 0] (drv s)"
  using assms(2,3)
proof (induction ds arbitrary: s)
  case (Cons d ds)
  show ?case
  proof (cases "dev_private s d")
    case True
    then show ?thesis using Cons by (simp add: dev_private_def)
  next
    case False
    let ?cs = "channels (devs s d)" and ?s1 = "fold (dma_chan_put env) (channels (devs s d)) s"
    have sb: "same_but_counts (set ?cs) s ?s1" by (rule put_chans_same [OF assms(1)])
    note D = same_but_countsD [OF sb]
    have o: "chans ?s1 c = chans s c" if "x \<in> set ds" "c \<in> set (channels (devs s x))" for x c
    proof (rule same_but_counts_other [OF sb])
      show "c \<notin> set ?cs" using that Cons.prems topo_disjoint [of s x d c] by auto
    qed
    have fr: "free_chan ?s1 = free_chan s" by (simp add: fun_eq_iff free_chan_def D)
    have pr: "dev_private ?s1 x = dev_private s x" "dev_topo ?s1 x = dev_topo s x" for x
      using same_but_counts_private [OF sb] same_but_counts_topo [OF sb] by auto
    have fi: "[c \<leftarrow> concat [channels (devs ?s1 d). d \<leftarrow> ds, \<not> dev_private ?s1 d]. client_count (chans ?s1 c) \<noteq> 0] =
        [c \<leftarrow> concat [channels (devs s d). d \<leftarrow> ds, \<not> dev_private s d]. client_count (chans s c) \<noteq> 0]"
      unfolding pr D(1) using o by (intro filter_cong) (auto split: if_splits)
    have "drv (put_devs env ds ?s1) = fold (free_chan ?s1)
        [c \<leftarrow> concat [channels (devs ?s1 d). d \<leftarrow> ds, \<not> dev_private ?s1 d]. client_count (chans ?s1 c) \<noteq> 0] (drv ?s1)"
      using Cons.prems o D(1) pr by (intro Cons.IH) auto
    then have "drv (put_devs env ds ?s1) = fold (free_chan s)
        [c \<leftarrow> concat [channels (devs s d). d \<leftarrow> ds, \<not> dev_private s d]. client_count (chans s c) \<noteq> 0] (drv ?s1)"
      unfolding fi fr .
    moreover have "drv ?s1 = fold (free_chan s) [c \<leftarrow> ?cs. client_count (chans s c) \<noteq> 0] (drv s)"
      using Cons.prems False by (intro put_chans_drv [OF assms(1)]) (auto simp: dev_topo_def)
    ultimately show ?thesis using False by (simp add: dev_private_def)
  qed
qed simp

lemma put_frees:
  assumes "env_wf env" and "eng_inv K s" and "dmaengine_ref_count s = 1" and "dmaengine_put env s = Inr s'"
  shows "drv s' = fold (free_chan s) (public_in_use s) (drv s)"
proof -
  let ?s1 = "s\<lparr>dmaengine_ref_count := 0\<rparr>"
  have s': "s' = put_devs env (dma_device_list s) ?s1" using assms(3,4) by (simp add: dmaengine_put_def)
  have c01: "client_count (chans s c) \<in> {0, 1}"
    if "d \<in> set (dma_device_list s)" "\<not> dev_private s d" "c \<in> set (channels (devs s d))" for c d
    using eng_inv_listed(3) [OF assms(2) that(1)] that(2,3) assms(3) by (simp add: dev_disc_def)
  have "drv s' = fold (free_chan ?s1) [c \<leftarrow> concat [channels (devs ?s1 d). d \<leftarrow> dma_device_list s, \<not> dev_private ?s1 d].
      client_count (chans ?s1 c) \<noteq> 0] (drv ?s1)"
    unfolding s' using assms(2) eng_inv_listed(2) [OF assms(2)] c01
    by (intro put_devs_drv [OF assms(1)]) (auto simp: eng_inv_def ref_count_topo ref_count_private)
  moreover have "free_chan ?s1 = free_chan s" by (simp add: fun_eq_iff free_chan_def)
  ultimately show ?thesis by (simp add: public_in_use_def ref_count_private cong: if_cong)
qed

subsection \<open>Reachable states\<close>

text \<open>\<open>K\<close> collects the registered devices; \<open>U\<close> holds all channels of the machine.\<close>

inductive eng_step :: "kenv \<Rightarrow> nat set \<Rightarrow> nat set \<times> 'd engine \<Rightarrow> nat set \<times> 'd engine \<Rightarrow> bool"
  for env0 U where
  step_get: "env_wf env \<Longrightarrow> possible_cpus env = possible_cpus env0 \<Longrightarrow>
    eng_step env0 U (K, s) (K, dmaengine_get env s)"
| step_put: "env_wf env \<Longrightarrow> possible_cpus env = possible_cpus env0 \<Longrightarrow> 0 < dmaengine_ref_count s \<Longrightarrow>
    dmaengine_put env s = Inr s' \<Longrightarrow> eng_step env0 U (K, s) (K, s')"
| step_request: "env_wf env \<Longrightarrow> possible_cpus env = possible_cpus env0 \<Longrightarrow>
    dma_request_channel env msk fn s = (r, s') \<Longrightarrow> eng_step env0 U (K, s) (K, s')"
| step_release: "env_wf env \<Longrightarrow> possible_cpus env = possible_cpus env0 \<Longrightarrow>
    held_privately s c \<Longrightarrow> ch_device (chans s c) \<in> K \<Longrightarrow>
    eng_step env0 U (K, s) (K, dma_release_channel env c s)"
| step_register: "env_wf env \<Longrightarrow> possible_cpus env = possible_cpus env0 \<Longrightarrow> fresh_device U K s d \<Longrightarrow>
    dma_async_device_register env cfg re (Some d) s = Inr (e, s') \<Longrightarrow>
    eng_step env0 U (K, s) (if e = None then insert d K else K, s')"
| step_unregister: "env_wf env \<Longrightarrow> possible_cpus env = possible_cpus env0 \<Longrightarrow>
    eng_step env0 U (K, s) (K, dma_async_device_unregister env d s)"
| step_copy_inc: "eng_step env0 U (K, s) (K, copy_ref_inc s)"
| step_copy_dec: "eng_step env0 U (K, s) (K, copy_ref_dec s)"
| step_stop: "eng_step env0 U (K, s) (K, snd (stop_module env force m s))"

inductive_cases eng_stepE: "eng_step env0 U (K, s) (K', s')"

inductive eng_reach :: "kenv \<Rightarrow> nat set \<Rightarrow> nat set \<times> 'd engine \<Rightarrow> nat set \<times> 'd engine \<Rightarrow> bool"
  for env0 U st0 where
  reach_init: "eng_reach env0 U st0 st0"
| reach_step: "eng_reach env0 U st0 st \<Longrightarrow> eng_step env0 U st st' \<Longrightarrow> eng_reach env0 U st0 st'"

text \<open>The state after the subsystem has started: no devices, no clients, an empty table.\<close>

definition eng_start :: "nat set \<Rightarrow> 'd engine \<Rightarrow> bool" where
  "eng_start U s \<longleftrightarrow> finite U \<and> dma_device_list s = [] \<and> dmaengine_ref_count s = 0 \<and>
     (\<forall>cap cpu. channel_table s cap cpu = None) \<and> (\<forall>c\<in>U. client_count (chans s c) = 0)"

definition base_refs :: "kenv \<Rightarrow> 'd engine \<Rightarrow> nat \<Rightarrow> u64" where
  "base_refs env s m = module_refcount env (mods s m)"

lemma engine_ok_cpu:
  assumes "possible_cpus env' = possible_cpus env"
  shows "engine_ok env' U base K s = engine_ok env U base K s"
  using refcount_other_cpu [OF assms]
  by (simp add: engine_ok_def refs_balanced_def table_shape_def assms)

lemma engine_ok_move:
  assumes "possible_cpus env = possible_cpus env0" and "engine_ok env0 U base K s"
    and "engine_ok env U base K s \<Longrightarrow> engine_ok env U base K' s'"
  shows "engine_ok env0 U base K' s'"
  using assms(2,3) by (simp add: engine_ok_cpu [OF assms(1)])

lemma eng_step_ok:
  assumes "eng_step env0 U st st'" and "engine_ok env0 U base (fst st) (snd st)"
  shows "engine_ok env0 U base (fst st') (snd st')"
  using assms
proof (induction rule: eng_step.induct)
  case (step_get env K s)
  from engine_ok_move [OF this(2) this(3) [unfolded fst_conv snd_conv] engine_ok_get [OF this(1)]]
  show ?case by simp
next
  case (step_put env s s' K)
  from engine_ok_move [OF this(2) this(5) [unfolded fst_conv snd_conv] engine_ok_put [OF this(1) _ this(3,4)]]
  show ?case by simp
next
  case (step_request env msk fn s r s' K)
  from engine_ok_move [OF this(2) this(4) [unfolded fst_conv snd_conv] engine_ok_request [OF this(1) _ this(3)]]
  show ?case by simp
next
  case (step_release env s c K)
  from engine_ok_move [OF this(2) this(5) [unfolded fst_conv snd_conv] engine_ok_release [OF this(1) _ this(3,4)]]
  show ?case by simp
next
  case (step_register env K s d cfg re e s')
  from engine_ok_move [OF this(2) this(5) [unfolded fst_conv snd_conv] engine_ok_register [OF this(1) _ this(3,4)]]
  show ?case by simp
next
  case (step_unregister env K s d)
  from engine_ok_move [OF this(2) this(3) [unfolded fst_conv snd_conv] engine_ok_unregister [OF this(1)]]
  show ?case by simp
next
  case (step_copy_inc K s)
  have "admin_step s (copy_ref_inc s)" by (simp add: admin_step_def copy_ref_inc_def)
  from engine_ok_admin [OF this step_copy_inc [unfolded fst_conv snd_conv]] show ?case by simp
next
  case (step_copy_dec K s)
  have "admin_step s (copy_ref_dec s)" by (simp add: admin_step_def copy_ref_dec_def)
  from engine_ok_admin [OF this step_copy_dec [unfolded fst_conv snd_conv]] show ?case by simp
next
  case (step_stop K s env force m)
  from engine_ok_stop [OF this [unfolded fst_conv snd_conv]] show ?case by simp
qed

lemma eng_start_ok:
  assumes "eng_start U s"
  shows "engine_ok env U (base_refs env s) {} s"
proof -
  have "held U s m = 0" for m using assms by (simp add: held_def eng_start_def)
  with assms show ?thesis
    by (simp add: engine_ok_def eng_inv_def table_shape_def table_live_def refs_balanced_def base_refs_def
        eng_start_def)
qed

lemma eng_reach_ok:
  assumes "eng_reach env U ({}, s0) (K, s)" and "eng_start U s0"
  shows "engine_ok env U (base_refs env s0) K s"
proof -
  have "engine_ok env U (base_refs env s0) (fst st) (snd st)" if "eng_reach env U ({}, s0) st" for st
    using that
  proof (induction rule: eng_reach.induct)
    case reach_init
    then show ?case using eng_start_ok [OF assms(2)] by simp
  next
    case (reach_step st st')
    then show ?case using eng_step_ok by blast
  qed
  from this [OF assms(1)] show ?thesis by simp
qed

subsection \<open>The interface of exclusive allocation\<close>

text \<open>Requests a channel up to \<open>n\<close> times and stops at the first request that fails.\<close>

fun request_upto :: "('s \<Rightarrow> nat option \<times> 's) \<Rightarrow> nat \<Rightarrow> 's \<Rightarrow> nat list \<times> 's" where
  "request_upto request 0 s = ([], s)"
| "request_upto request (Suc n) s = (case request s of (None, s1) \<Rightarrow> ([], s1)
     | (Some c, s1) \<Rightarrow> (case request_upto request n s1 of (cs, s2) \<Rightarrow> (c # cs, s2)))"

locale exclusive_channels =
  fixes ok :: "'s \<Rightarrow> bool"
    and request :: "'s \<Rightarrow> nat option \<times> 's"
    and release :: "nat \<Rightarrow> 's \<Rightarrow> 's"
    and owned :: "'s \<Rightarrow> nat set"
  assumes request_ok: "ok s \<Longrightarrow> request s = (r, s') \<Longrightarrow> ok s'"
    and request_some: "ok s \<Longrightarrow> request s = (Some c, s') \<Longrightarrow> c \<notin> owned s \<and> owned s' = insert c (owned s)"
    and request_none: "ok s \<Longrightarrow> request s = (None, s') \<Longrightarrow> owned s' = owned s"
    and release_ok: "ok s \<Longrightarrow> c \<in> owned s \<Longrightarrow> ok (release c s)"
    and release_owned: "ok s \<Longrightarrow> c \<in> owned s \<Longrightarrow> owned (release c s) = owned s - {c}"
begin

lemma request_upto_owned:
  "ok s \<Longrightarrow> request_upto request n s = (cs, s') \<Longrightarrow>
    ok s' \<and> distinct cs \<and> set cs \<inter> owned s = {} \<and> owned s' = owned s \<union> set cs"
proof (induction n arbitrary: s cs s')
  case (Suc n)
  obtain r s1 where q: "request s = (r, s1)" by (cases "request s")
  show ?case
  proof (cases r)
    case None
    then show ?thesis using Suc.prems q request_ok [of s r s1] request_none [of s s1] by auto
  next
    case (Some c)
    obtain ds s2 where u: "request_upto request n s1 = (ds, s2)" by (cases "request_upto request n s1")
    have "ok s1" using request_ok Suc.prems(1) q by blast
    note IH = Suc.IH [OF this u]
    have "c \<notin> owned s \<and> owned s1 = insert c (owned s)" using request_some Suc.prems(1) q Some by blast
    with IH Suc.prems(2) q Some u show ?thesis by auto
  qed
qed simp

lemma release_all_owned:
  "ok s \<Longrightarrow> distinct cs \<Longrightarrow> set cs \<subseteq> owned s \<Longrightarrow>
    ok (fold release cs s) \<and> owned (fold release cs s) = owned s - set cs"
proof (induction cs arbitrary: s)
  case (Cons c cs)
  have "ok (release c s)" "owned (release c s) = owned s - {c}"
    using Cons.prems release_ok release_owned by auto
  then show ?case using Cons.IH [of "release c s"] Cons.prems by auto
qed simp

text \<open>Requesting channels and giving all of them back leaves the ownership as it was.\<close>

lemma request_release_all:
  assumes "ok s" and "request_upto request n s = (cs, s')"
  shows "owned (fold release cs s') = owned s"
  using request_upto_owned [OF assms] release_all_owned [of s' cs] by auto

end

definition owned_set :: "nat set \<Rightarrow> 'd engine \<Rightarrow> nat set" where
  "owned_set K s = {c. held_privately s c \<and> ch_device (chans s c) \<in> K}"

lemma request_ch_device:
  assumes "env_wf env" and "dma_request_channel env msk fn s = (r, s')"
  shows "ch_device (chans s' c) = ch_device (chans s c)"
proof -
  let ?U = "\<Union>d\<in>set (dma_device_list s). set (channels (devs s d))"
  have "keeps env ?U s (snd (request_scan env msk fn (dma_device_list s) s))"
    by (rule keeps_request_scan [OF assms(1)]) auto
  with assms(2) show ?thesis by (simp add: dma_request_channel_def keeps_def)
qed

lemma request_owned:
  assumes "env_wf env" and "eng_inv K s" and "dma_request_channel env msk fn s = (Some c, s')"
  shows "c \<notin> owned_set K s \<and> owned_set K s' = insert c (owned_set K s)"
proof -
  let ?d = "ch_device (chans s c)"
  have "exclusive_grant msk fn s c s'" by (rule request_channel_inv(4) [OF assms refl])
  then have g: "?d \<in> set (dma_device_list s)" "c \<in> set (channels (devs s ?d))"
    "client_count (chans s c) = 0" "client_count (chans s' c) = 1" "dev_private s' ?d"
    "\<And>x. x \<noteq> c \<Longrightarrow> chans s' x = chans s x" "\<not> dev_private s ?d \<Longrightarrow> busy s ?d = {}"
    "devs s' = (devs s)(?d := set_private (devs s ?d))"
    by (simp_all add: exclusive_grant_def Let_def)
  have cd: "ch_device (chans s' x) = ch_device (chans s x)" for x
    by (rule request_ch_device [OF assms(1,3)])
  have chs: "channels (devs s' x) = channels (devs s x)" for x by (simp add: g(8))
  have "held_privately s' x \<longleftrightarrow> held_privately s x" if x: "x \<noteq> c" for x
  proof (cases "ch_device (chans s x) = ?d")
    case False
    then show ?thesis using g(6) [OF x] g(8) by (simp add: held_privately_def dev_private_def)
  next
    case True
    have "x \<in> busy s ?d" if "held_privately s' x"
      using that g(6) [OF x] True chs by (simp add: held_privately_def busy_def)
    then have "dev_private s ?d" if "held_privately s' x" using that g(7) by auto
    then show ?thesis using g(5) g(6) [OF x] True chs by (auto simp: held_privately_def)
  qed
  moreover have "held_privately s' c" using g(2,4,5) cd chs by (simp add: held_privately_def)
  moreover have "\<not> held_privately s c" using g(3) by (simp add: held_privately_def)
  moreover have "?d \<in> K" using eng_inv_listed(1) [OF assms(2) g(1)] .
  ultimately show ?thesis using cd by (auto simp: owned_set_def) metis+
qed

lemma release_owned_set:
  assumes "env_wf env" and "eng_inv K s" and "c \<in> owned_set K s"
  shows "owned_set K (dma_release_channel env c s) = owned_set K s - {c}"
proof -
  let ?s' = "dma_release_channel env c s"
  let ?d = "ch_device (chans s c)"
  have hp: "held_privately s c" and dK: "?d \<in> K" using assms(3) by (simp_all add: owned_set_def)
  note R = release_channel_step [OF assms(1) hp]
  have chs: "channels (devs ?s' x) = channels (devs s x)" for x by (simp add: R(4))
  have "held_privately ?s' x \<longleftrightarrow> held_privately s x" if x: "x \<noteq> c" for x
  proof (cases "ch_device (chans s x) = ?d")
    case False
    then show ?thesis using R(2) R(4) x by (simp add: held_privately_def dev_private_def)
  next
    case True
    have sx: "chans ?s' x = chans s x" using R(2) x by simp
    have "dev_private ?s' ?d" if hx: "held_privately s x"
    proof -
      let ?p = "privatecnt (devs s ?d)"
      have "{c, x} \<subseteq> busy s ?d" using hp hx True by (auto simp: held_privately_def busy_def)
      moreover have "finite (busy s ?d)" by (simp add: busy_def)
      ultimately have "card {c, x} \<le> card (busy s ?d)" by (intro card_mono)
      then have "2 \<le> card (busy s ?d)" using x by simp
      then have "2 \<le> unat ?p"
        using eng_invD(3) [OF assms(2) dK] hp by (simp add: held_privately_def dev_disc_def)
      then have "unat (?p - 1) = unat ?p - 1" and "1 \<le> unat ?p - 1" by (simp_all add: unat_diff_small)
      then have "?p - 1 \<noteq> 0" by (metis not_one_le_zero unsigned_0)
      then show ?thesis
        using hp by (simp add: R(4) dev_private_def drop_private_def Let_def held_privately_def)
    qed
    then show ?thesis using True sx chs hp by (auto simp: held_privately_def)
  qed
  moreover have "\<not> held_privately ?s' c" using R(1) by (simp add: held_privately_def)
  ultimately show ?thesis using R(3) by (auto simp: owned_set_def) metis+
qed

interpretation engine_channels: exclusive_channels
  "\<lambda>s. env_wf env \<and> eng_inv K s" "dma_request_channel env msk fn" "dma_release_channel env" "owned_set K"
  for env K msk fn
proof unfold_locales
  fix s r s' assume "env_wf env \<and> eng_inv K s" "dma_request_channel env msk fn s = (r, s')"
  then show "env_wf env \<and> eng_inv K s'" using request_channel_inv(1) by blast
next
  fix s c s' assume "env_wf env \<and> eng_inv K s" "dma_request_channel env msk fn s = (Some c, s')"
  then show "c \<notin> owned_set K s \<and> owned_set K s' = insert c (owned_set K s)" using request_owned by blast
next
  fix s s' assume a: "env_wf env \<and> eng_inv K s" "dma_request_channel env msk fn s = (None, s')"
  then show "owned_set K s' = owned_set K s"
    using request_channel_inv(3) [of env K s msk fn None s']
    by (simp add: owned_set_def held_privately_def dev_private_def)
next
  fix s c assume "env_wf env \<and> eng_inv K s" "c \<in> owned_set K s"
  then show "env_wf env \<and> eng_inv K (dma_release_channel env c s)"
    using release_channel_inv [of env K s c] by (simp add: owned_set_def)
next
  fix s c assume "env_wf env \<and> eng_inv K s" "c \<in> owned_set K s"
  then show "owned_set K (dma_release_channel env c s) = owned_set K s - {c}"
    using release_owned_set by blast
qed

subsection \<open>Properties\<close>

text \<open>
  C1. In every state the subsystem can reach, the references a driver module carries are those it
  had at the start plus the references held on its channels; so an unforced attempt to unload a
  driver that had none of its own fails, and changes nothing, as long as any of its channels is
  held by a client.
\<close>

theorem driver_pinned_while_channels_held:
  assumes "eng_reach env U ({}, s0) (K, s)" and "eng_start U s0"
  shows "module_refcount env (mods s m) = base_refs env s0 m + of_int (held U s m) \<and>
    (base_refs env s0 m = 0 \<and> 0 < held U s m \<and> held U s m < 2 ^ 64 \<longrightarrow>
       stop_module env False m s = (Some EWOULDBLOCK, s))"
proof -
  have r: "module_refcount env (mods s m) = base_refs env s0 m + of_int (held U s m)"
    using engine_okD(4) [OF eng_reach_ok [OF assms]] by (simp add: refs_balanced_def)
  have "stop_module env False m s = (Some EWOULDBLOCK, s)"
    if "base_refs env s0 m = 0" "0 < held U s m" "held U s m < 2 ^ 64"
  proof -
    have "uint (of_int (held U s m) :: u64) = held U s m"
      using that by (simp add: unsigned_of_int take_bit_int_eq_self)
    with that have "(of_int (held U s m) :: u64) \<noteq> 0" by auto
    with r that show ?thesis by (simp add: stop_module_def try_stop_module_nonblock_def)
  qed
  with r show ?thesis by blast
qed

text \<open>
  C2. In every state the subsystem can reach, each registered device is either public, and then
  every channel is held once per registered client or not at all, or private, and then every
  channel is held at most once and the private count covers them. A public channel is left without
  its references only where its allocation failed or while the device has been private: when the
  driver can allocate, a client that registers leaves one reference per client on every channel of
  every public device that stays on the list, a device that is registered takes one reference per
  client for every channel before it is published, and a client that leaves takes off exactly its own.
\<close>

theorem public_private_discipline:
  assumes "eng_reach env U ({}, s0) (K, s)" and "eng_start U s0"
    and "env_wf env'" and "possible_cpus env' = possible_cpus env"
  shows "(\<forall>d\<in>set (dma_device_list s). if dma_has_cap DMA_PRIVATE (cap_mask (devs s d))
    then (\<forall>c\<in>set (channels (devs s d)). client_count (chans s c) = 0 \<or> client_count (chans s c) = 1) \<and>
      card {c \<in> set (channels (devs s d)). client_count (chans s c) \<noteq> 0} \<le> unat (privatecnt (devs s d))
    else privatecnt (devs s d) = 0 \<and> (\<forall>c\<in>set (channels (devs s d)).
      client_count (chans s c) = 0 \<or> client_count (chans s c) = dmaengine_ref_count s)) \<and>
    (\<forall>d\<in>set (dma_device_list (dmaengine_get env' s)).
      \<not> dev_private (dmaengine_get env' s) d \<and> alloc_succeeds s d \<longrightarrow>
      (\<forall>c\<in>set (channels (devs s d)). client_count (chans (dmaengine_get env' s) c) = dmaengine_ref_count s + 1)) \<and>
    (\<forall>d cfg re s'. fresh_device U K s d \<and> dma_async_device_register env' cfg re (Some d) s = Inr (None, s') \<and>
      \<not> dev_private s' d \<and> alloc_succeeds s d \<longrightarrow>
      (\<forall>c\<in>set (channels (devs s d)). client_count (chans s' c) = dmaengine_ref_count s)) \<and>
    (\<forall>d\<in>set (dma_device_list s). \<forall>s'. 0 < dmaengine_ref_count s \<and> dmaengine_put env' s = Inr s' \<and>
      \<not> dev_private s d \<longrightarrow> (\<forall>c\<in>set (channels (devs s d)).
        client_count (chans s c) = dmaengine_ref_count s \<longrightarrow> client_count (chans s' c) = dmaengine_ref_count s - 1))"
proof -
  note ok = eng_reach_ok [OF assms(1,2)]
  have ok': "engine_ok env' U (base_refs env s0) K s" using ok by (simp add: engine_ok_cpu [OF assms(4)])
  note inv = engine_okD(1) [OF ok]
  show ?thesis
  proof (intro conjI ballI allI impI)
    fix d assume "d \<in> set (dma_device_list s)"
    from eng_inv_listed(3) [OF inv this]
    show "if dma_has_cap DMA_PRIVATE (cap_mask (devs s d))
      then (\<forall>c\<in>set (channels (devs s d)). client_count (chans s c) = 0 \<or> client_count (chans s c) = 1) \<and>
        card {c \<in> set (channels (devs s d)). client_count (chans s c) \<noteq> 0} \<le> unat (privatecnt (devs s d))
      else privatecnt (devs s d) = 0 \<and> (\<forall>c\<in>set (channels (devs s d)).
        client_count (chans s c) = 0 \<or> client_count (chans s c) = dmaengine_ref_count s)"
      by (cases "dma_has_cap DMA_PRIVATE (cap_mask (devs s d))")
        (simp_all add: dev_disc_def dev_private_def busy_def)
  qed (use get_takes_refs [OF assms(3) inv] register_takes_refs [OF assms(3) ok']
      put_keeps_refs [OF assms(3) inv] in blast)+
qed

text \<open>
  C4. In every reachable state with a registered client, the channel that \<open>dma_find_channel\<close> reads
  from the table of the current CPU is one whose resources are allocated (its count is positive)
  and whose device is public and offers the operation.
\<close>

theorem found_channel_is_live:
  assumes "eng_reach env U ({}, s0) (K, s)" and "eng_start U s0" and "0 < dmaengine_ref_count s"
    and "dma_find_channel env' tx s = Some c"
  shows "0 < client_count (chans s c) \<and> chan_public s c \<and> tx \<in> cap_mask (devs s (ch_device (chans s c))) \<and>
    c \<in> set (channels (devs s (ch_device (chans s c))))"
  using table_liveD [OF engine_okD(6) [OF eng_reach_ok [OF assms(1,2)]] assms(3)
      assms(4) [unfolded dma_find_channel_def]]
  by (simp add: chan_public_def dev_private_def)

text \<open>
  C3. A channel that \<open>dma_request_channel\<close> returns was free, satisfies the wanted capabilities and
  the filter, and is held by the caller alone afterwards; a series of requests returns pairwise
  different channels, none of which had an owner, and giving them back restores the ownership.
\<close>

theorem requested_channels_are_exclusive:
  assumes "env_wf env" and "eng_inv K s"
    and "request_upto (dma_request_channel env msk fn) n s = (cs, s')"
  shows "distinct cs \<and> set cs \<inter> owned_set K s = {} \<and> owned_set K s' = owned_set K s \<union> set cs \<and>
    owned_set K (fold (dma_release_channel env) cs s') = owned_set K s \<and>
    (\<forall>c s1. dma_request_channel env msk fn s = (Some c, s1) \<longrightarrow>
       client_count (chans s c) = 0 \<and> client_count (chans s1 c) = 1 \<and>
       msk \<subseteq> cap_mask (devs s (ch_device (chans s c))) \<and> (\<forall>f. fn = Some f \<longrightarrow> f c))"
proof -
  have "client_count (chans s c) = 0 \<and> client_count (chans s1 c) = 1 \<and>
      msk \<subseteq> cap_mask (devs s (ch_device (chans s c))) \<and> (\<forall>f. fn = Some f \<longrightarrow> f c)"
    if "dma_request_channel env msk fn s = (Some c, s1)" for c s1
    using request_channel_inv(4) [OF assms(1,2) that refl] unfolding exclusive_grant_def Let_def by blast
  then show ?thesis
    using engine_channels.request_upto_owned [of env K s msk fn n cs s'] assms
      engine_channels.request_release_all [of env K s msk fn n cs s'] by auto
qed

text \<open>
  C5. A request that succeeds and the release of its channel cancel out: every client count, the
  capability masks and private counts of all devices and the references on all driver modules
  are as before.
\<close>

theorem request_release_roundtrip:
  assumes "env_wf env" and "eng_inv K s" and "dma_request_channel env msk fn s = (Some c, s1)"
  shows "devs (dma_release_channel env c s1) = devs s \<and>
    (\<forall>x. client_count (chans (dma_release_channel env c s1) x) = client_count (chans s x)) \<and>
    (\<forall>m. module_refcount env (mods (dma_release_channel env c s1) m) = module_refcount env (mods s m))"
proof -
  let ?s' = "dma_release_channel env c s1"
  let ?d = "ch_device (chans s c)"
  have g: "exclusive_grant msk fn s c s1" by (rule request_channel_inv(4) [OF assms refl])
  have cd: "ch_device (chans s1 x) = ch_device (chans s x)" for x
    by (rule request_ch_device [OF assms(1,3)])
  have dl: "?d \<in> set (dma_device_list s)" using g by (simp add: exclusive_grant_def Let_def)
  note disc = eng_inv_listed [OF assms(2) dl]
  have hp: "held_privately s1 c"
    using g cd by (auto simp: exclusive_grant_def Let_def held_privately_def)
  note R = release_channel_step [OF assms(1) hp]
  have dv: "devs ?s' = devs s"
    using R(4) g cd drop_set_private [OF disc(3)] by (simp add: exclusive_grant_def Let_def)
  have cc: "client_count (chans ?s' x) = client_count (chans s x)" for x
    using R(1,2) g by (cases "x = c") (auto simp: exclusive_grant_def Let_def)
  let ?U = "\<Union>d\<in>set (dma_device_list s). set (channels (devs s d))"
  have cU: "c \<in> ?U" using g dl by (auto simp: exclusive_grant_def Let_def)
  have "keeps env ?U s (snd (request_scan env msk fn (dma_device_list s) s))"
    by (rule keeps_request_scan [OF assms(1)]) auto
  then have k: "keeps env ?U s s1" using assms(3) by (simp add: dma_request_channel_def)
  have k2: "keeps env ?U s ?s'"
    by (rule keeps_trans [OF k keeps_release [OF assms(1) _ cU]]) simp
  have "held ?U ?s' m = held ?U s m" for m
    using k2 cc by (simp add: held_def dma_chan_to_owner_def keeps_def)
  with k2 have "module_refcount env (mods ?s' m) = module_refcount env (mods s m)" for m
    by (simp add: keeps_def)
  with dv cc show ?thesis by blast
qed

subsection \<open>Examples\<close>

definition demo_start :: "unit engine" where
  "demo_start = (demo_engine 0)\<lparr>dma_device_list := [], dma_idr := {}\<rparr>"

definition demo_cfg :: async_tx_config where
  "demo_cfg = \<lparr>CONFIG_ASYNC_TX_DMA = True, CONFIG_ASYNC_MEMCPY = True, CONFIG_ASYNC_MEMSET = False,
     CONFIG_ASYNC_XOR = False, CONFIG_ASYNC_TX_DISABLE_XOR_VAL_DMA = False, CONFIG_ASYNC_PQ = False,
     CONFIG_ASYNC_TX_DISABLE_PQ_VAL_DMA = False\<rparr>"

definition demo_reg :: reg_env where
  "demo_reg = \<lparr>idr_ref_ok = True, idr_rc = Inr 0, percpu_ok = (\<lambda>_. True), chan_dev_ok = (\<lambda>_. True),
     device_register_rc = (\<lambda>_. None)\<rparr>"

definition demo_registered :: "unit engine" where
  "demo_registered = (case dma_async_device_register demo_env demo_cfg demo_reg (Some 0) demo_start of
     Inr (e, s) \<Rightarrow> s | Inl _ \<Rightarrow> demo_start)"

definition demo_pre :: "unit engine" where
  "demo_pre = get_devs demo_env [0] (demo_registered\<lparr>dmaengine_ref_count := 1\<rparr>)"

definition demo_clients :: "unit engine" where
  "demo_clients = dmaengine_get demo_env demo_registered"

lemma demo_register:
  "dma_async_device_register demo_env demo_cfg demo_reg (Some 0) demo_start = Inr (None, demo_registered)"
proof -
  have "case dma_async_device_register demo_env demo_cfg demo_reg (Some 0) demo_start of
      Inr (None, s) \<Rightarrow> True | _ \<Rightarrow> False"
    by code_simp
  then show ?thesis by (auto simp: demo_registered_def split: sum.splits option.splits)
qed

lemma demo_registered_facts:
  "dma_device_list demo_registered = [0]" "dmaengine_ref_count demo_registered = 0"
  by code_simp+

lemma demo_pre_facts:
  "dmaengine_ref_count demo_pre = 1" "dma_device_list demo_pre = [0]"
  "client_count (chans demo_pre 4) = 1" "client_count (chans demo_pre 5) = 1"
  "dma_chan_to_owner demo_pre 4 = Some 0" "dma_chan_to_owner demo_pre 5 = Some 0"
  "eligible demo_pre DMA_MEMCPY = [4, 5]" "channels (devs demo_pre 0) = [4, 5]"
  "\<not> dma_has_cap DMA_PRIVATE (cap_mask (devs demo_pre 0))"
  "ch_device (chans demo_pre 5) = 0" "copy_align (devs demo_pre 0) = 0" "copy_dmaengine_ref_count demo_pre = 0"
  by code_simp+

lemma demo_clients_eq: "demo_clients = dma_channel_rebalance demo_env demo_pre"
  using dmaengine_get_eq [OF refl refl, of demo_env demo_registered] demo_pre_facts(1)
  by (simp add: demo_clients_def demo_pre_def demo_registered_facts)

lemma demo_clients_facts:
  "dmaengine_ref_count demo_clients = 1" "dma_device_list demo_clients = [0]"
  "client_count (chans demo_clients 4) = 1" "client_count (chans demo_clients 5) = 1"
  "dma_chan_to_owner demo_clients 4 = Some 0" "dma_chan_to_owner demo_clients 5 = Some 0"
  "channel_table demo_clients DMA_MEMCPY (Suc 0) = Some 5" "copy_dmaengine_ref_count demo_clients = 0"
  "ch_device (chans demo_clients 5) = 0" "copy_align (devs demo_clients 0) = 0"
proof -
  have "channel_table demo_clients DMA_MEMCPY (online_cpus demo_env ! 1) = Some (eligible demo_pre DMA_MEMCPY ! 1)"
    unfolding demo_clients_eq
    by (rule rebalance_memcpy_row [OF demo_wf]) (simp_all add: demo_pre_facts)
  then show "channel_table demo_clients DMA_MEMCPY (Suc 0) = Some 5" by (simp add: demo_pre_facts)
qed (use demo_pre_facts in \<open>simp_all add: demo_clients_eq dma_chan_to_owner_def\<close>)

lemma demo_start_ok: "eng_start {4, 5} demo_start"
  by (simp add: eng_start_def demo_start_def)

lemma demo_reach_registered: "eng_reach demo_env {4, 5} ({}, demo_start) ({0}, demo_registered)"
proof -
  have "fresh_device {4, 5} {} demo_start 0" by (simp add: fresh_device_def demo_start_def)
  from step_register [OF demo_wf refl this demo_register]
  have "eng_step demo_env {4, 5} ({}, demo_start) ({0}, demo_registered)" by simp
  then show ?thesis using reach_init reach_step by metis
qed

lemma demo_reach: "eng_reach demo_env {4, 5} ({}, demo_start) ({0}, demo_clients)"
  unfolding demo_clients_def by (rule reach_step [OF demo_reach_registered step_get [OF demo_wf refl]])

theorem driver_pinned_while_channels_held_witness:
  "stop_module demo_env False 0 demo_clients = (Some EWOULDBLOCK, demo_clients)"
proof -
  have "{c \<in> {4, 5}. dma_chan_to_owner demo_clients c = Some 0} = {4, 5}"
    using demo_clients_facts by auto
  then have "held {4, 5} demo_clients 0 = 2" by (simp add: held_def demo_clients_facts)
  moreover have "base_refs demo_env demo_start 0 = 0"
    by (simp add: base_refs_def module_refcount_def demo_start_def demo_defs)
  ultimately show ?thesis
    using driver_pinned_while_channels_held [OF demo_reach demo_start_ok, of 0] by simp
qed

theorem public_private_discipline_witness:
  "dma_device_list demo_registered = [0] \<and> privatecnt (devs demo_registered 0) = 0 \<and>
   client_count (chans (dmaengine_get demo_env demo_registered) 4) = 1"
proof -
  have f: "channels (devs demo_registered 0) = [4, 5]"
    "\<not> dma_has_cap DMA_PRIVATE (cap_mask (devs demo_registered 0))"
    "\<forall>c\<in>set [4, 5]. device_alloc_chan_resources (devs demo_registered 0) c () = (Inr 1, ())"
    by code_simp+
  then have "alloc_succeeds demo_registered 0" by (auto simp: alloc_succeeds_def)
  moreover have "0 \<in> set (dma_device_list (dmaengine_get demo_env demo_registered))"
    "\<not> dev_private (dmaengine_get demo_env demo_registered) 0"
    using demo_clients_facts(2) demo_pre_facts(9)
    by (simp_all add: demo_clients_def [symmetric] demo_clients_eq dev_private_def)
  ultimately show ?thesis
    using public_private_discipline [OF demo_reach_registered demo_start_ok demo_wf refl] f demo_registered_facts
    by simp
qed

theorem found_channel_is_live_witness:
  "0 < client_count (chans demo_clients 5) \<and> chan_public demo_clients 5"
  using found_channel_is_live [OF demo_reach demo_start_ok, of "demo_env\<lparr>this_cpu := 1\<rparr>" DMA_MEMCPY 5]
    demo_clients_facts by (simp add: dma_find_channel_def)

theorem requested_channels_are_exclusive_witness:
  "distinct (fst (request_upto (dma_request_channel demo_env {DMA_MEMCPY} None) 2 (demo_engine 0))) \<and>
   fst (dma_request_channel demo_env {DMA_MEMCPY} None (demo_engine 0)) = Some 4"
proof -
  obtain cs s' where "request_upto (dma_request_channel demo_env {DMA_MEMCPY} None) 2 (demo_engine 0) = (cs, s')"
    by fastforce
  moreover have "fst (dma_request_channel demo_env {DMA_MEMCPY} None (demo_engine 0)) = Some 4" by code_simp
  ultimately show ?thesis
    using requested_channels_are_exclusive [OF demo_wf demo_inv [of 0]] by fastforce
qed

theorem request_release_roundtrip_witness:
  "\<exists>s1. dma_request_channel demo_env {DMA_MEMCPY} None (demo_engine 0) = (Some 4, s1) \<and>
     devs (dma_release_channel demo_env 4 s1) = devs (demo_engine 0)"
proof -
  have "fst (dma_request_channel demo_env {DMA_MEMCPY} None (demo_engine 0)) = Some 4" by code_simp
  then obtain s1 where r: "dma_request_channel demo_env {DMA_MEMCPY} None (demo_engine 0) = (Some 4, s1)"
    by (metis prod.collapse)
  from request_release_roundtrip [OF demo_wf demo_inv [of 0] r] r show ?thesis by simp
qed

text \<open>
  C6. The channel that the shared copy policy picks is live as long as the copy clients are among
  the registered clients. \<open>copy_dmaengine_put\<close> consists of two critical sections: after the first
  one, when the last client leaves, the policy still returns the same channel although its count is
  zero and the driver has been told to free the resources of every public channel in use, this one
  among them; only the second one makes the policy return no channel.
\<close>

theorem shared_channel_outlives_last_client:
  assumes "eng_reach env U ({}, s0) (K, s)" and "eng_start U s0" and "env_wf env'"
    and "copy_dmaengine_ref_count s = 1" and "dmaengine_ref_count s = 1"
    and "copy_dma_get_channel_sh env' s = Some c" and "ch_device (chans s c) \<in> set (dma_device_list s)"
  shows "0 < client_count (chans s c) \<and> (\<exists>first rest s'. copy_put_sections env' = [first, rest] \<and>
    first s = Inr s' \<and> copy_dmaengine_put env' s = rest s' \<and>
    copy_dma_get_channel_sh env' s' = Some c \<and> client_count (chans s' c) = 0 \<and>
    c \<in> set (public_in_use s) \<and> drv s' = fold (free_chan s) (public_in_use s) (drv s) \<and>
    (\<exists>s''. rest s' = Inr s'' \<and> copy_dma_get_channel_sh env' s'' = None))"
proof -
  note ok = engine_okD [OF eng_reach_ok [OF assms(1,2)]]
  let ?d = "ch_device (chans s c)"
  have f: "dma_find_channel env' DMA_MEMCPY s = Some c" and al: "copy_aligned s (Some c) = Some c"
    using assms(4,6) by (auto simp: copy_dma_get_channel_sh_def copy_aligned_def split: option.splits if_splits)
  note l = table_liveD [OF ok(6) _ f [unfolded dma_find_channel_def]]
  have r: "0 < dmaengine_ref_count s" using assms(5) by simp
  obtain s' where p: "dmaengine_put env' s = Inr s'" "eng_inv K s'"
      "dmaengine_ref_count s' = dmaengine_ref_count s - 1" "dma_device_list s' = dma_device_list s"
    and sb: "same_but_counts (pub_chans s (dma_device_list s))
      (s\<lparr>dmaengine_ref_count := dmaengine_ref_count s - 1\<rparr>) s'"
    using dmaengine_put_inv [OF assms(3) ok(1) r] by blast
  note D = same_but_countsD [OF sb]
  have "dev_disc 0 s' ?d" "\<not> dev_private s' ?d"
    using eng_inv_listed(3) [OF p(2), of ?d] assms(5,7) p(3,4) l(4) [OF r] D(1)
    by (simp_all add: dev_private_def)
  then have z: "client_count (chans s' c) = 0" using l(2) [OF r] D(1) by (simp add: dev_disc_def)
  have g: "copy_dma_get_channel_sh env' s' = Some c"
    using f al assms(4) D(1,3,7,8)
    by (simp add: copy_dma_get_channel_sh_def dma_find_channel_def copy_aligned_def)
  have u: "c \<in> set (public_in_use s)" using assms(7) l(2,4,5) [OF r] by (auto simp: public_in_use_def)
  have "copy_dma_get_channel_sh env' (copy_ref_dec s') = None"
    using assms(4) D(7) by (simp add: copy_dma_get_channel_sh_def copy_ref_dec_def copy_aligned_def)
  then show ?thesis
    using p(1) l(5) [OF r] z g u put_frees [OF assms(3) ok(1) assms(5) p(1)]
    by (simp add: copy_put_sections_def copy_dmaengine_put_def seq_ok_def)
qed

theorem shared_channel_outlives_last_client_witness:
  "\<exists>first rest s'. copy_put_sections (demo_env\<lparr>this_cpu := 1\<rparr>) = [first, rest] \<and>
     first (copy_ref_inc demo_clients) = Inr s' \<and> copy_dma_get_channel_sh (demo_env\<lparr>this_cpu := 1\<rparr>) s' = Some 5 \<and> client_count (chans s' 5) = 0"
proof -
  let ?s = "copy_ref_inc demo_clients" and ?e = "demo_env\<lparr>this_cpu := 1\<rparr>"
  have "eng_reach demo_env {4, 5} ({}, demo_start) ({0}, ?s)"
    by (rule reach_step [OF demo_reach step_copy_inc])
  moreover have "env_wf ?e" by (simp add: env_wf_def)
  moreover have "copy_dmaengine_ref_count ?s = 1" "dmaengine_ref_count ?s = 1"
    by (simp_all add: copy_ref_inc_def demo_clients_facts)
  moreover from this have "copy_dma_get_channel_sh ?e ?s = Some 5"
    by (simp add: copy_dma_get_channel_sh_def dma_find_channel_def copy_aligned_def copy_ref_inc_def
        demo_clients_facts dmaengine_check_align_def)
  moreover have "ch_device (chans ?s 5) \<in> set (dma_device_list ?s)"
    by (simp add: copy_ref_inc_def demo_clients_facts)
  ultimately show ?thesis using shared_channel_outlives_last_client [OF _ demo_start_ok] by blast
qed

end
