(* ===== verification/Excl_Policy.thy ===== *)
theory Excl_Policy
  imports Dma_Reach
begin

text \<open>
  Channel policies of \<^verbatim>\<open>src/source/drivers/dma/dma_policy_ex_sh.c\<close> and of the boot code
  \<^verbatim>\<open>src/source/init/boot_copy_dma_chan.c\<close>: the exclusive policy takes one private channel for
  every present CPU, all or none; the shared policy registers as a client of the engine. They
  use the engine through the interface \<open>exclusive_channels\<close>.
\<close>

definition set_cpu_chan :: "nat \<Rightarrow> dma_chan_copy \<Rightarrow> 'd engine \<Rightarrow> 'd engine" where
  "set_cpu_chan i v s = s\<lparr>percpu_chan_copy := (percpu_chan_copy s)(i := v)\<rparr>"

definition no_chan :: dma_chan_copy where
  "no_chan = \<lparr>cc_chan = None, cc_use = 0\<rparr>"

fun release_cpus :: "kenv \<Rightarrow> nat list \<Rightarrow> 'd engine \<Rightarrow> 'd engine outcome" where
  "release_cpus env [] s = Inr s"
| "release_cpus env (i # cpus) s =
     (if cc_use (percpu_chan_copy s i) = 1 then
        (case cc_chan (percpu_chan_copy s i) of None \<Rightarrow> Inl Null_Deref
         | Some c \<Rightarrow> release_cpus env cpus (set_cpu_chan i no_chan (dma_release_channel env c s)))
      else release_cpus env cpus s)"

definition release_dma_chan_excl :: "kenv \<Rightarrow> 'd engine \<Rightarrow> 'd engine outcome" where
  "release_dma_chan_excl env s = release_cpus env (present_cpus env) s"

definition init_dma_chan_excl :: "kenv \<Rightarrow> 'd engine \<Rightarrow> 'd engine" where
  "init_dma_chan_excl env s = fold (\<lambda>i. set_cpu_chan i no_chan) (present_cpus env) s"

fun complete_cpus :: "kenv \<Rightarrow> dma_cap_mask \<Rightarrow> nat list \<Rightarrow> 'd engine \<Rightarrow> (int \<times> 'd engine) outcome" where
  "complete_cpus env msk [] s = Inr (0, s)"
| "complete_cpus env msk (i # cpus) s =
     (case dma_request_channel env msk None s of
        (Some c, s1) \<Rightarrow> complete_cpus env msk cpus (set_cpu_chan i \<lparr>cc_chan = Some c, cc_use = 1\<rparr> s1)
      | (None, s1) \<Rightarrow> seq_ok (release_dma_chan_excl env s1) (\<lambda>s2. Inr (- 1, s2)))"

definition complete_dma_chan_excl :: "kenv \<Rightarrow> 'd engine \<Rightarrow> (int \<times> 'd engine) outcome" where
  "complete_dma_chan_excl env s =
     complete_cpus env (dma_cap_set DMA_MEMCPY dma_cap_zero) (present_cpus env) s"

definition start_policy_excl :: "kenv \<Rightarrow> 'd engine \<Rightarrow> (int \<times> 'd engine) outcome" where
  "start_policy_excl env s = complete_dma_chan_excl env (init_dma_chan_excl env s)"

definition stop_policy_excl :: "kenv \<Rightarrow> 'd engine \<Rightarrow> 'd engine outcome" where
  "stop_policy_excl env s = release_dma_chan_excl env s"

definition start_policy_sh :: "kenv \<Rightarrow> 'd engine \<Rightarrow> 'd engine" where
  "start_policy_sh env s = copy_dmaengine_get env s"

definition stop_policy_sh :: "kenv \<Rightarrow> 'd engine \<Rightarrow> 'd engine outcome" where
  "stop_policy_sh env s = copy_dmaengine_put env s"

text \<open>At boot the build configuration selects the policy.\<close>

definition boot_init_dma_chan :: "boot_policy \<Rightarrow> kenv \<Rightarrow> 'd engine \<Rightarrow> 'd engine" where
  "boot_init_dma_chan cfg env s = (case cfg of
       CONFIG_EXCL \<Rightarrow> fold (\<lambda>i. set_cpu_chan i no_chan) (present_cpus env) s
     | CONFIG_SHARED \<Rightarrow> s | CONFIG_DYNAMIC \<Rightarrow> s)"

definition boot_release_dma_chan :: "kenv \<Rightarrow> 'd engine \<Rightarrow> 'd engine outcome" where
  "boot_release_dma_chan env s = release_cpus env (present_cpus env) s"

fun boot_complete_cpus :: "kenv \<Rightarrow> dma_cap_mask \<Rightarrow> nat list \<Rightarrow> 'd engine \<Rightarrow> 'd engine outcome" where
  "boot_complete_cpus env msk [] s = Inr s"
| "boot_complete_cpus env msk (i # cpus) s =
     (case dma_request_channel env msk None s of
        (Some c, s1) \<Rightarrow> boot_complete_cpus env msk cpus (set_cpu_chan i \<lparr>cc_chan = Some c, cc_use = 1\<rparr> s1)
      | (None, s1) \<Rightarrow> boot_release_dma_chan env s1)"

definition boot_complete_dma_chan :: "boot_policy \<Rightarrow> kenv \<Rightarrow> 'd engine \<Rightarrow> 'd engine outcome" where
  "boot_complete_dma_chan cfg env s = (case cfg of
       CONFIG_EXCL \<Rightarrow> boot_complete_cpus env (dma_cap_set DMA_MEMCPY dma_cap_zero) (present_cpus env) s
     | CONFIG_SHARED \<Rightarrow> Inr (copy_dmaengine_get env s)
     | CONFIG_DYNAMIC \<Rightarrow> Inr s)"

subsection \<open>What the engine leaves alone\<close>

lemma chan_get_frame:
  assumes "env_wf env"
  shows "percpu_chan_copy (snd (dma_chan_get env c s)) = percpu_chan_copy s"
    and "list_chan_prio (snd (dma_chan_get env c s)) = list_chan_prio s"
  using chan_get_step [OF assms, of c s "fst (dma_chan_get env c s)" "snd (dma_chan_get env c s)"]
    count_stepD(3) same_but_countsD(4,5) by (metis prod.collapse)+

lemma request_scan_frame:
  assumes "env_wf env"
  shows "percpu_chan_copy (snd (request_scan env msk fn ds s)) = percpu_chan_copy s"
    and "list_chan_prio (snd (request_scan env msk fn ds s)) = list_chan_prio s"
proof -
  have "percpu_chan_copy (snd (request_scan env msk fn ds s)) = percpu_chan_copy s \<and>
    list_chan_prio (snd (request_scan env msk fn ds s)) = list_chan_prio s"
  proof (induction ds arbitrary: s)
    case (Cons d ds)
    show ?case
    proof (cases "private_candidate msk d fn s")
      case (Some c)
      obtain e s1 where g: "dma_chan_get env c (upd_dev d set_private s) = (e, s1)"
        by (cases "dma_chan_get env c (upd_dev d set_private s)")
      have "percpu_chan_copy s1 = percpu_chan_copy s" "list_chan_prio s1 = list_chan_prio s"
        using chan_get_frame [OF assms, of c "upd_dev d set_private s"] g by (simp_all add: upd_dev_def)
      with Some g Cons show ?thesis by (simp add: list_del_dev_def upd_dev_def split: option.splits)
    qed (simp add: Cons)
  qed simp
  then show "percpu_chan_copy (snd (request_scan env msk fn ds s)) = percpu_chan_copy s"
    and "list_chan_prio (snd (request_scan env msk fn ds s)) = list_chan_prio s" by blast+
qed

lemma request_frame:
  assumes "env_wf env" and "dma_request_channel env msk fn s = (r, s')"
  shows "percpu_chan_copy s' = percpu_chan_copy s" and "list_chan_prio s' = list_chan_prio s"
  using request_scan_frame [OF assms(1), of msk fn "dma_device_list s" s] assms(2)
  by (simp_all add: dma_request_channel_def)

lemma release_frame:
  assumes "env_wf env"
  shows "percpu_chan_copy (dma_release_channel env c s) = percpu_chan_copy s"
    and "list_chan_prio (dma_release_channel env c s) = list_chan_prio s"
  using same_but_countsD(4,5) [OF count_stepD(3) [OF chan_put_step [OF assms, of c s]]]
  by (simp_all add: dma_release_channel_def Let_def upd_dev_def)

lemma admin_inv: "admin_step s s' \<Longrightarrow> eng_inv K s' = eng_inv K s"
  using dev_disc_cong [of s' _ s] dev_topo_cong [of s' _ s]
  by (simp add: eng_inv_def dev_private_def admin_step_def)

lemma admin_owned: "admin_step s s' \<Longrightarrow> owned_set K s' = owned_set K s"
  by (simp add: owned_set_def held_privately_def dev_private_def admin_step_def)

lemma set_cpu_chan_admin: "admin_step s (set_cpu_chan i v s)"
  by (simp add: admin_step_def set_cpu_chan_def)

lemma set_cpu_chan_get [simp]:
  "percpu_chan_copy (set_cpu_chan i v s) = (percpu_chan_copy s)(i := v)"
  by (simp add: set_cpu_chan_def)

lemma set_cpu_chan_inv [simp]:
  "eng_inv K (set_cpu_chan i v s) = eng_inv K s" "owned_set K (set_cpu_chan i v s) = owned_set K s"
  using admin_inv admin_owned set_cpu_chan_admin by blast+

subsection \<open>Channels of the CPUs\<close>

definition assigned :: "'d engine \<Rightarrow> nat list \<Rightarrow> nat list" where
  "assigned s cpus = map (\<lambda>i. the (cc_chan (percpu_chan_copy s i)))
     (filter (\<lambda>i. cc_use (percpu_chan_copy s i) = 1) cpus)"

lemma assigned_simps [simp]:
  "assigned s [] = []"
  "assigned s (i # cpus) = (if cc_use (percpu_chan_copy s i) = 1
     then the (cc_chan (percpu_chan_copy s i)) # assigned s cpus else assigned s cpus)"
  by (simp_all add: assigned_def)

lemma assigned_append: "assigned s (xs @ ys) = assigned s xs @ assigned s ys"
  by (simp add: assigned_def)

lemma assigned_cong:
  assumes "\<And>i. i \<in> set cpus \<Longrightarrow> percpu_chan_copy s' i = percpu_chan_copy s i"
  shows "assigned s' cpus = assigned s cpus"
  using assms by (induction cpus) simp_all

lemma assigned_no_chan: "\<forall>i\<in>set cpus. percpu_chan_copy s i = no_chan \<Longrightarrow> assigned s cpus = []"
  by (induction cpus) (simp_all add: no_chan_def)

text \<open>Every entry is empty or names a channel, and the channels named are different and owned.\<close>

definition cpus_hold :: "nat set \<Rightarrow> nat list \<Rightarrow> 'd engine \<Rightarrow> bool" where
  "cpus_hold K cpus s \<longleftrightarrow> (\<forall>i\<in>set cpus. percpu_chan_copy s i = no_chan \<or>
       (\<exists>c. percpu_chan_copy s i = \<lparr>cc_chan = Some c, cc_use = 1\<rparr>)) \<and>
     distinct (assigned s cpus) \<and> set (assigned s cpus) \<subseteq> owned_set K s"

lemma release_cpus_ok:
  assumes "env_wf env" and "eng_inv K s" and "distinct cpus" and "cpus_hold K cpus s"
  shows "\<exists>s'. release_cpus env cpus s = Inr s' \<and> eng_inv K s' \<and>
    owned_set K s' = owned_set K s - set (assigned s cpus) \<and>
    (\<forall>i. percpu_chan_copy s' i = (if i \<in> set cpus then no_chan else percpu_chan_copy s i))"
  using assms(2-4)
proof (induction cpus arbitrary: s)
  case Nil
  then show ?case by simp
next
  case (Cons i cpus)
  show ?case
  proof (cases "percpu_chan_copy s i = no_chan")
    case True
    then have "cpus_hold K cpus s" using Cons.prems(3) by (simp add: cpus_hold_def no_chan_def)
    then obtain s' where "release_cpus env cpus s = Inr s'" "eng_inv K s'"
      "owned_set K s' = owned_set K s - set (assigned s cpus)"
      "\<forall>i. percpu_chan_copy s' i = (if i \<in> set cpus then no_chan else percpu_chan_copy s i)"
      using Cons.IH [OF Cons.prems(1)] Cons.prems(2) by auto
    then show ?thesis using True by (simp add: no_chan_def)
  next
    case False
    then obtain c where c: "percpu_chan_copy s i = \<lparr>cc_chan = Some c, cc_use = 1\<rparr>"
      using Cons.prems(3) by (auto simp: cpus_hold_def)
    let ?s1 = "set_cpu_chan i no_chan (dma_release_channel env c s)"
    have own: "c \<in> owned_set K s" using Cons.prems(3) c by (simp add: cpus_hold_def)
    note rel = engine_channels.release_ok [of env K s c] engine_channels.release_owned [of env K s c]
    have as: "assigned ?s1 cpus = assigned s cpus"
      using Cons.prems(2) release_frame(1) [OF assms(1), of c s] by (intro assigned_cong) auto
    have o1: "owned_set K ?s1 = owned_set K s - {c}" and i1: "eng_inv K ?s1"
      using rel own Cons.prems(1) assms(1) by simp_all
    have "cpus_hold K cpus ?s1"
      using Cons.prems(2,3) c as o1 release_frame(1) [OF assms(1), of c s]
      by (auto simp: cpus_hold_def)
    then obtain s' where s': "release_cpus env cpus ?s1 = Inr s'" "eng_inv K s'"
      "owned_set K s' = owned_set K ?s1 - set (assigned ?s1 cpus)"
      "\<forall>j. percpu_chan_copy s' j = (if j \<in> set cpus then no_chan else percpu_chan_copy ?s1 j)"
      using Cons.IH [OF i1] Cons.prems(2) by auto
    have "owned_set K s' = owned_set K s - set (assigned s (i # cpus))" using s'(3) as o1 c by auto
    then show ?thesis using s' c release_frame(1) [OF assms(1), of c s] by simp
  qed
qed

lemma complete_cpus_ok:
  assumes "env_wf env" and "present_cpus env = xs @ ys" and "eng_inv K s" and "B \<inter> set (assigned s xs) = {}"
    and "owned_set K s = B \<union> set (assigned s xs)" and "cpus_hold K xs s"
    and "\<forall>i\<in>set xs. cc_use (percpu_chan_copy s i) = 1" and "\<forall>i\<in>set ys. percpu_chan_copy s i = no_chan"
  shows "\<exists>e s'. complete_cpus env msk ys s = Inr (e, s') \<and> eng_inv K s' \<and>
    (e = 0 \<and> (\<forall>i\<in>set (present_cpus env). cc_use (percpu_chan_copy s' i) = 1) \<and>
       cpus_hold K (present_cpus env) s' \<and> B \<inter> set (assigned s' (present_cpus env)) = {} \<and>
       owned_set K s' = B \<union> set (assigned s' (present_cpus env)) \<or>
     e = - 1 \<and> owned_set K s' = B \<and> (\<forall>i\<in>set (present_cpus env). percpu_chan_copy s' i = no_chan))"
  using assms(2-8)
proof (induction ys arbitrary: xs s)
  case Nil
  then show ?case by simp
next
  case (Cons i ys)
  have dis: "distinct (xs @ i # ys)" using assms(1) Cons.prems(1) by (simp add: env_wf_def)
  obtain r s1 where q: "dma_request_channel env msk None s = (r, s1)"
    by (cases "dma_request_channel env msk None s")
  have i1: "eng_inv K s1" using engine_channels.request_ok [of env K s msk None r s1] q assms(1) Cons.prems(2) by simp
  note fr = request_frame(1) [OF assms(1) q]
  have as: "assigned s1 zs = assigned s zs" for zs by (rule assigned_cong) (simp add: fr)
  show ?case
  proof (cases r)
    case (Some c)
    let ?s2 = "set_cpu_chan i \<lparr>cc_chan = Some c, cc_use = 1\<rparr> s1"
    have c: "c \<notin> owned_set K s" "owned_set K s1 = insert c (owned_set K s)"
      using engine_channels.request_some [of env K s msk None c s1] q Some assms(1) Cons.prems(2) by simp_all
    have "assigned ?s2 xs = assigned s xs" by (rule assigned_cong) (use dis fr in auto)
    then have as2: "assigned ?s2 (xs @ [i]) = assigned s xs @ [c]" by (simp add: assigned_append)
    have "cpus_hold K (xs @ [i]) ?s2"
      using Cons.prems(4,5) c as2 dis fr unfolding cpus_hold_def by auto
    moreover have "owned_set K ?s2 = B \<union> set (assigned ?s2 (xs @ [i]))"
      using c(2) Cons.prems(4) as2 by auto
    moreover have "B \<inter> set (assigned ?s2 (xs @ [i])) = {}" using as2 c(1) Cons.prems(3,4) by auto
    moreover have "\<forall>j\<in>set (xs @ [i]). cc_use (percpu_chan_copy ?s2 j) = 1"
      "\<forall>j\<in>set ys. percpu_chan_copy ?s2 j = no_chan"
      using Cons.prems(6,7) dis fr by auto
    ultimately show ?thesis
      using Cons.IH [of "xs @ [i]" ?s2] Cons.prems(1) i1 q Some by simp
  next
    case None
    have o: "owned_set K s1 = owned_set K s"
      using engine_channels.request_none [of env K s msk None s1] q None assms(1) Cons.prems(2) by simp
    have e: "assigned s (i # ys) = []" using Cons.prems(7) by (intro assigned_no_chan)
    have a: "assigned s1 (present_cpus env) = assigned s xs"
      unfolding as Cons.prems(1) assigned_append e by simp
    have "cpus_hold K (present_cpus env) s1"
      using Cons.prems(1,5,7) a o fr by (auto simp: cpus_hold_def as)
    then obtain s' where "release_dma_chan_excl env s1 = Inr s'" "eng_inv K s'"
      "owned_set K s' = owned_set K s1 - set (assigned s1 (present_cpus env))"
      "\<forall>j. percpu_chan_copy s' j = (if j \<in> set (present_cpus env) then no_chan else percpu_chan_copy s1 j)"
      using release_cpus_ok [OF assms(1) i1] dis Cons.prems(1) unfolding release_dma_chan_excl_def by metis
    moreover from this have "owned_set K s' = B" using o a Cons.prems(3,4) by auto
    ultimately show ?thesis using q None by simp
  qed
qed

lemma init_cpus_get:
  "percpu_chan_copy (fold (\<lambda>i. set_cpu_chan i no_chan) cpus s) j =
     (if j \<in> set cpus then no_chan else percpu_chan_copy s j)"
  by (induction cpus arbitrary: s) auto

lemma init_cpus_admin: "admin_step s (fold (\<lambda>i. set_cpu_chan i no_chan) cpus s)"
proof (induction cpus arbitrary: s)
  case (Cons i cpus)
  show ?case using admin_trans [OF set_cpu_chan_admin Cons] by simp
qed (simp add: admin_refl)

lemma start_excl_cases:
  assumes "env_wf env" and "eng_inv K s"
  shows "\<exists>e s'. start_policy_excl env s = Inr (e, s') \<and> eng_inv K s' \<and>
    (e = 0 \<and> (\<forall>i\<in>set (present_cpus env). cc_use (percpu_chan_copy s' i) = 1) \<and>
       cpus_hold K (present_cpus env) s' \<and> owned_set K s \<inter> set (assigned s' (present_cpus env)) = {} \<and>
       owned_set K s' = owned_set K s \<union> set (assigned s' (present_cpus env)) \<or>
     e = - 1 \<and> owned_set K s' = owned_set K s \<and>
       (\<forall>i\<in>set (present_cpus env). percpu_chan_copy s' i = no_chan))"
  unfolding start_policy_excl_def complete_dma_chan_excl_def
proof (rule complete_cpus_ok [OF assms(1), of "[]"])
  let ?s0 = "init_dma_chan_excl env s"
  have a: "admin_step s ?s0" unfolding init_dma_chan_excl_def by (rule init_cpus_admin)
  show "eng_inv K ?s0" using admin_inv [OF a] assms(2) by simp
  show "owned_set K ?s0 = owned_set K s \<union> set (assigned ?s0 [])" using admin_owned [OF a] by simp
  show "\<forall>i\<in>set (present_cpus env). percpu_chan_copy ?s0 i = no_chan"
    by (simp add: init_dma_chan_excl_def init_cpus_get)
qed (simp_all add: cpus_hold_def)

lemma boot_complete_cpus_eq:
  "boot_complete_cpus env msk cpus s = seq_ok (complete_cpus env msk cpus s) (\<lambda>(e, s'). Inr s')"
  by (induction cpus arbitrary: s)
     (simp_all add: boot_release_dma_chan_def release_dma_chan_excl_def seq_ok_def
        split: prod.splits option.splits sum.splits)

subsection \<open>Properties\<close>

text \<open>
  C14. Starting the exclusive policy is all or nothing. Either it reports success, every present CPU
  has a channel, the channels are pairwise different, were free before and are now owned, and no
  other ownership changed; or it reports failure, every channel it had taken is given back and
  every CPU's entry is empty.
\<close>

theorem exclusive_policy_all_or_nothing:
  assumes "env_wf env" and "eng_inv K s"
  shows "\<exists>e s'. start_policy_excl env s = Inr (e, s') \<and>
    (e = 0 \<and> (\<forall>i\<in>set (present_cpus env). \<exists>c. cc_chan (percpu_chan_copy s' i) = Some c \<and> c \<in> owned_set K s') \<and>
       distinct (map (\<lambda>i. cc_chan (percpu_chan_copy s' i)) (present_cpus env)) \<and>
       owned_set K s' = owned_set K s \<union> {c. \<exists>i\<in>set (present_cpus env). cc_chan (percpu_chan_copy s' i) = Some c} \<and>
       (\<forall>i\<in>set (present_cpus env). \<forall>c\<in>owned_set K s. cc_chan (percpu_chan_copy s' i) \<noteq> Some c) \<or>
     e = - 1 \<and> owned_set K s' = owned_set K s \<and>
       (\<forall>i\<in>set (present_cpus env). percpu_chan_copy s' i = no_chan))"
proof -
  from start_excl_cases [OF assms] obtain e s' where
    run: "start_policy_excl env s = Inr (e, s')" and
    cs: "e = 0 \<and> (\<forall>i\<in>set (present_cpus env). cc_use (percpu_chan_copy s' i) = 1) \<and>
       cpus_hold K (present_cpus env) s' \<and> owned_set K s \<inter> set (assigned s' (present_cpus env)) = {} \<and>
       owned_set K s' = owned_set K s \<union> set (assigned s' (present_cpus env)) \<or>
     e = - 1 \<and> owned_set K s' = owned_set K s \<and>
       (\<forall>i\<in>set (present_cpus env). percpu_chan_copy s' i = no_chan)" by blast
  show ?thesis
  proof (cases "e = - 1")
    case True
    with run cs show ?thesis by auto
  next
    case False
    let ?P = "present_cpus env" and ?ch = "\<lambda>i. cc_chan (percpu_chan_copy s' i)"
    have ok: "e = 0" "\<forall>i\<in>set ?P. cc_use (percpu_chan_copy s' i) = 1" "cpus_hold K ?P s'"
      "owned_set K s \<inter> set (assigned s' ?P) = {}" "owned_set K s' = owned_set K s \<union> set (assigned s' ?P)"
      using cs False by auto
    have some: "\<exists>c. ?ch i = Some c" if i: "i \<in> set ?P" for i
    proof -
      have "percpu_chan_copy s' i \<noteq> no_chan" using ok(2) i by (auto simp: no_chan_def)
      then obtain c where "percpu_chan_copy s' i = \<lparr>cc_chan = Some c, cc_use = 1\<rparr>"
        using ok(3) i unfolding cpus_hold_def by blast
      then show ?thesis by simp
    qed
    have as: "assigned s' ?P = map (\<lambda>i. the (?ch i)) ?P"
      using ok(2) by (simp add: assigned_def)
    have "map (\<lambda>i. Some (the (?ch i))) ?P = map ?ch ?P" using some by (auto simp: map_eq_conv)
    then have m: "map Some (assigned s' ?P) = map ?ch ?P" by (simp add: as comp_def)
    have "distinct (map Some (assigned s' ?P))" using ok(3) by (simp add: cpus_hold_def distinct_map)
    then have d: "distinct (map ?ch ?P)" using m by simp
    have set_as: "c \<in> set (assigned s' ?P) \<longleftrightarrow> (\<exists>i\<in>set ?P. ?ch i = Some c)" for c
      using some by (auto simp: as image_iff) (metis option.sel)+
    then have eq: "set (assigned s' ?P) = {c. \<exists>i\<in>set ?P. ?ch i = Some c}" by blast
    have "\<forall>i\<in>set ?P. \<exists>c. ?ch i = Some c \<and> c \<in> owned_set K s'"
      using some ok(5) unfolding eq by blast
    then show ?thesis using run ok(1,4,5) d unfolding eq by blast
  qed
qed

theorem exclusive_policy_all_or_nothing_witness:
  "\<exists>s'. start_policy_excl demo_env (demo_engine 0) = Inr (0, s') \<and>
     cc_chan (percpu_chan_copy s' 0) \<noteq> cc_chan (percpu_chan_copy s' 1)"
proof -
  have "case start_policy_excl demo_env (demo_engine 0) of Inr (e, s') \<Rightarrow> e = 0 | Inl _ \<Rightarrow> False"
    by code_simp
  then obtain s' where s': "start_policy_excl demo_env (demo_engine 0) = Inr (0, s')"
    by (auto split: sum.splits)
  with exclusive_policy_all_or_nothing [OF demo_wf demo_inv [of 0]] show ?thesis by auto
qed

text \<open>
  Stopping the exclusive policy after a start, successful or not, gives back exactly the
  channels the start took: the ownership is as before the start and every present CPU's entry is
  empty. No null channel is released.
\<close>

theorem exclusive_policy_stop_undoes_start:
  assumes "env_wf env" and "eng_inv K s" and "start_policy_excl env s = Inr (e, s1)"
  shows "\<exists>s2. stop_policy_excl env s1 = Inr s2 \<and> owned_set K s2 = owned_set K s \<and>
    (\<forall>i\<in>set (present_cpus env). percpu_chan_copy s2 i = no_chan)"
proof -
  let ?P = "present_cpus env"
  have d: "distinct ?P" using assms(1) by (simp add: env_wf_def)
  from start_excl_cases [OF assms(1,2)] assms(3) have i1: "eng_inv K s1" and
    cs: "cpus_hold K ?P s1 \<and> owned_set K s \<inter> set (assigned s1 ?P) = {} \<and>
       owned_set K s1 = owned_set K s \<union> set (assigned s1 ?P) \<or>
     owned_set K s1 = owned_set K s \<and> (\<forall>i\<in>set ?P. percpu_chan_copy s1 i = no_chan)" by auto
  have "cpus_hold K ?P s1 \<and> owned_set K s1 - set (assigned s1 ?P) = owned_set K s"
    using cs
  proof
    assume n: "owned_set K s1 = owned_set K s \<and> (\<forall>i\<in>set ?P. percpu_chan_copy s1 i = no_chan)"
    then show ?thesis using assigned_no_chan [of ?P s1] by (simp add: cpus_hold_def)
  qed auto
  then show ?thesis
    using release_cpus_ok [OF assms(1) i1 d] unfolding stop_policy_excl_def release_dma_chan_excl_def
    by fastforce
qed

theorem exclusive_policy_stop_undoes_start_witness:
  "\<exists>e s1 s2. start_policy_excl demo_env (demo_engine 0) = Inr (e, s1) \<and> stop_policy_excl demo_env s1 = Inr s2 \<and>
     owned_set {0} s2 = owned_set {0} (demo_engine 0)"
proof -
  obtain e s1 where r: "start_policy_excl demo_env (demo_engine 0) = Inr (e, s1)"
    using start_excl_cases [OF demo_wf demo_inv [of 0]] by auto
  from exclusive_policy_stop_undoes_start [OF demo_wf demo_inv [of 0] r] r show ?thesis by auto
qed

text \<open>
  C15. Starting the exclusive policy while it is running loses channels: the second start empties the
  entries without releasing what they name, so after one stop the channels of the first start are
  still owned and no entry names them any more.
\<close>

theorem exclusive_policy_restart_leaks:
  assumes "env_wf env" and "eng_inv K s" and "start_policy_excl env s = Inr (0, s1)"
    and "start_policy_excl env s1 = Inr (e, s2)" and "stop_policy_excl env s2 = Inr s3"
    and "i \<in> set (present_cpus env)"
  shows "\<exists>c. cc_chan (percpu_chan_copy s1 i) = Some c \<and> c \<notin> owned_set K s \<and> c \<in> owned_set K s3 \<and>
    (\<forall>j\<in>set (present_cpus env). cc_chan (percpu_chan_copy s3 j) \<noteq> Some c)"
proof -
  let ?P = "present_cpus env"
  from start_excl_cases [OF assms(1,2)] assms(3) have i1: "eng_inv K s1"
    and h: "cpus_hold K ?P s1" "\<forall>i\<in>set ?P. cc_use (percpu_chan_copy s1 i) = 1"
      "owned_set K s \<inter> set (assigned s1 ?P) = {}" by auto
  have "percpu_chan_copy s1 i \<noteq> no_chan" using h(2) assms(6) by (auto simp: no_chan_def)
  then obtain c where c: "percpu_chan_copy s1 i = \<lparr>cc_chan = Some c, cc_use = 1\<rparr>"
    using h(1) assms(6) unfolding cpus_hold_def by blast
  then have "c \<in> set (assigned s1 ?P)" using assms(6) by (force simp: assigned_def)
  then have own: "c \<in> owned_set K s1" "c \<notin> owned_set K s" using h(1,3) by (auto simp: cpus_hold_def)
  from start_excl_cases [OF assms(1) i1] assms(4) have i2: "eng_inv K s2" and
    cs: "cpus_hold K ?P s2 \<and> owned_set K s1 \<inter> set (assigned s2 ?P) = {} \<and>
       owned_set K s2 = owned_set K s1 \<union> set (assigned s2 ?P) \<or>
     owned_set K s2 = owned_set K s1 \<and> (\<forall>i\<in>set ?P. percpu_chan_copy s2 i = no_chan)" by auto
  have d: "distinct ?P" using assms(1) by (simp add: env_wf_def)
  have "cpus_hold K ?P s2 \<and> owned_set K s2 - set (assigned s2 ?P) = owned_set K s1"
    using cs assigned_no_chan [of ?P s2] by (auto simp: cpus_hold_def)
  then have "owned_set K s3 = owned_set K s1 \<and> (\<forall>j\<in>set ?P. percpu_chan_copy s3 j = no_chan)"
    using release_cpus_ok [OF assms(1) i2 d] assms(5)
    unfolding stop_policy_excl_def release_dma_chan_excl_def by fastforce
  with c own show ?thesis by (auto simp: no_chan_def)
qed

theorem exclusive_policy_restart_leaks_witness:
  "\<exists>s1 s2 s3 e c. start_policy_excl demo_env (demo_engine 0) = Inr (0, s1) \<and>
     start_policy_excl demo_env s1 = Inr (e, s2) \<and> stop_policy_excl demo_env s2 = Inr s3 \<and>
     c \<notin> owned_set {0} (demo_engine 0) \<and> c \<in> owned_set {0} s3"
proof -
  have "case start_policy_excl demo_env (demo_engine 0) of Inr (e, s') \<Rightarrow> e = 0 | Inl _ \<Rightarrow> False"
    by code_simp
  then obtain s1 where s1: "start_policy_excl demo_env (demo_engine 0) = Inr (0, s1)"
    by (auto split: sum.splits)
  from start_excl_cases [OF demo_wf demo_inv [of 0]] s1 have i1: "eng_inv {0} s1" by auto
  obtain e s2 where s2: "start_policy_excl demo_env s1 = Inr (e, s2)"
    using start_excl_cases [OF demo_wf i1] by auto
  obtain s3 where s3: "stop_policy_excl demo_env s2 = Inr s3"
    using start_excl_cases [OF demo_wf i1] s2
      release_cpus_ok [OF demo_wf, of "{0}" s2 "present_cpus demo_env"] assigned_no_chan [of "[0, 1]" s2]
    by (auto simp: stop_policy_excl_def release_dma_chan_excl_def cpus_hold_def)
  from exclusive_policy_restart_leaks [OF demo_wf demo_inv [of 0] s1 s2 s3, of 0] s1 s2 s3
  show ?thesis by auto
qed

text \<open>
  Built with exclusive channels, the boot code leaves the engine in exactly the state that
  starting the exclusive policy at run time would leave it in.
\<close>

theorem boot_equals_dynamic_start:
  "boot_complete_dma_chan CONFIG_EXCL env (boot_init_dma_chan CONFIG_EXCL env s) =
     seq_ok (start_policy_excl env s) (\<lambda>(e, s'). Inr s')"
  by (simp add: boot_complete_dma_chan_def boot_init_dma_chan_def start_policy_excl_def
      complete_dma_chan_excl_def init_dma_chan_excl_def boot_complete_cpus_eq)

end
