(* ===== verification/Dma_Memcpy.thy ===== *)
theory Dma_Memcpy
  imports Dma_Engine
begin

text \<open>
  Offloaded copies of \<^verbatim>\<open>dmaengine.c\<close>: the four \<^verbatim>\<open>dma_async_memcpy_*\<close> routines with their DMA
  mappings and per-CPU statistics, the two waiting loops and the submission of dependent
  descriptors. The DMA mapping API is a parameter: a mapping routine returns a bus address,
  zero when the mapping failed (the value of \<^verbatim>\<open>DMA_ERROR_CODE\<close> on x86). The engine state keeps
  the multiset of mappings that are live, so that leaks show up. Time is a predicate on the
  number of polls, and the hardware may change the driver state between two polls.
\<close>

record map_env =
  map_single :: "u64 \<Rightarrow> u64 \<Rightarrow> map_dir \<Rightarrow> u64"
  map_page :: "nat \<Rightarrow> u32 \<Rightarrow> u64 \<Rightarrow> map_dir \<Rightarrow> u64"

definition note_map :: "map_kind \<Rightarrow> u64 \<Rightarrow> u64 \<Rightarrow> map_dir \<Rightarrow> 'd engine \<Rightarrow> 'd engine" where
  "note_map k a n dir s = (if a = 0 then s else s\<lparr>live_maps := add_mset (k, a, n, dir) (live_maps s)\<rparr>)"

definition dma_unmap :: "map_kind \<Rightarrow> u64 \<Rightarrow> u64 \<Rightarrow> map_dir \<Rightarrow> 'd engine \<Rightarrow> 'd engine" where
  "dma_unmap k a n dir s = s\<lparr>live_maps := live_maps s - {#(k, a, n, dir)#}\<rparr>"

text \<open>The statistics of the current CPU.\<close>

definition count_bytes :: "kenv \<Rightarrow> nat \<Rightarrow> u64 \<Rightarrow> 'd engine \<Rightarrow> 'd engine outcome" where
  "count_bytes env c n s = (case ch_local (chans s c) of
       No_Local \<Rightarrow> Inl Null_Deref | Freed_Local \<Rightarrow> Inl Use_After_Free
     | Local l \<Rightarrow> (let i = this_cpu env in
         Inr (upd_chan c (\<lambda>ch. ch\<lparr>ch_local := Local (l(i := (l i)
           \<lparr>bytes_transferred := bytes_transferred (l i) + n, memcpy_count := memcpy_count (l i) + 1\<rparr>))\<rparr>) s)))"

definition call_prep :: "nat \<Rightarrow> u64 \<Rightarrow> u64 \<Rightarrow> u64 \<Rightarrow> u32 \<Rightarrow> 'd engine \<Rightarrow> nat option \<times> 'd engine" where
  "call_prep c dma_dest dma_src n flags s =
     (case device_prep_dma_memcpy (devs s (ch_device (chans s c))) c dma_dest dma_src n flags (drv s) of
        (tx, d') \<Rightarrow> (tx, s\<lparr>drv := d'\<rparr>))"

definition call_submit :: "nat \<Rightarrow> nat \<Rightarrow> 'd engine \<Rightarrow> dma_cookie \<times> 'd engine" where
  "call_submit c tx s = (case tx_submit (devs s (ch_device (chans s c))) tx (drv s) of
     (cookie, d') \<Rightarrow> (cookie, s\<lparr>drv := d'\<rparr>))"

definition submit_and_count :: "kenv \<Rightarrow> nat \<Rightarrow> nat \<Rightarrow> u64 \<Rightarrow> 'd engine \<Rightarrow> (dma_cookie \<times> 'd engine) outcome" where
  "submit_and_count env c tx n s = (case call_submit c tx s of (cookie, s1) \<Rightarrow>
     seq_ok (count_bytes env c n s1) (\<lambda>s2. Inr (cookie, s2)))"

definition dma_async_memcpy_buf_to_buf ::
  "map_env \<Rightarrow> kenv \<Rightarrow> nat \<Rightarrow> u64 \<Rightarrow> u64 \<Rightarrow> u64 \<Rightarrow> 'd engine \<Rightarrow> (dma_cookie \<times> 'd engine) outcome" where
  "dma_async_memcpy_buf_to_buf me env c dest src n s =
     (let dma_src = map_single me src n To_Device;
          s1 = note_map Map_Single dma_src n To_Device s;
          dma_dest = map_single me dest n From_Device;
          s2 = note_map Map_Single dma_dest n From_Device s1;
          flags = DMA_CTRL_ACK OR DMA_COMPL_SRC_UNMAP_SINGLE OR DMA_COMPL_DEST_UNMAP_SINGLE
      in case call_prep c dma_dest dma_src n flags s2 of
           (None, s3) \<Rightarrow> Inr (- errno_code ENOMEM,
             dma_unmap Map_Single dma_dest n From_Device (dma_unmap Map_Single dma_src n To_Device s3))
         | (Some tx, s3) \<Rightarrow> submit_and_count env c tx n s3)"

definition dma_async_memcpy_buf_to_pg ::
  "map_env \<Rightarrow> kenv \<Rightarrow> nat \<Rightarrow> nat \<Rightarrow> u32 \<Rightarrow> u64 \<Rightarrow> u64 \<Rightarrow> 'd engine \<Rightarrow> (dma_cookie \<times> 'd engine) outcome" where
  "dma_async_memcpy_buf_to_pg me env c page offset kdata n s =
     (let dma_src = map_single me kdata n To_Device;
          s1 = note_map Map_Single dma_src n To_Device s;
          dma_dest = map_page me page offset n From_Device;
          s2 = note_map Map_Page dma_dest n From_Device s1;
          flags = DMA_CTRL_ACK OR DMA_COMPL_SRC_UNMAP_SINGLE
      in case call_prep c dma_dest dma_src n flags s2 of
           (None, s3) \<Rightarrow> Inr (- errno_code ENOMEM,
             dma_unmap Map_Page dma_dest n From_Device (dma_unmap Map_Single dma_src n To_Device s3))
         | (Some tx, s3) \<Rightarrow> submit_and_count env c tx n s3)"

definition dma_async_memcpy_pg_to_buf ::
  "map_env \<Rightarrow> kenv \<Rightarrow> nat \<Rightarrow> nat \<Rightarrow> u32 \<Rightarrow> u64 \<Rightarrow> u64 \<Rightarrow> 'd engine \<Rightarrow> (dma_cookie \<times> 'd engine) outcome" where
  "dma_async_memcpy_pg_to_buf me env c page offset kdata n s =
     (let dma_dest = map_single me kdata n From_Device;
          s1 = note_map Map_Single dma_dest n From_Device s
      in if dma_dest = 0 then Inr (- errno_code EFAULT, s1)
      else let dma_src = map_page me page offset n To_Device;
               s2 = note_map Map_Page dma_src n To_Device s1
      in if dma_src = 0 then
           Inr (- errno_code EFAULT, dma_unmap Map_Single dma_dest n From_Device s2)
      else case call_prep c dma_dest dma_src n (DMA_CTRL_ACK OR DMA_COMPL_DEST_UNMAP_SINGLE) s2 of
           (None, s3) \<Rightarrow> Inr (- errno_code ENOMEM,
             dma_unmap Map_Single dma_dest n From_Device (dma_unmap Map_Page dma_src n To_Device s3))
         | (Some tx, s3) \<Rightarrow> submit_and_count env c tx n s3)"

definition dma_async_memcpy_pg_to_pg ::
  "map_env \<Rightarrow> kenv \<Rightarrow> nat \<Rightarrow> nat \<Rightarrow> u32 \<Rightarrow> nat \<Rightarrow> u32 \<Rightarrow> u64 \<Rightarrow> 'd engine \<Rightarrow> (dma_cookie \<times> 'd engine) outcome"
  where
  "dma_async_memcpy_pg_to_pg me env c dest_pg dest_off src_pg src_off n s =
     (let dma_src = map_page me src_pg src_off n To_Device;
          s1 = note_map Map_Page dma_src n To_Device s;
          dma_dest = map_page me dest_pg dest_off n From_Device;
          s2 = note_map Map_Page dma_dest n From_Device s1
      in case call_prep c dma_dest dma_src n DMA_CTRL_ACK s2 of
           (None, s3) \<Rightarrow> Inr (- errno_code ENOMEM,
             dma_unmap Map_Page dma_dest n From_Device (dma_unmap Map_Page dma_src n To_Device s3))
         | (Some tx, s3) \<Rightarrow> submit_and_count env c tx n s3)"

subsection \<open>Waiting\<close>

definition dma_async_issue_pending :: "nat \<Rightarrow> 'd engine \<Rightarrow> 'd engine" where
  "dma_async_issue_pending c s =
     s\<lparr>drv := device_issue_pending (devs s (ch_device (chans s c))) c (drv s)\<rparr>"

definition dma_async_is_tx_complete :: "nat \<Rightarrow> dma_cookie \<Rightarrow> 'd engine \<Rightarrow> dma_status \<times> 'd engine" where
  "dma_async_is_tx_complete c cookie s =
     (case device_tx_status (devs s (ch_device (chans s c))) c cookie (drv s) of
        (status, d') \<Rightarrow> (status, s\<lparr>drv := d'\<rparr>))"

text \<open>
  \<open>expired i\<close>: the time-out has passed at the \<open>i\<close>th poll; \<open>hw i\<close>: what the hardware does to the
  driver state while the CPU relaxes after the \<open>i\<close>th poll.
\<close>

record 'd wait_env =
  expired :: "nat \<Rightarrow> bool"
  hw :: "nat \<Rightarrow> 'd \<Rightarrow> 'd"

partial_function (option) sync_wait_loop :: "'d wait_env \<Rightarrow> nat \<Rightarrow> nat \<Rightarrow> dma_cookie \<Rightarrow> 'd engine
    \<Rightarrow> (dma_status \<times> 'd engine) option" where
  [code]: "sync_wait_loop we i c cookie s =
     (case dma_async_is_tx_complete c cookie s of (status, s1) \<Rightarrow>
        if expired we i then Some (DMA_ERROR, s1)
        else if status \<noteq> DMA_IN_PROGRESS then Some (status, s1)
        else sync_wait_loop we (Suc i) c cookie (s1\<lparr>drv := hw we i (drv s1)\<rparr>))"

definition dma_sync_wait :: "'d wait_env \<Rightarrow> nat \<Rightarrow> dma_cookie \<Rightarrow> 'd engine
    \<Rightarrow> (dma_status \<times> 'd engine) option" where
  "dma_sync_wait we c cookie s = sync_wait_loop we 0 c cookie (dma_async_issue_pending c s)"

text \<open>Descriptors: the fields the engine reads, and the dependency links.\<close>

record tx_desc =
  txd_cookie :: dma_cookie
  txd_chan :: nat
  txd_next :: "nat option"
  txd_parent :: "nat option"

text \<open>\<open>tx_at i\<close> is the descriptor as the \<open>i\<close>th poll sees it.\<close>

partial_function (option) async_tx_loop :: "'d wait_env \<Rightarrow> (nat \<Rightarrow> tx_desc) \<Rightarrow> nat \<Rightarrow> 'd engine
    \<Rightarrow> (dma_status \<times> 'd engine) option" where
  [code]: "async_tx_loop we tx_at i s =
     (if txd_cookie (tx_at i) = - errno_code EBUSY then
        (if expired we i then Some (DMA_ERROR, s) else async_tx_loop we tx_at (Suc i) s)
      else dma_sync_wait we (txd_chan (tx_at i)) (txd_cookie (tx_at i)) s)"

definition dma_wait_for_async_tx :: "'d wait_env \<Rightarrow> (nat \<Rightarrow> tx_desc) option \<Rightarrow> 'd engine
    \<Rightarrow> (dma_status \<times> 'd engine) option" where
  "dma_wait_for_async_tx we txp s = (case txp of None \<Rightarrow> Some (DMA_SUCCESS, s)
     | Some tx_at \<Rightarrow> async_tx_loop we tx_at 0 s)"

subsection \<open>Dependent descriptors\<close>

text \<open>
  The links exist only when \<^verbatim>\<open>CONFIG_ASYNC_TX_ENABLE_CHANNEL_SWITCH\<close> is set (\<open>sw\<close>); without it
  chaining is a \<^verbatim>\<open>BUG()\<close> and both links read as null.
\<close>

definition txd_next_of :: "bool \<Rightarrow> (nat \<Rightarrow> tx_desc) \<Rightarrow> nat \<Rightarrow> nat option" where
  "txd_next_of sw txs t = (if sw then txd_next (txs t) else None)"

definition txd_parent_of :: "bool \<Rightarrow> (nat \<Rightarrow> tx_desc) \<Rightarrow> nat \<Rightarrow> nat option" where
  "txd_parent_of sw txs t = (if sw then txd_parent (txs t) else None)"

definition txd_clear_next :: "bool \<Rightarrow> nat \<Rightarrow> (nat \<Rightarrow> tx_desc) \<Rightarrow> (nat \<Rightarrow> tx_desc)" where
  "txd_clear_next sw t txs = (if sw then txs(t := (txs t)\<lparr>txd_next := None\<rparr>) else txs)"

definition txd_clear_parent :: "bool \<Rightarrow> nat \<Rightarrow> (nat \<Rightarrow> tx_desc) \<Rightarrow> (nat \<Rightarrow> tx_desc)" where
  "txd_clear_parent sw t txs = (if sw then txs(t := (txs t)\<lparr>txd_parent := None\<rparr>) else txs)"

definition txd_chain :: "bool \<Rightarrow> nat \<Rightarrow> nat \<Rightarrow> (nat \<Rightarrow> tx_desc) \<Rightarrow> (nat \<Rightarrow> tx_desc) outcome" where
  "txd_chain sw t nxt txs = (if \<not> sw then Inl Bug_On
     else let txs1 = txs(t := (txs t)\<lparr>txd_next := Some nxt\<rparr>)
          in Inr (txs1(nxt := (txs1 nxt)\<lparr>txd_parent := Some t\<rparr>)))"

definition submit_dep :: "nat \<Rightarrow> (nat \<Rightarrow> tx_desc) \<Rightarrow> 'd engine \<Rightarrow> 'd engine" where
  "submit_dep dep txs s = snd (call_submit (txd_chan (txs dep)) dep s)"

partial_function (option) deps_loop :: "bool \<Rightarrow> nat \<Rightarrow> nat \<Rightarrow> (nat \<Rightarrow> tx_desc) \<Rightarrow> 'd engine
    \<Rightarrow> ((nat \<Rightarrow> tx_desc) \<times> 'd engine) option" where
  [code]: "deps_loop sw chan dep txs s =
     (let txs1 = txd_clear_parent sw dep txs in
      case txd_next_of sw txs1 dep of
        None \<Rightarrow> Some (txs1, submit_dep dep txs1 s)
      | Some nxt \<Rightarrow>
          if txd_chan (txs1 nxt) = chan
          then deps_loop sw chan nxt (txd_clear_next sw dep txs1) (submit_dep dep (txd_clear_next sw dep txs1) s)
          else Some (txs1, submit_dep dep txs1 s))"

definition dma_run_dependencies :: "bool \<Rightarrow> nat \<Rightarrow> (nat \<Rightarrow> tx_desc) \<Rightarrow> 'd engine
    \<Rightarrow> ((nat \<Rightarrow> tx_desc) \<times> 'd engine) option" where
  "dma_run_dependencies sw tx txs s = (case txd_next_of sw txs tx of
     None \<Rightarrow> Some (txs, s)
   | Some dep \<Rightarrow> (case deps_loop sw (txd_chan (txs dep)) dep (txd_clear_next sw tx txs) s of
       None \<Rightarrow> None
     | Some (txs', s') \<Rightarrow> Some (txs', dma_async_issue_pending (txd_chan (txs dep)) s')))"

subsection \<open>Mappings\<close>

text \<open>No live mapping has the address that means failure.\<close>

definition maps_ok :: "'d engine \<Rightarrow> bool" where
  "maps_ok s \<longleftrightarrow> (\<forall>(k, a, n, dir) \<in># live_maps s. a \<noteq> 0)"

lemma note_map_live:
  "live_maps (note_map k a n dir s) = (if a = 0 then {#} else {#(k, a, n, dir)#}) + live_maps s"
  by (simp add: note_map_def)

lemma note_map_frame [simp]:
  "chans (note_map k a n dir s) = chans s" "devs (note_map k a n dir s) = devs s"
  "drv (note_map k a n dir s) = drv s"
  by (simp_all add: note_map_def)

lemma call_prep_live: "call_prep c dd ds n fl s = (r, s') \<Longrightarrow> live_maps s' = live_maps s"
  by (auto simp: call_prep_def split: prod.splits)

lemma call_prep_chans: "call_prep c dd ds n fl s = (r, s') \<Longrightarrow> chans s' = chans s \<and> devs s' = devs s"
  by (auto simp: call_prep_def split: prod.splits)

lemma submit_live: "submit_and_count env c tx n s = Inr (k, s') \<Longrightarrow> live_maps s' = live_maps s"
  by (auto simp: submit_and_count_def call_submit_def count_bytes_def upd_chan_def Let_def
      split: prod.splits percpu_ptr.splits)

lemma zero_not_live: "maps_ok s \<Longrightarrow> (k, 0, n, dir) \<notin># live_maps s"
  by (auto simp: maps_ok_def)

text \<open>Undoing two mappings, in either order, leaves what was live before.\<close>

lemma unmap_both:
  assumes "maps_ok s"
    and "live_maps s3 = (if b = 0 then {#} else {#(k2, b, n, d2)#}) +
      ((if a = 0 then {#} else {#(k1, a, n, d1)#}) + live_maps s)"
  shows "live_maps (dma_unmap k2 b n d2 (dma_unmap k1 a n d1 s3)) = live_maps s"
    and "live_maps (dma_unmap k1 a n d1 (dma_unmap k2 b n d2 s3)) = live_maps s"
  using assms zero_not_live [OF assms(1)]
  by (simp_all add: dma_unmap_def diff_single_trivial add_mset_commute)

lemma maps_ok_add: "maps_ok s \<Longrightarrow> a \<noteq> 0 \<Longrightarrow> live_maps s' = add_mset (k, a, n, dir) (live_maps s) \<Longrightarrow> maps_ok s'"
  by (simp add: maps_ok_def)

definition prep_ok :: "nat \<Rightarrow> u64 \<Rightarrow> u64 \<Rightarrow> u64 \<Rightarrow> u32 \<Rightarrow> 'd engine \<Rightarrow> bool" where
  "prep_ok c dd ds n fl s \<longleftrightarrow> fst (call_prep c dd ds n fl s) \<noteq> None"

definition mapped :: "map_kind \<Rightarrow> u64 \<Rightarrow> u64 \<Rightarrow> map_dir \<Rightarrow> dma_mapping multiset" where
  "mapped k a n dir = (if a = 0 then {#} else {#(k, a, n, dir)#})"

text \<open>What an offload routine may do: nothing when it is refused, both mappings when accepted.\<close>

definition offload_balanced ::
  "bool \<Rightarrow> dma_mapping multiset \<Rightarrow> 'd engine \<Rightarrow> (dma_cookie \<times> 'd engine) outcome \<Rightarrow> bool" where
  "offload_balanced acc maps s r \<longleftrightarrow> (\<forall>k s'. r = Inr (k, s') \<longrightarrow>
     (if acc then live_maps s' = maps + live_maps s
      else k < 0 \<and> live_maps s' = live_maps s \<and> chans s' = chans s \<and> devs s' = devs s))"

lemma offload_core:
  assumes "maps_ok s" and "live_maps s2 = mapped k2 b n d2 + (mapped k1 a n d1 + live_maps s)"
    and "chans s2 = chans s" and "devs s2 = devs s" and "drv s2 = drv s" and "e < 0"
    and "\<And>s3. live_maps s3 = live_maps s2 \<Longrightarrow> live_maps (un s3) = live_maps s"
    and "\<And>s3. chans (un s3) = chans s3 \<and> devs (un s3) = devs s3"
  shows "offload_balanced (prep_ok c dd ds n fl s) (mapped k2 b n d2 + mapped k1 a n d1) s
    (case call_prep c dd ds n fl s2 of (None, s3) \<Rightarrow> Inr (e, un s3)
      | (Some tx, s3) \<Rightarrow> submit_and_count env c tx n s3)"
proof -
  obtain r s3 where p: "call_prep c dd ds n fl s2 = (r, s3)" by (cases "call_prep c dd ds n fl s2")
  have "fst (call_prep c dd ds n fl s) = r"
    using p assms(3-5) by (auto simp: call_prep_def split: prod.splits)
  then have ok: "prep_ok c dd ds n fl s = (r \<noteq> None)" by (simp add: prep_ok_def)
  have lm: "live_maps s3 = live_maps s2" by (rule call_prep_live [OF p])
  show ?thesis
  proof (cases r)
    case None
    then show ?thesis
      using p ok lm assms(3,4,6,8) assms(7) [OF lm] call_prep_chans [OF p] by (simp add: offload_balanced_def)
  next
    case (Some tx)
    have "live_maps s' = live_maps s2" if "submit_and_count env c tx n s3 = Inr (k, s')" for k s'
      using submit_live [OF that] lm by simp
    then show ?thesis using p ok Some assms(2) by (simp add: offload_balanced_def)
  qed
qed

lemma unmap_frame [simp]:
  "chans (dma_unmap k a n dir s) = chans s" "devs (dma_unmap k a n dir s) = devs s"
  by (simp_all add: dma_unmap_def)

lemma note_map_mapped: "live_maps (note_map k a n dir s) = mapped k a n dir + live_maps s"
  by (simp add: note_map_live mapped_def)

lemma unmap_mapped:
  assumes "maps_ok s" and "live_maps s3 = mapped k2 b n d2 + (mapped k1 a n d1 + live_maps s)"
  shows "live_maps (dma_unmap k2 b n d2 (dma_unmap k1 a n d1 s3)) = live_maps s"
    and "live_maps (dma_unmap k1 a n d1 (dma_unmap k2 b n d2 s3)) = live_maps s"
  using unmap_both [OF assms(1), of s3 b k2 n d2 a k1 d1] assms(2) by (simp_all add: mapped_def)

lemma buf_to_buf_balanced:
  assumes "maps_ok s"
  shows "offload_balanced
    (prep_ok c (map_single me dest n From_Device) (map_single me src n To_Device) n
       (DMA_CTRL_ACK OR DMA_COMPL_SRC_UNMAP_SINGLE OR DMA_COMPL_DEST_UNMAP_SINGLE) s)
    (mapped Map_Single (map_single me dest n From_Device) n From_Device +
     mapped Map_Single (map_single me src n To_Device) n To_Device) s
    (dma_async_memcpy_buf_to_buf me env c dest src n s)"
  unfolding dma_async_memcpy_buf_to_buf_def Let_def
  by (rule offload_core [OF assms]) (simp_all add: note_map_mapped unmap_mapped(1) [OF assms])

lemma buf_to_pg_balanced:
  assumes "maps_ok s"
  shows "offload_balanced
    (prep_ok c (map_page me page off n From_Device) (map_single me kdata n To_Device) n
       (DMA_CTRL_ACK OR DMA_COMPL_SRC_UNMAP_SINGLE) s)
    (mapped Map_Page (map_page me page off n From_Device) n From_Device +
     mapped Map_Single (map_single me kdata n To_Device) n To_Device) s
    (dma_async_memcpy_buf_to_pg me env c page off kdata n s)"
  unfolding dma_async_memcpy_buf_to_pg_def Let_def
  by (rule offload_core [OF assms]) (simp_all add: note_map_mapped unmap_mapped(1) [OF assms])

lemma pg_to_pg_balanced:
  assumes "maps_ok s"
  shows "offload_balanced
    (prep_ok c (map_page me dpg doff n From_Device) (map_page me spg soff n To_Device) n DMA_CTRL_ACK s)
    (mapped Map_Page (map_page me dpg doff n From_Device) n From_Device +
     mapped Map_Page (map_page me spg soff n To_Device) n To_Device) s
    (dma_async_memcpy_pg_to_pg me env c dpg doff spg soff n s)"
  unfolding dma_async_memcpy_pg_to_pg_def Let_def
  by (rule offload_core [OF assms]) (simp_all add: note_map_mapped unmap_mapped(1) [OF assms])

lemma pg_to_buf_balanced:
  assumes "maps_ok s"
  shows "offload_balanced
    (map_single me kdata n From_Device \<noteq> 0 \<and> map_page me page off n To_Device \<noteq> 0 \<and>
     prep_ok c (map_single me kdata n From_Device) (map_page me page off n To_Device) n
       (DMA_CTRL_ACK OR DMA_COMPL_DEST_UNMAP_SINGLE) s)
    (mapped Map_Page (map_page me page off n To_Device) n To_Device +
     mapped Map_Single (map_single me kdata n From_Device) n From_Device) s
    (dma_async_memcpy_pg_to_buf me env c page off kdata n s)"
proof (cases "map_single me kdata n From_Device = 0 \<or> map_page me page off n To_Device = 0")
  case True
  then show ?thesis
    using zero_not_live [OF assms]
    by (auto simp: dma_async_memcpy_pg_to_buf_def Let_def offload_balanced_def note_map_def dma_unmap_def)
next
  case False
  then show ?thesis
    unfolding dma_async_memcpy_pg_to_buf_def Let_def
    using offload_core [OF assms, of _ Map_Page "map_page me page off n To_Device" n To_Device Map_Single
        "map_single me kdata n From_Device" From_Device "- errno_code ENOMEM"
        "\<lambda>s3. dma_unmap Map_Single (map_single me kdata n From_Device) n From_Device
           (dma_unmap Map_Page (map_page me page off n To_Device) n To_Device s3)"]
    by (simp add: note_map_mapped unmap_mapped(2) [OF assms])
qed

subsection \<open>The waiting loops end\<close>

lemma sync_wait_returns:
  assumes "expired we (i + k)"
  shows "\<exists>st s'. sync_wait_loop we i c cookie s = Some (st, s') \<and> st \<noteq> DMA_IN_PROGRESS"
  using assms
proof (induction k arbitrary: i s)
  case 0
  then show ?case by (subst sync_wait_loop.simps) (simp split: prod.splits)
next
  case (Suc k)
  obtain st s1 where p: "dma_async_is_tx_complete c cookie s = (st, s1)"
    by (cases "dma_async_is_tx_complete c cookie s")
  have "\<exists>st s'. sync_wait_loop we (Suc i) c cookie (s1\<lparr>drv := hw we i (drv s1)\<rparr>) = Some (st, s') \<and>
      st \<noteq> DMA_IN_PROGRESS"
    by (rule Suc.IH) (use Suc.prems in simp)
  then show ?case using p by (subst sync_wait_loop.simps) simp
qed

lemma async_tx_returns:
  assumes "expired we (i + k)"
  shows "\<exists>st s'. async_tx_loop we tx_at i s = Some (st, s') \<and> st \<noteq> DMA_IN_PROGRESS"
  using assms
proof (induction k arbitrary: i s)
  case 0
  then show ?case
    using sync_wait_returns [of we 0 i "txd_chan (tx_at i)" "txd_cookie (tx_at i)"]
    by (subst async_tx_loop.simps) (simp add: dma_sync_wait_def)
next
  case (Suc k)
  have e: "expired we (0 + (i + Suc k))" using Suc.prems by simp
  have "\<exists>st s'. async_tx_loop we tx_at (Suc i) s = Some (st, s') \<and> st \<noteq> DMA_IN_PROGRESS"
    by (rule Suc.IH) (use Suc.prems in simp)
  then show ?case
    using sync_wait_returns [OF e] by (subst async_tx_loop.simps) (simp add: dma_sync_wait_def)
qed

subsection \<open>A chain of dependencies\<close>

text \<open>The descriptors from one on that stay on channel \<open>c\<close>.\<close>

fun dep_chain :: "(nat \<Rightarrow> tx_desc) \<Rightarrow> nat \<Rightarrow> nat list \<Rightarrow> bool" where
  "dep_chain txs c [] \<longleftrightarrow> False"
| "dep_chain txs c [d] \<longleftrightarrow> txd_chan (txs d) = c \<and>
     (case txd_next (txs d) of None \<Rightarrow> True | Some e \<Rightarrow> txd_chan (txs e) \<noteq> c)"
| "dep_chain txs c (d # e # ds) \<longleftrightarrow>
     txd_chan (txs d) = c \<and> txd_next (txs d) = Some e \<and> dep_chain txs c (e # ds)"

text \<open>Every submitted descriptor loses its parent; every one but the last loses its successor.\<close>

definition unlinked :: "nat list \<Rightarrow> (nat \<Rightarrow> tx_desc) \<Rightarrow> nat \<Rightarrow> tx_desc" where
  "unlinked ds txs t = (if t \<in> set ds then (txs t)\<lparr>txd_parent := None,
     txd_next := (if t = last ds then txd_next (txs t) else None)\<rparr> else txs t)"

lemma dep_chain_cong:
  assumes "\<And>t. txd_chan (txs' t) = txd_chan (txs t)" and "\<And>t. t \<in> set ds \<Longrightarrow> txd_next (txs' t) = txd_next (txs t)"
  shows "dep_chain txs' c ds = dep_chain txs c ds"
  using assms by (induction txs c ds rule: dep_chain.induct) (auto split: option.splits)

lemma deps_loop_chain:
  assumes "dep_chain txs c (d # ds)" and "distinct (d # ds)"
  shows "deps_loop True c d txs s =
    Some (unlinked (d # ds) txs, fold (\<lambda>t s. snd (call_submit c t s)) (d # ds) s)"
  using assms
proof (induction ds arbitrary: d txs s)
  case Nil
  then show ?case
    by (subst deps_loop.simps)
       (auto simp: Let_def txd_next_of_def txd_clear_parent_def submit_dep_def unlinked_def fun_eq_iff
          split: option.splits)
next
  case (Cons e ds)
  let ?txs1 = "txd_clear_next True d (txd_clear_parent True d txs)"
  have ch: "txd_chan (?txs1 t) = txd_chan (txs t)" for t
    by (simp add: txd_clear_next_def txd_clear_parent_def)
  have "dep_chain ?txs1 c (e # ds) = dep_chain txs c (e # ds)"
    using Cons.prems(2) by (intro dep_chain_cong ch) (auto simp: txd_clear_next_def txd_clear_parent_def)
  then have IH: "deps_loop True c e ?txs1 (snd (call_submit c d s)) = Some (unlinked (e # ds) ?txs1,
      fold (\<lambda>t s. snd (call_submit c t s)) (e # ds) (snd (call_submit c d s)))"
    using Cons.prems by (intro Cons.IH) auto
  have "unlinked (e # ds) ?txs1 = unlinked (d # e # ds) txs"
    using Cons.prems(2)
    by (auto simp: unlinked_def fun_eq_iff txd_clear_next_def txd_clear_parent_def)
  moreover have "e \<noteq> d" using Cons.prems(2) by auto
  moreover have "txd_chan (txs e) = c" using Cons.prems(1) by (cases ds) simp_all
  ultimately show ?case
    using IH Cons.prems
    by (subst deps_loop.simps) (auto simp: Let_def txd_next_of_def txd_clear_parent_def txd_clear_next_def submit_dep_def)
qed

subsection \<open>Properties\<close>

text \<open>
  C11. An offload routine that is refused by the driver, or whose mapping fails where the routine
  checks it, returns an error and leaves no mapping behind, and touches neither channels nor
  devices; an accepted one leaves exactly its source and destination mapped, single or page-wise
  as the completion flags it passed to the driver say.
\<close>

theorem offload_mappings_balance:
  assumes "maps_ok s"
  shows "offload_balanced
      (prep_ok c (map_single me dest n From_Device) (map_single me src n To_Device) n
         (DMA_CTRL_ACK OR DMA_COMPL_SRC_UNMAP_SINGLE OR DMA_COMPL_DEST_UNMAP_SINGLE) s)
      (mapped Map_Single (map_single me dest n From_Device) n From_Device +
       mapped Map_Single (map_single me src n To_Device) n To_Device) s
      (dma_async_memcpy_buf_to_buf me env c dest src n s) \<and>
    offload_balanced
      (prep_ok c (map_page me page off n From_Device) (map_single me src n To_Device) n
         (DMA_CTRL_ACK OR DMA_COMPL_SRC_UNMAP_SINGLE) s)
      (mapped Map_Page (map_page me page off n From_Device) n From_Device +
       mapped Map_Single (map_single me src n To_Device) n To_Device) s
      (dma_async_memcpy_buf_to_pg me env c page off src n s) \<and>
    offload_balanced
      (map_single me dest n From_Device \<noteq> 0 \<and> map_page me page off n To_Device \<noteq> 0 \<and>
       prep_ok c (map_single me dest n From_Device) (map_page me page off n To_Device) n
         (DMA_CTRL_ACK OR DMA_COMPL_DEST_UNMAP_SINGLE) s)
      (mapped Map_Page (map_page me page off n To_Device) n To_Device +
       mapped Map_Single (map_single me dest n From_Device) n From_Device) s
      (dma_async_memcpy_pg_to_buf me env c page off dest n s) \<and>
    offload_balanced
      (prep_ok c (map_page me page off n From_Device) (map_page me spg soff n To_Device) n DMA_CTRL_ACK s)
      (mapped Map_Page (map_page me page off n From_Device) n From_Device +
       mapped Map_Page (map_page me spg soff n To_Device) n To_Device) s
      (dma_async_memcpy_pg_to_pg me env c page off spg soff n s)"
  by (intro conjI buf_to_buf_balanced [OF assms] buf_to_pg_balanced [OF assms] pg_to_buf_balanced [OF assms]
      pg_to_pg_balanced [OF assms])

theorem offload_mappings_balance_witness:
  "\<exists>s'. dma_async_memcpy_pg_to_buf \<lparr>map_single = (\<lambda>v n d. v), map_page = (\<lambda>p off n d. 0)\<rparr> demo_env 4
     7 0 64 8 (demo_engine 1) = Inr (- 14, s') \<and> live_maps s' = {#}"
proof -
  let ?me = "\<lparr>map_single = (\<lambda>v n d. v), map_page = (\<lambda>p off n d. 0)\<rparr>"
  have "maps_ok (demo_engine 1)" by (simp add: maps_ok_def)
  moreover have "\<exists>s'. dma_async_memcpy_pg_to_buf ?me demo_env 4 7 0 64 8 (demo_engine 1) = Inr (- 14, s')"
    by (simp add: dma_async_memcpy_pg_to_buf_def)
  ultimately show ?thesis
    using offload_mappings_balance [of "demo_engine 1" 4 ?me 64 8 64 demo_env 7 0 7 0]
    by (auto simp: offload_balanced_def)
qed

text \<open>
  Both waiting loops return once the time-out has passed, whatever the hardware does between
  the polls, and never report a transfer as still in progress; an absent descriptor counts as done.
\<close>

theorem waiting_returns_final_status:
  assumes "expired we k"
  shows "(\<exists>st s'. dma_sync_wait we c cookie s = Some (st, s') \<and> st \<noteq> DMA_IN_PROGRESS) \<and>
    (\<exists>st s'. dma_wait_for_async_tx we txp s = Some (st, s') \<and> st \<noteq> DMA_IN_PROGRESS)"
proof -
  have e: "expired we (0 + k)" using assms by simp
  then show ?thesis
    using sync_wait_returns [OF e, of c cookie] async_tx_returns [OF e]
    by (cases txp) (auto simp: dma_sync_wait_def dma_wait_for_async_tx_def)
qed

theorem waiting_returns_final_status_witness:
  "\<exists>s'. dma_sync_wait \<lparr>expired = (\<lambda>i. 3 \<le> i), hw = (\<lambda>_ d. d)\<rparr> 4 1 (demo_engine 1) = Some (DMA_SUCCESS, s')"
proof -
  let ?we = "\<lparr>expired = (\<lambda>i. 3 \<le> i), hw = (\<lambda>_ d. d)\<rparr> :: unit wait_env"
  obtain st s' where r: "dma_sync_wait ?we 4 1 (demo_engine 1) = Some (st, s')"
    using waiting_returns_final_status [of ?we 3 4 1 "demo_engine 1" None] by auto
  moreover have "st = DMA_SUCCESS"
    using r unfolding dma_sync_wait_def
    by (subst (asm) sync_wait_loop.simps)
       (simp add: dma_async_is_tx_complete_def dma_async_issue_pending_def demo_device_def)
  ultimately show ?thesis by blast
qed

text \<open>
  C13. \<open>dma_run_dependencies\<close> ends on every chain of dependents; it submits those that stay on the
  first dependent's channel, in order and once each, takes them off the chain, leaves the link to
  the first dependent on another channel in place, and then starts the channel.
\<close>

theorem dependencies_run_in_order:
  assumes "txd_next (txs tx) = Some d" and "txd_chan (txs d) = c" and "dep_chain txs c (d # ds)"
    and "distinct (tx # d # ds)"
  shows "dma_run_dependencies True tx txs s =
    Some (unlinked (d # ds) (txs(tx := (txs tx)\<lparr>txd_next := None\<rparr>)),
      dma_async_issue_pending c (fold (\<lambda>t s. snd (call_submit c t s)) (d # ds) s))"
proof -
  let ?txs1 = "txd_clear_next True tx txs"
  have eq: "?txs1 = txs(tx := (txs tx)\<lparr>txd_next := None\<rparr>)" by (simp add: txd_clear_next_def)
  have "dep_chain ?txs1 c (d # ds) = dep_chain txs c (d # ds)"
    using assms(4) by (intro dep_chain_cong) (auto simp: txd_clear_next_def)
  then show ?thesis
    using deps_loop_chain [of ?txs1 c d ds s] assms eq
    by (simp add: dma_run_dependencies_def txd_next_of_def)
qed

theorem dependencies_run_in_order_witness:
  "\<exists>txs' s'. dma_run_dependencies True 0 ((\<lambda>_. \<lparr>txd_cookie = 0, txd_chan = 5, txd_next = None, txd_parent = None\<rparr>)
      (0 := \<lparr>txd_cookie = 0, txd_chan = 4, txd_next = Some 1, txd_parent = None\<rparr>,
       1 := \<lparr>txd_cookie = 0, txd_chan = 4, txd_next = Some 2, txd_parent = Some 0\<rparr>)) (demo_engine 1)
     = Some (txs', s') \<and> txd_next (txs' 1) = Some 2 \<and> txd_parent (txs' 1) = None"
  by (subst dependencies_run_in_order [where d = 1 and ds = "[]" and c = 4]) (auto simp: unlinked_def)

end
