(* ===== verification/Copy_Loop.thy ===== *)
theory Copy_Loop
  imports Dma_Memcpy
begin

text \<open>
  The copy loops of \<^verbatim>\<open>dma_policy_ex_sh.c\<close> and \<^verbatim>\<open>dma_policy_prio.c\<close>, which break a transfer
  between a kernel buffer and pinned user pages into pieces that do not cross a page. The model
  keeps the widths of the code: lengths and addresses have 64 bits, the piece size and the offset
  are 32-bit signed integers, and \<^verbatim>\<open>min_t(int, ...)\<close> truncates both operands. The loop that polls
  for a free descriptor may not end, so the result is an option. The variable
  \<^verbatim>\<open>tmp_addr_user\<close>, which the code advances and never reads, is left out.
\<close>

definition PAGE_SIZE :: u64 where
  "PAGE_SIZE = 4096"

definition PAGE_MASK :: u64 where
  "PAGE_MASK = NOT (PAGE_SIZE - 1)"

definition PAGE_ALIGN :: "u64 \<Rightarrow> u64" where
  "PAGE_ALIGN a = (a + (PAGE_SIZE - 1)) AND PAGE_MASK"

type_synonym 'd xfer = "nat \<Rightarrow> u32 \<Rightarrow> u64 \<Rightarrow> u64 \<Rightarrow> 'd engine \<Rightarrow> (dma_cookie \<times> 'd engine) outcome"

partial_function (option) copy_loop :: "'d xfer \<Rightarrow> nat \<Rightarrow> nat list \<Rightarrow> u64 \<Rightarrow> u32 \<Rightarrow> u32 \<Rightarrow> nat \<Rightarrow> u64
    \<Rightarrow> 'd engine \<Rightarrow> (dma_cookie \<times> 'd engine) outcome option" where
  [code]: "copy_loop xfer chan pgs tmp_len byte_offset copy page_index tmp_addr_kernel s =
     (if length pgs \<le> page_index then Some (Inl Out_Of_Bounds)
      else case xfer (pgs ! page_index) byte_offset tmp_addr_kernel (scast copy) s of
        Inl f \<Rightarrow> Some (Inl f)
      | Inr (cookie, s1) \<Rightarrow>
          if cookie < 0
          then copy_loop xfer chan pgs tmp_len byte_offset copy page_index tmp_addr_kernel
                 (dma_async_issue_pending chan s1)
          else if tmp_len - scast copy = 0 then Some (Inr (cookie, s1))
          else copy_loop xfer chan pgs (tmp_len - scast copy) 0
                 (min_int (ucast PAGE_SIZE) (ucast (tmp_len - scast copy))) (page_index + 1)
                 (tmp_addr_kernel + scast copy) s1)"

text \<open>
  The frame common to the four raw copy routines: set-up, loop, wait. They return the number of
  bytes left, which the loop only leaves at zero.
\<close>

definition copy_raw :: "'d wait_env \<Rightarrow> 'd xfer \<Rightarrow> nat \<Rightarrow> ('a request_copy_scheme) \<Rightarrow> 'd engine
    \<Rightarrow> (int \<times> 'a request_copy_scheme \<times> 'd engine) outcome option" where
  "copy_raw we xfer chan r s = (case pages r of No_Pages \<Rightarrow> Some (Inl Null_Deref)
     | Freed_Pages \<Rightarrow> Some (Inl Use_After_Free)
     | Pages pgs \<Rightarrow>
         (let byte_offset = ucast (user_base r AND NOT PAGE_MASK) :: u32;
              copy = min_int (ucast (PAGE_SIZE - scast byte_offset)) (ucast (rq_len r))
          in case copy_loop xfer chan pgs (rq_len r) byte_offset copy 0 (kernel_base r) s of
               None \<Rightarrow> None
             | Some (Inl f) \<Rightarrow> Some (Inl f)
             | Some (Inr (cookie, s1)) \<Rightarrow>
                 (case dma_sync_wait we chan cookie s1 of None \<Rightarrow> None
                  | Some (st, s2) \<Rightarrow> Some (Inr (0, r\<lparr>dma_cookie_f := cookie, rq_status := st\<rparr>, s2)))))"

text \<open>
  The raw routines: \<^verbatim>\<open>__dma_copy_from_user\<close>, \<^verbatim>\<open>__dma_copy_to_user\<close> and their two counterparts of
  the priority policy, which have the same bodies on requests that carry a priority.
\<close>

definition dma_copy_from_user_raw :: "map_env \<Rightarrow> kenv \<Rightarrow> 'd wait_env \<Rightarrow> 'a request_copy_scheme \<Rightarrow> 'd engine
    \<Rightarrow> (int \<times> 'a request_copy_scheme \<times> 'd engine) outcome option" where
  "dma_copy_from_user_raw me env we r s = (case rq_chan r of None \<Rightarrow> Some (Inl Null_Deref)
     | Some chan \<Rightarrow> copy_raw we (dma_async_memcpy_pg_to_buf me env chan) chan r s)"

definition dma_copy_to_user_raw :: "map_env \<Rightarrow> kenv \<Rightarrow> 'd wait_env \<Rightarrow> 'a request_copy_scheme \<Rightarrow> 'd engine
    \<Rightarrow> (int \<times> 'a request_copy_scheme \<times> 'd engine) outcome option" where
  "dma_copy_to_user_raw me env we r s = (case rq_chan r of None \<Rightarrow> Some (Inl Null_Deref)
     | Some chan \<Rightarrow> copy_raw we (dma_async_memcpy_buf_to_pg me env chan) chan r s)"

subsection \<open>The pieces of a transfer\<close>

text \<open>Page index, offset in the page, kernel address and length of each piece.\<close>

function page_segments :: "nat \<Rightarrow> nat \<Rightarrow> u64 \<Rightarrow> nat \<Rightarrow> (nat \<times> nat \<times> u64 \<times> nat) list" where
  "page_segments i off ka n = (if n = 0 \<or> 4096 \<le> off then []
     else let m = min (4096 - off) n in (i, off, ka, m) # page_segments (i + 1) 0 (ka + of_nat m) (n - m))"
  by pat_completeness auto
termination
  by (relation "measure (\<lambda>(i, off, ka, n). n)") auto

declare page_segments.simps [simp del]

text \<open>One piece: submit, and while the driver has no descriptor, start the channel and try again.\<close>

partial_function (option) submit_piece :: "('d engine \<Rightarrow> (dma_cookie \<times> 'd engine) outcome) \<Rightarrow> nat
    \<Rightarrow> 'd engine \<Rightarrow> (dma_cookie \<times> 'd engine) outcome option" where
  [code]: "submit_piece x chan s = (case x s of Inl f \<Rightarrow> Some (Inl f)
     | Inr (cookie, s1) \<Rightarrow> if cookie < 0 then submit_piece x chan (dma_async_issue_pending chan s1)
                          else Some (Inr (cookie, s1)))"

fun run_pieces :: "'d xfer \<Rightarrow> nat \<Rightarrow> nat list \<Rightarrow> dma_cookie \<Rightarrow> (nat \<times> nat \<times> u64 \<times> nat) list \<Rightarrow> 'd engine
    \<Rightarrow> (dma_cookie \<times> 'd engine) outcome option" where
  "run_pieces xfer chan pgs k [] s = Some (Inr (k, s))"
| "run_pieces xfer chan pgs k ((i, off, ka, m) # ps) s =
     (if length pgs \<le> i then Some (Inl Out_Of_Bounds)
      else case submit_piece (xfer (pgs ! i) (of_nat off) ka (of_nat m)) chan s of
        None \<Rightarrow> None | Some (Inl f) \<Rightarrow> Some (Inl f)
      | Some (Inr (k', s1)) \<Rightarrow> run_pieces xfer chan pgs k' ps s1)"

subsection \<open>The loop runs the pieces\<close>

lemma page_segments_step:
  assumes "0 < n" and "off < 4096"
  shows "page_segments i off ka n = (i, off, ka, min (4096 - off) n) #
    page_segments (i + 1) 0 (ka + of_nat (min (4096 - off) n)) (n - min (4096 - off) n)"
  using assms by (subst page_segments.simps) (simp add: Let_def)

definition after_piece :: "'d xfer \<Rightarrow> nat \<Rightarrow> nat list \<Rightarrow> u64 \<Rightarrow> u32 \<Rightarrow> nat \<Rightarrow> u64
    \<Rightarrow> (dma_cookie \<times> 'd engine) outcome \<Rightarrow> (dma_cookie \<times> 'd engine) outcome option" where
  "after_piece xfer chan pgs len cp i ka z = (case z of Inl f \<Rightarrow> Some (Inl f)
     | Inr (cookie, s1) \<Rightarrow> if len - scast cp = 0 then Some (Inr (cookie, s1))
         else copy_loop xfer chan pgs (len - scast cp) 0
                (min_int (ucast PAGE_SIZE) (ucast (len - scast cp))) (i + 1) (ka + scast cp) s1)"

lemma copy_loop_of_piece:
  assumes "submit_piece (xfer (pgs ! i) off ka (scast cp)) chan s = Some z" and "i < length pgs"
  shows "copy_loop xfer chan pgs len off cp i ka s = after_piece xfer chan pgs len cp i ka z"
proof -
  let ?P = "\<lambda>x c s z. x = xfer (pgs ! i) off ka (scast cp) \<longrightarrow> c = chan \<longrightarrow>
      copy_loop xfer chan pgs len off cp i ka s = after_piece xfer chan pgs len cp i ka z"
  have "?P (xfer (pgs ! i) off ka (scast cp)) chan s z"
  proof (rule submit_piece.raw_induct [of ?P "((xfer (pgs ! i) off ka (scast cp), chan), s)" z,
        unfolded prod.case, OF _ assms(1)], intro impI)
    fix sp :: "('a engine \<Rightarrow> (dma_cookie \<times> 'a engine) outcome) \<Rightarrow> nat
      \<Rightarrow> 'a engine \<Rightarrow> (dma_cookie \<times> 'a engine) outcome option" and x c s y
    assume ih: "\<And>x c s y. sp x c s = Some y \<Longrightarrow> ?P x c s y"
      and st: "(case x s of Inl f \<Rightarrow> Some (Inl f) | Inr (cookie, s1) \<Rightarrow>
        if cookie < 0 then sp x c (dma_async_issue_pending c s1) else Some (Inr (cookie, s1))) = Some y"
      and e: "x = xfer (pgs ! i) off ka (scast cp)" "c = chan"
    show "copy_loop xfer chan pgs len off cp i ka s = after_piece xfer chan pgs len cp i ka y"
      using ih st e assms(2)
      by (subst copy_loop.simps) (auto simp: after_piece_def split: sum.splits if_splits)
  qed
  then show ?thesis by blast
qed

lemma piece_of_copy_loop:
  assumes "copy_loop xfer chan pgs len off cp i ka s = Some y" and "i < length pgs"
  shows "\<exists>z. submit_piece (xfer (pgs ! i) off ka (scast cp)) chan s = Some z"
proof -
  let ?P = "\<lambda>xfer chan pgs len off cp i ka s y. i < length pgs \<longrightarrow>
      (\<exists>z. submit_piece (xfer (pgs ! i) off ka (scast cp)) chan s = Some z)"
  have "?P xfer chan pgs len off cp i ka s y"
    apply (rule copy_loop.raw_induct [of ?P, OF _ assms(1)])
    apply (rule impI)
    apply (subst submit_piece.simps)
    apply (auto split: sum.splits if_splits)
    done
  with assms(2) show ?thesis by blast
qed

lemma copy_loop_piece:
  assumes "i < length pgs"
  shows "copy_loop xfer chan pgs len off cp i ka s =
    (case submit_piece (xfer (pgs ! i) off ka (scast cp)) chan s of None \<Rightarrow> None
     | Some z \<Rightarrow> after_piece xfer chan pgs len cp i ka z)"
proof (cases "submit_piece (xfer (pgs ! i) off ka (scast cp)) chan s")
  case None
  then have "copy_loop xfer chan pgs len off cp i ka s = None"
    using piece_of_copy_loop [OF _ assms] by fastforce
  with None show ?thesis by simp
next
  case (Some z)
  then show ?thesis using copy_loop_of_piece [OF _ assms] by simp
qed

subsection \<open>Conversion of the machine integers\<close>

lemma unat_of_nat_u32: "n < 2 ^ 31 \<Longrightarrow> unat (of_nat n :: u32) = n"
  by (simp add: unat_of_nat)

lemma unat_of_nat_u64: "n < 2 ^ 31 \<Longrightarrow> unat (of_nat n :: u64) = n"
  by (simp add: unat_of_nat)

lemma sint_of_nat_u32: "n < 2 ^ 31 \<Longrightarrow> sint (of_nat n :: u32) = int n"
  using sint_unat_small [of "of_nat n"] by (simp add: unat_of_nat_u32)

lemma scast_of_nat_u32:
  assumes "n < 2 ^ 31"
  shows "(scast (of_nat n :: u32) :: u64) = of_nat n"
proof -
  have "(scast (of_nat n :: u32) :: u64) = word_of_int (sint (of_nat n :: u32))"
    by (rule scast_eq)
  also have "\<dots> = of_nat n"
    using assms by (simp add: sint_of_nat_u32)
  finally show ?thesis .
qed

lemma ucast_of_nat_u64: "(ucast (of_nat n :: u64) :: u32) = of_nat n"
  by (simp add: unsigned_of_nat word_of_nat_eq_iff)

lemma min_int_of_nat:
  assumes "a < 2 ^ 31" and "b < 2 ^ 31"
  shows "min_int (of_nat a) (of_nat b) = of_nat (min a b)"
  using assms by (auto simp: min_int_def sint_of_nat_u32)

lemma min_int_page:
  assumes "n < 2 ^ 31"
  shows "min_int (ucast PAGE_SIZE) (ucast (of_nat n :: u64)) = of_nat (min 4096 n)"
  using min_int_of_nat [of 4096 n] assms by (simp add: PAGE_SIZE_def ucast_of_nat_u64)

lemma copy_loop_runs_pieces:
  assumes "0 < n" and "n < 2 ^ 31" and "off < 4096"
  shows "copy_loop xfer chan pgs (of_nat n) (of_nat off) (of_nat (min (4096 - off) n)) i ka s =
    run_pieces xfer chan pgs k (page_segments i off ka n) s"
  using assms
proof (induction n arbitrary: off i ka s k rule: less_induct)
  case (less n)
  define m where "m = min (4096 - off) n"
  have m: "0 < m" "m \<le> n" "m < 2 ^ 31" using less.prems by (auto simp: m_def)
  have rest: "(of_nat n :: u64) - of_nat m = of_nat (n - m)" using m by (simp add: of_nat_diff)
  have zero: "(of_nat (n - m) :: u64) = 0 \<longleftrightarrow> n = m"
  proof -
    have "unat (of_nat (n - m) :: u64) = n - m" using less.prems m by (intro unat_of_nat_u64) simp
    then show ?thesis using m by (auto simp: unat_eq_zero)
  qed
  have seg: "page_segments i off ka n =
      (i, off, ka, m) # page_segments (i + 1) 0 (ka + of_nat m) (n - m)"
    using page_segments_step [OF less.prems(1) less.prems(3)] by (simp add: m_def)
  show ?case
  proof (cases "i < length pgs")
    case False
    then show ?thesis unfolding seg by (simp add: copy_loop.simps)
  next
    case True
    have after: "after_piece xfer chan pgs (of_nat n) (of_nat m) i ka (Inr (c, s1)) =
        run_pieces xfer chan pgs c (page_segments (i + 1) 0 (ka + of_nat m) (n - m)) s1" for c s1
    proof (cases "n = m")
      case True
      then show ?thesis using m
        by (simp add: after_piece_def scast_of_nat_u32 page_segments.simps)
    next
      case False
      then have p: "n - m < n" "0 < n - m" "n - m < 2 ^ 31" using m less.prems by auto
      have "copy_loop xfer chan pgs (of_nat (n - m)) (of_nat 0) (of_nat (min (4096 - 0) (n - m)))
          (i + 1) (ka + of_nat m) s1 =
        run_pieces xfer chan pgs c (page_segments (i + 1) 0 (ka + of_nat m) (n - m)) s1"
        by (rule less.IH [OF p]) simp
      then show ?thesis using False m p zero
        by (simp add: after_piece_def scast_of_nat_u32 rest min_int_page del: of_nat_diff)
    qed
    show ?thesis
      unfolding seg copy_loop_piece [OF True] m_def [symmetric]
      using True m after
      by (auto simp: scast_of_nat_u32 after_piece_def split: option.splits sum.splits)
  qed
qed

subsection \<open>The pieces are the transfer\<close>

text \<open>
  The bytes a list of pieces moves, in order: the position in the pinned pages (page index times
  the page size plus the offset) and the kernel address.
\<close>

definition piece_bytes :: "nat \<times> nat \<times> u64 \<times> nat \<Rightarrow> (nat \<times> u64) list" where
  "piece_bytes p = (case p of (i, off, ka, m) \<Rightarrow> map (\<lambda>t. (i * 4096 + off + t, ka + of_nat t)) [0 ..< m])"

definition in_page :: "nat \<times> nat \<times> u64 \<times> nat \<Rightarrow> bool" where
  "in_page p = (case p of (i, off, ka, m) \<Rightarrow> 0 < m \<and> off + m \<le> 4096)"

lemma page_segments_induct [consumes 1, case_names none last page]:
  assumes "off < 4096"
    and "\<And>i off ka. off < 4096 \<Longrightarrow> P i off ka 0"
    and "\<And>i off ka n. off < 4096 \<Longrightarrow> 0 < n \<Longrightarrow> off + n \<le> 4096 \<Longrightarrow> P i off ka n"
    and "\<And>i off ka n. off < 4096 \<Longrightarrow> 4096 < off + n \<Longrightarrow>
      P (Suc i) 0 (ka + of_nat (4096 - off)) (n - (4096 - off)) \<Longrightarrow> P i off ka n"
  shows "P i off ka n"
  using assms(1)
proof (induction n arbitrary: i off ka rule: less_induct)
  case (less n)
  consider "n = 0" | "0 < n" "off + n \<le> 4096" | "4096 < off + n" by linarith
  then show ?case
  proof cases
    case 3
    have "P (Suc i) 0 (ka + of_nat (4096 - off)) (n - (4096 - off))"
      using 3 less.prems by (intro less.IH) auto
    then show ?thesis using assms(4) less.prems 3 by blast
  qed (use assms less.prems in blast)+
qed

lemma page_segments_none [simp]: "page_segments i off ka 0 = []"
  by (simp add: page_segments.simps)

lemma page_segments_last:
  assumes "off < 4096" and "0 < n" and "off + n \<le> 4096"
  shows "page_segments i off ka n = [(i, off, ka, n)]"
  using page_segments_step [OF assms(2,1)] assms(3) by (simp add: min_absorb2)

lemma page_segments_page:
  assumes "off < 4096" and "4096 < off + n"
  shows "page_segments i off ka n = (i, off, ka, 4096 - off) #
    page_segments (Suc i) 0 (ka + of_nat (4096 - off)) (n - (4096 - off))"
proof -
  have "min (4096 - off) n = 4096 - off" using assms by linarith
  then show ?thesis using page_segments_step [of n off i ka] assms by simp
qed

lemma page_segments_bytes:
  assumes "off < 4096"
  shows "concat (map piece_bytes (page_segments i off ka n)) =
    map (\<lambda>t. (i * 4096 + off + t, ka + of_nat t)) [0 ..< n]"
  using assms
proof (induction i off ka n rule: page_segments_induct)
  case (page i off ka n)
  let ?m = "4096 - off"
  have "[0 ..< n] = [0 ..< ?m] @ [?m ..< n]"
    using page.hyps upt_add_eq_append [of 0 ?m "n - ?m"] by simp
  moreover have "[?m ..< n] = map (\<lambda>t. t + ?m) [0 ..< n - ?m]"
    using page.hyps map_add_upt [of ?m "n - ?m"] by simp
  ultimately have "[0 ..< n] = [0 ..< ?m] @ map (\<lambda>t. t + ?m) [0 ..< n - ?m]" by (simp only:)
  then show ?case
    using page page_segments_page [of off n i ka] by (simp add: piece_bytes_def o_def algebra_simps)
qed (simp_all add: page_segments_last piece_bytes_def)

lemma page_segments_in_page:
  assumes "off < 4096"
  shows "list_all in_page (page_segments i off ka n)"
  using assms by (induction i off ka n rule: page_segments_induct)
    (auto simp: page_segments_last page_segments_page in_page_def)

lemma page_segments_indices:
  assumes "off < 4096" and "0 < n"
  shows "map fst (page_segments i off ka n) = [i ..< i + (off + n + 4095) div 4096]"
  using assms
proof (induction i off ka n rule: page_segments_induct)
  case (last i off ka n)
  then have "(off + n + 4095) div 4096 = 1" by (simp add: div_nat_eqI)
  then show ?case using last by (simp add: page_segments_last)
next
  case (page i off ka n)
  let ?k = "(n - (4096 - off) + 4095) div 4096"
  have "off + n + 4095 = 4096 + (n - (4096 - off) + 4095)" using page.hyps by simp
  then have k: "(off + n + 4095) div 4096 = Suc ?k" by simp
  have "map fst (page_segments (Suc i) 0 (ka + of_nat (4096 - off)) (n - (4096 - off))) =
      [Suc i ..< Suc i + ?k]"
    using page.IH page.hyps by simp
  then show ?case unfolding k page_segments_page [OF page.hyps] by (simp add: upt_conv_Cons)
qed simp

subsection \<open>Polling ends\<close>

text \<open>
  A transfer routine that never faults on the states \<open>okst\<close>, keeps them, and whose refusals shrink
  a backlog once the channel has been started.
\<close>

locale polled_transfer =
  fixes xfer :: "'d xfer" and chan :: nat and okst :: "'d engine \<Rightarrow> bool" and backlog :: "'d engine \<Rightarrow> nat"
  assumes accept: "okst s \<Longrightarrow> \<exists>c s1. xfer pg off ka m s = Inr (c, s1) \<and>
      (if c < 0 then okst (dma_async_issue_pending chan s1) \<and>
         backlog (dma_async_issue_pending chan s1) < backlog s else okst s1)"
begin

lemma piece_returns:
  assumes "okst s"
  shows "\<exists>c s1. submit_piece (xfer pg off ka m) chan s = Some (Inr (c, s1)) \<and> 0 \<le> c \<and> okst s1"
  using assms
proof (induction "backlog s" arbitrary: s rule: less_induct)
  case less
  obtain c s1 where x: "xfer pg off ka m s = Inr (c, s1)"
    and n: "if c < 0 then okst (dma_async_issue_pending chan s1) \<and>
         backlog (dma_async_issue_pending chan s1) < backlog s else okst s1"
    using accept [OF less.prems] by blast
  show ?case
  proof (cases "c < 0")
    case True
    then show ?thesis using less.hyps n by (subst submit_piece.simps) (simp add: x)
  next
    case False
    then show ?thesis using n by (subst submit_piece.simps) (simp add: x)
  qed
qed

lemma pieces_return:
  assumes "okst s" and "0 \<le> k" and "\<forall>i \<in> set (map fst ps). i < length pgs"
  shows "\<exists>c s1. run_pieces xfer chan pgs k ps s = Some (Inr (c, s1)) \<and> 0 \<le> c \<and> okst s1"
  using assms
proof (induction ps arbitrary: k s)
  case (Cons p ps)
  obtain i off ka m where p: "p = (i, off, ka, m)" by (cases p) auto
  obtain c s1 where "submit_piece (xfer (pgs ! i) (of_nat off) ka (of_nat m)) chan s = Some (Inr (c, s1))"
    "0 \<le> c" "okst s1"
    using piece_returns [OF Cons.prems(1)] by blast
  then show ?case using Cons by (simp add: p)
qed simp

end

text \<open>
  The driver's side of the bargain, on driver states \<open>ok\<close>: preparing a descriptor either succeeds, and then the
  submission is accepted, or starting the channel shrinks the backlog.
\<close>

definition drains :: "('d \<Rightarrow> bool) \<Rightarrow> ('d \<Rightarrow> nat) \<Rightarrow> 'd dma_device \<Rightarrow> nat \<Rightarrow> bool" where
  "drains ok backlog dev c \<longleftrightarrow> (\<forall>d dest src n fl. ok d \<longrightarrow>
     (case device_prep_dma_memcpy dev c dest src n fl d of
        (None, d1) \<Rightarrow> ok (device_issue_pending dev c d1) \<and> backlog (device_issue_pending dev c d1) < backlog d
      | (Some tx, d1) \<Rightarrow> 0 \<le> fst (tx_submit dev tx d1) \<and> ok (snd (tx_submit dev tx d1))))"

definition ready :: "('d \<Rightarrow> bool) \<Rightarrow> ('d \<Rightarrow> nat) \<Rightarrow> nat \<Rightarrow> 'd engine \<Rightarrow> bool" where
  "ready ok backlog c s \<longleftrightarrow> drains ok backlog (devs s (ch_device (chans s c))) c \<and>
     (\<exists>l. ch_local (chans s c) = Local l) \<and> ok (drv s)"

definition maps_succeed :: "map_env \<Rightarrow> bool" where
  "maps_succeed me \<longleftrightarrow> (\<forall>a n d. map_single me a n d \<noteq> 0) \<and> (\<forall>p off n d. map_page me p off n d \<noteq> 0)"

lemma note_map_drv [simp]: "drv (note_map k a n dir s) = drv s"
  by (simp add: note_map_def)

lemma dma_unmap_drv [simp]: "drv (dma_unmap k a n dir s) = drv s"
  by (simp add: dma_unmap_def)

lemma ready_accept:
  assumes "ready ok backlog c s" and "s1 = s\<lparr>live_maps := x\<rparr>"
  shows "case call_prep c dd ds n fl s1 of
      (None, s2) \<Rightarrow> (\<forall>s3. drv s3 = drv s2 \<longrightarrow> chans s3 = chans s2 \<longrightarrow> devs s3 = devs s2 \<longrightarrow>
         ready ok backlog c (dma_async_issue_pending c s3) \<and>
         backlog (drv (dma_async_issue_pending c s3)) < backlog (drv s))
    | (Some tx, s2) \<Rightarrow> \<exists>k s3. submit_and_count env c tx n s2 = Inr (k, s3) \<and> 0 \<le> k \<and> ready ok backlog c s3"
proof -
  let ?dev = "devs s (ch_device (chans s c))"
  have d: "drains ok backlog ?dev c" "ok (drv s)" and l: "\<exists>l. ch_local (chans s c) = Local l"
    using assms(1) by (auto simp: ready_def)
  note dr = d(1) [unfolded drains_def, rule_format, OF d(2), of dd ds n fl]
  show ?thesis
    using d l dr assms(2)
    by (auto simp: call_prep_def submit_and_count_def call_submit_def count_bytes_def ready_def
        dma_async_issue_pending_def Let_def upd_chan_def split: prod.splits option.splits)
qed

lemma note_maps_only: "\<exists>x. note_map k a n dir (note_map k' a' n' dir' s) = s\<lparr>live_maps := x\<rparr>"
proof -
  have "note_map k b n dir s' = s'\<lparr>live_maps := (if b = 0 then live_maps s' else add_mset (k, b, n, dir) (live_maps s'))\<rparr>"
    for k b n dir and s' :: "'a engine"
    by (simp add: note_map_def)
  then have "note_map k a n dir (note_map k' a' n' dir' s) =
      s\<lparr>live_maps := live_maps (note_map k a n dir (note_map k' a' n' dir' s))\<rparr>"
    by simp
  then show ?thesis ..
qed

lemma to_user_accept:
  assumes "ready ok backlog chan s"
  shows "\<exists>c s1. dma_async_memcpy_buf_to_pg me env chan pg off ka m s = Inr (c, s1) \<and>
    (if c < 0 then ready ok backlog chan (dma_async_issue_pending chan s1) \<and>
       backlog (drv (dma_async_issue_pending chan s1)) < backlog (drv s) else ready ok backlog chan s1)"
proof -
  let ?s = "note_map Map_Page (map_page me pg off m From_Device) m From_Device
    (note_map Map_Single (map_single me ka m To_Device) m To_Device s)"
  obtain x where x: "?s = s\<lparr>live_maps := x\<rparr>" using note_maps_only by blast
  show ?thesis
    using ready_accept [OF assms x, where dd = "map_page me pg off m From_Device" and ds = "map_single me ka m To_Device" and n = m
        and fl = "DMA_CTRL_ACK OR DMA_COMPL_SRC_UNMAP_SINGLE" and env = env]
    by (force simp: dma_async_memcpy_buf_to_pg_def Let_def split: prod.splits option.splits)
qed

lemma from_user_accept:
  assumes "ready ok backlog chan s" and "maps_succeed me"
  shows "\<exists>c s1. dma_async_memcpy_pg_to_buf me env chan pg off ka m s = Inr (c, s1) \<and>
    (if c < 0 then ready ok backlog chan (dma_async_issue_pending chan s1) \<and>
       backlog (drv (dma_async_issue_pending chan s1)) < backlog (drv s) else ready ok backlog chan s1)"
proof -
  let ?s = "note_map Map_Page (map_page me pg off m To_Device) m To_Device
    (note_map Map_Single (map_single me ka m From_Device) m From_Device s)"
  obtain x where x: "?s = s\<lparr>live_maps := x\<rparr>" using note_maps_only by blast
  have nz: "map_page me pg off m To_Device \<noteq> 0" "map_single me ka m From_Device \<noteq> 0"
    using assms(2) by (auto simp: maps_succeed_def)
  show ?thesis
    using ready_accept [OF assms(1) x, where dd = "map_single me ka m From_Device" and ds = "map_page me pg off m To_Device" and n = m
        and fl = "DMA_CTRL_ACK OR DMA_COMPL_DEST_UNMAP_SINGLE" and env = env] nz
    by (force simp: dma_async_memcpy_pg_to_buf_def Let_def split: prod.splits option.splits)
qed

interpretation to_user: polled_transfer "dma_async_memcpy_buf_to_pg me env chan" chan
    "ready ok backlog chan" "\<lambda>s. backlog (drv s)"
  for me env chan ok and backlog :: "'d \<Rightarrow> nat"
  by unfold_locales (rule to_user_accept)

interpretation from_user: polled_transfer "dma_async_memcpy_pg_to_buf me env chan" chan
    "\<lambda>s. ready ok backlog chan s \<and> maps_succeed me" "\<lambda>s. backlog (drv s)"
  for me env chan ok and backlog :: "'d \<Rightarrow> nat"
proof unfold_locales
  fix s :: "'d engine" and pg off ka m
  assume a: "ready ok backlog chan s \<and> maps_succeed me"
  show "\<exists>c s1. dma_async_memcpy_pg_to_buf me env chan pg off ka m s = Inr (c, s1) \<and>
    (if c < 0 then (ready ok backlog chan (dma_async_issue_pending chan s1) \<and> maps_succeed me) \<and>
       backlog (drv (dma_async_issue_pending chan s1)) < backlog (drv s)
     else ready ok backlog chan s1 \<and> maps_succeed me)"
    using from_user_accept [of ok backlog chan s me env pg off ka m] a by metis
qed

subsection \<open>The requests\<close>

definition rq_pieces :: "('a request_copy_scheme) \<Rightarrow> (nat \<times> nat \<times> u64 \<times> nat) list" where
  "rq_pieces r = page_segments 0 (unat (user_base r) mod 4096) (kernel_base r) (unat (rq_len r))"

lemma and_not_page_mask: "a AND NOT PAGE_MASK = of_nat (unat a mod 4096)"
proof -
  have "a AND NOT PAGE_MASK = take_bit 12 a"
    by (simp add: PAGE_MASK_def PAGE_SIZE_def take_bit_eq_mask mask_eq_exp_minus_1)
  also have "\<dots> = of_nat (unat a mod 4096)"
    by (rule word_unat_eq_iff [THEN iffD2]) (simp add: take_bit_eq_mod unat_of_nat unat_mod)
  finally show ?thesis .
qed

lemma page_offset: "(ucast (a AND NOT PAGE_MASK) :: u32) = of_nat (unat (a :: u64) mod 4096)"
  by (simp add: and_not_page_mask ucast_of_nat_u64)

lemma first_piece:
  assumes "off < 4096" and "n < 2 ^ 31"
  shows "min_int (ucast (PAGE_SIZE - scast (of_nat off :: u32))) (ucast (of_nat n :: u64)) =
    of_nat (min (4096 - off) n)"
proof -
  have "PAGE_SIZE - scast (of_nat off :: u32) = of_nat (4096 - off)"
    using assms by (simp add: scast_of_nat_u32 PAGE_SIZE_def of_nat_diff)
  moreover have "4096 - off < 2 ^ 31" by (rule order_le_less_trans [of _ 4096]) auto
  ultimately show ?thesis using min_int_of_nat assms(2) by (simp only: ucast_of_nat_u64)
qed

lemma copy_raw_pieces:
  assumes "pages r = Pages pgs" and "0 < unat (rq_len r)" and "unat (rq_len r) < 2 ^ 31"
  shows "copy_raw we xfer chan r s = (case run_pieces xfer chan pgs 0 (rq_pieces r) s of
      None \<Rightarrow> None | Some (Inl f) \<Rightarrow> Some (Inl f)
    | Some (Inr (cookie, s1)) \<Rightarrow> (case dma_sync_wait we chan cookie s1 of None \<Rightarrow> None
        | Some (st, s2) \<Rightarrow> Some (Inr (0, r\<lparr>dma_cookie_f := cookie, rq_status := st\<rparr>, s2))))"
proof -
  let ?off = "unat (user_base r) mod 4096"
  have len: "rq_len r = of_nat (unat (rq_len r))" by simp
  have "copy_loop xfer chan pgs (of_nat (unat (rq_len r))) (of_nat ?off)
      (of_nat (min (4096 - ?off) (unat (rq_len r)))) 0 (kernel_base r) s =
    run_pieces xfer chan pgs 0 (rq_pieces r) s"
    unfolding rq_pieces_def by (rule copy_loop_runs_pieces [OF assms(2,3)]) simp
  then have "copy_loop xfer chan pgs (rq_len r) (ucast (user_base r AND NOT PAGE_MASK))
      (min_int (ucast (PAGE_SIZE - scast (ucast (user_base r AND NOT PAGE_MASK) :: u32))) (ucast (rq_len r)))
      0 (kernel_base r) s = run_pieces xfer chan pgs 0 (rq_pieces r) s"
    using first_piece [of ?off "unat (rq_len r)"] assms(3) by (simp add: page_offset)
  then show ?thesis by (simp add: copy_raw_def Let_def assms(1))
qed

lemma refused_forever:
  assumes "\<And>s. \<exists>c s1. x s = Inr (c, s1) \<and> c < 0"
  shows "submit_piece x chan s = None"
proof (rule ccontr)
  let ?P = "\<lambda>x' c s z. x' = x \<longrightarrow> False"
  assume "submit_piece x chan s \<noteq> None"
  then obtain z where z: "submit_piece x chan s = Some z" by auto
  have "?P x chan s z"
  proof (rule submit_piece.raw_induct [of ?P "((x, chan), s)" z, unfolded prod.case, OF _ z], intro impI)
    fix sp :: "('a engine \<Rightarrow> (dma_cookie \<times> 'a engine) outcome) \<Rightarrow> nat
      \<Rightarrow> 'a engine \<Rightarrow> (dma_cookie \<times> 'a engine) outcome option" and x' c s y
    assume ih: "\<And>x' c s y. sp x' c s = Some y \<Longrightarrow> x' = x \<longrightarrow> False"
      and st: "(case x' s of Inl f \<Rightarrow> Some (Inl f) | Inr (cookie, s1) \<Rightarrow>
        if cookie < 0 then sp x' c (dma_async_issue_pending c s1) else Some (Inr (cookie, s1))) = Some y"
      and e: "x' = x"
    obtain k s1 where "x s = Inr (k, s1)" "k < 0" using assms by blast
    then show False using ih st e by auto
  qed
  then show False by simp
qed

text \<open>A length whose low 32 bits are zero is cut into empty pieces, one per page, past the array.\<close>

context polled_transfer
begin

lemma empty_pieces_overrun:
  assumes "ucast len = (0 :: u32)" and "len \<noteq> 0" and "okst s"
  shows "copy_loop xfer chan pgs len off 0 i ka s = Some (Inl Out_Of_Bounds)"
  using assms(3)
proof (induction "length pgs - i" arbitrary: i off ka s)
  case 0
  then show ?case by (simp add: copy_loop.simps)
next
  case (Suc n)
  obtain c s1 where s: "submit_piece (xfer (pgs ! i) off ka (scast (0 :: u32))) chan s = Some (Inr (c, s1))" "okst s1"
    using piece_returns [OF Suc.prems] by blast
  have "min_int (ucast PAGE_SIZE) (ucast (len - scast (0 :: u32))) = 0"
    using assms(1) by (simp add: min_int_def PAGE_SIZE_def)
  moreover have "copy_loop xfer chan pgs len 0 0 (i + 1) (ka + scast (0 :: u32)) s1 = Some (Inl Out_Of_Bounds)"
    using Suc.hyps(2) s(2) by (intro Suc.hyps(1)) auto
  moreover have "i < length pgs" using Suc.hyps(2) by simp
  ultimately show ?case using s(1) assms(2) by (simp add: copy_loop_piece after_piece_def)
qed

end

text \<open>
  What a copy that returns has done: all pieces of the request were submitted, in order, by
  \<open>xfer\<close> from state \<open>s\<close>, the last one under cookie \<open>k\<close>, and the wait for it ended with status \<open>st\<close>.
\<close>

definition transferred :: "'d wait_env \<Rightarrow> 'd xfer \<Rightarrow> nat \<Rightarrow> nat list \<Rightarrow> 'a request_copy_scheme \<Rightarrow> 'd engine
    \<Rightarrow> dma_cookie \<Rightarrow> dma_status \<Rightarrow> 'd engine \<Rightarrow> bool" where
  "transferred we xfer chan pgs r s k st s' \<longleftrightarrow> (\<exists>s1. run_pieces xfer chan pgs 0 (rq_pieces r) s = Some (Inr (k, s1)) \<and>
     dma_sync_wait we chan k s1 = Some (st, s'))"

lemma transferred_raw:
  assumes "transferred we xfer chan pgs r s k st s'" and "pages r = Pages pgs"
    and "0 < unat (rq_len r)" and "unat (rq_len r) < 2 ^ 31"
  shows "copy_raw we xfer chan r s = Some (Inr (0, r\<lparr>dma_cookie_f := k, rq_status := st\<rparr>, s'))"
  using assms(1) by (auto simp: transferred_def copy_raw_pieces [OF assms(2-4)])

lemma copy_raw_transfers:
  assumes "0 < unat (rq_len r)"
    and "(unat (user_base r) mod 4096 + unat (rq_len r) + 4095) div 4096 \<le> length pgs"
    and "expired we t" and "polled_transfer xfer chan okst backlog" and "okst s"
  shows "\<exists>k st s'. transferred we xfer chan pgs r s k st s' \<and> 0 \<le> k \<and> st \<noteq> DMA_IN_PROGRESS"
proof -
  have "map fst (rq_pieces r) = [0 ..< 0 + (unat (user_base r) mod 4096 + unat (rq_len r) + 4095) div 4096]"
    unfolding rq_pieces_def by (rule page_segments_indices) (use assms(1) in auto)
  then have "\<forall>i \<in> set (map fst (rq_pieces r)). i < length pgs"
    using assms(2) by simp
  then obtain k s1 where k: "run_pieces xfer chan pgs 0 (rq_pieces r) s = Some (Inr (k, s1))" "0 \<le> k"
    using polled_transfer.pieces_return [OF assms(4,5), of 0 "rq_pieces r" pgs] by auto
  moreover obtain st s2 where "dma_sync_wait we chan k s1 = Some (st, s2)" "st \<noteq> DMA_IN_PROGRESS"
    using sync_wait_returns [of we 0 t chan k "dma_async_issue_pending chan s1"] assms(3)
    by (auto simp: dma_sync_wait_def)
  ultimately show ?thesis unfolding transferred_def by blast
qed

lemma copy_raw_returns:
  assumes "pages r = Pages pgs" and "0 < unat (rq_len r)" and "unat (rq_len r) < 2 ^ 31"
    and "(unat (user_base r) mod 4096 + unat (rq_len r) + 4095) div 4096 \<le> length pgs"
    and "expired we t" and "polled_transfer xfer chan okst backlog" and "okst s"
  shows "\<exists>k st s'. copy_raw we xfer chan r s =
    Some (Inr (0, r\<lparr>dma_cookie_f := k, rq_status := st\<rparr>, s')) \<and> 0 \<le> k \<and> st \<noteq> DMA_IN_PROGRESS"
  using copy_raw_transfers [OF assms(2,4-7)] transferred_raw [OF _ assms(1-3)] by blast

subsection \<open>Properties\<close>

text \<open>
  C10. A request of fewer than 2 GiB, copied in either direction, is submitted as pieces that lie
  each inside one page and that, taken together and in order, name every byte of the request
  exactly once: byte \<open>t\<close> at the user offset of the request plus \<open>t\<close> in the pinned pages and at kernel
  address \<open>kernel_base + t\<close>. The routine returns zero bytes left, the last cookie and its status.
\<close>

theorem copy_names_every_byte_once:
  assumes "rq_chan r = Some chan" and "pages r = Pages pgs"
    and "0 < unat (rq_len r)" and "unat (rq_len r) < 2 ^ 31"
  shows "concat (map piece_bytes (rq_pieces r)) =
      map (\<lambda>t. (unat (user_base r) mod 4096 + t, kernel_base r + of_nat t)) [0 ..< unat (rq_len r)] \<and>
    list_all in_page (rq_pieces r) \<and>
    dma_copy_from_user_raw me env we r s =
      (case run_pieces (dma_async_memcpy_pg_to_buf me env chan) chan pgs 0 (rq_pieces r) s of
         None \<Rightarrow> None | Some (Inl f) \<Rightarrow> Some (Inl f)
       | Some (Inr (cookie, s1)) \<Rightarrow> (case dma_sync_wait we chan cookie s1 of None \<Rightarrow> None
           | Some (st, s2) \<Rightarrow> Some (Inr (0, r\<lparr>dma_cookie_f := cookie, rq_status := st\<rparr>, s2)))) \<and>
    dma_copy_to_user_raw me env we r s =
      (case run_pieces (dma_async_memcpy_buf_to_pg me env chan) chan pgs 0 (rq_pieces r) s of
         None \<Rightarrow> None | Some (Inl f) \<Rightarrow> Some (Inl f)
       | Some (Inr (cookie, s1)) \<Rightarrow> (case dma_sync_wait we chan cookie s1 of None \<Rightarrow> None
           | Some (st, s2) \<Rightarrow> Some (Inr (0, r\<lparr>dma_cookie_f := cookie, rq_status := st\<rparr>, s2))))"
proof (intro conjI)
  show "concat (map piece_bytes (rq_pieces r)) =
      map (\<lambda>t. (unat (user_base r) mod 4096 + t, kernel_base r + of_nat t)) [0 ..< unat (rq_len r)]"
    unfolding rq_pieces_def by (subst page_segments_bytes) simp_all
  show "list_all in_page (rq_pieces r)"
    unfolding rq_pieces_def by (rule page_segments_in_page) simp
qed (simp_all only: dma_copy_from_user_raw_def dma_copy_to_user_raw_def assms(1) option.case
      copy_raw_pieces [OF assms(2-4)])

definition demo_request :: request_copy where
  "demo_request = (init_req_copy 8000 100000 5000)\<lparr>rq_chan := Some 4, pages := Pages [21, 22, 23], nr_pages := 3\<rparr>"

theorem copy_names_every_byte_once_witness:
  "rq_pieces demo_request = [(0, 3904, 100000, 192), (1, 0, 100192, 4096), (2, 0, 104288, 712)] \<and>
   length (concat (map piece_bytes (rq_pieces demo_request))) = 5000"
proof
  show "rq_pieces demo_request = [(0, 3904, 100000, 192), (1, 0, 100192, 4096), (2, 0, 104288, 712)]"
    by (simp add: rq_pieces_def demo_request_def init_req_copy_def page_segments.simps)
  have "concat (map piece_bytes (rq_pieces demo_request)) =
      map (\<lambda>t. (unat (user_base demo_request) mod 4096 + t, kernel_base demo_request + of_nat t))
        [0 ..< unat (rq_len demo_request)]"
    by (rule copy_names_every_byte_once [of demo_request 4 "[21, 22, 23]", THEN conjunct1])
       (simp_all add: demo_request_def init_req_copy_def)
  then show "length (concat (map piece_bytes (rq_pieces demo_request))) = 5000"
    by (simp add: demo_request_def init_req_copy_def)
qed

text \<open>
  C12. A copy ends: when enough pages are pinned, the time-out of the final wait passes, the driver
  accepts or drains, and (copying from user space) mappings succeed, each raw routine returns zero
  with a cookie that is not an error and a final status.
\<close>

theorem copy_returns:
  assumes "rq_chan r = Some chan" and "pages r = Pages pgs"
    and "0 < unat (rq_len r)" and "unat (rq_len r) < 2 ^ 31"
    and "(unat (user_base r) mod 4096 + unat (rq_len r) + 4095) div 4096 \<le> length pgs"
    and "expired we t" and "ready ok backlog chan s" and "maps_succeed me"
  shows "(\<exists>k st s'. dma_copy_from_user_raw me env we r s =
      Some (Inr (0, r\<lparr>dma_cookie_f := k, rq_status := st\<rparr>, s')) \<and> 0 \<le> k \<and> st \<noteq> DMA_IN_PROGRESS) \<and>
    (\<exists>k st s'. dma_copy_to_user_raw me env we r s =
      Some (Inr (0, r\<lparr>dma_cookie_f := k, rq_status := st\<rparr>, s')) \<and> 0 \<le> k \<and> st \<noteq> DMA_IN_PROGRESS)"
  using copy_raw_returns [OF assms(2-6) from_user.polled_transfer_axioms [of me env chan ok backlog]]
    copy_raw_returns [OF assms(2-6) to_user.polled_transfer_axioms [of me env chan ok backlog] assms(7)]
    assms(7,8)
  by (simp add: dma_copy_from_user_raw_def dma_copy_to_user_raw_def assms(1))

theorem copy_returns_witness:
  "\<exists>k st s'. dma_copy_to_user_raw \<lparr>map_single = (\<lambda>_ _ _. 1), map_page = (\<lambda>_ _ _ _. 1)\<rparr> demo_env
     \<lparr>expired = (\<lambda>i. 3 \<le> i), hw = (\<lambda>_ d. d)\<rparr> demo_request (demo_engine 1) =
     Some (Inr (0, demo_request\<lparr>dma_cookie_f := k, rq_status := st\<rparr>, s')) \<and> 0 \<le> k \<and> st \<noteq> DMA_IN_PROGRESS"
proof -
  have "ready (\<lambda>_. True) (\<lambda>_. 0) 4 (demo_engine 1)"
    by (simp add: ready_def drains_def) (simp add: demo_device_def demo_chan_def)
  then show ?thesis
    by (intro copy_returns [of demo_request 4 "[21, 22, 23]" _ 3, THEN conjunct2])
       (simp_all add: demo_request_def init_req_copy_def maps_succeed_def)
qed

text \<open>
  C16. When the kernel buffer cannot be mapped, the routine that copies from user space never
  returns: the error of the failed mapping is a negative cookie, which the loop takes for a full
  descriptor ring and retries.
\<close>

theorem failed_mapping_never_returns:
  assumes "rq_chan r = Some chan" and "pages r = Pages (p # ps)"
    and "\<forall>n. map_single me (kernel_base r) n From_Device = 0"
  shows "dma_copy_from_user_raw me env we r s = None"
proof -
  have "submit_piece (dma_async_memcpy_pg_to_buf me env chan p off (kernel_base r) m) chan s = None" for off m
    by (rule refused_forever) (use assms(3) in \<open>simp add: dma_async_memcpy_pg_to_buf_def\<close>)
  then have "copy_loop (dma_async_memcpy_pg_to_buf me env chan) chan (p # ps) len off cp 0 (kernel_base r) s = None"
    for len off cp
    by (simp add: copy_loop_piece)
  then show ?thesis by (simp add: dma_copy_from_user_raw_def copy_raw_def assms(1,2) Let_def)
qed

theorem failed_mapping_never_returns_witness:
  "dma_copy_from_user_raw \<lparr>map_single = (\<lambda>_ _ _. 0), map_page = (\<lambda>_ _ _ _. 1)\<rparr> demo_env
     \<lparr>expired = (\<lambda>i. 3 \<le> i), hw = (\<lambda>_ d. d)\<rparr> demo_request (demo_engine 1) = None"
  by (rule failed_mapping_never_returns [of _ 4 21 "[22, 23]"])
     (simp_all add: demo_request_def init_req_copy_def)

text \<open>
  The piece size is computed with \<^verbatim>\<open>min_t(int, ...)\<close>: a request whose length is a multiple of
  4 GiB is cut into empty pieces, and the loop walks past the end of the page array.
\<close>

theorem huge_request_overruns_pages:
  assumes "rq_chan r = Some chan" and "pages r = Pages pgs"
    and "ucast (rq_len r) = (0 :: u32)" and "rq_len r \<noteq> 0"
    and "ready ok backlog chan s" and "maps_succeed me"
  shows "dma_copy_from_user_raw me env we r s = Some (Inl Out_Of_Bounds) \<and>
    dma_copy_to_user_raw me env we r s = Some (Inl Out_Of_Bounds)"
proof -
  let ?off = "unat (user_base r) mod 4096"
  have "min_int (ucast (PAGE_SIZE - scast (of_nat ?off :: u32))) 0 = 0"
    using first_piece [of ?off 0] by simp
  then show ?thesis
    using from_user.empty_pieces_overrun [OF assms(3,4), of ok backlog chan s me env]
      to_user.empty_pieces_overrun [OF assms(3,4,5), of me env] assms
    by (simp add: dma_copy_from_user_raw_def dma_copy_to_user_raw_def copy_raw_def Let_def page_offset)
qed

theorem huge_request_overruns_pages_witness:
  "dma_copy_to_user_raw \<lparr>map_single = (\<lambda>_ _ _. 1), map_page = (\<lambda>_ _ _ _. 1)\<rparr> demo_env
     \<lparr>expired = (\<lambda>i. 3 \<le> i), hw = (\<lambda>_ d. d)\<rparr> (demo_request\<lparr>rq_len := 2 ^ 32\<rparr>) (demo_engine 1) =
   Some (Inl Out_Of_Bounds)"
proof -
  have "ready (\<lambda>_. True) (\<lambda>_. 0) 4 (demo_engine 1)"
    by (simp add: ready_def drains_def) (simp add: demo_device_def demo_chan_def)
  then show ?thesis
    by (intro huge_request_overruns_pages [of _ 4 "[21, 22, 23]", THEN conjunct2])
       (simp_all add: demo_request_def init_req_copy_def maps_succeed_def)
qed

end
