(* ===== verification/Copy_Policy.thy ===== *)
theory Copy_Policy
  imports Copy_Loop
begin

text \<open>
  The user-memory side of \<^verbatim>\<open>dma_policy_ex_sh.c\<close>: pinning and releasing the pages of a request and
  the copy routines of the shared, exclusive and boot-time policies. The state adds to the engine
  the reference counts and dirty marks of pages. What the memory management returns is a
  parameter: the contents of freshly allocated memory, the address checks and the pages that
  \<^verbatim>\<open>get_user_pages\<close> finds. A page is a number, zero the null pointer.
\<close>

record 'd kstate =
  eng :: "'d engine"
  page_refs :: "nat \<Rightarrow> int"
  dirty_pages :: "nat set"

text \<open>
  \<open>kmalloc_pages n\<close>: the uninitialised entries of an allocation of \<open>n\<close> bytes. \<open>user_pages\<close>: the
  pages found from an address on, or an error.
\<close>

record pin_env =
  kernel_ds :: bool
  kmalloc_pages :: "u64 \<Rightarrow> nat list option"
  access_ok_write :: "u64 \<Rightarrow> u64 \<Rightarrow> bool"
  access_ok_read :: "u64 \<Rightarrow> u64 \<Rightarrow> bool"
  user_pages :: "u64 \<Rightarrow> u32 \<Rightarrow> bool \<Rightarrow> bool \<Rightarrow> errno + nat list"

definition get_page :: "nat \<Rightarrow> 'd kstate \<Rightarrow> 'd kstate" where
  "get_page p ks = ks\<lparr>page_refs := (page_refs ks)(p := page_refs ks p + 1)\<rparr>"

definition page_cache_release :: "nat \<Rightarrow> 'd kstate \<Rightarrow> 'd kstate" where
  "page_cache_release p ks = ks\<lparr>page_refs := (page_refs ks)(p := page_refs ks p - 1)\<rparr>"

definition set_page_dirty_lock :: "nat \<Rightarrow> 'd kstate \<Rightarrow> 'd kstate" where
  "set_page_dirty_lock p ks = ks\<lparr>dirty_pages := insert p (dirty_pages ks)\<rparr>"

text \<open>
  \<^verbatim>\<open>get_user_pages\<close> stores the pages it found, each with a reference, at the front of the array
  and returns their number, or a negative error code.
\<close>

definition get_user_pages :: "pin_env \<Rightarrow> u64 \<Rightarrow> u32 \<Rightarrow> bool \<Rightarrow> bool \<Rightarrow> nat list \<Rightarrow> 'd kstate
    \<Rightarrow> int \<times> nat list \<times> 'd kstate" where
  "get_user_pages pe a n wr fo arr ks = (case user_pages pe a n wr fo of
       Inl e \<Rightarrow> (- errno_code e, arr, ks)
     | Inr ps \<Rightarrow> (int (length ps), ps @ drop (length ps) arr, fold get_page ps ks))"

fun unpin_list :: "bool \<Rightarrow> nat \<Rightarrow> nat list \<Rightarrow> 'd kstate \<Rightarrow> 'd kstate outcome" where
  "unpin_list dirty 0 ps ks = Inr ks"
| "unpin_list dirty (Suc n) [] ks = Inl Out_Of_Bounds"
| "unpin_list dirty (Suc n) (p # ps) ks =
     (if p = 0 then Inr ks
      else unpin_list dirty n ps (page_cache_release p (if dirty then set_page_dirty_lock p ks else ks)))"

definition dma_unpin_user_pages :: "('a request_copy_scheme) \<Rightarrow> bool \<Rightarrow> 'd kstate
    \<Rightarrow> ('a request_copy_scheme \<times> 'd kstate) outcome" where
  "dma_unpin_user_pages r dirty ks = (case pages r of No_Pages \<Rightarrow> Inr (r, ks)
     | Freed_Pages \<Rightarrow> Inl Use_After_Free
     | Pages ps \<Rightarrow> seq_ok (unpin_list dirty (nat (sint (nr_pages r))) ps ks)
         (\<lambda>ks1. Inr (r\<lparr>pages := Freed_Pages\<rparr>, ks1)))"

definition pages_needed :: "u64 \<Rightarrow> u64 \<Rightarrow> u32" where
  "pages_needed base n = ucast (drop_bit 12 (PAGE_ALIGN (base + n) - (base AND PAGE_MASK)))"

definition pin_fail :: "('a request_copy_scheme) \<Rightarrow> 'd kstate
    \<Rightarrow> (int \<times> 'a request_copy_scheme \<times> 'd kstate) outcome" where
  "pin_fail r ks = seq_ok (dma_unpin_user_pages r SET_DIRTY_OFF ks) (\<lambda>(r1, ks1). Inr (PIN_FAILED, r1, ks1))"

definition pin_pages :: "pin_env \<Rightarrow> ('a request_copy_scheme) \<Rightarrow> bool \<Rightarrow> bool \<Rightarrow> nat list \<Rightarrow> 'd kstate
    \<Rightarrow> (int \<times> 'a request_copy_scheme \<times> 'd kstate) outcome" where
  "pin_pages pe r wr fo arr ks =
     (case get_user_pages pe (user_base r) (nr_pages r) wr fo arr ks of (ret, arr1, ks1) \<Rightarrow>
        let r1 = r\<lparr>pages := Pages arr1\<rparr> in
        if ret \<noteq> sint (nr_pages r1) then pin_fail r1 ks1 else Inr (PIN_SUCCESSFUL, r1, ks1))"

definition dma_pin_user_pages :: "pin_env \<Rightarrow> request_copy \<Rightarrow> bool \<Rightarrow> bool \<Rightarrow> 'd kstate
    \<Rightarrow> (int \<times> request_copy \<times> 'd kstate) outcome" where
  "dma_pin_user_pages pe r wr fo ks =
     (if kernel_ds pe then Inr (PIN_NO_USER, r, ks)
      else let r1 = r\<lparr>nr_pages := pages_needed (user_base r) (rq_len r)\<rparr> in
      case kmalloc_pages pe (8 * scast (nr_pages r1)) of
        None \<Rightarrow> Inr (PIN_FAILED, r1\<lparr>pages := No_Pages\<rparr>, ks)
      | Some arr \<Rightarrow>
          let r2 = r1\<lparr>pages := Pages arr\<rparr> in
          if \<not> access_ok_write pe (user_base r2) (rq_len r2) \<and> wr then pin_fail r2 ks
          else if \<not> access_ok_read pe (user_base r2) (rq_len r2) \<and> \<not> wr then pin_fail r2 ks
          else pin_pages pe r2 wr fo arr ks)"

subsection \<open>Copies on pages pinned by the caller\<close>

definition dma_copy_from_user_sh :: "map_env \<Rightarrow> kenv \<Rightarrow> 'd wait_env \<Rightarrow> request_copy \<Rightarrow> 'd engine
    \<Rightarrow> (int \<times> request_copy \<times> 'd engine) outcome option" where
  "dma_copy_from_user_sh me env we r s =
     (if 0 < rq_len r then
        let r1 = r\<lparr>rq_chan := copy_dma_get_channel_sh env s\<rparr> in
        if rq_chan r1 = None then Some (Inr (- errno_code EBUSY, r1, s))
        else dma_copy_from_user_raw me env we r1 s
      else Some (Inr (0, r, s)))"

definition dma_copy_from_user_excl :: "map_env \<Rightarrow> kenv \<Rightarrow> 'd wait_env \<Rightarrow> request_copy \<Rightarrow> 'd engine
    \<Rightarrow> (int \<times> request_copy \<times> 'd engine) outcome option" where
  "dma_copy_from_user_excl me env we r s =
     (if 0 < rq_len r then
        let r1 = r\<lparr>rq_chan := copy_dma_get_channel_excl env s\<rparr> in
        if rq_chan r1 = None then Some (Inr (- errno_code EBUSY, r1, s))
        else dma_copy_from_user_raw me env we r1 s
      else Some (Inr (0, r, s)))"

definition dma_copy_to_user_sh :: "map_env \<Rightarrow> kenv \<Rightarrow> 'd wait_env \<Rightarrow> request_copy \<Rightarrow> 'd engine
    \<Rightarrow> (int \<times> request_copy \<times> 'd engine) outcome option" where
  "dma_copy_to_user_sh me env we r s =
     (if 0 < rq_len r then
        let r1 = r\<lparr>rq_chan := copy_dma_get_channel_sh env s\<rparr> in
        if rq_chan r1 = None then Some (Inr (- errno_code EBUSY, r1, s))
        else dma_copy_to_user_raw me env we r1 s
      else Some (Inr (0, r, s)))"

definition dma_copy_to_user_excl :: "map_env \<Rightarrow> kenv \<Rightarrow> 'd wait_env \<Rightarrow> request_copy \<Rightarrow> 'd engine
    \<Rightarrow> (int \<times> request_copy \<times> 'd engine) outcome option" where
  "dma_copy_to_user_excl me env we r s =
     (if 0 < rq_len r then
        let r1 = r\<lparr>rq_chan := copy_dma_get_channel_excl env s\<rparr> in
        if rq_chan r1 = None then Some (Inr (- errno_code EBUSY, r1, s))
        else dma_copy_to_user_raw me env we r1 s
      else Some (Inr (0, r, s)))"

subsection \<open>Copies inside the kernel\<close>

text \<open>
  Both routines poll for a descriptor and wait; they differ in the direction. The poll is the one
  of the page-wise loop on a single piece.
\<close>

definition kernel_copy :: "'d wait_env \<Rightarrow> (nat \<Rightarrow> 'd engine \<Rightarrow> (dma_cookie \<times> 'd engine) outcome) \<Rightarrow> request_copy
    \<Rightarrow> 'd engine \<Rightarrow> (int \<times> request_copy \<times> 'd engine) outcome option" where
  "kernel_copy we xf r s = (case rq_chan r of None \<Rightarrow> Some (Inl Null_Deref)
     | Some chan \<Rightarrow> (case submit_piece (xf chan) chan s of None \<Rightarrow> None
         | Some (Inl f) \<Rightarrow> Some (Inl f)
         | Some (Inr (cookie, s1)) \<Rightarrow> (case dma_sync_wait we chan cookie s1 of None \<Rightarrow> None
             | Some (st, s2) \<Rightarrow> Some (Inr (0, r\<lparr>dma_cookie_f := cookie, rq_status := st\<rparr>, s2)))))"

definition dma_copy_from_kernel :: "map_env \<Rightarrow> kenv \<Rightarrow> 'd wait_env \<Rightarrow> request_copy \<Rightarrow> 'd engine
    \<Rightarrow> (int \<times> request_copy \<times> 'd engine) outcome option" where
  "dma_copy_from_kernel me env we r s =
     kernel_copy we (\<lambda>chan. dma_async_memcpy_buf_to_buf me env chan (kernel_base r) (user_base r) (rq_len r)) r s"

definition dma_copy_to_kernel :: "map_env \<Rightarrow> kenv \<Rightarrow> 'd wait_env \<Rightarrow> request_copy \<Rightarrow> 'd engine
    \<Rightarrow> (int \<times> request_copy \<times> 'd engine) outcome option" where
  "dma_copy_to_kernel me env we r s =
     kernel_copy we (\<lambda>chan. dma_async_memcpy_buf_to_buf me env chan (user_base r) (kernel_base r) (rq_len r)) r s"

subsection \<open>The boot-time policy\<close>

text \<open>An engine computation inside the larger state.\<close>

definition on_engine :: "('d engine \<Rightarrow> ('r \<times> 'q \<times> 'd engine) outcome option) \<Rightarrow> 'd kstate
    \<Rightarrow> ('r \<times> 'q \<times> 'd kstate) outcome option" where
  "on_engine f ks = (case f (eng ks) of None \<Rightarrow> None | Some (Inl e) \<Rightarrow> Some (Inl e)
     | Some (Inr (x, q, s)) \<Rightarrow> Some (Inr (x, q, ks\<lparr>eng := s\<rparr>)))"

definition unpin_after :: "bool \<Rightarrow> (int \<times> request_copy \<times> 'd kstate) outcome option
    \<Rightarrow> (int \<times> request_copy \<times> 'd kstate) outcome option" where
  "unpin_after dirty res = (case res of None \<Rightarrow> None | Some (Inl e) \<Rightarrow> Some (Inl e)
     | Some (Inr (ret, r, ks)) \<Rightarrow>
         Some (seq_ok (dma_unpin_user_pages r dirty ks) (\<lambda>(r1, ks1). Inr (ret, r1, ks1))))"

definition dma_copy_to_user :: "boot_policy \<Rightarrow> map_env \<Rightarrow> kenv \<Rightarrow> 'd wait_env \<Rightarrow> pin_env \<Rightarrow> request_copy
    \<Rightarrow> 'd kstate \<Rightarrow> (int \<times> request_copy \<times> 'd kstate) outcome option" where
  "dma_copy_to_user cfg me env we pe r ks =
     (if 0 < rq_len r then
        let r1 = r\<lparr>rq_chan := copy_dma_get_channel_boot cfg env (eng ks)\<rparr> in
        if rq_chan r1 = None then Some (Inr (- errno_code EBUSY, r1, ks))
        else case dma_pin_user_pages pe r1 PIN_WRITE False ks of
          Inl f \<Rightarrow> Some (Inl f)
        | Inr (ret, r2, ks1) \<Rightarrow>
            if ret = PIN_FAILED then Some (Inr (sint (ucast (rq_len r2) :: u32), r2, ks1))
            else if ret = PIN_NO_USER then on_engine (dma_copy_to_kernel me env we r2) ks1
            else unpin_after SET_DIRTY_ON (on_engine (dma_copy_to_user_raw me env we r2) ks1)
      else Some (Inr (0, r, ks)))"

definition dma_copy_from_user :: "boot_policy \<Rightarrow> map_env \<Rightarrow> kenv \<Rightarrow> 'd wait_env \<Rightarrow> pin_env \<Rightarrow> request_copy
    \<Rightarrow> 'd kstate \<Rightarrow> (int \<times> request_copy \<times> 'd kstate) outcome option" where
  "dma_copy_from_user cfg me env we pe r ks =
     (if 0 < rq_len r then
        let r1 = r\<lparr>rq_chan := copy_dma_get_channel_boot cfg env (eng ks)\<rparr> in
        if rq_chan r1 = None then Some (Inr (- errno_code EBUSY, r1, ks))
        else case dma_pin_user_pages pe r1 PIN_READ False ks of
          Inl f \<Rightarrow> Some (Inl f)
        | Inr (ret, r2, ks1) \<Rightarrow>
            if ret = PIN_FAILED then Some (Inr (sint (ucast (rq_len r2) :: u32), r2, ks1))
            else if ret = PIN_NO_USER then on_engine (dma_copy_from_kernel me env we r2) ks1
            else unpin_after SET_DIRTY_OFF (on_engine (dma_copy_from_user_raw me env we r2) ks1)
      else Some (Inr (0, r, ks)))"

subsection \<open>How many pages a request needs\<close>

lemma and_page_mask: "unat (a AND PAGE_MASK) = unat a div 4096 * 4096"
proof -
  have "(a AND PAGE_MASK) AND (a AND NOT PAGE_MASK) = 0"
    by (rule bit_eqI) (simp add: bit_simps)
  then have "(a AND PAGE_MASK) + (a AND NOT PAGE_MASK) = (a AND PAGE_MASK) OR (a AND NOT PAGE_MASK)"
    by (rule disjunctive_add_eq_or)
  also have "\<dots> = a" by (simp flip: bit.conj_disj_distrib)
  finally have "a AND PAGE_MASK = a - of_nat (unat a mod 4096)"
    unfolding and_not_page_mask by (simp only: eq_diff_eq)
  then have "unat (a AND PAGE_MASK) = unat (a - of_nat (unat a mod 4096))" by simp
  also have "\<dots> = unat a - unat a mod 4096"
    by (subst unat_diff_small) (auto simp: unat_of_nat)
  finally show ?thesis by (simp add: minus_mod_eq_div_mult)
qed

lemma unat_pages_needed:
  assumes "unat base + unat n + 4095 < 2 ^ 64" and "unat n < 2 ^ 31"
  shows "unat (pages_needed base n) = (unat base mod 4096 + unat n + 4095) div 4096"
proof -
  let ?b = "unat base" and ?n = "unat n"
  have "unat (base + n) = ?b + ?n" using assms(1) by (intro unat_add_small) simp
  then have "unat (base + n + (PAGE_SIZE - 1)) = ?b + ?n + 4095"
    using assms(1) by (subst unat_add_small) (simp_all add: PAGE_SIZE_def)
  then have al: "unat (PAGE_ALIGN (base + n)) = (?b + ?n + 4095) div 4096 * 4096"
    by (simp add: PAGE_ALIGN_def and_page_mask)
  have "(?b + ?n + 4095) div 4096 = ?b div 4096 + (?b mod 4096 + ?n + 4095) div 4096"
  proof -
    have "?b + ?n + 4095 = (?b mod 4096 + ?n + 4095) + ?b div 4096 * 4096"
      using div_mult_mod_eq [of ?b 4096] by linarith
    then show ?thesis by (simp only: div_mult_self1 [OF zero_neq_numeral [symmetric]])
  qed
  then have "unat (PAGE_ALIGN (base + n) - (base AND PAGE_MASK)) = (?b mod 4096 + ?n + 4095) div 4096 * 4096"
    by (subst unat_diff_small) (simp_all add: al and_page_mask)
  then have "unat (drop_bit 12 (PAGE_ALIGN (base + n) - (base AND PAGE_MASK))) = (?b mod 4096 + ?n + 4095) div 4096"
    by (simp add: drop_bit_eq_div unat_div)
  moreover have "(?b mod 4096 + ?n + 4095) div 4096 < 2 ^ 32" using assms(2) by simp
  ultimately show ?thesis
    by (simp add: pages_needed_def unsigned_ucast_eq take_bit_nat_eq_self)
qed

subsection \<open>Pinning and releasing\<close>

definition refs_plus :: "nat list \<Rightarrow> (nat \<Rightarrow> int) \<Rightarrow> nat \<Rightarrow> int" where
  "refs_plus ps f q = f q + int (count_list ps q)"

lemma fold_get_page:
  "fold get_page ps ks = ks\<lparr>page_refs := refs_plus ps (page_refs ks)\<rparr>"
proof (induction ps arbitrary: ks)
  case Nil
  then show ?case by (simp add: refs_plus_def)
next
  case (Cons p ps)
  then show ?case by (simp add: get_page_def refs_plus_def fun_eq_iff)
qed

lemma unpin_list_all:
  assumes "0 \<notin> set ps"
  shows "unpin_list dirty (length ps) ps ks =
    Inr (ks\<lparr>page_refs := \<lambda>q. page_refs ks q - int (count_list ps q),
      dirty_pages := (if dirty then dirty_pages ks \<union> set ps else dirty_pages ks)\<rparr>)"
  using assms
proof (induction ps arbitrary: ks)
  case (Cons p ps)
  then show ?case
    by (auto simp: page_cache_release_def set_page_dirty_lock_def fun_eq_iff)
qed simp

text \<open>What the memory management promises: whole arrays, real pages, no more than asked for.\<close>

definition sane_pin_env :: "pin_env \<Rightarrow> bool" where
  "sane_pin_env pe \<longleftrightarrow> (\<forall>n arr. kmalloc_pages pe n = Some arr \<longrightarrow> length arr = unat n div 8) \<and>
     (\<forall>a n wr fo ps. user_pages pe a n wr fo = Inr ps \<longrightarrow> 0 \<notin> set ps \<and> int (length ps) \<le> sint n)"

definition moderate :: "('a request_copy_scheme) \<Rightarrow> bool" where
  "moderate r \<longleftrightarrow> unat (user_base r) + unat (rq_len r) + 4095 < 2 ^ 64 \<and> unat (rq_len r) < 2 ^ 31"

definition rq_page_count :: "('a request_copy_scheme) \<Rightarrow> nat" where
  "rq_page_count r = (unat (user_base r) mod 4096 + unat (rq_len r) + 4095) div 4096"

lemma unat_of_nat_lt64: "n < 2 ^ 64 \<Longrightarrow> unat (of_nat n :: u64) = n"
  by (simp add: unat_of_nat)

lemma rq_page_count_less:
  assumes "moderate r"
  shows "rq_page_count r < 2 ^ 31"
proof -
  have "unat (user_base r) mod 4096 + unat (rq_len r) + 4095 < 2 ^ 31 * 4096"
  proof -
    have "unat (user_base r) mod 4096 < 4096" by simp
    moreover have "unat (rq_len r) < 2 ^ 31" using assms by (simp add: moderate_def)
    ultimately show ?thesis by simp
  qed
  then show ?thesis unfolding rq_page_count_def by (rule less_mult_imp_div_less)
qed

lemma moderate_pages:
  assumes "moderate r"
  shows "unat (pages_needed (user_base r) (rq_len r)) = rq_page_count r"
    and "sint (pages_needed (user_base r) (rq_len r)) = int (rq_page_count r)"
proof -
  show u: "unat (pages_needed (user_base r) (rq_len r)) = rq_page_count r"
    using assms unat_pages_needed by (simp add: moderate_def rq_page_count_def)
  show "sint (pages_needed (user_base r) (rq_len r)) = int (rq_page_count r)"
    using sint_unat_small [of "pages_needed (user_base r) (rq_len r)"] u
      rq_page_count_less [OF assms] by simp
qed

lemma pin_fail_result:
  "pin_fail r ks = Inr (ret, r', ks') \<Longrightarrow> ret = PIN_FAILED"
  by (auto simp: pin_fail_def seq_ok_eq_Inr_iff split: prod.splits)

lemma pin_codes [simp]:
  "PIN_FAILED \<noteq> PIN_SUCCESSFUL" "PIN_NO_USER \<noteq> PIN_SUCCESSFUL" "PIN_SUCCESSFUL \<noteq> PIN_FAILED"
  "PIN_SUCCESSFUL \<noteq> PIN_NO_USER" "PIN_NO_USER \<noteq> PIN_FAILED" "PIN_FAILED \<noteq> PIN_NO_USER"
  by (simp_all add: pin_defs)

lemma pin_fail_not_ok [simp]: "pin_fail r ks \<noteq> Inr (PIN_SUCCESSFUL, r', ks')"
  using pin_fail_result [of r ks PIN_SUCCESSFUL r' ks'] by auto

lemma pin_success:
  assumes "dma_pin_user_pages pe r wr fo ks = Inr (PIN_SUCCESSFUL, r', ks')"
    and "sane_pin_env pe" and "moderate r"
  shows "\<exists>ps. user_pages pe (user_base r) (nr_pages r') wr fo = Inr ps \<and> 0 \<notin> set ps \<and>
    length ps = rq_page_count r \<and> sint (nr_pages r') = int (length ps) \<and>
    r' = r\<lparr>nr_pages := nr_pages r', pages := Pages ps\<rparr> \<and>
    ks' = ks\<lparr>page_refs := refs_plus ps (page_refs ks)\<rparr>"
proof -
  let ?n = "pages_needed (user_base r) (rq_len r)"
  obtain arr where arr: "kmalloc_pages pe (8 * scast ?n) = Some arr"
    and pp: "pin_pages pe (r\<lparr>nr_pages := ?n, pages := Pages arr\<rparr>) wr fo arr ks = Inr (PIN_SUCCESSFUL, r', ks')"
    using assms(1) by (auto simp: dma_pin_user_pages_def Let_def split: if_splits option.splits)
  have n: "sint ?n = int (rq_page_count r)" by (rule moderate_pages [OF assms(3)])
  note lt = rq_page_count_less [OF assms(3)]
  have "(8 :: u64) * scast ?n = of_nat (8 * rq_page_count r)" by (simp add: scast_eq n)
  then have "unat ((8 :: u64) * scast ?n) = unat (of_nat (8 * rq_page_count r) :: u64)" by (simp only:)
  also have "\<dots> = 8 * rq_page_count r" using lt by (intro unat_of_nat_lt64) simp
  finally have "unat ((8 :: u64) * scast ?n) = 8 * rq_page_count r" .
  then have la: "length arr = rq_page_count r"
    using assms(2) arr by (auto simp: sane_pin_env_def)
  show ?thesis
  proof (cases "user_pages pe (user_base r) ?n wr fo")
    case (Inl e)
    moreover have "- errno_code e \<noteq> sint ?n" unfolding n by (cases e) simp_all
    ultimately show ?thesis using pp by (simp add: pin_pages_def get_user_pages_def Let_def)
  next
    case (Inr ps)
    then have "length ps = rq_page_count r" "r' = r\<lparr>nr_pages := ?n, pages := Pages (ps @ drop (length ps) arr)\<rparr>"
      "ks' = fold get_page ps ks"
      using pp n by (auto simp: pin_pages_def get_user_pages_def Let_def split: if_splits)
    then show ?thesis using Inr la n assms(2) by (auto simp: fold_get_page sane_pin_env_def)
  qed
qed

lemma unpin_pinned:
  assumes "pages r = Pages ps" and "sint (nr_pages r) = int (length ps)" and "0 \<notin> set ps"
    and "page_refs ks = refs_plus ps f"
  shows "dma_unpin_user_pages r dirty ks = Inr (r\<lparr>pages := Freed_Pages\<rparr>,
    ks\<lparr>page_refs := f, dirty_pages := (if dirty then dirty_pages ks \<union> set ps else dirty_pages ks)\<rparr>)"
  using assms unpin_list_all [OF assms(3), of dirty ks]
  by (simp add: dma_unpin_user_pages_def refs_plus_def fun_eq_iff)

lemma pin_accepts:
  assumes "\<not> kernel_ds pe" and "sane_pin_env pe" and "moderate r"
    and "\<forall>n. kmalloc_pages pe n \<noteq> None"
    and "if wr then access_ok_write pe (user_base r) (rq_len r) else access_ok_read pe (user_base r) (rq_len r)"
    and "user_pages pe (user_base r) (pages_needed (user_base r) (rq_len r)) wr fo = Inr ps"
    and "length ps = rq_page_count r"
  shows "\<exists>r'. dma_pin_user_pages pe r wr fo ks =
    Inr (PIN_SUCCESSFUL, r', ks\<lparr>page_refs := refs_plus ps (page_refs ks)\<rparr>) \<and>
    r' = r\<lparr>nr_pages := nr_pages r', pages := Pages ps\<rparr> \<and> sint (nr_pages r') = int (length ps) \<and> 0 \<notin> set ps"
proof -
  obtain arr where arr: "kmalloc_pages pe (8 * scast (pages_needed (user_base r) (rq_len r))) = Some arr"
    using assms(4) by blast
  obtain r' ks' where ok: "dma_pin_user_pages pe r wr fo ks = Inr (PIN_SUCCESSFUL, r', ks')"
    using assms(1,5,6,7) moderate_pages(2) [OF assms(3)] arr
    by (cases wr) (auto simp: dma_pin_user_pages_def pin_pages_def get_user_pages_def Let_def)
  have nr: "nr_pages r' = pages_needed (user_base r) (rq_len r)"
    using ok assms(1,5,6,7) moderate_pages(2) [OF assms(3)] arr
    by (cases wr) (auto simp: dma_pin_user_pages_def pin_pages_def get_user_pages_def Let_def)
  obtain ps' where "user_pages pe (user_base r) (nr_pages r') wr fo = Inr ps'" "0 \<notin> set ps'"
    "sint (nr_pages r') = int (length ps')" "r' = r\<lparr>nr_pages := nr_pages r', pages := Pages ps'\<rparr>"
    "ks' = ks\<lparr>page_refs := refs_plus ps' (page_refs ks)\<rparr>"
    using pin_success [OF ok assms(2,3)] by blast
  then show ?thesis using ok assms(6) nr by auto
qed

lemma copy_to_user_run:
  assumes "rq_chan r = Some chan" and "pages r = Pages ps" and "moderate r" and "0 < rq_len r"
    and "length ps = rq_page_count r" and "expired we t" and "ready ok backlog chan s" and "maps_succeed me"
  shows "\<exists>k st s'. dma_copy_to_user_raw me env we r s = Some (Inr (0, r\<lparr>dma_cookie_f := k, rq_status := st\<rparr>, s')) \<and>
      transferred we (dma_async_memcpy_buf_to_pg me env chan) chan ps r s k st s' \<and> st \<noteq> DMA_IN_PROGRESS"
    and "\<exists>k st s'. dma_copy_from_user_raw me env we r s = Some (Inr (0, r\<lparr>dma_cookie_f := k, rq_status := st\<rparr>, s')) \<and>
      transferred we (dma_async_memcpy_pg_to_buf me env chan) chan ps r s k st s' \<and> st \<noteq> DMA_IN_PROGRESS"
proof -
  have len: "0 < unat (rq_len r)" "unat (rq_len r) < 2 ^ 31"
    using assms(3,4) by (simp_all add: moderate_def unat_gt_0)
  have pg: "(unat (user_base r) mod 4096 + unat (rq_len r) + 4095) div 4096 \<le> length ps"
    using assms(5) by (simp add: rq_page_count_def)
  note raw = transferred_raw [OF _ assms(2) len]
  show "\<exists>k st s'. dma_copy_to_user_raw me env we r s = Some (Inr (0, r\<lparr>dma_cookie_f := k, rq_status := st\<rparr>, s')) \<and>
      transferred we (dma_async_memcpy_buf_to_pg me env chan) chan ps r s k st s' \<and> st \<noteq> DMA_IN_PROGRESS"
    using copy_raw_transfers [OF len(1) pg assms(6) to_user.polled_transfer_axioms [of me env chan ok backlog] assms(7)] raw
    unfolding dma_copy_to_user_raw_def assms(1) option.case by blast
  show "\<exists>k st s'. dma_copy_from_user_raw me env we r s = Some (Inr (0, r\<lparr>dma_cookie_f := k, rq_status := st\<rparr>, s')) \<and>
      transferred we (dma_async_memcpy_pg_to_buf me env chan) chan ps r s k st s' \<and> st \<noteq> DMA_IN_PROGRESS"
    using copy_raw_transfers [OF len(1) pg assms(6) from_user.polled_transfer_axioms [of me env chan ok backlog]
      conjI [OF assms(7,8)]] raw
    unfolding dma_copy_from_user_raw_def assms(1) option.case by blast
qed

text \<open>A pinnable request: what a copy with pinning needs of the request and the memory management.\<close>

definition pinnable :: "pin_env \<Rightarrow> request_copy \<Rightarrow> nat list \<Rightarrow> bool" where
  "pinnable pe r ps \<longleftrightarrow> 0 < rq_len r \<and> moderate r \<and> \<not> kernel_ds pe \<and> sane_pin_env pe \<and>
     (\<forall>n. kmalloc_pages pe n \<noteq> None) \<and>
     access_ok_write pe (user_base r) (rq_len r) \<and> access_ok_read pe (user_base r) (rq_len r) \<and>
     (\<forall>wr. user_pages pe (user_base r) (pages_needed (user_base r) (rq_len r)) wr False = Inr ps) \<and>
     length ps = rq_page_count r"

text \<open>A pinned request: the fields the copy loop and the release rely on.\<close>

definition pinned :: "nat \<Rightarrow> nat list \<Rightarrow> request_copy \<Rightarrow> bool" where
  "pinned c ps r \<longleftrightarrow> rq_chan r = Some c \<and> pages r = Pages ps \<and> moderate r \<and> 0 < rq_len r \<and>
     length ps = rq_page_count r \<and> sint (nr_pages r) = int (length ps) \<and> 0 \<notin> set ps"

lemma pin_pinnable:
  assumes "pinnable pe r ps"
  shows "\<exists>r'. dma_pin_user_pages pe (r\<lparr>rq_chan := Some c\<rparr>) wr False ks =
    Inr (PIN_SUCCESSFUL, r', ks\<lparr>page_refs := refs_plus ps (page_refs ks)\<rparr>) \<and> pinned c ps r' \<and> rq_pieces r' = rq_pieces r"
proof -
  let ?r = "r\<lparr>rq_chan := Some c\<rparr>"
  have "\<exists>r'. dma_pin_user_pages pe ?r wr False ks =
      Inr (PIN_SUCCESSFUL, r', ks\<lparr>page_refs := refs_plus ps (page_refs ks)\<rparr>) \<and>
    r' = ?r\<lparr>nr_pages := nr_pages r', pages := Pages ps\<rparr> \<and> sint (nr_pages r') = int (length ps) \<and> 0 \<notin> set ps"
    using assms by (intro pin_accepts) (auto simp: pinnable_def moderate_def rq_page_count_def)
  moreover have "pinned c ps r' \<and> rq_pieces r' = rq_pieces r"
    if "r' = ?r\<lparr>nr_pages := nr_pages r', pages := Pages ps\<rparr>" "sint (nr_pages r') = int (length ps)" "0 \<notin> set ps" for r'
  proof -
    have "rq_chan r' = Some c" "pages r' = Pages ps" "user_base r' = user_base r" "rq_len r' = rq_len r"
      "kernel_base r' = kernel_base r"
      by (subst that(1), simp)+
    then show ?thesis using assms that by (simp add: pinned_def pinnable_def moderate_def rq_page_count_def rq_pieces_def)
  qed
  ultimately show ?thesis by blast
qed

lemma unpin_after_copy:
  assumes "pinned c ps r" and "ks1 = ks\<lparr>page_refs := refs_plus ps (page_refs ks)\<rparr>"
    and "f (eng ks1) = Some (Inr (0, r\<lparr>dma_cookie_f := k, rq_status := st\<rparr>, s'))"
  shows "\<exists>r'. unpin_after dirty (on_engine f ks1) = Some (Inr (0, r',
      ks\<lparr>eng := s', dirty_pages := (if dirty then dirty_pages ks \<union> set ps else dirty_pages ks)\<rparr>)) \<and>
    rq_chan r' = Some c \<and> dma_cookie_f r' = k \<and> rq_status r' = st"
  using assms unpin_pinned [of "r\<lparr>dma_cookie_f := k, rq_status := st\<rparr>" ps "ks1\<lparr>eng := s'\<rparr>" "page_refs ks" dirty]
  by (simp add: pinned_def unpin_after_def on_engine_def)

text \<open>
  The request \<open>r'\<close> a copy leaves: on channel \<open>c\<close> the pieces of \<open>r\<close> were submitted by \<open>xfer\<close>, and the
  request carries the cookie of the last one and its final status.
\<close>

definition copied_by :: "'d wait_env \<Rightarrow> (nat \<Rightarrow> 'd xfer) \<Rightarrow> nat \<Rightarrow> nat list \<Rightarrow> request_copy \<Rightarrow> 'd engine
    \<Rightarrow> request_copy \<Rightarrow> 'd engine \<Rightarrow> bool" where
  "copied_by we xfer c ps r s r' s' \<longleftrightarrow> rq_chan r' = Some c \<and>
     transferred we (xfer c) c ps r s (dma_cookie_f r') (rq_status r') s' \<and> rq_status r' \<noteq> DMA_IN_PROGRESS"

lemma boot_copies:
  assumes "pinnable pe r ps" and "copy_dma_get_channel_boot cfg env (eng ks) = Some c"
    and "ready ok backlog c (eng ks)" and "expired we t" and "maps_succeed me"
  shows "\<exists>r' s'. dma_copy_to_user cfg me env we pe r ks =
        Some (Inr (0, r', ks\<lparr>eng := s', dirty_pages := dirty_pages ks \<union> set ps\<rparr>)) \<and>
      copied_by we (dma_async_memcpy_buf_to_pg me env) c ps r (eng ks) r' s'"
    and "\<exists>r' s'. dma_copy_from_user cfg me env we pe r ks = Some (Inr (0, r', ks\<lparr>eng := s'\<rparr>)) \<and>
      copied_by we (dma_async_memcpy_pg_to_buf me env) c ps r (eng ks) r' s'"
proof -
  let ?ks = "ks\<lparr>page_refs := refs_plus ps (page_refs ks)\<rparr>"
  have len: "0 < rq_len r" using assms(1) by (simp add: pinnable_def)
  have rd: "ready ok backlog c (eng ?ks)" using assms(3) by simp
  obtain r1 where r1: "dma_pin_user_pages pe (r\<lparr>rq_chan := Some c\<rparr>) PIN_WRITE False ks = Inr (PIN_SUCCESSFUL, r1, ?ks)"
    "pinned c ps r1" "rq_pieces r1 = rq_pieces r" using pin_pinnable [OF assms(1)] by blast
  obtain r2 where r2: "dma_pin_user_pages pe (r\<lparr>rq_chan := Some c\<rparr>) PIN_READ False ks = Inr (PIN_SUCCESSFUL, r2, ?ks)"
    "pinned c ps r2" "rq_pieces r2 = rq_pieces r" using pin_pinnable [OF assms(1)] by blast
  obtain k st s' where w: "dma_copy_to_user_raw me env we r1 (eng ?ks) =
      Some (Inr (0, r1\<lparr>dma_cookie_f := k, rq_status := st\<rparr>, s'))"
    "transferred we (dma_async_memcpy_buf_to_pg me env c) c ps r1 (eng ?ks) k st s'" "st \<noteq> DMA_IN_PROGRESS"
    using copy_to_user_run(1) [OF _ _ _ _ _ assms(4) rd assms(5), of r1 ps] r1(2) unfolding pinned_def by blast
  from unpin_after_copy [where f = "dma_copy_to_user_raw me env we r1", OF r1(2) refl w(1), of SET_DIRTY_ON] w(2,3)
  show "\<exists>r' s'. dma_copy_to_user cfg me env we pe r ks =
        Some (Inr (0, r', ks\<lparr>eng := s', dirty_pages := dirty_pages ks \<union> set ps\<rparr>)) \<and>
      copied_by we (dma_async_memcpy_buf_to_pg me env) c ps r (eng ks) r' s'"
    using len assms(2) r1(1,3) by (auto simp: dma_copy_to_user_def SET_DIRTY_ON_def copied_by_def transferred_def)
  obtain k st s' where w: "dma_copy_from_user_raw me env we r2 (eng ?ks) =
      Some (Inr (0, r2\<lparr>dma_cookie_f := k, rq_status := st\<rparr>, s'))"
    "transferred we (dma_async_memcpy_pg_to_buf me env c) c ps r2 (eng ?ks) k st s'" "st \<noteq> DMA_IN_PROGRESS"
    using copy_to_user_run(2) [OF _ _ _ _ _ assms(4) rd assms(5), of r2 ps] r2(2) unfolding pinned_def by blast
  from unpin_after_copy [where f = "dma_copy_from_user_raw me env we r2", OF r2(2) refl w(1), of SET_DIRTY_OFF] w(2,3)
  show "\<exists>r' s'. dma_copy_from_user cfg me env we pe r ks = Some (Inr (0, r', ks\<lparr>eng := s'\<rparr>)) \<and>
      copied_by we (dma_async_memcpy_pg_to_buf me env) c ps r (eng ks) r' s'"
    using len assms(2) r2(1,3) by (auto simp: dma_copy_from_user_def SET_DIRTY_OFF_def copied_by_def transferred_def)
qed

subsection \<open>Failed pins\<close>




subsection \<open>Properties\<close>

text \<open>
  C17. A successful pin holds one reference per page the request touches, as many pages as the
  copy loop visits, and releasing the request gives back exactly those references and marks
  exactly those pages dirty when asked to. The page array keeps its dangling pointer: releasing
  the same request again is a use after free.
\<close>

theorem pin_unpin_roundtrip:
  assumes "dma_pin_user_pages pe r wr fo ks = Inr (PIN_SUCCESSFUL, r', ks')"
    and "sane_pin_env pe" and "moderate r"
  shows "\<exists>ps. pages r' = Pages ps \<and> length ps = rq_page_count r \<and> page_refs ks' = refs_plus ps (page_refs ks) \<and>
    dma_unpin_user_pages r' dirty ks' = Inr (r'\<lparr>pages := Freed_Pages\<rparr>,
      ks\<lparr>dirty_pages := (if dirty then dirty_pages ks \<union> set ps else dirty_pages ks)\<rparr>) \<and>
    dma_unpin_user_pages (r'\<lparr>pages := Freed_Pages\<rparr>) dirty ks = Inl Use_After_Free"
proof -
  obtain ps where ps: "0 \<notin> set ps" "length ps = rq_page_count r" "sint (nr_pages r') = int (length ps)"
    "r' = r\<lparr>nr_pages := nr_pages r', pages := Pages ps\<rparr>" and ks: "ks' = ks\<lparr>page_refs := refs_plus ps (page_refs ks)\<rparr>"
    using pin_success [OF assms] by blast
  have pg: "pages r' = Pages ps" by (subst ps(4)) simp
  show ?thesis
    using unpin_pinned [OF pg ps(3,1), of ks' "page_refs ks" dirty] ps(2) pg ks
    by (intro exI [of _ ps]) (simp add: dma_unpin_user_pages_def)
qed

definition demo_pin_env :: pin_env where
  "demo_pin_env = \<lparr>kernel_ds = False, kmalloc_pages = (\<lambda>n. Some (replicate (unat n div 8) 99)),
     access_ok_write = (\<lambda>a n. a < 1000000), access_ok_read = (\<lambda>a n. a < 1000000),
     user_pages = (\<lambda>a n wr fo. if 0 \<le> sint n then Inr (map (\<lambda>i. i + 21) [0 ..< nat (sint n)]) else Inl EFAULT)\<rparr>"

lemma demo_pin_sane: "sane_pin_env demo_pin_env"
  by (auto simp: sane_pin_env_def demo_pin_env_def split: if_splits)

definition demo_kstate :: "unit kstate" where
  "demo_kstate = \<lparr>eng = demo_engine 1, page_refs = (\<lambda>_. 1), dirty_pages = {}\<rparr>"

lemma demo_pinned:
  "dma_pin_user_pages demo_pin_env (init_req_copy 8000 100000 5000) True False demo_kstate =
   Inr (PIN_SUCCESSFUL, (init_req_copy 8000 100000 5000)\<lparr>nr_pages := 3, pages := Pages [21, 22, 23]\<rparr>,
     demo_kstate\<lparr>page_refs := (\<lambda>_. 1)(21 := 2, 22 := 2, 23 := 2)\<rparr>)"
proof -
  have n: "pages_needed 8000 5000 = 3" by code_simp
  have u: "[0 ..< 3] = [0, Suc 0, 2]" by (simp add: upt_rec)
  show ?thesis
    by (simp add: dma_pin_user_pages_def init_req_copy_def n demo_pin_env_def pin_pages_def get_user_pages_def Let_def u
        get_page_def demo_kstate_def)
qed

theorem pin_unpin_roundtrip_witness:
  "\<exists>r' ks'. dma_pin_user_pages demo_pin_env (init_req_copy 8000 100000 5000) True False demo_kstate =
     Inr (PIN_SUCCESSFUL, r', ks') \<and>
   dma_unpin_user_pages r' True ks' = Inr (r'\<lparr>pages := Freed_Pages\<rparr>, demo_kstate\<lparr>dirty_pages := {21, 22, 23}\<rparr>)"
proof -
  have "moderate (init_req_copy 8000 100000 5000)" by (simp add: moderate_def init_req_copy_def)
  from pin_unpin_roundtrip [OF demo_pinned demo_pin_sane this, of True]
  have "dma_unpin_user_pages ((init_req_copy 8000 100000 5000)\<lparr>nr_pages := 3, pages := Pages [21, 22, 23]\<rparr>) True
      (demo_kstate\<lparr>page_refs := (\<lambda>_. 1)(21 := 2, 22 := 2, 23 := 2)\<rparr>) =
    Inr ((init_req_copy 8000 100000 5000)\<lparr>nr_pages := 3, pages := Freed_Pages\<rparr>, demo_kstate\<lparr>dirty_pages := {21, 22, 23}\<rparr>)"
    by (auto simp: demo_kstate_def)
  then show ?thesis using demo_pinned by auto
qed

text \<open>
  C18. The boot-time copies, end to end: with a channel, pinnable pages and a driver that drains,
  \<open>dma_copy_to_user\<close> and \<open>dma_copy_from_user\<close> return zero after they have submitted every piece of
  the request on that channel, the first from the kernel buffer into the pinned pages and the
  second from the pages into the buffer, and have waited for the last piece; the request carries
  the status the wait ended with, which is final but may be an error. All page references are as
  before, and the pages are marked dirty exactly when they were written. Without a channel they
  return \<open>-EBUSY\<close> and change nothing but the request's channel.
\<close>

theorem boot_copy_complete:
  assumes "pinnable pe r ps" and "copy_dma_get_channel_boot cfg env (eng ks) = cp"
    and "\<forall>c. cp = Some c \<longrightarrow> ready ok backlog c (eng ks)" and "expired we t" and "maps_succeed me"
  shows "case cp of
      None \<Rightarrow> dma_copy_to_user cfg me env we pe r ks = Some (Inr (- 16, r\<lparr>rq_chan := None\<rparr>, ks)) \<and>
        dma_copy_from_user cfg me env we pe r ks = Some (Inr (- 16, r\<lparr>rq_chan := None\<rparr>, ks))
    | Some c \<Rightarrow>
        (\<exists>r' s'. dma_copy_to_user cfg me env we pe r ks =
           Some (Inr (0, r', ks\<lparr>eng := s', dirty_pages := dirty_pages ks \<union> set ps\<rparr>)) \<and>
           copied_by we (dma_async_memcpy_buf_to_pg me env) c ps r (eng ks) r' s') \<and>
        (\<exists>r' s'. dma_copy_from_user cfg me env we pe r ks = Some (Inr (0, r', ks\<lparr>eng := s'\<rparr>)) \<and>
           copied_by we (dma_async_memcpy_pg_to_buf me env) c ps r (eng ks) r' s')"
  using assms(1,2) boot_copies [OF assms(1) _ _ assms(4,5)] assms(3)
  by (cases cp) (simp_all add: pinnable_def dma_copy_to_user_def dma_copy_from_user_def)

lemma demo_pinnable: "pinnable demo_pin_env (init_req_copy 8000 100000 5000) [21, 22, 23]"
proof -
  have n: "pages_needed 8000 5000 = 3" by code_simp
  have "[0 ..< 3] = [0, Suc 0, 2]" by (simp add: upt_rec)
  then show ?thesis
    using demo_pin_sane
    by (simp add: pinnable_def moderate_def init_req_copy_def n rq_page_count_def demo_pin_env_def)
qed

definition demo_excl_kstate :: "unit kstate" where
  "demo_excl_kstate = demo_kstate\<lparr>eng := (demo_engine 1)
     \<lparr>percpu_chan_copy := (\<lambda>_. \<lparr>cc_chan = Some 4, cc_use = 1\<rparr>)\<rparr>\<rparr>"

theorem boot_copy_complete_witness:
  "\<exists>r' s'. dma_copy_to_user CONFIG_EXCL \<lparr>map_single = (\<lambda>_ _ _. 1), map_page = (\<lambda>_ _ _ _. 1)\<rparr> demo_env
     \<lparr>expired = (\<lambda>i. 3 \<le> i), hw = (\<lambda>_ d. d)\<rparr> demo_pin_env (init_req_copy 8000 100000 5000) demo_excl_kstate =
     Some (Inr (0, r', demo_excl_kstate\<lparr>eng := s', dirty_pages := {21, 22, 23}\<rparr>))"
proof -
  have "ready (\<lambda>_. True) (\<lambda>_. 0) 4 (eng demo_excl_kstate)"
    by (simp add: ready_def drains_def demo_excl_kstate_def) (simp add: demo_device_def demo_chan_def)
  moreover have "copy_dma_get_channel_boot CONFIG_EXCL demo_env (eng demo_excl_kstate) = Some 4"
    by (simp add: copy_dma_get_channel_boot_def copy_aligned_def demo_excl_kstate_def dmaengine_check_align_def)
  ultimately show ?thesis
    using boot_copy_complete [OF demo_pinnable, of CONFIG_EXCL demo_env demo_excl_kstate "Some 4" "\<lambda>_. True" "\<lambda>_. 0"
      "\<lparr>expired = (\<lambda>i. 3 \<le> i), hw = (\<lambda>_ d. d)\<rparr>" 3 "\<lparr>map_single = (\<lambda>_ _ _. 1), map_page = (\<lambda>_ _ _ _. 1)\<rparr>"]
    by (auto simp: maps_succeed_def demo_excl_kstate_def demo_kstate_def)
qed



end
