(* ===== verification/Prio_Policy.thy ===== *)
theory Prio_Policy
  imports Excl_Policy Copy_Policy
begin

text \<open>
  The priority policy of \<^verbatim>\<open>src/source/drivers/dma/dma_policy_prio.c\<close>: a fixed array of private
  channels with one priority each, a high-resolution timer that suspends and resumes the channels
  of lower priority in turn, and the copy routines on channels chosen by priority. Suspending and
  resuming a channel are operations of the channel driver, given to this policy as a record of
  two routines on the driver state; the driver theory provides them. The timer is a flag, armed or
  not, and every expiry is one call of the callback, which gets the number of periods that
  \<^verbatim>\<open>hrtimer_forward_now\<close> reports.
\<close>

record 'd chan_cmds =
  cmd_suspend :: "nat \<Rightarrow> 'd \<Rightarrow> 'd"
  cmd_resume :: "nat \<Rightarrow> 'd \<Rightarrow> 'd"

datatype prio_func = Supend_Chan_Prio | Resume_Chan_Prio

definition MAX_QUANTUM :: u16 where "MAX_QUANTUM = 2"

record priority_timer =
  pt_list_chan :: bool
  pt_armed :: bool
  pt_tick :: u16
  overruns_2 :: u64
  quantum :: "u64 list"
  prio_func_array :: "prio_func list"

record 'd prio_state =
  pr_eng :: "'d engine"
  prio_timer :: priority_timer

definition upd_prio :: "(list_dma_chan_prio \<Rightarrow> list_dma_chan_prio) \<Rightarrow> 'd engine \<Rightarrow> 'd engine" where
  "upd_prio f s = s\<lparr>list_chan_prio := f (list_chan_prio s)\<rparr>"

definition set_prio_chan :: "nat \<Rightarrow> nat option \<Rightarrow> 'd engine \<Rightarrow> 'd engine" where
  "set_prio_chan i v = upd_prio (\<lambda>l. l\<lparr>chan_prio := (chan_prio l)[i := v]\<rparr>)"

fun release_prio :: "kenv \<Rightarrow> nat list \<Rightarrow> 'd engine \<Rightarrow> 'd engine outcome" where
  "release_prio env [] s = Inr s"
| "release_prio env (i # is) s =
     (if length (chan_prio (list_chan_prio s)) \<le> i then Inl Out_Of_Bounds
      else case chan_prio (list_chan_prio s) ! i of None \<Rightarrow> Inl Null_Deref
        | Some c \<Rightarrow> release_prio env is (set_prio_chan i None (dma_release_channel env c s)))"

definition release_dma_chan_prio :: "kenv \<Rightarrow> 'd engine \<Rightarrow> 'd engine outcome" where
  "release_dma_chan_prio env s =
     seq_ok (release_prio env [0 ..< unat (prio_size (list_chan_prio s))] s)
       (\<lambda>s1. Inr (upd_prio (\<lambda>l. l\<lparr>prio_size := 0\<rparr>) s1))"

definition init_dma_chan_prio :: "'d engine \<Rightarrow> 'd engine" where
  "init_dma_chan_prio s = s\<lparr>list_chan_prio := \<lparr>chan_prio = replicate DMA_MAX_CHAN_PRIO None,
     priority = replicate DMA_MAX_CHAN_PRIO DMA_LOW_PRIO, prio_size = 0\<rparr>\<rparr>"

fun complete_prio :: "kenv \<Rightarrow> dma_cap_mask \<Rightarrow> nat list \<Rightarrow> 'd engine \<Rightarrow> (int \<times> 'd engine) outcome" where
  "complete_prio env msk [] s = Inr (0, s)"
| "complete_prio env msk (i # is) s =
     (case dma_request_channel env msk None s of
        (Some c, s1) \<Rightarrow> complete_prio env msk is
           (upd_prio (\<lambda>l. l\<lparr>prio_size := prio_size l + 1\<rparr>) (set_prio_chan i (Some c) s1))
      | (None, s1) \<Rightarrow> seq_ok (release_dma_chan_prio env (set_prio_chan i None s1)) (\<lambda>s2. Inr (- 1, s2)))"

definition complete_dma_chan_prio :: "kenv \<Rightarrow> 'd engine \<Rightarrow> (int \<times> 'd engine) outcome" where
  "complete_dma_chan_prio env s =
     complete_prio env (dma_cap_set DMA_MEMCPY dma_cap_zero) [0 ..< DMA_MAX_CHAN_PRIO] s"

text \<open>The loop of both commands: every channel whose priority number is above the given one.\<close>

fun command_prio :: "(nat \<Rightarrow> 'd \<Rightarrow> 'd) \<Rightarrow> u16 \<Rightarrow> nat list \<Rightarrow> 'd engine \<Rightarrow> 'd engine outcome" where
  "command_prio cmd p [] s = Inr s"
| "command_prio cmd p (i # is) s =
     (let l = list_chan_prio s in
      if length (priority l) \<le> i \<or> length (chan_prio l) \<le> i then Inl Out_Of_Bounds
      else if p < priority l ! i then
        (case chan_prio l ! i of None \<Rightarrow> Inl Null_Deref
         | Some c \<Rightarrow> command_prio cmd p is (s\<lparr>drv := cmd c (drv s)\<rparr>))
      else command_prio cmd p is s)"

definition resume_chan_prio :: "'d chan_cmds \<Rightarrow> u16 \<Rightarrow> 'd engine \<Rightarrow> 'd engine outcome" where
  "resume_chan_prio cmds p s =
     command_prio (cmd_resume cmds) p [0 ..< unat (prio_size (list_chan_prio s))] s"

definition supend_chan_prio :: "'d chan_cmds \<Rightarrow> u16 \<Rightarrow> 'd engine \<Rightarrow> 'd engine outcome" where
  "supend_chan_prio cmds p s =
     command_prio (cmd_suspend cmds) p [0 ..< unat (prio_size (list_chan_prio s))] s"

text \<open>Calling through the function array; a null list pointer faults at its first use.\<close>

definition call_prio_func :: "'d chan_cmds \<Rightarrow> prio_func \<Rightarrow> bool \<Rightarrow> u16 \<Rightarrow> 'd engine \<Rightarrow> 'd engine outcome" where
  "call_prio_func cmds f listp p s = (if \<not> listp then Inl Null_Deref
     else case f of Supend_Chan_Prio \<Rightarrow> supend_chan_prio cmds p s | Resume_Chan_Prio \<Rightarrow> resume_chan_prio cmds p s)"

definition prio_hrtimer_callback :: "'d chan_cmds \<Rightarrow> u64 \<Rightarrow> 'd prio_state \<Rightarrow> 'd prio_state outcome" where
  "prio_hrtimer_callback cmds ret ps =
     (let pt = prio_timer ps; tick = pt_tick pt mod MAX_QUANTUM in
      if length (prio_func_array pt) \<le> unat tick \<or> length (quantum pt) \<le> unat tick then Inl Out_Of_Bounds
      else seq_ok (call_prio_func cmds (prio_func_array pt ! unat tick) (pt_list_chan pt) DMA_HIGH_PRIO (pr_eng ps))
        (\<lambda>s. Inr (ps\<lparr>pr_eng := s, prio_timer := pt\<lparr>pt_tick := tick + 1,
            overruns_2 := (if 1 < ret then overruns_2 pt + 1 else overruns_2 pt)\<rparr>\<rparr>)))"

fun number_prio :: "u16 \<Rightarrow> nat list \<Rightarrow> 'd engine \<Rightarrow> 'd engine" where
  "number_prio p [] s = s"
| "number_prio p (i # is) s =
     number_prio (p + 1) is (upd_prio (\<lambda>l. l\<lparr>priority := (priority l)[i := p]\<rparr>) s)"

definition start_policy_prio2 :: "kenv \<Rightarrow> u64 \<Rightarrow> u64 \<Rightarrow> 'd prio_state \<Rightarrow> (int \<times> 'd prio_state) outcome" where
  "start_policy_prio2 env nanosecs_high nanosecs_low ps =
     seq_ok (complete_dma_chan_prio env (init_dma_chan_prio (pr_eng ps))) (\<lambda>(e, s1).
       if e < 0 then Inr (- 1, ps\<lparr>pr_eng := s1\<rparr>)
       else let s2 = number_prio DMA_HIGH_PRIO [0 ..< unat (prio_size (list_chan_prio s1))] s1
         in Inr (int (unat (prio_size (list_chan_prio s2))), ps\<lparr>pr_eng := s2, prio_timer :=
              \<lparr>pt_list_chan = True, pt_armed = True, pt_tick = MAX_QUANTUM, overruns_2 = 0,
               quantum = [nanosecs_high, nanosecs_low],
               prio_func_array = [Supend_Chan_Prio, Resume_Chan_Prio]\<rparr>\<rparr>))"

definition stop_policy_prio :: "kenv \<Rightarrow> 'd chan_cmds \<Rightarrow> 'd prio_state \<Rightarrow> 'd prio_state outcome" where
  "stop_policy_prio env cmds ps =
     seq_ok (resume_chan_prio cmds DMA_HIGH_PRIO (pr_eng ps)) (\<lambda>s1.
     seq_ok (release_dma_chan_prio env s1) (\<lambda>s2.
       Inr (ps\<lparr>pr_eng := s2, prio_timer :=
         (prio_timer ps)\<lparr>pt_armed := False, pt_list_chan := False, pt_tick := 0\<rparr>\<rparr>)))"

subsection \<open>Copies on the channel of a priority\<close>

text \<open>
  The raw routines of this policy have the bodies of those of the other policies, on requests that
  carry a priority; pinning differs by the missing address checks.
\<close>

definition dma_copy_from_user_raw_prio :: "map_env \<Rightarrow> kenv \<Rightarrow> 'd wait_env \<Rightarrow> request_copy_prio \<Rightarrow> 'd engine
    \<Rightarrow> (int \<times> request_copy_prio \<times> 'd engine) outcome option" where
  "dma_copy_from_user_raw_prio me env we r s = (case rq_chan r of None \<Rightarrow> Some (Inl Null_Deref)
     | Some chan \<Rightarrow> copy_raw we (dma_async_memcpy_pg_to_buf me env chan) chan r s)"

definition dma_copy_from_user_prio :: "map_env \<Rightarrow> kenv \<Rightarrow> 'd wait_env \<Rightarrow> request_copy_prio \<Rightarrow> 'd engine
    \<Rightarrow> (int \<times> request_copy_prio \<times> 'd engine) outcome option" where
  "dma_copy_from_user_prio me env we r s =
     (if 0 < rq_len r then
        let r1 = r\<lparr>rq_chan := copy_dma_get_channel_prio (rq_priority r) s\<rparr> in
        if rq_chan r1 = None then Some (Inr (- errno_code EBUSY, r1, s))
        else dma_copy_from_user_raw_prio me env we r1 s
      else Some (Inr (0, r, s)))"

definition dma_copy_to_user_raw_prio :: "map_env \<Rightarrow> kenv \<Rightarrow> 'd wait_env \<Rightarrow> request_copy_prio \<Rightarrow> 'd engine
    \<Rightarrow> (int \<times> request_copy_prio \<times> 'd engine) outcome option" where
  "dma_copy_to_user_raw_prio me env we r s = (case rq_chan r of None \<Rightarrow> Some (Inl Null_Deref)
     | Some chan \<Rightarrow> copy_raw we (dma_async_memcpy_buf_to_pg me env chan) chan r s)"

definition dma_copy_to_user_prio :: "map_env \<Rightarrow> kenv \<Rightarrow> 'd wait_env \<Rightarrow> request_copy_prio \<Rightarrow> 'd engine
    \<Rightarrow> (int \<times> request_copy_prio \<times> 'd engine) outcome option" where
  "dma_copy_to_user_prio me env we r s =
     (if 0 < rq_len r then
        let r1 = r\<lparr>rq_chan := copy_dma_get_channel_prio (rq_priority r) s\<rparr> in
        if rq_chan r1 = None then Some (Inr (- errno_code EBUSY, r1, s))
        else dma_copy_to_user_raw_prio me env we r1 s
      else Some (Inr (0, r, s)))"

definition dma_unpin_user_pages_prio :: "request_copy_prio \<Rightarrow> bool \<Rightarrow> 'd kstate
    \<Rightarrow> (request_copy_prio \<times> 'd kstate) outcome" where
  "dma_unpin_user_pages_prio r dirty ks = (case pages r of No_Pages \<Rightarrow> Inr (r, ks)
     | Freed_Pages \<Rightarrow> Inl Use_After_Free
     | Pages ps \<Rightarrow> seq_ok (unpin_list dirty (nat (sint (nr_pages r))) ps ks)
         (\<lambda>ks1. Inr (r\<lparr>pages := Freed_Pages\<rparr>, ks1)))"

definition dma_pin_user_pages_prio :: "pin_env \<Rightarrow> request_copy_prio \<Rightarrow> bool \<Rightarrow> bool \<Rightarrow> 'd kstate
    \<Rightarrow> (int \<times> request_copy_prio \<times> 'd kstate) outcome" where
  "dma_pin_user_pages_prio pe r wr fo ks =
     (let r1 = r\<lparr>nr_pages := pages_needed (user_base r) (rq_len r)\<rparr> in
      case kmalloc_pages pe (8 * scast (nr_pages r1)) of
        None \<Rightarrow> Inr (PIN_FAILED, r1\<lparr>pages := No_Pages\<rparr>, ks)
      | Some arr \<Rightarrow>
          (case get_user_pages pe (user_base r1) (nr_pages r1) wr fo arr ks of (ret, arr1, ks1) \<Rightarrow>
             let r2 = r1\<lparr>pages := Pages arr1\<rparr> in
             if ret \<noteq> sint (nr_pages r2) then
               seq_ok (dma_unpin_user_pages_prio r2 SET_DIRTY_OFF ks1) (\<lambda>(r3, ks2). Inr (PIN_FAILED, r3, ks2))
             else Inr (PIN_SUCCESSFUL, r2, ks1)))"

subsection \<open>The array of channels\<close>

lemma upd_prio_get [simp]: "list_chan_prio (upd_prio f s) = f (list_chan_prio s)"
  by (simp add: upd_prio_def)

lemma upd_prio_admin: "admin_step s (upd_prio f s)"
  by (simp add: admin_step_def upd_prio_def)

lemma upd_prio_inv [simp]:
  "eng_inv K (upd_prio f s) = eng_inv K s" "owned_set K (upd_prio f s) = owned_set K s"
  "eng_inv K (set_prio_chan i v s) = eng_inv K s" "owned_set K (set_prio_chan i v s) = owned_set K s"
  unfolding set_prio_chan_def using admin_inv admin_owned upd_prio_admin by blast+

lemma set_prio_chan_get [simp]:
  "list_chan_prio (set_prio_chan i v s) = (list_chan_prio s)\<lparr>chan_prio := (chan_prio (list_chan_prio s))[i := v]\<rparr>"
  by (simp add: set_prio_chan_def)

lemma release_prio_ok:
  assumes "env_wf env" and "eng_inv K s" and "chan_prio (list_chan_prio s) = pre @ map Some cs @ post"
    and "distinct cs" and "set cs \<subseteq> owned_set K s"
  shows "\<exists>s'. release_prio env [length pre ..< length pre + length cs] s = Inr s' \<and> eng_inv K s' \<and>
    owned_set K s' = owned_set K s - set cs \<and>
    list_chan_prio s' = (list_chan_prio s)\<lparr>chan_prio := pre @ replicate (length cs) None @ post\<rparr>"
  using assms(2-5)
proof (induction cs arbitrary: s pre)
  case Nil
  then show ?case by simp
next
  case (Cons c cs)
  let ?i = "length pre"
  let ?s1 = "set_prio_chan ?i None (dma_release_channel env c s)"
  have lst: "list_chan_prio (dma_release_channel env c s) = list_chan_prio s"
    by (rule release_frame(2) [OF assms(1)])
  have own: "c \<in> owned_set K s" using Cons.prems(4) by simp
  have o1: "owned_set K ?s1 = owned_set K s - {c}" and i1: "eng_inv K ?s1"
    using engine_channels.release_ok [of env K s c] engine_channels.release_owned [of env K s c]
      own Cons.prems(1) assms(1) by simp_all
  have l1: "chan_prio (list_chan_prio ?s1) = (pre @ [None]) @ map Some cs @ post"
    using Cons.prems(2) by (simp add: lst)
  have dc: "distinct cs" "set cs \<subseteq> owned_set K ?s1" using Cons.prems(3,4) o1 by auto
  obtain s' where s': "release_prio env [length (pre @ [None]) ..< length (pre @ [None]) + length cs] ?s1 = Inr s'"
    "eng_inv K s'" "owned_set K s' = owned_set K ?s1 - set cs"
    "list_chan_prio s' = (list_chan_prio ?s1)\<lparr>chan_prio := (pre @ [None]) @ replicate (length cs) None @ post\<rparr>"
    using Cons.IH [OF i1 l1 dc] by blast
  have up: "[?i ..< ?i + length (c # cs)] = ?i # [Suc ?i ..< Suc ?i + length cs]"
    by (subst upt_conv_Cons) simp_all
  have "release_prio env [?i ..< ?i + length (c # cs)] s = Inr s'"
    unfolding up using s'(1) Cons.prems(2) by (simp add: nth_append)
  then show ?case using s' o1 lst by auto
qed

text \<open>The array while it is being filled: the channels so far, all priorities still low.\<close>

definition prio_list :: "nat list \<Rightarrow> list_dma_chan_prio" where
  "prio_list cs = \<lparr>chan_prio = map Some cs @ replicate (DMA_MAX_CHAN_PRIO - length cs) None,
     priority = replicate DMA_MAX_CHAN_PRIO DMA_LOW_PRIO, prio_size = of_nat (length cs)\<rparr>"

lemma unat_size: "length cs \<le> DMA_MAX_CHAN_PRIO \<Longrightarrow> unat (of_nat (length cs) :: u16) = length cs"
  by (simp add: unat_of_nat DMA_MAX_CHAN_PRIO_def)

lemma release_dma_chan_prio_ok:
  assumes "env_wf env" and "eng_inv K s" and "chan_prio (list_chan_prio s) = map Some cs @ post"
    and "prio_size (list_chan_prio s) = of_nat (length cs)" and "length cs \<le> DMA_MAX_CHAN_PRIO"
    and "distinct cs" and "set cs \<subseteq> owned_set K s"
  shows "\<exists>s'. release_dma_chan_prio env s = Inr s' \<and> eng_inv K s' \<and> owned_set K s' = owned_set K s - set cs \<and>
    list_chan_prio s' = (list_chan_prio s)\<lparr>chan_prio := replicate (length cs) None @ post, prio_size := 0\<rparr>"
  using release_prio_ok [OF assms(1,2), of "[]" cs post] assms(3-7)
  by (auto simp: release_dma_chan_prio_def unat_size)

lemma complete_prio_ok:
  assumes "env_wf env" and "eng_inv K s" and "list_chan_prio s = prio_list cs" and "length cs \<le> DMA_MAX_CHAN_PRIO"
    and "owned_set K s = B \<union> set cs" and "B \<inter> set cs = {}" and "distinct cs"
  shows "\<exists>e s'. complete_prio env msk [length cs ..< DMA_MAX_CHAN_PRIO] s = Inr (e, s') \<and> eng_inv K s' \<and>
    (e = 0 \<and> (\<exists>cs'. length cs' = DMA_MAX_CHAN_PRIO \<and> list_chan_prio s' = prio_list cs' \<and> distinct cs' \<and>
        B \<inter> set cs' = {} \<and> owned_set K s' = B \<union> set cs') \<or>
     e = - 1 \<and> list_chan_prio s' = prio_list [] \<and> owned_set K s' = B)"
  using assms(2-7)
proof (induction "DMA_MAX_CHAN_PRIO - length cs" arbitrary: cs s)
  case 0
  then have "DMA_MAX_CHAN_PRIO = length cs" by simp
  then have "complete_prio env msk [length cs ..< DMA_MAX_CHAN_PRIO] s = Inr (0, s) \<and> eng_inv K s \<and>
      length cs = DMA_MAX_CHAN_PRIO \<and> list_chan_prio s = prio_list cs \<and> distinct cs \<and> B \<inter> set cs = {} \<and>
      owned_set K s = B \<union> set cs"
    using 0 by simp
  then show ?case by blast
next
  case (Suc n)
  let ?i = "length cs"
  have lt: "?i < DMA_MAX_CHAN_PRIO" using Suc.hyps(2) by simp
  then have up: "[?i ..< DMA_MAX_CHAN_PRIO] = ?i # [Suc ?i ..< DMA_MAX_CHAN_PRIO]"
    by (simp add: upt_conv_Cons)
  have rep: "replicate (DMA_MAX_CHAN_PRIO - ?i) None = None # replicate (DMA_MAX_CHAN_PRIO - Suc ?i) (None :: nat option)"
    using lt by (metis Suc_diff_Suc replicate_Suc)
  obtain r s1 where q: "dma_request_channel env msk None s = (r, s1)"
    by (cases "dma_request_channel env msk None s")
  have i1: "eng_inv K s1" using engine_channels.request_ok [of env K s msk None r s1] q assms(1) Suc.prems(1) by simp
  have l1: "list_chan_prio s1 = prio_list cs" using request_frame(2) [OF assms(1) q] Suc.prems(2) by simp
  show ?case
  proof (cases r)
    case (Some c)
    let ?s2 = "upd_prio (\<lambda>l. l\<lparr>prio_size := prio_size l + 1\<rparr>) (set_prio_chan ?i (Some c) s1)"
    have c: "c \<notin> owned_set K s" "owned_set K s1 = insert c (owned_set K s)"
      using engine_channels.request_some [of env K s msk None c s1] q Some assms(1) Suc.prems(1) by simp_all
    have "list_chan_prio ?s2 = prio_list (cs @ [c])"
      using l1 rep by (simp add: prio_list_def list_update_append add.commute)
    then show ?thesis
      using Suc.hyps(1) [of "cs @ [c]" ?s2] Suc.hyps(2) Suc.prems lt i1 c q Some up by auto
  next
    case None
    have o: "owned_set K s1 = owned_set K s"
      using engine_channels.request_none [of env K s msk None s1] q None assms(1) Suc.prems(1) by simp
    let ?s2 = "set_prio_chan ?i None s1"
    have l2: "list_chan_prio ?s2 = prio_list cs"
      using l1 rep by (simp add: prio_list_def list_update_append)
    have ch: "chan_prio (list_chan_prio ?s2) = map Some cs @ replicate (DMA_MAX_CHAN_PRIO - ?i) None"
      and sz: "prio_size (list_chan_prio ?s2) = of_nat (length cs)"
      unfolding l2 by (simp_all add: prio_list_def)
    have i2: "eng_inv K ?s2" and le: "length cs \<le> DMA_MAX_CHAN_PRIO" and ow: "set cs \<subseteq> owned_set K ?s2"
      using i1 lt Suc.prems(4) o by simp_all
    obtain s' where s': "release_dma_chan_prio env ?s2 = Inr s'" "eng_inv K s'" "owned_set K s' = owned_set K ?s2 - set cs"
      "list_chan_prio s' = (list_chan_prio ?s2)\<lparr>chan_prio := replicate (length cs) None @
         replicate (DMA_MAX_CHAN_PRIO - ?i) None, prio_size := 0\<rparr>"
      using release_dma_chan_prio_ok [OF assms(1) i2 ch sz le Suc.prems(6) ow] by blast
    have rp: "replicate (length cs) None @ replicate (DMA_MAX_CHAN_PRIO - ?i) (None :: nat option) =
        replicate DMA_MAX_CHAN_PRIO None"
      using lt by (simp flip: replicate_add)
    have "list_chan_prio s' = prio_list []"
      using s'(4) unfolding l2 rp by (simp add: prio_list_def)
    moreover have "owned_set K s' = B" using s'(3) o Suc.prems(4,5) by auto
    ultimately show ?thesis using q None up s'(1,2) by simp
  qed
qed

text \<open>The array of a running policy: all channels taken, the priorities numbered from the highest.\<close>

definition prio_running :: "nat list \<Rightarrow> list_dma_chan_prio" where
  "prio_running cs = \<lparr>chan_prio = map Some cs, priority = [0, 1, 2, 3], prio_size = 4\<rparr>"

lemma upt_max_prio: "[0 ..< 4] = [0, Suc 0, 2, 3]"
  by (simp add: upt_rec)

lemma number_prio_admin: "admin_step s (number_prio p is s)"
proof (induction p "is" s rule: number_prio.induct)
  case (2 p i "is" s)
  then show ?case using admin_trans [OF upd_prio_admin] by simp
qed (simp add: admin_refl)

lemma number_prio_list:
  assumes "list_chan_prio s = prio_list cs" and "length cs = DMA_MAX_CHAN_PRIO"
  shows "list_chan_prio (number_prio DMA_HIGH_PRIO [0 ..< unat (prio_size (list_chan_prio s))] s) = prio_running cs"
proof -
  have "replicate 4 DMA_LOW_PRIO = [DMA_LOW_PRIO, DMA_LOW_PRIO, DMA_LOW_PRIO, DMA_LOW_PRIO]"
    by (simp add: numeral_eq_Suc)
  then show ?thesis
    using assms by (simp add: prio_list_def prio_running_def DMA_MAX_CHAN_PRIO_def upt_max_prio DMA_HIGH_PRIO_def)
qed

lemma start_prio_cases:
  assumes "env_wf env" and "eng_inv K (pr_eng ps)"
  shows "\<exists>e ps'. start_policy_prio2 env hi lo ps = Inr (e, ps') \<and> eng_inv K (pr_eng ps') \<and>
    (e = 4 \<and> (\<exists>cs. length cs = 4 \<and> distinct cs \<and> list_chan_prio (pr_eng ps') = prio_running cs \<and>
        owned_set K (pr_eng ps) \<inter> set cs = {} \<and> owned_set K (pr_eng ps') = owned_set K (pr_eng ps) \<union> set cs \<and>
        prio_timer ps' = \<lparr>pt_list_chan = True, pt_armed = True, pt_tick = MAX_QUANTUM, overruns_2 = 0,
          quantum = [hi, lo], prio_func_array = [Supend_Chan_Prio, Resume_Chan_Prio]\<rparr>) \<or>
     e = - 1 \<and> list_chan_prio (pr_eng ps') = prio_list [] \<and> owned_set K (pr_eng ps') = owned_set K (pr_eng ps) \<and>
       prio_timer ps' = prio_timer ps)"
proof -
  let ?s0 = "init_dma_chan_prio (pr_eng ps)"
  have a: "admin_step (pr_eng ps) ?s0" by (simp add: admin_step_def init_dma_chan_prio_def)
  have l0: "list_chan_prio ?s0 = prio_list []" by (simp add: init_dma_chan_prio_def prio_list_def)
  obtain e s1 where r: "complete_dma_chan_prio env ?s0 = Inr (e, s1)" and i1: "eng_inv K s1"
    and cs: "e = 0 \<and> (\<exists>cs. length cs = DMA_MAX_CHAN_PRIO \<and> list_chan_prio s1 = prio_list cs \<and> distinct cs \<and>
        owned_set K (pr_eng ps) \<inter> set cs = {} \<and> owned_set K s1 = owned_set K (pr_eng ps) \<union> set cs) \<or>
     e = - 1 \<and> list_chan_prio s1 = prio_list [] \<and> owned_set K s1 = owned_set K (pr_eng ps)"
    using complete_prio_ok [OF assms(1), of K ?s0 "[]" "owned_set K (pr_eng ps)" "dma_cap_set DMA_MEMCPY dma_cap_zero"]
      admin_inv [OF a] admin_owned [OF a] assms(2) l0 unfolding complete_dma_chan_prio_def by auto
  from cs show ?thesis
  proof (elim disjE conjE exE)
    fix cs assume c: "e = 0" "length cs = DMA_MAX_CHAN_PRIO" "list_chan_prio s1 = prio_list cs" "distinct cs"
      "owned_set K (pr_eng ps) \<inter> set cs = {}" "owned_set K s1 = owned_set K (pr_eng ps) \<union> set cs"
    let ?s2 = "number_prio DMA_HIGH_PRIO [0 ..< unat (prio_size (list_chan_prio s1))] s1"
    have l2: "list_chan_prio ?s2 = prio_running cs" by (rule number_prio_list [OF c(3,2)])
    have "eng_inv K ?s2" "owned_set K ?s2 = owned_set K s1"
      using admin_inv [OF number_prio_admin] admin_owned [OF number_prio_admin] i1 by blast+
    then show ?thesis
      using r c l2 by (auto simp: start_policy_prio2_def Let_def prio_running_def DMA_MAX_CHAN_PRIO_def)
  next
    assume "e = - 1" "list_chan_prio s1 = prio_list []" "owned_set K s1 = owned_set K (pr_eng ps)"
    then show ?thesis using r i1 by (simp add: start_policy_prio2_def)
  qed
qed

subsection \<open>The timer\<close>

lemma length4: "length cs = 4 \<Longrightarrow> \<exists>a b c d. cs = [a, b, c, d]"
  by (auto simp: numeral_eq_Suc length_Suc_conv)

lemma command_prio_running:
  assumes "list_chan_prio s = prio_running cs" and "length cs = 4"
  shows "command_prio cmd DMA_HIGH_PRIO [0 ..< unat (prio_size (list_chan_prio s))] s =
    Inr (s\<lparr>drv := fold cmd (tl cs) (drv s)\<rparr>)"
proof -
  obtain a b c d where cs: "cs = [a, b, c, d]" using length4 [OF assms(2)] by blast
  show ?thesis
    using assms(1) unfolding cs
    by (simp add: prio_running_def upt_max_prio DMA_HIGH_PRIO_def Let_def)
qed

text \<open>A sequence of expiries, each with the number of periods it reports.\<close>

fun run_callbacks :: "'d chan_cmds \<Rightarrow> u64 list \<Rightarrow> 'd prio_state \<Rightarrow> 'd prio_state outcome" where
  "run_callbacks cmds [] ps = Inr ps"
| "run_callbacks cmds (ret # rets) ps = seq_ok (prio_hrtimer_callback cmds ret ps) (run_callbacks cmds rets)"

text \<open>The timer of a running policy, before the suspending (0 or 2) or the resuming (1) expiry.\<close>

definition ticking :: "priority_timer \<Rightarrow> bool" where
  "ticking pt \<longleftrightarrow> pt_list_chan pt \<and> length (quantum pt) = 2 \<and>
     prio_func_array pt = [Supend_Chan_Prio, Resume_Chan_Prio] \<and> pt_tick pt \<in> {0, 1, 2}"

definition next_cmd :: "'d chan_cmds \<Rightarrow> priority_timer \<Rightarrow> nat \<Rightarrow> 'd \<Rightarrow> 'd" where
  "next_cmd cmds pt = (if pt_tick pt = 1 then cmd_resume cmds else cmd_suspend cmds)"

lemma callback_running:
  assumes "list_chan_prio (pr_eng ps) = prio_running cs" and "length cs = 4" and "ticking (prio_timer ps)"
  shows "\<exists>pt. prio_hrtimer_callback cmds ret ps = Inr (ps\<lparr>pr_eng := (pr_eng ps)\<lparr>drv :=
      fold (next_cmd cmds (prio_timer ps)) (tl cs) (drv (pr_eng ps))\<rparr>, prio_timer := pt\<rparr>) \<and> ticking pt \<and>
    pt_tick pt = (if pt_tick (prio_timer ps) = 1 then 2 else 1) \<and>
    overruns_2 pt = (if 1 < ret then overruns_2 (prio_timer ps) + 1 else overruns_2 (prio_timer ps))"
  using assms(3) command_prio_running [OF assms(1,2), of "cmd_suspend cmds"]
    command_prio_running [OF assms(1,2), of "cmd_resume cmds"]
  by (auto simp: prio_hrtimer_callback_def call_prio_func_def supend_chan_prio_def resume_chan_prio_def
      ticking_def next_cmd_def MAX_QUANTUM_def Let_def)

lemma run_callbacks_running:
  assumes "list_chan_prio (pr_eng ps) = prio_running cs" and "length cs = 4" and "ticking (prio_timer ps)"
  shows "\<exists>d pt. run_callbacks cmds rets ps = Inr (ps\<lparr>pr_eng := (pr_eng ps)\<lparr>drv := d\<rparr>, prio_timer := pt\<rparr>) \<and> ticking pt"
  using assms(1,3)
proof (induction rets arbitrary: ps)
  case Nil
  then show ?case by (intro exI [of _ "drv (pr_eng ps)"] exI [of _ "prio_timer ps"]) simp
next
  case (Cons ret rets)
  obtain pt where pt: "prio_hrtimer_callback cmds ret ps = Inr (ps\<lparr>pr_eng := (pr_eng ps)\<lparr>drv :=
      fold (next_cmd cmds (prio_timer ps)) (tl cs) (drv (pr_eng ps))\<rparr>, prio_timer := pt\<rparr>)" "ticking pt"
    using callback_running [OF Cons.prems(1) assms(2) Cons.prems(2)] by blast
  then show ?case using Cons.IH [of "ps\<lparr>pr_eng := (pr_eng ps)\<lparr>drv :=
      fold (next_cmd cmds (prio_timer ps)) (tl cs) (drv (pr_eng ps))\<rparr>, prio_timer := pt\<rparr>"] Cons.prems(1)
    by simp
qed

lemma drv_admin: "admin_step s (s\<lparr>drv := d\<rparr>)"
  by (simp add: admin_step_def)

text \<open>What the policy needs of the channel driver: a set of suspended channels and its two updates.\<close>

locale suspendable_channels =
  fixes cmds :: "'d chan_cmds" and suspended :: "'d \<Rightarrow> nat set"
  assumes suspend: "suspended (cmd_suspend cmds c d) = insert c (suspended d)"
    and resume: "suspended (cmd_resume cmds c d) = suspended d - {c}"
begin

lemma fold_suspend: "suspended (fold (cmd_suspend cmds) cs d) = suspended d \<union> set cs"
  by (induction cs arbitrary: d) (auto simp: suspend)

lemma fold_resume: "suspended (fold (cmd_resume cmds) cs d) = suspended d - set cs"
  by (induction cs arbitrary: d) (auto simp: resume)

text \<open>
  After an odd number of expiries the channels below the highest priority are suspended, after an
  even number the last command to each of them was to resume.
\<close>

lemma alternates:
  assumes "list_chan_prio (pr_eng ps) = prio_running cs" and "length cs = 4" and "ticking (prio_timer ps)"
    and "pt_tick (prio_timer ps) \<noteq> 1" and "suspended (drv (pr_eng ps)) \<inter> set (tl cs) = {}"
    and "run_callbacks cmds rets ps = Inr ps'"
  shows "suspended (drv (pr_eng ps')) =
    (if odd (length rets) then suspended (drv (pr_eng ps)) \<union> set (tl cs) else suspended (drv (pr_eng ps)))"
  using assms(1,3-)
proof (induction rets arbitrary: ps rule: induct_list012)
  case (2 ret)
  obtain pt where "prio_hrtimer_callback cmds ret ps = Inr (ps\<lparr>pr_eng := (pr_eng ps)\<lparr>drv :=
      fold (next_cmd cmds (prio_timer ps)) (tl cs) (drv (pr_eng ps))\<rparr>, prio_timer := pt\<rparr>)"
    using callback_running [OF 2(1) assms(2) 2(2)] by blast
  then show ?case using 2(3,5) by (auto simp: next_cmd_def fold_suspend)
next
  case (3 r1 r2 rets)
  let ?d1 = "fold (cmd_suspend cmds) (tl cs) (drv (pr_eng ps))"
  let ?d2 = "fold (cmd_resume cmds) (tl cs) ?d1"
  obtain pt where c1: "prio_hrtimer_callback cmds r1 ps = Inr (ps\<lparr>pr_eng := (pr_eng ps)\<lparr>drv := ?d1\<rparr>, prio_timer := pt\<rparr>)"
    "ticking pt" "pt_tick pt = 1"
    using callback_running [OF 3(3) assms(2) 3(4), of cmds r1] 3(5) by (auto simp: next_cmd_def)
  obtain pt2 where c2: "prio_hrtimer_callback cmds r2 (ps\<lparr>pr_eng := (pr_eng ps)\<lparr>drv := ?d1\<rparr>, prio_timer := pt\<rparr>) =
      Inr (ps\<lparr>pr_eng := (pr_eng ps)\<lparr>drv := ?d2\<rparr>, prio_timer := pt2\<rparr>)" "ticking pt2" "pt_tick pt2 = 2"
    using callback_running [of "ps\<lparr>pr_eng := (pr_eng ps)\<lparr>drv := ?d1\<rparr>, prio_timer := pt\<rparr>" cs cmds r2] c1 3(3) assms(2)
    by (auto simp: next_cmd_def)
  have s2: "suspended ?d2 = suspended (drv (pr_eng ps))"
    using 3(6) by (auto simp: fold_suspend fold_resume)
  show ?case
    using 3(1) [of "ps\<lparr>pr_eng := (pr_eng ps)\<lparr>drv := ?d2\<rparr>, prio_timer := pt2\<rparr>"] 3(3,6,7) c1(1) c2 s2 by simp
qed simp

end

lemma stop_running:
  assumes "env_wf env" and "eng_inv K (pr_eng ps)" and "list_chan_prio (pr_eng ps) = prio_running cs"
    and "length cs = 4" and "distinct cs" and "set cs \<subseteq> owned_set K (pr_eng ps)"
  shows "\<exists>s2. stop_policy_prio env cmds ps = Inr (ps\<lparr>pr_eng := s2, prio_timer :=
      (prio_timer ps)\<lparr>pt_armed := False, pt_list_chan := False, pt_tick := 0\<rparr>\<rparr>) \<and>
    release_dma_chan_prio env ((pr_eng ps)\<lparr>drv := fold (cmd_resume cmds) (tl cs) (drv (pr_eng ps))\<rparr>) = Inr s2 \<and>
    eng_inv K s2 \<and> owned_set K s2 = owned_set K (pr_eng ps) - set cs \<and>
    chan_prio (list_chan_prio s2) = [None, None, None, None] \<and> prio_size (list_chan_prio s2) = 0"
proof -
  let ?s1 = "(pr_eng ps)\<lparr>drv := fold (cmd_resume cmds) (tl cs) (drv (pr_eng ps))\<rparr>"
  have r: "resume_chan_prio cmds DMA_HIGH_PRIO (pr_eng ps) = Inr ?s1"
    unfolding resume_chan_prio_def by (rule command_prio_running [OF assms(3,4)])
  have e: "eng_inv K ?s1" "owned_set K ?s1 = owned_set K (pr_eng ps)"
    using assms(2) by (simp_all add: admin_inv [OF drv_admin] admin_owned [OF drv_admin])
  have ch: "chan_prio (list_chan_prio ?s1) = map Some cs @ []"
    and sz: "prio_size (list_chan_prio ?s1) = of_nat (length cs)"
    using assms(3,4) by (simp_all add: prio_running_def)
  have le: "length cs \<le> DMA_MAX_CHAN_PRIO" using assms(4) by (simp add: DMA_MAX_CHAN_PRIO_def)
  have ow: "set cs \<subseteq> owned_set K ?s1" using assms(6) e(2) by simp
  have four: "replicate 4 (None :: nat option) = [None, None, None, None]" by (simp add: numeral_eq_Suc)
  obtain s2 where "release_dma_chan_prio env ?s1 = Inr s2" "eng_inv K s2" "owned_set K s2 = owned_set K ?s1 - set cs"
    "list_chan_prio s2 = (list_chan_prio ?s1)\<lparr>chan_prio := replicate (length cs) None @ [], prio_size := 0\<rparr>"
    using release_dma_chan_prio_ok [OF assms(1) e(1) ch sz le assms(5) ow] by blast
  then show ?thesis
    unfolding stop_policy_prio_def r seq_ok_Inr using assms(4) e(2) by (simp add: four)
qed

lemma prio_scan_4:
  "prio_scan p 4 [a, b, c, d] [x, y, z, w] = (if x = p then a else if y = p then b else if z = p then c
     else if w = p then d else None)"
  by (simp add: numeral_eq_Suc)

lemma prio_scan_running:
  assumes "list_chan_prio s = prio_running cs" and "length cs = 4"
  shows "copy_dma_get_channel_prio p s = copy_aligned s (if p < 4 then Some (cs ! unat p) else None)"
proof -
  obtain a b c d where cs: "cs = [a, b, c, d]" using length4 [OF assms(2)] by blast
  have "p < 4 \<longleftrightarrow> p = 0 \<or> p = 1 \<or> p = 2 \<or> p = 3"
  proof
    assume "p < 4"
    then have "unat p < 4" by (simp add: word_less_nat_alt)
    then have "unat p = 0 \<or> unat p = 1 \<or> unat p = 2 \<or> unat p = 3" by linarith
    then show "p = 0 \<or> p = 1 \<or> p = 2 \<or> p = 3" by (simp add: word_unat_eq_iff)
  qed auto
  then show ?thesis
    using assms(1) unfolding cs copy_dma_get_channel_prio_def by (auto simp: prio_running_def prio_scan_4 Let_def)
qed

lemma prio_running_inject: "prio_running cs = prio_running cs' \<longleftrightarrow> cs = cs'"
  by (simp add: prio_running_def inj_map_eq_map inj_on_def)

subsection \<open>Properties\<close>

text \<open>
  C20. Starting the priority policy is all or nothing. Either it returns the number of channels, they
  are four different channels that were free and are now owned, the copy routines find the
  \<open>p\<close>-th of them under priority \<open>p\<close> and none under any other priority, and the timer is armed; or it
  returns a negative number, every channel it had taken is given back and the array is empty.
\<close>

theorem priority_policy_all_or_nothing:
  assumes "env_wf env" and "eng_inv K (pr_eng ps)"
  shows "\<exists>e ps'. start_policy_prio2 env hi lo ps = Inr (e, ps') \<and>
    (e = 4 \<and> (\<exists>cs. length cs = 4 \<and> distinct cs \<and> set cs \<inter> owned_set K (pr_eng ps) = {} \<and>
        owned_set K (pr_eng ps') = owned_set K (pr_eng ps) \<union> set cs \<and>
        (\<forall>p. copy_dma_get_channel_prio p (pr_eng ps') =
           copy_aligned (pr_eng ps') (if p < 4 then Some (cs ! unat p) else None)) \<and>
        pt_armed (prio_timer ps') \<and> quantum (prio_timer ps') = [hi, lo]) \<or>
     e = - 1 \<and> owned_set K (pr_eng ps') = owned_set K (pr_eng ps) \<and>
       chan_prio (list_chan_prio (pr_eng ps')) = replicate DMA_MAX_CHAN_PRIO None \<and>
       prio_size (list_chan_prio (pr_eng ps')) = 0 \<and> prio_timer ps' = prio_timer ps)"
proof -
  obtain e ps' where r: "start_policy_prio2 env hi lo ps = Inr (e, ps')" and
    cs: "e = 4 \<and> (\<exists>cs. length cs = 4 \<and> distinct cs \<and> list_chan_prio (pr_eng ps') = prio_running cs \<and>
        owned_set K (pr_eng ps) \<inter> set cs = {} \<and> owned_set K (pr_eng ps') = owned_set K (pr_eng ps) \<union> set cs \<and>
        prio_timer ps' = \<lparr>pt_list_chan = True, pt_armed = True, pt_tick = MAX_QUANTUM, overruns_2 = 0,
          quantum = [hi, lo], prio_func_array = [Supend_Chan_Prio, Resume_Chan_Prio]\<rparr>) \<or>
     e = - 1 \<and> list_chan_prio (pr_eng ps') = prio_list [] \<and> owned_set K (pr_eng ps') = owned_set K (pr_eng ps) \<and>
       prio_timer ps' = prio_timer ps"
    using start_prio_cases [OF assms, of hi lo] by (elim exE conjE)
  from cs show ?thesis
  proof (elim disjE conjE exE)
    fix cs assume c: "e = 4" "length cs = 4" "distinct cs" "list_chan_prio (pr_eng ps') = prio_running cs"
      "owned_set K (pr_eng ps) \<inter> set cs = {}" "owned_set K (pr_eng ps') = owned_set K (pr_eng ps) \<union> set cs"
      "prio_timer ps' = \<lparr>pt_list_chan = True, pt_armed = True, pt_tick = MAX_QUANTUM, overruns_2 = 0,
          quantum = [hi, lo], prio_func_array = [Supend_Chan_Prio, Resume_Chan_Prio]\<rparr>"
    have "pt_armed (prio_timer ps')" "quantum (prio_timer ps') = [hi, lo]" using c(7) by simp_all
    moreover have "set cs \<inter> owned_set K (pr_eng ps) = {}" using c(5) by blast
    ultimately show ?thesis
      using r c(1,2,3,6) prio_scan_running [OF c(4,2)]
      by (intro exI [of _ e] exI [of _ ps'] conjI disjI1 exI [of _ cs] allI)
  next
    assume "e = - 1" "list_chan_prio (pr_eng ps') = prio_list []" "owned_set K (pr_eng ps') = owned_set K (pr_eng ps)"
      "prio_timer ps' = prio_timer ps"
    then show ?thesis using r by (simp add: prio_list_def)
  qed
qed

definition demo_prio :: "unit prio_state" where
  "demo_prio = \<lparr>pr_eng = demo_engine 0, prio_timer = \<lparr>pt_list_chan = False, pt_armed = False, pt_tick = 0,
     overruns_2 = 0, quantum = [0, 0], prio_func_array = []\<rparr>\<rparr>"

theorem priority_policy_all_or_nothing_witness:
  "\<exists>ps'. start_policy_prio2 demo_env 100 50 demo_prio = Inr (- 1, ps') \<and>
     owned_set {0} (pr_eng ps') = owned_set {0} (demo_engine 0)"
proof -
  have "case start_policy_prio2 demo_env 100 50 demo_prio of Inr (e, s') \<Rightarrow> e = - 1 | Inl _ \<Rightarrow> False"
    by code_simp
  then obtain ps' where "start_policy_prio2 demo_env 100 50 demo_prio = Inr (- 1, ps')"
    by (auto split: sum.splits)
  moreover have "eng_inv {0} (pr_eng demo_prio)" using demo_inv [of 0] by (simp add: demo_prio_def)
  ultimately show ?thesis
    using priority_policy_all_or_nothing [OF demo_wf, of "{0}" demo_prio 100 50] by (auto simp: demo_prio_def)
qed

text \<open>
  Stopping the priority policy after a successful start and any number of timer expiries gives
  back exactly the channels the start took, empties the array, disarms the timer and faults
  nowhere.
\<close>

theorem priority_policy_stop_undoes_start:
  assumes "env_wf env" and "eng_inv K (pr_eng ps)" and "start_policy_prio2 env hi lo ps = Inr (4, ps1)"
  shows "\<exists>ps2 ps3. run_callbacks cmds rets ps1 = Inr ps2 \<and> stop_policy_prio env cmds ps2 = Inr ps3 \<and>
    owned_set K (pr_eng ps3) = owned_set K (pr_eng ps) \<and>
    chan_prio (list_chan_prio (pr_eng ps3)) = [None, None, None, None] \<and>
    prio_size (list_chan_prio (pr_eng ps3)) = 0 \<and> \<not> pt_armed (prio_timer ps3)"
proof -
  obtain cs where c: "eng_inv K (pr_eng ps1)" "length cs = 4" "distinct cs"
    "list_chan_prio (pr_eng ps1) = prio_running cs" "owned_set K (pr_eng ps) \<inter> set cs = {}"
    "owned_set K (pr_eng ps1) = owned_set K (pr_eng ps) \<union> set cs" "ticking (prio_timer ps1)"
    using start_prio_cases [OF assms(1,2), of hi lo] assms(3) by (auto simp: ticking_def MAX_QUANTUM_def)
  obtain d pt where r: "run_callbacks cmds rets ps1 = Inr (ps1\<lparr>pr_eng := (pr_eng ps1)\<lparr>drv := d\<rparr>, prio_timer := pt\<rparr>)"
    using run_callbacks_running [OF c(4,2,7)] by blast
  let ?ps2 = "ps1\<lparr>pr_eng := (pr_eng ps1)\<lparr>drv := d\<rparr>, prio_timer := pt\<rparr>"
  have e: "eng_inv K (pr_eng ?ps2)" "owned_set K (pr_eng ?ps2) = owned_set K (pr_eng ps1)"
    using c(1) by (simp_all add: admin_inv [OF drv_admin] admin_owned [OF drv_admin])
  have l: "list_chan_prio (pr_eng ?ps2) = prio_running cs" using c(4) by simp
  have o: "set cs \<subseteq> owned_set K (pr_eng ?ps2)" using e(2) c(6) by simp
  obtain s2 where s2: "stop_policy_prio env cmds ?ps2 = Inr (?ps2\<lparr>pr_eng := s2, prio_timer :=
      (prio_timer ?ps2)\<lparr>pt_armed := False, pt_list_chan := False, pt_tick := 0\<rparr>\<rparr>)"
    "owned_set K s2 = owned_set K (pr_eng ?ps2) - set cs" "chan_prio (list_chan_prio s2) = [None, None, None, None]"
    "prio_size (list_chan_prio s2) = 0"
    using stop_running [OF assms(1) e(1) l c(2,3) o] by blast
  have "owned_set K s2 = owned_set K (pr_eng ps)" using s2(2) e(2) c(5,6) by auto
  note fin = this s2(3,4)
  show ?thesis by (intro exI conjI, rule r, rule s2(1)) (simp_all add: fin)
qed

definition demo_prio4 :: "unit prio_state" where
  "demo_prio4 = demo_prio\<lparr>pr_eng := (demo_engine 0)\<lparr>devs := \<lambda>_. demo_device\<lparr>channels := [4, 5, 6, 7], chancnt := 4\<rparr>\<rparr>\<rparr>"

lemma demo_prio4_inv: "eng_inv {0} (pr_eng demo_prio4)"
  by (simp add: demo_prio4_def eng_inv_def dev_topo_def dev_disc_def dev_private_def dma_has_cap_def)

lemma demo_prio4_start: "\<exists>ps1. start_policy_prio2 demo_env 100 50 demo_prio4 = Inr (4, ps1)"
proof -
  have "case start_policy_prio2 demo_env 100 50 demo_prio4 of Inr (e, s') \<Rightarrow> e = 4 | Inl _ \<Rightarrow> False"
    by code_simp
  then show ?thesis by (auto split: sum.splits)
qed

theorem priority_policy_stop_undoes_start_witness:
  "\<exists>ps1 ps2 ps3. start_policy_prio2 demo_env 100 50 demo_prio4 = Inr (4, ps1) \<and>
     run_callbacks \<lparr>cmd_suspend = (\<lambda>c d. d), cmd_resume = (\<lambda>c d. d)\<rparr> [1, 1, 2] ps1 = Inr ps2 \<and>
     stop_policy_prio demo_env \<lparr>cmd_suspend = (\<lambda>c d. d), cmd_resume = (\<lambda>c d. d)\<rparr> ps2 = Inr ps3 \<and>
     owned_set {0} (pr_eng ps3) = owned_set {0} (pr_eng demo_prio4)"
proof -
  obtain ps1 where ps1: "start_policy_prio2 demo_env 100 50 demo_prio4 = Inr (4, ps1)"
    using demo_prio4_start by blast
  from priority_policy_stop_undoes_start [OF demo_wf demo_prio4_inv ps1,
      of "\<lparr>cmd_suspend = (\<lambda>c d. d), cmd_resume = (\<lambda>c d. d)\<rparr>" "[1, 1, 2]"] ps1
  show ?thesis by blast
qed

lemma raw_copies_return:
  assumes "pages r = Pages ps" and "moderate r" and "rq_len r \<noteq> 0" and "rq_page_count r \<le> length ps"
    and "expired we t" and "ready ok backlog c s" and "maps_succeed me"
  shows "\<exists>k st s'. copy_raw we (dma_async_memcpy_buf_to_pg me env c) c (r\<lparr>rq_chan := Some c\<rparr>) s =
      Some (Inr (0, r\<lparr>rq_chan := Some c, dma_cookie_f := k, rq_status := st\<rparr>, s')) \<and> st \<noteq> DMA_IN_PROGRESS"
    and "\<exists>k st s'. copy_raw we (dma_async_memcpy_pg_to_buf me env c) c (r\<lparr>rq_chan := Some c\<rparr>) s =
      Some (Inr (0, r\<lparr>rq_chan := Some c, dma_cookie_f := k, rq_status := st\<rparr>, s')) \<and> st \<noteq> DMA_IN_PROGRESS"
proof -
  let ?r = "r\<lparr>rq_chan := Some c\<rparr>"
  have f: "pages ?r = Pages ps" "0 < unat (rq_len ?r)" "unat (rq_len ?r) < 2 ^ 31"
    "(unat (user_base ?r) mod 4096 + unat (rq_len ?r) + 4095) div 4096 \<le> length ps"
    using assms(1-4) by (simp_all add: moderate_def rq_page_count_def unat_gt_0)
  show "\<exists>k st s'. copy_raw we (dma_async_memcpy_buf_to_pg me env c) c ?r s =
      Some (Inr (0, r\<lparr>rq_chan := Some c, dma_cookie_f := k, rq_status := st\<rparr>, s')) \<and> st \<noteq> DMA_IN_PROGRESS"
    using copy_raw_returns [OF f assms(5) to_user.polled_transfer_axioms [of me env c ok backlog] assms(6)] by blast
  show "\<exists>k st s'. copy_raw we (dma_async_memcpy_pg_to_buf me env c) c ?r s =
      Some (Inr (0, r\<lparr>rq_chan := Some c, dma_cookie_f := k, rq_status := st\<rparr>, s')) \<and> st \<noteq> DMA_IN_PROGRESS"
    using copy_raw_returns [OF f assms(5) from_user.polled_transfer_axioms [of me env c ok backlog]
      conjI [OF assms(6,7)]] by blast
qed

text \<open>The result every copy routine owes its caller, given the channel it found.\<close>

definition copy_result :: "nat option \<Rightarrow> ('a request_copy_scheme) \<Rightarrow> 'd engine
    \<Rightarrow> (int \<times> 'a request_copy_scheme \<times> 'd engine) outcome option \<Rightarrow> bool" where
  "copy_result cp r s res = (case cp of None \<Rightarrow> res = Some (Inr (- 16, r\<lparr>rq_chan := None\<rparr>, s))
     | Some c \<Rightarrow> (\<exists>k st s'. res = Some (Inr (0, r\<lparr>rq_chan := Some c, dma_cookie_f := k, rq_status := st\<rparr>, s')) \<and>
         st \<noteq> DMA_IN_PROGRESS))"

lemma entry_result:
  assumes "pages r = Pages ps" and "moderate r" and "rq_len r \<noteq> 0" and "rq_page_count r \<le> length ps"
    and "expired we t" and "maps_succeed me" and "\<forall>c. cp = Some c \<longrightarrow> ready ok backlog c s"
  shows "copy_result cp r s (if cp = None then Some (Inr (- 16, r\<lparr>rq_chan := cp\<rparr>, s)) else case cp of
      None \<Rightarrow> Some (Inl Null_Deref) | Some c \<Rightarrow> copy_raw we (dma_async_memcpy_buf_to_pg me env c) c (r\<lparr>rq_chan := cp\<rparr>) s)"
    and "copy_result cp r s (if cp = None then Some (Inr (- 16, r\<lparr>rq_chan := cp\<rparr>, s)) else case cp of
      None \<Rightarrow> Some (Inl Null_Deref) | Some c \<Rightarrow> copy_raw we (dma_async_memcpy_pg_to_buf me env c) c (r\<lparr>rq_chan := cp\<rparr>) s)"
  unfolding copy_result_def
  using raw_copies_return [OF assms(1-5) _ assms(6), of ok backlog _ s env] assms(7)
  by (cases cp; simp)+

text \<open>
  The copy routines of the shared, the exclusive and the priority policy, on pages the caller has
  pinned: each returns zero with a final status on the channel its policy selects, or \<open>-EBUSY\<close> with
  the engine untouched when the policy has none for the caller.
\<close>

theorem policy_copies_complete:
  assumes "pages r = Pages ps" and "moderate r" and "rq_len r \<noteq> 0" and "rq_page_count r \<le> length ps"
    and "pages q = Pages qs" and "moderate q" and "rq_len q \<noteq> 0" and "rq_page_count q \<le> length qs"
    and "\<forall>c. Some c \<in> {copy_dma_get_channel_sh env s, copy_dma_get_channel_excl env s,
        copy_dma_get_channel_prio (rq_priority q) s} \<longrightarrow> ready ok backlog c s"
    and "expired we t" and "maps_succeed me"
  shows "copy_result (copy_dma_get_channel_sh env s) r s (dma_copy_to_user_sh me env we r s) \<and>
    copy_result (copy_dma_get_channel_sh env s) r s (dma_copy_from_user_sh me env we r s) \<and>
    copy_result (copy_dma_get_channel_excl env s) r s (dma_copy_to_user_excl me env we r s) \<and>
    copy_result (copy_dma_get_channel_excl env s) r s (dma_copy_from_user_excl me env we r s) \<and>
    copy_result (copy_dma_get_channel_prio (rq_priority q) s) q s (dma_copy_to_user_prio me env we q s) \<and>
    copy_result (copy_dma_get_channel_prio (rq_priority q) s) q s (dma_copy_from_user_prio me env we q s)"
proof -
  have pos: "0 < n \<longleftrightarrow> n \<noteq> 0" for n :: u64 by (simp add: word_neq_0_conv)
  note defs = dma_copy_to_user_sh_def dma_copy_to_user_excl_def dma_copy_to_user_prio_def
    dma_copy_from_user_sh_def dma_copy_from_user_excl_def dma_copy_from_user_prio_def
    dma_copy_to_user_raw_def dma_copy_from_user_raw_def dma_copy_to_user_raw_prio_def dma_copy_from_user_raw_prio_def
  have r: "\<forall>c. copy_dma_get_channel_sh env s = Some c \<longrightarrow> ready ok backlog c s"
    "\<forall>c. copy_dma_get_channel_excl env s = Some c \<longrightarrow> ready ok backlog c s"
    "\<forall>c. copy_dma_get_channel_prio (rq_priority q) s = Some c \<longrightarrow> ready ok backlog c s"
    using assms(9) by auto
  show ?thesis
    using entry_result [OF assms(1-4,10,11) r(1), of env] entry_result [OF assms(1-4,10,11) r(2), of env]
      entry_result [OF assms(5-8,10,11) r(3), of env] assms(3,7)
    by (simp add: defs pos Let_def split del: if_split cong: if_cong option.case_cong)
qed

theorem policy_copies_complete_witness:
  "\<exists>r' s'. dma_copy_to_user_excl \<lparr>map_single = (\<lambda>_ _ _. 1), map_page = (\<lambda>_ _ _ _. 1)\<rparr> demo_env
     \<lparr>expired = (\<lambda>i. 3 \<le> i), hw = (\<lambda>_ d. d)\<rparr> demo_request (eng demo_excl_kstate) = Some (Inr (0, r', s'))"
proof -
  have "ready (\<lambda>_. True) (\<lambda>_. 0) c (eng demo_excl_kstate)" for c
    by (simp add: ready_def drains_def demo_excl_kstate_def) (simp add: demo_device_def demo_chan_def)
  moreover have "copy_dma_get_channel_excl demo_env (eng demo_excl_kstate) = Some 4"
    by (simp add: copy_dma_get_channel_excl_def copy_aligned_def demo_excl_kstate_def dmaengine_check_align_def)
  ultimately show ?thesis
    using policy_copies_complete [of demo_request "[21, 22, 23]" "(init_req_copy_prio 8000 100000 5000 0)\<lparr>pages := Pages [21, 22, 23]\<rparr>"
        "[21, 22, 23]" demo_env "eng demo_excl_kstate" "\<lambda>_. True" "\<lambda>_. 0" "\<lparr>expired = (\<lambda>i. 3 \<le> i), hw = (\<lambda>_ d. d)\<rparr>" 3
        "\<lparr>map_single = (\<lambda>_ _ _. 1), map_page = (\<lambda>_ _ _ _. 1)\<rparr>"]
    by (auto simp: copy_result_def demo_request_def init_req_copy_def init_req_copy_prio_def moderate_def rq_page_count_def
        maps_succeed_def)
qed

end
