(* ===== verification/Ioat_Channel.thy ===== *)
theory Ioat_Channel
  imports Dma_Memcpy
begin

text \<open>
  The data path of the I/OAT channel driver, \<^verbatim>\<open>src/source/drivers/dma/ioat/dma.c\<close> and
  \<^verbatim>\<open>dma.h\<close>: descriptors and their free and used lists, preparing a copy, submitting it, cleaning
  up finished descriptors, the watchdog timer, allocation and release of the channel resources.
  A channel owns its descriptors, numbers in an explicit store; the lists of the code are lists of
  such numbers. Every routine that runs under the channel's locks is one step; a failed
  \<^verbatim>\<open>spin_trylock\<close> is an argument.

  What the sources do not contain is a parameter, the record \<open>ioat_env\<close>: the cookie helpers of
  \<^verbatim>\<open>drivers/dma/dmaengine.h\<close>, the masks of \<^verbatim>\<open>registers.h\<close> and the results of memory allocation. Register
  writes are recorded: commands, the chain address, acknowledged errors.
\<close>

datatype chancmd = CHANCMD_START | CHANCMD_APPEND | CHANCMD_RESET | CHANCMD_SUSPEND | CHANCMD_RESUME

datatype state_bit = IOAT_COMPLETION_PENDING | IOAT_COMPLETION_ACK | IOAT_RESET_PENDING
  | IOAT_KOBJ_INIT_FAIL | IOAT_RESHAPE_PENDING | IOAT_RUN | IOAT_CHAN_ACTIVE

datatype timeout = COMPLETION_TIMEOUT | IDLE_TIMEOUT | RESET_DELAY

text \<open>The fields of the hardware descriptor that the driver uses; a zero link ends the chain.\<close>

record ioat_dma_descriptor =
  hw_size :: u64
  hw_null :: bool
  hw_int_en :: bool
  hw_compl_write :: bool
  hw_src_addr :: u64
  hw_dst_addr :: u64
  hw_next :: u64
  hw_tx_cnt :: u64

record ioat_desc_sw =
  sw_hw :: ioat_dma_descriptor
  sw_len :: u64
  tx_list :: "nat list"
  sw_cookie :: dma_cookie
  sw_flags :: u32
  sw_callback :: "nat option"
  sw_phys :: u64

text \<open>The completion write-back area: not allocated, allocated, or freed with the pointer left in place.\<close>

datatype completion_ptr = No_Completion | Completion u64 | Freed_Completion

record ioat_dma_chan =
  chan_cookie :: dma_cookie
  completed_cookie :: dma_cookie
  last_completion :: u64
  ic_state :: "state_bit set"
  ic_timer :: "timeout option"
  completion_dma :: u64
  completion :: completion_ptr
  tasklet_enabled :: bool
  tasklet_scheduled :: bool
  xfercap :: u64
  free_desc :: "nat list"
  used_desc :: "nat list"
  pending :: u32
  desccount :: u16
  ic_active :: u16
  descs :: "nat \<Rightarrow> ioat_desc_sw"
  alloc_count :: nat
  pool_live :: "u64 multiset"
  reg_cmds :: "chancmd list"
  reg_chainaddr :: u64
  reg_chanerr :: u32
  chanerr_acks :: "u32 list"
  reg_chancmp :: u64
  reg_run :: bool
  reg_chansts :: u64
  unmapped :: "dma_mapping list"
  called :: "nat list"

text \<open>
  \<open>ck_assign\<close>: the next cookie of a channel; \<open>ck_complete\<close>: the cookies of the channel and of the
  descriptor after a completion; \<open>ck_status\<close>: the status of a cookie against the last completed
  and the last used one. \<open>pool_phys n\<close> and \<open>kz_ok n\<close>: the bus address, or failure, and the success of
  the two allocations of the \<open>n\<close>-th descriptor of the channel.
\<close>

record ioat_env =
  ck_assign :: "dma_cookie \<Rightarrow> dma_cookie"
  ck_complete :: "dma_cookie \<Rightarrow> dma_cookie \<times> dma_cookie"
  ck_status :: "dma_cookie \<Rightarrow> dma_cookie \<Rightarrow> dma_cookie \<Rightarrow> dma_status"
  pool_phys :: "nat \<Rightarrow> u64 option"
  kz_ok :: "nat \<Rightarrow> bool"
  completion_addr :: "u64 option"
  addr_mask :: u64
  status_mask :: u64
  status_halted :: u64
  status_active :: u64
  status_done :: u64
  status_suspended :: u64
  ioat_pending_level :: u32
  ioat_initial_desc_count :: u32

definition upd_desc :: "nat \<Rightarrow> (ioat_desc_sw \<Rightarrow> ioat_desc_sw) \<Rightarrow> ioat_dma_chan \<Rightarrow> ioat_dma_chan" where
  "upd_desc d f io = io\<lparr>descs := (descs io)(d := f (descs io d))\<rparr>"

definition upd_hw :: "nat \<Rightarrow> (ioat_dma_descriptor \<Rightarrow> ioat_dma_descriptor) \<Rightarrow> ioat_dma_chan \<Rightarrow> ioat_dma_chan" where
  "upd_hw d f = upd_desc d (\<lambda>ds. ds\<lparr>sw_hw := f (sw_hw ds)\<rparr>)"

definition set_bit_state :: "state_bit \<Rightarrow> ioat_dma_chan \<Rightarrow> ioat_dma_chan" where
  "set_bit_state b io = io\<lparr>ic_state := insert b (ic_state io)\<rparr>"

definition clear_bit_state :: "state_bit \<Rightarrow> ioat_dma_chan \<Rightarrow> ioat_dma_chan" where
  "clear_bit_state b io = io\<lparr>ic_state := ic_state io - {b}\<rparr>"

definition mod_timer :: "timeout \<Rightarrow> ioat_dma_chan \<Rightarrow> ioat_dma_chan" where
  "mod_timer t io = io\<lparr>ic_timer := Some t\<rparr>"

definition write_cmd :: "chancmd \<Rightarrow> ioat_dma_chan \<Rightarrow> ioat_dma_chan" where
  "write_cmd c io = io\<lparr>reg_cmds := reg_cmds io @ [c]\<rparr>"

subsection \<open>Register helpers of the header\<close>

definition ioat_chansts :: "ioat_dma_chan \<Rightarrow> u64" where
  "ioat_chansts io =
     (let status_lo = ucast (reg_chansts io) :: u32;
          status = ucast (ucast (drop_bit 32 (reg_chansts io)) :: u32) :: u64
      in push_bit 32 status OR ucast status_lo)"

definition ioat_start :: "ioat_dma_chan \<Rightarrow> ioat_dma_chan" where
  "ioat_start = write_cmd CHANCMD_START"

definition ioat_suspend :: "ioat_dma_chan \<Rightarrow> ioat_dma_chan" where
  "ioat_suspend = write_cmd CHANCMD_SUSPEND"

definition ioat_resume :: "ioat_dma_chan \<Rightarrow> ioat_dma_chan" where
  "ioat_resume = write_cmd CHANCMD_RESUME"

definition ioat_reset :: "ioat_dma_chan \<Rightarrow> ioat_dma_chan" where
  "ioat_reset = write_cmd CHANCMD_RESET"

definition ioat_chanerr :: "ioat_dma_chan \<Rightarrow> u32" where
  "ioat_chanerr io = reg_chanerr io"

text \<open>The chain address goes out in two 32-bit halves.\<close>

definition ioat_set_chainaddr :: "u64 \<Rightarrow> ioat_dma_chan \<Rightarrow> ioat_dma_chan" where
  "ioat_set_chainaddr addr io =
     (let lo = ucast (addr AND 0x00000000FFFFFFFF) :: u32; hi = ucast (drop_bit 32 addr) :: u32
      in io\<lparr>reg_chainaddr := push_bit 32 (ucast hi) OR ucast lo\<rparr>)"

definition ioat_chansts_to_addr :: "ioat_env \<Rightarrow> u64 \<Rightarrow> u64" where
  "ioat_chansts_to_addr ie status = status AND addr_mask ie"

definition is_ioat_active :: "ioat_env \<Rightarrow> u64 \<Rightarrow> bool" where
  "is_ioat_active ie status \<longleftrightarrow> status AND status_mask ie = status_active ie"

definition is_ioat_idle :: "ioat_env \<Rightarrow> u64 \<Rightarrow> bool" where
  "is_ioat_idle ie status \<longleftrightarrow> status AND status_mask ie = status_done ie"

definition is_ioat_halted :: "ioat_env \<Rightarrow> u64 \<Rightarrow> bool" where
  "is_ioat_halted ie status \<longleftrightarrow> status AND status_mask ie = status_halted ie"

definition is_ioat_suspended :: "ioat_env \<Rightarrow> u64 \<Rightarrow> bool" where
  "is_ioat_suspended ie status \<longleftrightarrow> status AND status_mask ie = status_suspended ie"

definition ioat_unmap :: "u64 \<Rightarrow> u64 \<Rightarrow> map_dir \<Rightarrow> u32 \<Rightarrow> bool \<Rightarrow> ioat_dma_chan \<Rightarrow> ioat_dma_chan" where
  "ioat_unmap addr n dir flags dst io =
     (if dst \<and> flags AND DMA_COMPL_DEST_UNMAP_SINGLE \<noteq> 0 \<or> \<not> dst \<and> flags AND DMA_COMPL_SRC_UNMAP_SINGLE \<noteq> 0
      then io\<lparr>unmapped := unmapped io @ [(Map_Single, addr, n, dir)]\<rparr>
      else io\<lparr>unmapped := unmapped io @ [(Map_Page, addr, n, dir)]\<rparr>)"

subsection \<open>Issuing and submitting\<close>

definition issue_pending_locked :: "ioat_dma_chan \<Rightarrow> ioat_dma_chan" where
  "issue_pending_locked io = write_cmd CHANCMD_APPEND (io\<lparr>pending := 0\<rparr>)"

definition ioat1_dma_memcpy_issue_pending :: "ioat_dma_chan \<Rightarrow> ioat_dma_chan" where
  "ioat1_dma_memcpy_issue_pending io = (if 0 < sint (pending io) then issue_pending_locked io else io)"

definition ioat1_reset_channel :: "ioat_dma_chan \<Rightarrow> ioat_dma_chan" where
  "ioat1_reset_channel io =
     (let chanerr = reg_chanerr io;
          io1 = (if chanerr \<noteq> 0 then io\<lparr>chanerr_acks := chanerr_acks io @ [chanerr]\<rparr> else io);
          io2 = write_cmd CHANCMD_RESET (io1\<lparr>pending := 0x80000000\<rparr>)
      in mod_timer RESET_DELAY (set_bit_state IOAT_RESET_PENDING io2))"

text \<open>The second half of a submission: the watchdog, the counters and the push to the hardware.\<close>

definition submit_account :: "ioat_env \<Rightarrow> nat \<Rightarrow> ioat_dma_chan \<Rightarrow> ioat_dma_chan" where
  "submit_account ie desc io =
     (let io1 = (if IOAT_COMPLETION_PENDING \<notin> ic_state io
                 then mod_timer COMPLETION_TIMEOUT (set_bit_state IOAT_COMPLETION_PENDING io) else io);
          cnt = hw_tx_cnt (sw_hw (descs io1 desc));
          io2 = io1\<lparr>ic_active := ic_active io1 + ucast cnt, pending := pending io1 + ucast cnt\<rparr>
      in if sint (ioat_pending_level ie) \<le> sint (pending io2) then issue_pending_locked io2 else io2)"

definition ioat1_tx_submit :: "ioat_env \<Rightarrow> nat \<Rightarrow> ioat_dma_chan \<Rightarrow> (dma_cookie \<times> ioat_dma_chan) outcome" where
  "ioat1_tx_submit ie desc io =
     (let cookie = ck_assign ie (chan_cookie io);
          io1 = upd_desc desc (\<lambda>d. d\<lparr>sw_cookie := cookie\<rparr>) (io\<lparr>chan_cookie := cookie\<rparr>)
      in if tx_list (descs io1 desc) = [] \<or> used_desc io1 = [] then Inl Out_Of_Bounds
      else
        let first = hd (tx_list (descs io1 desc));
            chain_tail = last (used_desc io1);
            io2 = upd_hw chain_tail (\<lambda>h. h\<lparr>hw_next := sw_phys (descs io1 first)\<rparr>) io1;
            io3 = upd_desc desc (\<lambda>d. d\<lparr>tx_list := []\<rparr>)
                    (io2\<lparr>used_desc := used_desc io2 @ tx_list (descs io2 desc)\<rparr>)
        in Inr (cookie, submit_account ie desc io3))"

subsection \<open>Descriptors\<close>

definition fresh_desc :: "u64 \<Rightarrow> ioat_desc_sw" where
  "fresh_desc phys = \<lparr>sw_hw = \<lparr>hw_size = 0, hw_null = False, hw_int_en = False, hw_compl_write = False,
       hw_src_addr = 0, hw_dst_addr = 0, hw_next = 0, hw_tx_cnt = 0\<rparr>,
     sw_len = 0, tx_list = [], sw_cookie = 0, sw_flags = 0, sw_callback = None, sw_phys = phys\<rparr>"

definition ioat_dma_alloc_descriptor :: "ioat_env \<Rightarrow> ioat_dma_chan \<Rightarrow> nat option \<times> ioat_dma_chan" where
  "ioat_dma_alloc_descriptor ie io =
     (let n = alloc_count io; io1 = io\<lparr>alloc_count := n + 1\<rparr> in
      case pool_phys ie n of None \<Rightarrow> (None, io1)
      | Some phys \<Rightarrow>
          let io2 = io1\<lparr>pool_live := add_mset phys (pool_live io1)\<rparr> in
          if \<not> kz_ok ie n then (None, io2\<lparr>pool_live := pool_live io2 - {#phys#}\<rparr>)
          else (Some n, upd_desc n (\<lambda>_. fresh_desc phys) io2))"

definition ioat1_dma_get_next_descriptor :: "ioat_env \<Rightarrow> ioat_dma_chan \<Rightarrow> nat option \<times> ioat_dma_chan" where
  "ioat1_dma_get_next_descriptor ie io = (case free_desc io of
       d # ds \<Rightarrow> (Some d, io\<lparr>free_desc := ds\<rparr>)
     | [] \<Rightarrow> ioat_dma_alloc_descriptor ie io)"

text \<open>The loop of \<open>ioat1_dma_prep_memcpy\<close>: the last descriptor, the chain, the count and the channel.\<close>

definition set_copy :: "u64 \<Rightarrow> u64 \<Rightarrow> u64 \<Rightarrow> ioat_dma_descriptor \<Rightarrow> ioat_dma_descriptor" where
  "set_copy copy src dest h = h\<lparr>hw_size := copy, hw_null := False, hw_int_en := False, hw_compl_write := False,
     hw_src_addr := src, hw_dst_addr := dest\<rparr>"

partial_function (option) prep_loop :: "ioat_env \<Rightarrow> nat option \<Rightarrow> u64 \<Rightarrow> u64 \<Rightarrow> u64 \<Rightarrow> nat \<Rightarrow> nat list
    \<Rightarrow> ioat_dma_chan \<Rightarrow> (nat option \<times> nat list \<times> nat \<times> ioat_dma_chan) option" where
  [code]: "prep_loop ie desc n src dest tx_cnt chain io = (case desc of
       None \<Rightarrow> Some (None, chain, tx_cnt, io)
     | Some d \<Rightarrow>
         let copy = min n (xfercap io);
             io1 = upd_hw d (set_copy copy src dest) io
         in if n - copy \<noteq> 0 then
              case ioat1_dma_get_next_descriptor ie
                     (upd_desc d (\<lambda>ds. ds\<lparr>sw_flags := async_tx_ack (sw_flags ds)\<rparr>) io1) of
                (nxt, io2) \<Rightarrow> prep_loop ie nxt (n - copy) (src + copy) (dest + copy) (tx_cnt + 1) (chain @ [d])
                  (upd_hw d (\<lambda>h. h\<lparr>hw_next := (case nxt of None \<Rightarrow> 0 | Some e \<Rightarrow> sw_phys (descs io2 e))\<rparr>) io2)
            else Some (Some d, chain @ [d], tx_cnt + 1, upd_hw d (\<lambda>h. h\<lparr>hw_next := 0\<rparr>) io1))"

definition ioat1_dma_prep_memcpy :: "ioat_env \<Rightarrow> u64 \<Rightarrow> u64 \<Rightarrow> u64 \<Rightarrow> u32 \<Rightarrow> ioat_dma_chan
    \<Rightarrow> (nat option \<times> ioat_dma_chan) option" where
  "ioat1_dma_prep_memcpy ie dma_dest dma_src n flags io =
     (case ioat1_dma_get_next_descriptor ie io of (desc, io1) \<Rightarrow>
        case prep_loop ie desc n dma_src dma_dest 0 [] io1 of None \<Rightarrow> None
        | Some (None, chain, tx_cnt, io2) \<Rightarrow> Some (None, io2\<lparr>free_desc := chain @ free_desc io2\<rparr>)
        | Some (Some d, chain, tx_cnt, io2) \<Rightarrow> Some (Some d,
            upd_hw d (\<lambda>h. h\<lparr>hw_int_en := (flags AND DMA_PREP_INTERRUPT \<noteq> 0), hw_compl_write := True,
                hw_tx_cnt := of_nat tx_cnt\<rparr>)
              (upd_desc d (\<lambda>ds. ds\<lparr>sw_flags := flags, sw_len := n, tx_list := chain @ tx_list ds\<rparr>) io2)))"

subsection \<open>Completion\<close>

definition ioat_dma_unmap :: "u32 \<Rightarrow> u64 \<Rightarrow> ioat_dma_descriptor \<Rightarrow> ioat_dma_chan \<Rightarrow> ioat_dma_chan" where
  "ioat_dma_unmap flags n hwd io =
     (let offset = n - hw_size hwd;
          io1 = (if flags AND DMA_COMPL_SKIP_DEST_UNMAP = 0
                 then ioat_unmap (hw_dst_addr hwd - offset) n From_Device flags True io else io)
      in if flags AND DMA_COMPL_SKIP_SRC_UNMAP = 0
         then ioat_unmap (hw_src_addr hwd - offset) n To_Device flags False io1 else io1)"

definition ioat_get_current_completion :: "ioat_env \<Rightarrow> ioat_dma_chan \<Rightarrow> u64 outcome" where
  "ioat_get_current_completion ie io = (case completion io of No_Completion \<Rightarrow> Inl Null_Deref
     | Freed_Completion \<Rightarrow> Inl Use_After_Free
     | Completion c \<Rightarrow> Inr (ioat_chansts_to_addr ie c))"

text \<open>The new completion address, if there is progress, and the channel.\<close>

definition ioat_cleanup_preamble :: "ioat_env \<Rightarrow> ioat_dma_chan \<Rightarrow> (u64 option \<times> ioat_dma_chan) outcome" where
  "ioat_cleanup_preamble ie io = seq_ok (ioat_get_current_completion ie io) (\<lambda>phys_complete.
     if phys_complete = last_completion io then Inr (None, io)
     else Inr (Some phys_complete, mod_timer COMPLETION_TIMEOUT (clear_bit_state IOAT_COMPLETION_ACK io)))"

definition complete_desc :: "ioat_env \<Rightarrow> nat \<Rightarrow> ioat_dma_chan \<Rightarrow> ioat_dma_chan" where
  "complete_desc ie d io =
     (let ds = descs io d in
      if sw_cookie ds \<noteq> 0 then
        case ck_complete ie (sw_cookie ds) of (done_cookie, tx_cookie) \<Rightarrow>
          let io1 = upd_desc d (\<lambda>ds. ds\<lparr>sw_cookie := tx_cookie\<rparr>) (io\<lparr>completed_cookie := done_cookie\<rparr>);
              io2 = ioat_dma_unmap (sw_flags ds) (sw_len ds) (sw_hw ds) io1;
              io3 = io2\<lparr>ic_active := ic_active io2 - ucast (hw_tx_cnt (sw_hw ds))\<rparr>
          in case sw_callback ds of None \<Rightarrow> io3
             | Some cb \<Rightarrow> upd_desc d (\<lambda>ds. ds\<lparr>sw_callback := None\<rparr>) (io3\<lparr>called := called io3 @ [cb]\<rparr>)
      else io)"

fun cleanup_loop :: "ioat_env \<Rightarrow> u64 \<Rightarrow> nat list \<Rightarrow> ioat_dma_chan \<Rightarrow> ioat_dma_chan" where
  "cleanup_loop ie pc [] io = io"
| "cleanup_loop ie pc (d # ds) io =
     (let io1 = complete_desc ie d io in
      if sw_phys (descs io1 d) \<noteq> pc then
        cleanup_loop ie pc ds
          (if async_tx_test_ack (sw_flags (descs io1 d))
           then io1\<lparr>used_desc := remove1 d (used_desc io1), free_desc := free_desc io1 @ [d]\<rparr> else io1)
      else if ds = [] then clear_bit_state IOAT_COMPLETION_PENDING io1 else io1)"

definition cleanup_locked :: "ioat_env \<Rightarrow> u64 \<Rightarrow> ioat_dma_chan \<Rightarrow> ioat_dma_chan" where
  "cleanup_locked ie phys_complete io =
     (cleanup_loop ie phys_complete (used_desc io) io)\<lparr>last_completion := phys_complete\<rparr>"

definition ioat1_cleanup :: "ioat_env \<Rightarrow> bool \<Rightarrow> bool \<Rightarrow> ioat_dma_chan \<Rightarrow> ioat_dma_chan outcome" where
  "ioat1_cleanup ie cleanup_lock desc_lock io =
     (if \<not> cleanup_lock then Inr io
      else seq_ok (ioat_cleanup_preamble ie io) (\<lambda>(pc, io1). case pc of None \<Rightarrow> Inr io1
        | Some phys_complete \<Rightarrow> if \<not> desc_lock then Inr io1 else Inr (cleanup_locked ie phys_complete io1)))"

definition ioat1_cleanup_event :: "ioat_env \<Rightarrow> bool \<Rightarrow> bool \<Rightarrow> ioat_dma_chan \<Rightarrow> ioat_dma_chan outcome" where
  "ioat1_cleanup_event ie cl dl io = seq_ok (ioat1_cleanup ie cl dl io) (\<lambda>io1. Inr (io1\<lparr>reg_run := True\<rparr>))"

definition ioat1_timer_event :: "ioat_env \<Rightarrow> ioat_dma_chan \<Rightarrow> ioat_dma_chan outcome" where
  "ioat1_timer_event ie io =
     (if IOAT_RESET_PENDING \<in> ic_state io then
        let io1 = clear_bit_state IOAT_RESET_PENDING io in
        (case used_desc io1 of [] \<Rightarrow> Inl Out_Of_Bounds
         | u # us \<Rightarrow>
             let desc = last (u # us);
                 io2 = ioat_start (ioat_set_chainaddr (sw_phys (descs io1 desc)) io1)
             in Inr (mod_timer COMPLETION_TIMEOUT (set_bit_state IOAT_COMPLETION_PENDING (io2\<lparr>pending := 0\<rparr>))))
      else if IOAT_COMPLETION_PENDING \<in> ic_state io then
        seq_ok (ioat_cleanup_preamble ie io) (\<lambda>(pc, io1). case pc of
            Some phys_complete \<Rightarrow> Inr (cleanup_locked ie phys_complete io1)
          | None \<Rightarrow>
              if IOAT_COMPLETION_ACK \<in> ic_state io1 then Inr (ioat1_reset_channel io1)
              else let status = ioat_chansts io1;
                       io2 = (if ioat_chansts_to_addr ie status \<noteq> 0 then io1\<lparr>completion := Completion status\<rparr> else io1)
                   in Inr (mod_timer COMPLETION_TIMEOUT (set_bit_state IOAT_COMPLETION_ACK io2)))
      else Inr io)"

definition ioat_dma_tx_status :: "ioat_env \<Rightarrow> bool \<Rightarrow> bool \<Rightarrow> dma_cookie \<Rightarrow> ioat_dma_chan
    \<Rightarrow> (dma_status \<times> ioat_dma_chan) outcome" where
  "ioat_dma_tx_status ie cl dl cookie io =
     (let ret = ck_status ie cookie (completed_cookie io) (chan_cookie io) in
      if ret = DMA_SUCCESS then Inr (ret, io)
      else seq_ok (ioat1_cleanup_event ie cl dl io) (\<lambda>io1.
        Inr (ck_status ie cookie (completed_cookie io1) (chan_cookie io1), io1)))"

subsection \<open>Channel resources\<close>

definition ioat1_dma_start_null_desc :: "ioat_env \<Rightarrow> ioat_dma_chan \<Rightarrow> ioat_dma_chan" where
  "ioat1_dma_start_null_desc ie io = (case ioat1_dma_get_next_descriptor ie io of
       (None, io1) \<Rightarrow> io1
     | (Some d, io1) \<Rightarrow>
         let io2 = upd_hw d (\<lambda>h. h\<lparr>hw_null := True, hw_int_en := True, hw_compl_write := True, hw_size := 1,
                     hw_src_addr := 0, hw_dst_addr := 0, hw_next := 0\<rparr>) io1;
             io3 = upd_desc d (\<lambda>ds. ds\<lparr>sw_flags := async_tx_ack (sw_flags ds)\<rparr>) io2;
             io4 = io3\<lparr>used_desc := used_desc io3 @ [d]\<rparr>
         in ioat_start (ioat_set_chainaddr (sw_phys (descs io4 d)) io4))"

fun alloc_descs :: "ioat_env \<Rightarrow> nat \<Rightarrow> nat list \<Rightarrow> ioat_dma_chan \<Rightarrow> nat list \<times> ioat_dma_chan" where
  "alloc_descs ie 0 acc io = (acc, io)"
| "alloc_descs ie (Suc n) acc io = (case ioat_dma_alloc_descriptor ie io of
       (None, io1) \<Rightarrow> (acc, io1)
     | (Some d, io1) \<Rightarrow> alloc_descs ie n (acc @ [d]) io1)"

definition ioat1_dma_alloc_chan_resources :: "ioat_env \<Rightarrow> ioat_dma_chan \<Rightarrow> (nat \<times> ioat_dma_chan) outcome" where
  "ioat1_dma_alloc_chan_resources ie io =
     (if free_desc io \<noteq> [] then Inr (unat (desccount io), io)
      else
        let io1 = io\<lparr>reg_run := True\<rparr>;
            chanerr = reg_chanerr io1;
            io2 = (if chanerr \<noteq> 0 then io1\<lparr>chanerr_acks := chanerr_acks io1 @ [chanerr]\<rparr> else io1)
        in case alloc_descs ie (nat (sint (ioat_initial_desc_count ie))) [] io2 of (tmp_list, io3) \<Rightarrow>
          let io4 = io3\<lparr>desccount := of_nat (length tmp_list), free_desc := tmp_list @ free_desc io3\<rparr> in
          case completion_addr ie of None \<Rightarrow> Inl Null_Deref
          | Some a \<Rightarrow>
              let io5 = io4\<lparr>completion := Completion 0, completion_dma := a,
                    reg_chancmp := push_bit 32 (ucast (ucast (drop_bit 32 a) :: u32))
                      OR ucast (ucast (a AND 0x00000000FFFFFFFF) :: u32)\<rparr>;
                  io6 = ioat1_dma_start_null_desc ie (io5\<lparr>tasklet_enabled := True\<rparr>)
              in Inr (unat (desccount io6), io6))"

fun free_descs :: "nat list \<Rightarrow> ioat_dma_chan \<Rightarrow> ioat_dma_chan" where
  "free_descs [] io = io"
| "free_descs (d # ds) io = free_descs ds (io\<lparr>pool_live := pool_live io - {#sw_phys (descs io d)#}\<rparr>)"

definition ioat1_dma_free_chan_resources :: "ioat_env \<Rightarrow> bool \<Rightarrow> bool \<Rightarrow> ioat_dma_chan \<Rightarrow> ioat_dma_chan outcome" where
  "ioat1_dma_free_chan_resources ie cl dl io =
     (if desccount io = 0 then Inr io
      else seq_ok (ioat1_cleanup ie cl dl (io\<lparr>tasklet_enabled := False, ic_timer := None\<rparr>)) (\<lambda>io1.
        let io2 = write_cmd CHANCMD_RESET io1;
            io3 = (free_descs (used_desc io2) io2)\<lparr>used_desc := []\<rparr>;
            io4 = (free_descs (free_desc io3) io3)\<lparr>free_desc := []\<rparr>
        in Inr (io4\<lparr>completion := Freed_Completion, last_completion := 0, completion_dma := 0, pending := 0, desccount := 0\<rparr>)))"

end
