(* ===== verification/Ioat_Prep.thy ===== *)
theory Ioat_Prep
  imports Ioat_Channel
begin

text \<open>
  Descriptors of an I/OAT channel are never lost or shared: the invariant of the descriptor lists,
  what allocation and preparation keep of it, and the shape of the chain a prepared copy has.
\<close>

subsection \<open>The descriptor invariant\<close>

definition idle_desc :: "ioat_desc_sw \<Rightarrow> bool" where
  "idle_desc ds \<longleftrightarrow> tx_list ds = [] \<and> sw_cookie ds = 0 \<and> sw_callback ds = None"

text \<open>
  \<open>R\<close> lists the descriptors that are not free, used or being prepared. Free descriptors are idle, no
  descriptor is on two lists, all were handed out by the allocator, and the memory pool holds
  exactly their hardware halves.
\<close>

definition desc_wf :: "ioat_env \<Rightarrow> ioat_dma_chan \<Rightarrow> nat list \<Rightarrow> bool" where
  "desc_wf ie io R \<longleftrightarrow> distinct (R @ free_desc io) \<and>
     (\<forall>x \<in> set (R @ free_desc io). x < alloc_count io \<and> pool_phys ie x = Some (sw_phys (descs io x))) \<and>
     (\<forall>x \<in> set (free_desc io). idle_desc (descs io x)) \<and>
     pool_live io = mset (map (\<lambda>x. sw_phys (descs io x)) (R @ free_desc io))"

text \<open>Everything of a channel but the descriptor store, the free list and the allocator.\<close>

definition core :: "ioat_dma_chan \<Rightarrow> ioat_dma_chan" where
  "core io = io\<lparr>free_desc := [], descs := (\<lambda>_. fresh_desc 0), alloc_count := 0, pool_live := {#}\<rparr>"

lemma core_eqD:
  assumes "core io' = core io"
  shows "used_desc io' = used_desc io" "xfercap io' = xfercap io" "pending io' = pending io"
    "ic_state io' = ic_state io" "ic_active io' = ic_active io" "chan_cookie io' = chan_cookie io"
    "desccount io' = desccount io" "unmapped io' = unmapped io" "completion io' = completion io"
    "last_completion io' = last_completion io" "completed_cookie io' = completed_cookie io"
    "reg_cmds io' = reg_cmds io"
  using arg_cong [OF assms, of used_desc] arg_cong [OF assms, of xfercap] arg_cong [OF assms, of pending]
    arg_cong [OF assms, of ic_state] arg_cong [OF assms, of ic_active] arg_cong [OF assms, of chan_cookie]
    arg_cong [OF assms, of desccount] arg_cong [OF assms, of unmapped] arg_cong [OF assms, of completion]
    arg_cong [OF assms, of last_completion] arg_cong [OF assms, of completed_cookie] arg_cong [OF assms, of reg_cmds]
  by (simp_all add: core_def)

lemma core_upd [simp]:
  "core (upd_desc d f io) = core io" "core (upd_hw d g io) = core io" "core (io\<lparr>free_desc := fs\<rparr>) = core io"
  by (simp_all add: core_def upd_desc_def upd_hw_def)

lemma upd_desc_fields [simp]:
  "free_desc (upd_desc d f io) = free_desc io" "alloc_count (upd_desc d f io) = alloc_count io"
  "pool_live (upd_desc d f io) = pool_live io" "xfercap (upd_desc d f io) = xfercap io"
  "used_desc (upd_desc d f io) = used_desc io"
  "descs (upd_desc d f io) = (descs io)(d := f (descs io d))"
  by (simp_all add: upd_desc_def)

lemma upd_hw_fields [simp]:
  "free_desc (upd_hw d g io) = free_desc io" "alloc_count (upd_hw d g io) = alloc_count io"
  "pool_live (upd_hw d g io) = pool_live io" "xfercap (upd_hw d g io) = xfercap io"
  "used_desc (upd_hw d g io) = used_desc io"
  "descs (upd_hw d g io) = (descs io)(d := (descs io d)\<lparr>sw_hw := g (sw_hw (descs io d))\<rparr>)"
  by (simp_all add: upd_hw_def)

lemma idle_desc_upd [simp]:
  "idle_desc (ds\<lparr>sw_hw := h\<rparr>) = idle_desc ds" "idle_desc (ds\<lparr>sw_flags := fl\<rparr>) = idle_desc ds"
  by (simp_all add: idle_desc_def)

lemma desc_wf_upd:
  assumes "desc_wf ie io R" and "d \<notin> set (free_desc io)" and "sw_phys (f (descs io d)) = sw_phys (descs io d)"
  shows "desc_wf ie (upd_desc d f io) R"
proof -
  have p: "sw_phys (descs (upd_desc d f io) x) = sw_phys (descs io x)" for x
    using assms(3) by simp
  have i: "idle_desc (descs (upd_desc d f io) x) = idle_desc (descs io x)" if "x \<in> set (free_desc io)" for x
    using that assms(2) by auto
  show ?thesis using assms(1) i unfolding desc_wf_def p by simp
qed

lemma desc_wf_upd_hw:
  "desc_wf ie io R \<Longrightarrow> d \<notin> set (free_desc io) \<Longrightarrow> desc_wf ie (upd_hw d g io) R"
  unfolding upd_hw_def by (rule desc_wf_upd) simp_all

lemma desc_wf_perm:
  assumes "desc_wf ie io R" and "mset R' = mset R"
  shows "desc_wf ie io R'"
proof -
  have "mset (R' @ free_desc io) = mset (R @ free_desc io)" using assms(2) by simp
  note dist = mset_eq_imp_distinct_iff [OF this] and sets = mset_eq_setD [OF this]
  have m: "mset (map (\<lambda>x. sw_phys (descs io x)) (R' @ free_desc io)) =
      mset (map (\<lambda>x. sw_phys (descs io x)) (R @ free_desc io))"
    using assms(2) by simp
  show ?thesis using assms(1) unfolding desc_wf_def dist sets m .
qed

lemma get_next_wf:
  assumes "desc_wf ie io R" and "ioat1_dma_get_next_descriptor ie io = (r, io')"
  shows "core io' = core io \<and> (\<forall>x \<in> set R. descs io' x = descs io x) \<and>
    (case r of None \<Rightarrow> desc_wf ie io' R
     | Some e \<Rightarrow> desc_wf ie io' (e # R) \<and> idle_desc (descs io' e))"
proof (cases "free_desc io")
  case (Cons d ds)
  then have "r = Some d" "io' = io\<lparr>free_desc := ds\<rparr>"
    using assms(2) by (simp_all add: ioat1_dma_get_next_descriptor_def)
  then show ?thesis using assms(1) Cons by (auto simp: desc_wf_def)
next
  case Nil
  let ?n = "alloc_count io"
  have al: "ioat_dma_alloc_descriptor ie io = (r, io')"
    using assms(2) Nil by (simp add: ioat1_dma_get_next_descriptor_def)
  have new: "?n \<notin> set R" using assms(1) by (auto simp: desc_wf_def)
  show ?thesis
  proof (cases r)
    case None
    then have "io' = io\<lparr>alloc_count := ?n + 1\<rparr>"
      using al by (auto simp: ioat_dma_alloc_descriptor_def Let_def split: option.splits if_splits)
    then show ?thesis using None assms(1) by (auto simp: desc_wf_def core_def less_Suc_eq)
  next
    case (Some e)
    then obtain phys where ph: "pool_phys ie ?n = Some phys" "e = ?n"
      and io': "io' = io\<lparr>alloc_count := ?n + 1, pool_live := add_mset phys (pool_live io),
        descs := (descs io)(?n := fresh_desc phys)\<rparr>"
      using al by (auto simp: ioat_dma_alloc_descriptor_def Let_def upd_desc_def split: option.splits if_splits)
    have same: "map (\<lambda>x. sw_phys (descs io' x)) R = map (\<lambda>x. sw_phys (descs io x)) R"
      using new io' by (auto intro: map_cong)
    have "pool_live io' = add_mset phys (mset (map (\<lambda>x. sw_phys (descs io x)) R))"
      using assms(1) Nil by (simp add: desc_wf_def io')
    also have "\<dots> = mset (map (\<lambda>x. sw_phys (descs io' x)) (?n # R))"
      by (simp only: same list.map mset.simps) (simp add: io' fresh_desc_def)
    finally have pl: "pool_live io' = mset (map (\<lambda>x. sw_phys (descs io' x)) (?n # R))" .
    have "\<forall>x \<in> set (?n # R). x < alloc_count io' \<and> pool_phys ie x = Some (sw_phys (descs io' x))"
      using assms(1) Nil new ph(1) by (auto simp: desc_wf_def io' fresh_desc_def less_Suc_eq)
    then have "desc_wf ie io' (?n # R)"
      using assms(1) Nil new pl unfolding desc_wf_def by (simp add: io')
    then show ?thesis using Some ph new by (auto simp: io' core_def fresh_desc_def idle_desc_def)
  qed
qed

subsection \<open>The chain of a prepared copy\<close>

text \<open>
  A chain that copies \<open>n\<close> bytes: full pieces of the transfer capacity, each acknowledged and linked to
  the next, and a last piece with the rest and no link.
\<close>

fun chain_ok :: "u64 \<Rightarrow> (nat \<Rightarrow> ioat_desc_sw) \<Rightarrow> nat list \<Rightarrow> u64 \<Rightarrow> u64 \<Rightarrow> u64 \<Rightarrow> bool" where
  "chain_ok cap h [] n src dest \<longleftrightarrow> False"
| "chain_ok cap h [d] n src dest \<longleftrightarrow> n \<le> cap \<and> hw_size (sw_hw (h d)) = n \<and> hw_src_addr (sw_hw (h d)) = src \<and>
     hw_dst_addr (sw_hw (h d)) = dest \<and> hw_next (sw_hw (h d)) = 0 \<and> \<not> hw_null (sw_hw (h d))"
| "chain_ok cap h (d # e # ds) n src dest \<longleftrightarrow> cap < n \<and> hw_size (sw_hw (h d)) = cap \<and>
     hw_src_addr (sw_hw (h d)) = src \<and> hw_dst_addr (sw_hw (h d)) = dest \<and>
     hw_next (sw_hw (h d)) = sw_phys (h e) \<and> \<not> hw_null (sw_hw (h d)) \<and> async_tx_test_ack (sw_flags (h d)) \<and>
     chain_ok cap h (e # ds) (n - cap) (src + cap) (dest + cap)"

lemma chain_ok_cong:
  assumes "\<And>x. x \<in> set ch \<Longrightarrow> h' x = h x"
  shows "chain_ok cap h' ch n src dest = chain_ok cap h ch n src dest"
  using assms by (induction cap h ch n src dest rule: chain_ok.induct) simp_all

lemma test_ack_ack: "async_tx_test_ack (async_tx_ack fl)"
  by (simp add: async_tx_test_ack_def async_tx_ack_def)

lemma prep_loop_ok:
  assumes "desc_wf ie io (d # R)" and "xfercap io = cap" and "cap \<noteq> 0" and "idle_desc (descs io d)"
  shows "\<exists>r ch io'. prep_loop ie (Some d) n src dest k pre io = Some (r, pre @ ch, k + length ch, io') \<and>
    core io' = core io \<and> desc_wf ie io' (ch @ R) \<and> (\<forall>x \<in> set R. descs io' x = descs io x) \<and>
    (\<forall>x \<in> set ch. idle_desc (descs io' x)) \<and> ch \<noteq> [] \<and> hd ch = d \<and>
    (case r of None \<Rightarrow> True | Some l \<Rightarrow> l = last ch \<and> chain_ok cap (descs io') ch n src dest)"
  using assms(1,2,4)
proof (induction "unat n" arbitrary: d n src dest k pre io R rule: less_induct)
  case less
  let ?copy = "min n cap"
  let ?io1 = "upd_hw d (set_copy ?copy src dest) io"
  have dn: "d \<notin> set (free_desc io)" "d \<notin> set R" using less.prems(1) by (auto simp: desc_wf_def)
  show ?case
  proof (cases "n \<le> cap")
    case True
    let ?io2 = "upd_hw d (\<lambda>h. h\<lparr>hw_next := 0\<rparr>) ?io1"
    have "desc_wf ie ?io2 (d # R)"
      by (intro desc_wf_upd_hw) (use less.prems(1) dn in simp_all)
    moreover have "prep_loop ie (Some d) n src dest k pre io = Some (Some d, pre @ [d], k + 1, ?io2)"
      using True less.prems(2) by (subst prep_loop.simps) (simp add: Let_def)
    ultimately show ?thesis
      using True dn less.prems(3)
      by (intro exI [of _ "Some d"] exI [of _ "[d]"] exI [of _ ?io2]) (auto simp: set_copy_def)
  next
    case False
    then have mc: "?copy = cap" and lt: "cap < n" by (auto simp: min_def)
    let ?io2 = "upd_desc d (\<lambda>ds. ds\<lparr>sw_flags := async_tx_ack (sw_flags ds)\<rparr>) ?io1"
    have w2: "desc_wf ie ?io2 (d # R)"
      by (rule desc_wf_upd [OF desc_wf_upd_hw [OF less.prems(1) dn(1)]]) (use dn in simp_all)
    obtain nxt io3 where g: "ioat1_dma_get_next_descriptor ie ?io2 = (nxt, io3)"
      by (cases "ioat1_dma_get_next_descriptor ie ?io2")
    let ?link = "case nxt of None \<Rightarrow> 0 | Some e \<Rightarrow> sw_phys (descs io3 e)"
    let ?io4 = "upd_hw d (\<lambda>h. h\<lparr>hw_next := ?link\<rparr>) io3"
    have nz: "n - cap \<noteq> 0" using lt by auto
    have run: "prep_loop ie (Some d) n src dest k pre io =
        prep_loop ie nxt (n - cap) (src + cap) (dest + cap) (k + 1) (pre @ [d]) ?io4"
      using mc g nz less.prems(2) by (subst prep_loop.simps) (simp add: Let_def)
    note gw = get_next_wf [OF w2 g]
    have c3: "core io3 = core io" using gw by simp
    have d3: "descs io3 d = descs ?io2 d" using gw by simp
    have R3: "\<forall>x \<in> set R. descs io3 x = descs io x" using gw dn(2) by auto
    show ?thesis
    proof (cases nxt)
      case None
      then have "desc_wf ie ?io4 ([d] @ R)" using gw by (intro desc_wf_upd_hw) (auto simp: desc_wf_def)
      then show ?thesis
        using None run c3 R3 d3 dn less.prems(3)
        by (intro exI [of _ None] exI [of _ "[d]"] exI [of _ ?io4]) (auto simp: prep_loop.simps)
    next
      case (Some e)
      have w3: "desc_wf ie io3 (e # d # R)" "idle_desc (descs io3 e)" using gw Some by simp_all
      have ed: "e \<noteq> d" using w3(1) by (auto simp: desc_wf_def)
      have w4: "desc_wf ie ?io4 (e # d # R)"
        using w3(1) by (intro desc_wf_upd_hw) (auto simp: desc_wf_def)
      have sm: "unat (n - cap) < unat n"
      proof -
        have "unat (n - cap) = unat n - unat cap" using lt by (intro unat_diff_small) (simp add: word_less_nat_alt)
        moreover have "0 < unat cap" using assms(3) by (simp add: unat_gt_0)
        moreover have "unat cap < unat n" using lt by (simp add: word_less_nat_alt)
        ultimately show ?thesis by simp
      qed
      have cap4: "xfercap ?io4 = cap" using core_eqD(2) [OF c3] less.prems(2) by simp
      have idle4: "idle_desc (descs ?io4 e)" using w3(2) ed by simp
      obtain r ch io' where ih: "prep_loop ie (Some e) (n - cap) (src + cap) (dest + cap) (k + 1) (pre @ [d]) ?io4 =
          Some (r, (pre @ [d]) @ ch, k + 1 + length ch, io')" "core io' = core ?io4" "desc_wf ie io' (ch @ d # R)"
        "\<forall>x \<in> set (d # R). descs io' x = descs ?io4 x" "\<forall>x \<in> set ch. idle_desc (descs io' x)" "ch \<noteq> []" "hd ch = e"
        "case r of None \<Rightarrow> True | Some l \<Rightarrow> l = last ch \<and> chain_ok cap (descs io') ch (n - cap) (src + cap) (dest + cap)"
        using less.hyps [OF sm w4 cap4 idle4, of "src + cap" "dest + cap" "k + 1" "pre @ [d]"] by blast
      obtain ch' where ch: "ch = e # ch'" using ih(6,7) by (cases ch) auto
      have w': "desc_wf ie io' ((d # ch) @ R)" using desc_wf_perm [OF ih(3)] by simp
      have dd: "descs io' d = descs ?io4 d" using ih(4) by simp
      have pe: "sw_phys (descs io' e) = sw_phys (descs io3 e)"
      proof -
        have "pool_phys ie e = Some (sw_phys (descs io' e))" using ih(3) ch by (auto simp: desc_wf_def)
        moreover have "pool_phys ie e = Some (sw_phys (descs io3 e))" using w3(1) by (auto simp: desc_wf_def)
        ultimately show ?thesis by simp
      qed
      have "case r of None \<Rightarrow> True | Some l \<Rightarrow> l = last (d # ch) \<and> chain_ok cap (descs io') (d # ch) n src dest"
        using ih(6,8) ch lt dd d3 mc Some pe by (auto simp: set_copy_def test_ack_ack split: option.splits)
      moreover have "\<forall>x \<in> set (d # ch). idle_desc (descs io' x)"
        using ih(5) dd d3 less.prems(3) by simp
      moreover have "\<forall>x \<in> set R. descs io' x = descs io x"
        using ih(4) R3 dn(2) by auto
      ultimately show ?thesis
        using run Some ih(1,2) c3 w' by (intro exI [of _ r] exI [of _ "d # ch"] exI [of _ io']) simp
    qed
  qed
qed

text \<open>The bytes a descriptor moves: source and destination address of each.\<close>

definition desc_bytes :: "(nat \<Rightarrow> ioat_desc_sw) \<Rightarrow> nat \<Rightarrow> (u64 \<times> u64) list" where
  "desc_bytes h d = map (\<lambda>t. (hw_src_addr (sw_hw (h d)) + of_nat t, hw_dst_addr (sw_hw (h d)) + of_nat t))
     [0 ..< unat (hw_size (sw_hw (h d)))]"

lemma upt_split: "m \<le> n \<Longrightarrow> [0 ..< n] = [0 ..< m] @ map (\<lambda>t. t + m) [0 ..< n - m]"
  using upt_add_eq_append [of 0 m "n - m"] map_add_upt [of m "n - m"] by simp

lemma chain_bytes:
  "chain_ok cap h ch n src dest \<Longrightarrow> concat (map (desc_bytes h) ch) =
     map (\<lambda>t. (src + of_nat t, dest + of_nat t)) [0 ..< unat n]"
proof (induction cap h ch n src dest rule: chain_ok.induct)
  case (3 cap h d e ds n src dest)
  have le: "unat cap \<le> unat n" using "3.prems" by (simp add: word_less_nat_alt)
  have "unat (n - cap) = unat n - unat cap" by (rule unat_diff_small [OF le])
  moreover have "desc_bytes h d = map (\<lambda>t. (src + of_nat t, dest + of_nat t)) [0 ..< unat cap]"
    using "3.prems" by (simp add: desc_bytes_def)
  ultimately show ?case
    using 3 unfolding upt_split [OF le] by (simp add: o_def algebra_simps)
qed (simp_all add: desc_bytes_def)

lemma chain_sizes: "chain_ok cap h ch n src dest \<Longrightarrow> d \<in> set ch \<Longrightarrow> hw_size (sw_hw (h d)) \<le> cap"
  by (induction cap h ch n src dest rule: chain_ok.induct) auto

lemma chain_last:
  "chain_ok cap h ch n src dest \<Longrightarrow>
     hw_dst_addr (sw_hw (h (last ch))) - (n - hw_size (sw_hw (h (last ch)))) = dest \<and>
     hw_src_addr (sw_hw (h (last ch))) - (n - hw_size (sw_hw (h (last ch)))) = src"
proof (induction cap h ch n src dest rule: chain_ok.induct)
  case (3 cap h d e ds n src dest)
  let ?l = "sw_hw (h (last (e # ds)))"
  have "hw_dst_addr ?l - (n - cap - hw_size ?l) = dest + cap" "hw_src_addr ?l - (n - cap - hw_size ?l) = src + cap"
    using 3 by simp_all
  then show ?case by (simp add: algebra_simps)
qed simp_all

text \<open>What a prepared transaction looks like.\<close>

definition prepared :: "ioat_env \<Rightarrow> ioat_dma_chan \<Rightarrow> u64 \<Rightarrow> u64 \<Rightarrow> u64 \<Rightarrow> u32 \<Rightarrow> nat \<Rightarrow> nat list \<Rightarrow> bool" where
  "prepared ie io dest src n flags d ch \<longleftrightarrow> ch \<noteq> [] \<and> d = last ch \<and> tx_list (descs io d) = ch \<and>
     chain_ok (xfercap io) (descs io) ch n src dest \<and> sw_len (descs io d) = n \<and> sw_flags (descs io d) = flags \<and>
     sw_cookie (descs io d) = 0 \<and> (\<forall>x \<in> set ch. x \<noteq> d \<longrightarrow> idle_desc (descs io x)) \<and>
     hw_tx_cnt (sw_hw (descs io d)) = of_nat (length ch) \<and> hw_compl_write (sw_hw (descs io d)) \<and>
     (hw_int_en (sw_hw (descs io d)) \<longleftrightarrow> flags AND DMA_PREP_INTERRUPT \<noteq> 0)"

lemma chain_ok_same_hw:
  assumes "\<And>x. x \<in> set ch \<Longrightarrow> hw_size (sw_hw (h' x)) = hw_size (sw_hw (h x)) \<and>
      hw_src_addr (sw_hw (h' x)) = hw_src_addr (sw_hw (h x)) \<and> hw_dst_addr (sw_hw (h' x)) = hw_dst_addr (sw_hw (h x)) \<and>
      hw_next (sw_hw (h' x)) = hw_next (sw_hw (h x)) \<and> hw_null (sw_hw (h' x)) = hw_null (sw_hw (h x)) \<and>
      sw_phys (h' x) = sw_phys (h x)"
    and "\<And>x. x \<in> set (butlast ch) \<Longrightarrow> sw_flags (h' x) = sw_flags (h x)"
  shows "chain_ok cap h ch n src dest \<Longrightarrow> chain_ok cap h' ch n src dest"
  using assms by (induction cap h ch n src dest rule: chain_ok.induct) simp_all

lemma prep_memcpy_ok:
  assumes "desc_wf ie io R" and "xfercap io \<noteq> 0"
  shows "\<exists>r io'. ioat1_dma_prep_memcpy ie dest src n flags io = Some (r, io') \<and> core io' = core io \<and>
    (\<forall>x \<in> set R. descs io' x = descs io x) \<and>
    (case r of None \<Rightarrow> desc_wf ie io' R
     | Some d \<Rightarrow> \<exists>ch. desc_wf ie io' (ch @ R) \<and> prepared ie io' dest src n flags d ch)"
proof -
  obtain q io1 where g: "ioat1_dma_get_next_descriptor ie io = (q, io1)"
    by (cases "ioat1_dma_get_next_descriptor ie io")
  note gw = get_next_wf [OF assms(1) g]
  show ?thesis
  proof (cases q)
    case None
    then show ?thesis using g gw by (simp add: ioat1_dma_prep_memcpy_def prep_loop.simps)
  next
    case (Some e)
    have w1: "desc_wf ie io1 (e # R)" "idle_desc (descs io1 e)" and c1: "core io1 = core io"
      and R1: "\<forall>x \<in> set R. descs io1 x = descs io x" using gw Some by simp_all
    have cap: "xfercap io1 = xfercap io" using core_eqD(2) [OF c1] .
    obtain r ch io2 where p: "prep_loop ie (Some e) n src dest 0 [] io1 = Some (r, [] @ ch, 0 + length ch, io2)"
      "core io2 = core io1" "desc_wf ie io2 (ch @ R)" "\<forall>x \<in> set R. descs io2 x = descs io1 x"
      "\<forall>x \<in> set ch. idle_desc (descs io2 x)" "ch \<noteq> []" "hd ch = e"
      "case r of None \<Rightarrow> True | Some l \<Rightarrow> l = last ch \<and> chain_ok (xfercap io) (descs io2) ch n src dest"
      using prep_loop_ok [OF w1(1) cap assms(2) w1(2), of n src dest 0 "[]"] by blast
    show ?thesis
    proof (cases r)
      case None
      let ?io3 = "io2\<lparr>free_desc := ch @ free_desc io2\<rparr>"
      have "desc_wf ie ?io3 R"
        using p(3,5) unfolding desc_wf_def by (auto simp: ac_simps)
      then show ?thesis using None Some g p(1,2,4) c1 R1 by (simp add: ioat1_dma_prep_memcpy_def)
    next
      case (Some l)
      have l: "l = last ch" "l \<in> set ch" and chn: "chain_ok (xfercap io) (descs io2) ch n src dest"
        using p(6,8) Some by auto
      let ?io3 = "upd_desc l (\<lambda>ds. ds\<lparr>sw_flags := flags, sw_len := n, tx_list := ch @ tx_list ds\<rparr>) io2"
      let ?io4 = "upd_hw l (\<lambda>h. h\<lparr>hw_int_en := (flags AND DMA_PREP_INTERRUPT \<noteq> 0), hw_compl_write := True,
          hw_tx_cnt := of_nat (length ch)\<rparr>) ?io3"
      have run: "ioat1_dma_prep_memcpy ie dest src n flags io = Some (Some l, ?io4)"
        using g p(1) Some \<open>q = Some e\<close> by (simp add: ioat1_dma_prep_memcpy_def)
      have lf: "l \<notin> set (free_desc io2)" "distinct ch" "l \<notin> set R" using p(3) l(2) by (auto simp: desc_wf_def)
      have "desc_wf ie ?io4 (ch @ R)"
        by (rule desc_wf_upd_hw [OF desc_wf_upd [OF p(3) lf(1)]]) (use lf in simp_all)
      moreover have "chain_ok (xfercap io) (descs ?io4) ch n src dest"
      proof (rule chain_ok_same_hw [OF _ _ chn])
        fix x assume x: "x \<in> set (butlast ch)"
        have "distinct (butlast ch @ [last ch])" using lf(2) p(6) by simp
        then have "x \<noteq> l" using x l(1) by auto
        then show "sw_flags (descs ?io4 x) = sw_flags (descs io2 x)" by simp
      qed simp
      moreover have "xfercap ?io4 = xfercap io" using core_eqD(2) [OF p(2)] cap by simp
      moreover have "idle_desc (descs io2 l)" using p(5) l(2) by blast
      ultimately have "prepared ie ?io4 dest src n flags l ch"
        using p(5,6) l(1) by (auto simp: prepared_def idle_desc_def)
      moreover have "\<forall>x \<in> set R. descs ?io4 x = descs io x" using p(4) R1 lf(3) by auto
      ultimately show ?thesis using run p(2) c1 \<open>desc_wf ie ?io4 (ch @ R)\<close> by auto
    qed
  qed
qed

end
