(* ===== verification/Ioat_Cleanup.thy ===== *)
theory Ioat_Cleanup
  imports Ioat_Prep
begin

text \<open>
  Submission and completion on an I/OAT channel: what \<open>ioat1_tx_submit\<close> does to the used list, which
  descriptors a cleanup completes, unmaps and frees, the watchdog and the channel resources.
\<close>

subsection \<open>Completing descriptors\<close>

definition unmap_calls :: "u32 \<Rightarrow> u64 \<Rightarrow> ioat_dma_descriptor \<Rightarrow> dma_mapping list" where
  "unmap_calls flags n h =
     (if flags AND DMA_COMPL_SKIP_DEST_UNMAP = 0
      then [(if flags AND DMA_COMPL_DEST_UNMAP_SINGLE \<noteq> 0 then Map_Single else Map_Page,
             hw_dst_addr h - (n - hw_size h), n, From_Device)] else []) @
     (if flags AND DMA_COMPL_SKIP_SRC_UNMAP = 0
      then [(if flags AND DMA_COMPL_SRC_UNMAP_SINGLE \<noteq> 0 then Map_Single else Map_Page,
             hw_src_addr h - (n - hw_size h), n, To_Device)] else [])"

definition desc_unmaps :: "ioat_desc_sw \<Rightarrow> dma_mapping list" where
  "desc_unmaps ds = (if sw_cookie ds = 0 then [] else unmap_calls (sw_flags ds) (sw_len ds) (sw_hw ds))"

definition desc_calls :: "ioat_desc_sw \<Rightarrow> nat list" where
  "desc_calls ds = (if sw_cookie ds = 0 then [] else case sw_callback ds of None \<Rightarrow> [] | Some cb \<Rightarrow> [cb])"

text \<open>What the cookie helpers promise: assigned cookies are positive, completion records the cookie.\<close>

definition cookie_env :: "ioat_env \<Rightarrow> bool" where
  "cookie_env ie \<longleftrightarrow> (\<forall>k. 0 < ck_assign ie k) \<and> (\<forall>k. ck_complete ie k = (k, 0)) \<and>
     (\<forall>k l u. ck_status ie k l u = dma_async_is_complete k l u)"

definition finished :: "ioat_desc_sw \<Rightarrow> ioat_desc_sw" where
  "finished ds = (if sw_cookie ds = 0 then ds else ds\<lparr>sw_cookie := 0, sw_callback := None\<rparr>)"

lemma finished_fields [simp]:
  "sw_phys (finished ds) = sw_phys ds" "sw_flags (finished ds) = sw_flags ds" "tx_list (finished ds) = tx_list ds"
  "sw_hw (finished ds) = sw_hw ds" "sw_cookie (finished ds) = 0"
  by (simp_all add: finished_def)

lemma ioat_unmap_log: "ioat_dma_unmap flags n h io = io\<lparr>unmapped := unmapped io @ unmap_calls flags n h\<rparr>"
  by (simp add: ioat_dma_unmap_def ioat_unmap_def unmap_calls_def Let_def)

lemma clear_no_callback: "sw_callback ds = None \<Longrightarrow> ds\<lparr>sw_cookie := k, sw_callback := None\<rparr> = ds\<lparr>sw_cookie := k\<rparr>"
  by (cases ds) simp

lemma complete_desc_eq:
  assumes "cookie_env ie"
  shows "complete_desc ie d io = io\<lparr>descs := (descs io)(d := finished (descs io d)),
    unmapped := unmapped io @ desc_unmaps (descs io d), called := called io @ desc_calls (descs io d),
    completed_cookie := (if sw_cookie (descs io d) = 0 then completed_cookie io else sw_cookie (descs io d)),
    ic_active := (if sw_cookie (descs io d) = 0 then ic_active io
      else ic_active io - ucast (hw_tx_cnt (sw_hw (descs io d))))\<rparr>"
  using assms
  by (auto simp: clear_no_callback complete_desc_def cookie_env_def ioat_unmap_log upd_desc_def finished_def desc_unmaps_def desc_calls_def
      Let_def split: option.splits)

text \<open>The cookie of the last descriptor that carried one.\<close>

definition last_cookie :: "dma_cookie \<Rightarrow> dma_cookie list \<Rightarrow> dma_cookie" where
  "last_cookie k ks = last (k # filter (\<lambda>c. c \<noteq> 0) ks)"

lemma last_cookie_Cons: "last_cookie k (c # ks) = last_cookie (if c = 0 then k else c) ks"
  by (simp add: last_cookie_def)

definition acked :: "ioat_dma_chan \<Rightarrow> nat \<Rightarrow> bool" where
  "acked io x = async_tx_test_ack (sw_flags (descs io x))"

lemma cleanup_loop_ok:
  assumes "cookie_env ie" and "used_desc io = K @ as @ e # bs" and "distinct (K @ as @ e # bs)"
    and "\<forall>x \<in> set as. sw_phys (descs io x) \<noteq> pc" and "sw_phys (descs io e) = pc"
  shows "\<exists>act. cleanup_loop ie pc (as @ e # bs) io = io\<lparr>
      used_desc := K @ filter (\<lambda>x. \<not> acked io x) as @ e # bs,
      free_desc := free_desc io @ filter (acked io) as,
      descs := (\<lambda>x. if x \<in> set (as @ [e]) then finished (descs io x) else descs io x),
      unmapped := unmapped io @ concat (map (\<lambda>x. desc_unmaps (descs io x)) (as @ [e])),
      called := called io @ concat (map (\<lambda>x. desc_calls (descs io x)) (as @ [e])),
      completed_cookie := last_cookie (completed_cookie io) (map (\<lambda>x. sw_cookie (descs io x)) (as @ [e])),
      ic_active := act, ic_state := (if bs = [] then ic_state io - {IOAT_COMPLETION_PENDING} else ic_state io)\<rparr>"
  using assms(2-)
proof (induction as arbitrary: K io)
  case Nil
  have "(\<lambda>x. if x = e then finished (descs io x) else descs io x) = (descs io)(e := finished (descs io e))"
    by (simp add: fun_eq_iff)
  then show ?case
    using Nil
    by (intro exI [of _ "ic_active (complete_desc ie e io)"])
       (simp add: complete_desc_eq [OF assms(1)] Let_def clear_bit_state_def last_cookie_def)
next
  case (Cons a as)
  let ?io1 = "complete_desc ie a io"
  note eq1 = complete_desc_eq [OF assms(1), of a io]
  let ?io2 = "if acked io a then ?io1\<lparr>used_desc := remove1 a (used_desc ?io1), free_desc := free_desc ?io1 @ [a]\<rparr> else ?io1"
  let ?K = "if acked io a then K else K @ [a]"
  have step: "cleanup_loop ie pc ((a # as) @ e # bs) io = cleanup_loop ie pc (as @ e # bs) ?io2"
    using Cons.prems(3) by (simp add: Let_def eq1 acked_def)
  have u2: "used_desc ?io2 = ?K @ as @ e # bs"
    using Cons.prems(1,2) by (auto simp: eq1 remove1_append)
  have dist: "distinct (?K @ as @ e # bs)" using Cons.prems(2) by auto
  have ne: "x \<noteq> a" if "x \<in> set (as @ [e])" for x using that Cons.prems(2) by auto
  have d2: "descs ?io2 x = (if x = a then finished (descs io a) else descs io x)" for x
    by (simp add: eq1)
  have ph: "\<forall>x \<in> set as. sw_phys (descs ?io2 x) \<noteq> pc" "sw_phys (descs ?io2 e) = pc"
    using Cons.prems(3,4) ne by (auto simp: eq1)
  have ack: "acked ?io2 x = acked io x" for x
    using d2 [of x] acked_def [of ?io2 x] acked_def [of io x] by simp
  have m: "map (\<lambda>x. f (descs ?io2 x)) (as @ [e]) = map (\<lambda>x. f (descs io x)) (as @ [e])" for f :: "ioat_desc_sw \<Rightarrow> 'b"
    using ne by (auto simp: eq1)
  have rest: "unmapped ?io2 = unmapped io @ desc_unmaps (descs io a)" "called ?io2 = called io @ desc_calls (descs io a)"
    "completed_cookie ?io2 = (if sw_cookie (descs io a) = 0 then completed_cookie io else sw_cookie (descs io a))"
    "free_desc ?io2 = free_desc io @ (if acked io a then [a] else [])" "ic_state ?io2 = ic_state io"
    by (simp_all add: eq1)
  have ds: "(\<lambda>x. if x \<in> set (as @ [e]) then finished (descs ?io2 x) else descs ?io2 x) =
      (\<lambda>x. if x \<in> set ((a # as) @ [e]) then finished (descs io x) else descs io x)"
    using ne by (auto simp: eq1 fun_eq_iff)
  obtain act where ih: "cleanup_loop ie pc (as @ e # bs) ?io2 = ?io2\<lparr>
      used_desc := ?K @ filter (\<lambda>x. \<not> acked ?io2 x) as @ e # bs,
      free_desc := free_desc ?io2 @ filter (acked ?io2) as,
      descs := (\<lambda>x. if x \<in> set (as @ [e]) then finished (descs ?io2 x) else descs ?io2 x),
      unmapped := unmapped ?io2 @ concat (map (\<lambda>x. desc_unmaps (descs ?io2 x)) (as @ [e])),
      called := called ?io2 @ concat (map (\<lambda>x. desc_calls (descs ?io2 x)) (as @ [e])),
      completed_cookie := last_cookie (completed_cookie ?io2) (map (\<lambda>x. sw_cookie (descs ?io2 x)) (as @ [e])),
      ic_active := act, ic_state := (if bs = [] then ic_state ?io2 - {IOAT_COMPLETION_PENDING} else ic_state ?io2)\<rparr>"
    using Cons.IH [OF u2 dist ph] by blast
  show ?case
    by (rule exI [of _ act], unfold step ih m ds rest ack, cases "acked io a") (simp_all add: eq1 last_cookie_Cons)
qed

subsection \<open>The channel invariant\<close>

text \<open>
  \<open>Q\<close>: descriptors prepared and not yet submitted. A used descriptor has handed its chain over, and
  one without a cookie has no callback left.
\<close>

definition used_ok :: "ioat_desc_sw \<Rightarrow> bool" where
  "used_ok ds \<longleftrightarrow> tx_list ds = [] \<and> (sw_cookie ds = 0 \<longrightarrow> sw_callback ds = None)"

definition chan_inv :: "ioat_env \<Rightarrow> nat list \<Rightarrow> ioat_dma_chan \<Rightarrow> bool" where
  "chan_inv ie Q io \<longleftrightarrow> desc_wf ie io (used_desc io @ Q) \<and> (\<forall>x \<in> set (used_desc io). used_ok (descs io x))"

lemma used_ok_finished: "used_ok ds \<Longrightarrow> idle_desc (finished ds)"
  by (auto simp: used_ok_def idle_desc_def finished_def)

lemma desc_wf_descs:
  assumes "desc_wf ie io R" and "\<And>x. sw_phys (h x) = sw_phys (descs io x)"
    and "\<And>x. x \<in> set (free_desc io) \<Longrightarrow> idle_desc (h x)"
  shows "desc_wf ie (io\<lparr>descs := h\<rparr>) R"
  using assms by (simp add: desc_wf_def)

lemma desc_wf_move:
  assumes "desc_wf ie io (K @ d # R)" and "idle_desc (descs io d)"
  shows "desc_wf ie (io\<lparr>used_desc := U, free_desc := free_desc io @ [d]\<rparr>) (K @ R)"
  using assms by (auto simp: desc_wf_def ac_simps)

lemma desc_wf_log [simp]:
  "desc_wf ie (io\<lparr>unmapped := u\<rparr>) R = desc_wf ie io R" "desc_wf ie (io\<lparr>called := c\<rparr>) R = desc_wf ie io R"
  "desc_wf ie (io\<lparr>completed_cookie := k\<rparr>) R = desc_wf ie io R" "desc_wf ie (io\<lparr>ic_active := a\<rparr>) R = desc_wf ie io R"
  "desc_wf ie (io\<lparr>ic_state := st\<rparr>) R = desc_wf ie io R" "desc_wf ie (io\<lparr>used_desc := us\<rparr>) R = desc_wf ie io R"
  "desc_wf ie (io\<lparr>last_completion := p\<rparr>) R = desc_wf ie io R" "desc_wf ie (io\<lparr>ic_timer := tm\<rparr>) R = desc_wf ie io R"
  "desc_wf ie (io\<lparr>pending := pd\<rparr>) R = desc_wf ie io R" "desc_wf ie (io\<lparr>reg_cmds := rc\<rparr>) R = desc_wf ie io R"
  "desc_wf ie (io\<lparr>chan_cookie := ck\<rparr>) R = desc_wf ie io R" "desc_wf ie (io\<lparr>tasklet_enabled := te\<rparr>) R = desc_wf ie io R"
  "desc_wf ie (io\<lparr>reg_run := rr\<rparr>) R = desc_wf ie io R" "desc_wf ie (io\<lparr>chanerr_acks := ca\<rparr>) R = desc_wf ie io R"
  "desc_wf ie (io\<lparr>completion := cp\<rparr>) R = desc_wf ie io R" "desc_wf ie (io\<lparr>completion_dma := cd\<rparr>) R = desc_wf ie io R"
  "desc_wf ie (io\<lparr>reg_chancmp := rp\<rparr>) R = desc_wf ie io R" "desc_wf ie (io\<lparr>desccount := dc\<rparr>) R = desc_wf ie io R"
  "desc_wf ie (io\<lparr>reg_chainaddr := ra\<rparr>) R = desc_wf ie io R"
  by (simp_all add: desc_wf_def)

lemma complete_desc_inv:
  assumes "cookie_env ie" and "chan_inv ie Q io" and "d \<in> set (used_desc io)"
  shows "chan_inv ie Q (complete_desc ie d io)" and "idle_desc (descs (complete_desc ie d io) d)"
    and "used_desc (complete_desc ie d io) = used_desc io" and "free_desc (complete_desc ie d io) = free_desc io"
proof -
  have df: "d \<notin> set (free_desc io)" using assms(2,3) by (auto simp: chan_inv_def desc_wf_def)
  have u: "used_ok (descs io d)" using assms(2,3) by (simp add: chan_inv_def)
  have "desc_wf ie (io\<lparr>descs := (descs io)(d := finished (descs io d))\<rparr>) (used_desc io @ Q)"
    using assms(2) df by (intro desc_wf_descs) (auto simp: chan_inv_def desc_wf_def)
  moreover have "used_ok (finished (descs io d))"
    using u by (auto simp: used_ok_def finished_def)
  ultimately show "chan_inv ie Q (complete_desc ie d io)"
    using assms(2) by (simp add: chan_inv_def complete_desc_eq [OF assms(1)])
  show "idle_desc (descs (complete_desc ie d io) d)"
    using used_ok_finished [OF u] by (simp add: complete_desc_eq [OF assms(1)])
qed (simp_all add: complete_desc_eq [OF assms(1)])

lemma cleanup_loop_inv:
  assumes "cookie_env ie" and "chan_inv ie Q io" and "used_desc io = K @ ds"
  shows "chan_inv ie Q (cleanup_loop ie pc ds io)"
  using assms(2,3)
proof (induction ds arbitrary: K io)
  case (Cons d ds)
  let ?io1 = "complete_desc ie d io"
  have din: "d \<in> set (used_desc io)" using Cons.prems(2) by simp
  note c = complete_desc_inv [OF assms(1) Cons.prems(1) din]
  show ?case
  proof (cases "sw_phys (descs ?io1 d) = pc")
    case True
    then show ?thesis using c(1) by (simp add: Let_def chan_inv_def clear_bit_state_def)
  next
    case False
    let ?io2 = "?io1\<lparr>used_desc := remove1 d (used_desc ?io1), free_desc := free_desc ?io1 @ [d]\<rparr>"
    have rm: "remove1 d (used_desc ?io1) = K @ ds"
      using Cons.prems(2) c(1,3) by (auto simp: chan_inv_def desc_wf_def remove1_append)
    have "desc_wf ie ?io1 (K @ d # ds @ Q)" using c(1,3) Cons.prems(2) by (simp add: chan_inv_def)
    from desc_wf_move [OF this c(2), of "remove1 d (used_desc ?io1)"]
    have "chan_inv ie Q ?io2"
      using c(1) rm Cons.prems(2) c(3) by (auto simp: chan_inv_def)
    then show ?thesis
      using False c(1,3) rm Cons.IH [of ?io2 K] Cons.IH [of ?io1 "K @ [d]"] Cons.prems(2) by (simp add: Let_def)
  qed
qed simp

lemma chan_inv_log [simp]:
  "chan_inv ie Q (io\<lparr>last_completion := p\<rparr>) = chan_inv ie Q io"
  "chan_inv ie Q (mod_timer tm io) = chan_inv ie Q io"
  "chan_inv ie Q (set_bit_state b io) = chan_inv ie Q io" "chan_inv ie Q (clear_bit_state b io) = chan_inv ie Q io"
  "chan_inv ie Q (write_cmd c io) = chan_inv ie Q io" "chan_inv ie Q (io\<lparr>pending := pd\<rparr>) = chan_inv ie Q io"
  "chan_inv ie Q (io\<lparr>reg_run := rr\<rparr>) = chan_inv ie Q io" "chan_inv ie Q (io\<lparr>completion := cp\<rparr>) = chan_inv ie Q io"
  "chan_inv ie Q (io\<lparr>chanerr_acks := ca\<rparr>) = chan_inv ie Q io" "chan_inv ie Q (ioat_set_chainaddr a io) = chan_inv ie Q io"
  "chan_inv ie Q (io\<lparr>tasklet_enabled := te\<rparr>) = chan_inv ie Q io" "chan_inv ie Q (io\<lparr>ic_timer := tm2\<rparr>) = chan_inv ie Q io"
  by (simp_all add: chan_inv_def mod_timer_def set_bit_state_def clear_bit_state_def write_cmd_def ioat_set_chainaddr_def Let_def)

lemma cleanup_locked_inv: "cookie_env ie \<Longrightarrow> chan_inv ie Q io \<Longrightarrow> chan_inv ie Q (cleanup_locked ie pc io)"
  using cleanup_loop_inv [of ie Q io "[]" "used_desc io" pc] by (simp add: cleanup_locked_def)

lemma preamble_inv:
  assumes "chan_inv ie Q io" and "ioat_cleanup_preamble ie io = Inr (pc, io')"
  shows "chan_inv ie Q io'"
  using assms by (auto simp: ioat_cleanup_preamble_def seq_ok_eq_Inr_iff split: if_splits)

lemma cleanup_inv:
  assumes "cookie_env ie" and "chan_inv ie Q io" and "ioat1_cleanup ie cl dl io = Inr io'"
  shows "chan_inv ie Q io'"
  using assms preamble_inv [OF assms(2)] cleanup_locked_inv [OF assms(1)]
  by (auto simp: ioat1_cleanup_def seq_ok_eq_Inr_iff split: if_splits option.splits)

lemma timer_inv:
  assumes "cookie_env ie" and "chan_inv ie Q io" and "ioat1_timer_event ie io = Inr io'"
  shows "chan_inv ie Q io'"
  using assms preamble_inv [OF assms(2)] cleanup_locked_inv [OF assms(1)]
  by (auto simp: ioat1_timer_event_def seq_ok_eq_Inr_iff Let_def ioat_start_def ioat1_reset_channel_def
      split: if_splits option.splits list.splits)

end
