(* ===== verification/Ioat_Run.thy ===== *)
theory Ioat_Run
  imports Ioat_Cleanup
begin

text \<open>
  Runs of an I/OAT channel: preparation, submission, cleanup, the watchdog, commands and hardware
  progress as steps of a transition relation, its invariant and the properties of the driver.
\<close>

subsection \<open>Submission\<close>

lemma submit_account_fields [simp]:
  "descs (submit_account ie d io) = descs io" "used_desc (submit_account ie d io) = used_desc io"
  "free_desc (submit_account ie d io) = free_desc io" "alloc_count (submit_account ie d io) = alloc_count io"
  "pool_live (submit_account ie d io) = pool_live io" "chan_cookie (submit_account ie d io) = chan_cookie io"
  "completion (submit_account ie d io) = completion io" "last_completion (submit_account ie d io) = last_completion io"
  "xfercap (submit_account ie d io) = xfercap io" "reg_chansts (submit_account ie d io) = reg_chansts io"
  "IOAT_COMPLETION_PENDING \<in> ic_state (submit_account ie d io)"
  by (simp_all add: submit_account_def Let_def mod_timer_def set_bit_state_def issue_pending_locked_def write_cmd_def)

lemma submit_eq:
  assumes "tx_list (descs io d) = ch" and "ch \<noteq> []" and "used_desc io \<noteq> []" and "d \<noteq> last (used_desc io)"
  shows "ioat1_tx_submit ie d io = Inr (ck_assign ie (chan_cookie io), submit_account ie d
      (io\<lparr>chan_cookie := ck_assign ie (chan_cookie io), used_desc := used_desc io @ ch,
        descs := (descs io)(d := (descs io d)\<lparr>sw_cookie := ck_assign ie (chan_cookie io), tx_list := []\<rparr>,
          last (used_desc io) := (descs io (last (used_desc io)))\<lparr>sw_hw := (sw_hw (descs io (last (used_desc io))))
            \<lparr>hw_next := sw_phys (descs io (hd ch))\<rparr>\<rparr>)\<rparr>))"
proof -
  have tw: "f(last (used_desc io) := b, d := c) = f(d := c, last (used_desc io) := b)" for f :: "nat \<Rightarrow> ioat_desc_sw" and b c
    using assms(4) by (simp add: fun_eq_iff)
  have ph: "sw_phys (((descs io)(d := (descs io d)\<lparr>sw_cookie := k\<rparr>)) x) = sw_phys (descs io x)" for k x by simp
  show ?thesis
    using assms by (simp add: ioat1_tx_submit_def upd_desc_def upd_hw_def tw Let_def ph)
qed

lemma submit_ok:
  assumes "cookie_env ie" and "chan_inv ie (A @ ch @ B) io" and "used_desc io \<noteq> []" and "ch \<noteq> []" and "d = last ch"
    and "tx_list (descs io d) = ch" and "\<forall>x \<in> set ch. x \<noteq> d \<longrightarrow> idle_desc (descs io x)"
  shows "\<exists>k io'. ioat1_tx_submit ie d io = Inr (k, io') \<and> k = ck_assign ie (chan_cookie io) \<and> 0 < k \<and>
    chan_inv ie (A @ B) io' \<and> used_desc io' = used_desc io @ ch \<and> free_desc io' = free_desc io \<and>
    chan_cookie io' = k \<and> sw_cookie (descs io' d) = k \<and> completion io' = completion io \<and>
    last_completion io' = last_completion io \<and> xfercap io' = xfercap io \<and>
    (\<forall>x. sw_phys (descs io' x) = sw_phys (descs io x)) \<and>
    (\<forall>x. x \<notin> set (used_desc io) \<and> x \<noteq> d \<longrightarrow> descs io' x = descs io x) \<and>
    hw_next (sw_hw (descs io' (last (used_desc io)))) = sw_phys (descs io (hd ch)) \<and>
    IOAT_COMPLETION_PENDING \<in> ic_state io' \<and> reg_chansts io' = reg_chansts io"
proof -
  let ?k = "ck_assign ie (chan_cookie io)" and ?u = "last (used_desc io)"
  have k: "0 < ?k" using assms(1) by (simp add: cookie_env_def)
  have din: "d \<in> set ch" using assms(4,5) by simp
  have uin: "?u \<in> set (used_desc io)" using assms(3) by simp
  have da: "distinct (used_desc io @ A @ ch @ B @ free_desc io)"
    using assms(2) by (simp add: chan_inv_def desc_wf_def)
  have df: "d \<notin> set (free_desc io)" "?u \<notin> set (free_desc io)"
    using da din uin by (auto simp: disjoint_iff)
  have du: "d \<notin> set (used_desc io)" using da din by (auto simp: disjoint_iff)
  then have du2: "d \<noteq> ?u" using uin by blast
  let ?h = "(descs io)(d := (descs io d)\<lparr>sw_cookie := ?k, tx_list := []\<rparr>,
      ?u := (descs io ?u)\<lparr>sw_hw := (sw_hw (descs io ?u))\<lparr>hw_next := sw_phys (descs io (hd ch))\<rparr>\<rparr>)"
  define io' where "io' = submit_account ie d (io\<lparr>chan_cookie := ?k, used_desc := used_desc io @ ch, descs := ?h\<rparr>)"
  have run: "ioat1_tx_submit ie d io = Inr (?k, io')"
    unfolding io'_def by (rule submit_eq [OF assms(6,4,3) du2])
  have e: "descs io' = ?h" "used_desc io' = used_desc io @ ch" "free_desc io' = free_desc io"
      "alloc_count io' = alloc_count io" "pool_live io' = pool_live io" "chan_cookie io' = ?k"
      "completion io' = completion io" "last_completion io' = last_completion io" "xfercap io' = xfercap io"
      "IOAT_COMPLETION_PENDING \<in> ic_state io'" "reg_chansts io' = reg_chansts io"
    by (simp_all add: io'_def)
  have ph: "sw_phys (?h x) = sw_phys (descs io x)" for x by simp
  have "desc_wf ie (io\<lparr>descs := ?h\<rparr>) (used_desc io @ A @ ch @ B)"
    using assms(2) df by (intro desc_wf_descs) (auto simp: chan_inv_def desc_wf_def)
  then have "desc_wf ie (io\<lparr>descs := ?h\<rparr>) ((used_desc io @ ch) @ A @ B)"
    by (rule desc_wf_perm) simp
  then have "desc_wf ie io' (used_desc io' @ A @ B)"
    unfolding desc_wf_def e by simp
  moreover have "used_ok (?h x)" if "x \<in> set (used_desc io @ ch)" for x
    using that assms(2,7) k du du2 by (auto simp: chan_inv_def used_ok_def idle_desc_def)
  ultimately have "chan_inv ie (A @ B) io'" unfolding chan_inv_def e by blast
  then show ?thesis
    using run k e ph du du2 uin by auto
qed

subsection \<open>The transition relation\<close>

text \<open>
  A state is the list of prepared transactions, each with its chain, and the channel. The hardware
  writes back the address of a used descriptor; when the watchdog reads the status register, the
  register names no descriptor, the last completed one or one that is still used.
\<close>

definition hw_addr :: "ioat_dma_chan \<Rightarrow> u64 \<Rightarrow> bool" where
  "hw_addr io a \<longleftrightarrow> a = last_completion io \<or> a \<in> (\<lambda>x. sw_phys (descs io x)) ` set (used_desc io)"

text \<open>The last completed descriptor stays at the head of the used list until a later one completes.\<close>

definition seen_addr :: "ioat_dma_chan \<Rightarrow> bool" where
  "seen_addr io \<longleftrightarrow> last_completion io = 0 \<or> last_completion io \<in> (\<lambda>x. sw_phys (descs io x)) ` set (used_desc io)"

inductive ioat_step :: "ioat_env \<Rightarrow> (nat \<times> nat list) list \<times> ioat_dma_chan \<Rightarrow> (nat \<times> nat list) list \<times> ioat_dma_chan \<Rightarrow> bool"
  for ie where
  step_prep: "ioat1_dma_prep_memcpy ie dest src n fl io = Some (Some d, io') \<Longrightarrow>
     ioat_step ie (T, io) ((d, tx_list (descs io' d)) # T, io')"
| step_prep_fail: "ioat1_dma_prep_memcpy ie dest src n fl io = Some (None, io') \<Longrightarrow> ioat_step ie (T, io) (T, io')"
| step_submit: "ioat1_tx_submit ie d io = Inr (k, io') \<Longrightarrow> ioat_step ie (A @ (d, ch) # B, io) (A @ B, io')"
| step_issue: "ioat_step ie (T, io) (T, ioat1_dma_memcpy_issue_pending io)"
| step_cleanup: "ioat1_cleanup_event ie cl dl io = Inr io' \<Longrightarrow> ioat_step ie (T, io) (T, io')"
| step_timer: "ioat_chansts_to_addr ie (ioat_chansts io) = 0 \<or> hw_addr io (ioat_chansts_to_addr ie (ioat_chansts io)) \<Longrightarrow>
     ioat1_timer_event ie io = Inr io' \<Longrightarrow> ioat_step ie (T, io) (T, io')"
| step_hardware: "x \<in> set (used_desc io) \<Longrightarrow> ioat_chansts_to_addr ie c = sw_phys (descs io x) \<Longrightarrow>
     ioat_step ie (T, io) (T, io\<lparr>completion := Completion c, reg_chansts := v\<rparr>)"
| step_suspend: "ioat_step ie (T, io) (T, ioat_suspend io)"
| step_resume: "ioat_step ie (T, io) (T, ioat_resume io)"

inductive_cases ioat_stepE: "ioat_step ie s s'"

definition tx_ok :: "ioat_dma_chan \<Rightarrow> nat \<times> nat list \<Rightarrow> bool" where
  "tx_ok io t = (case t of (d, ch) \<Rightarrow> ch \<noteq> [] \<and> d = last ch \<and> tx_list (descs io d) = ch \<and>
     (\<forall>x \<in> set ch. x \<noteq> d \<longrightarrow> idle_desc (descs io x)))"

definition tx_chains :: "(nat \<times> nat list) list \<Rightarrow> nat list" where
  "tx_chains T = concat (map snd T)"

lemma tx_chains_simps [simp]: "tx_chains [] = []" "tx_chains (t # T) = snd t @ tx_chains T" "tx_chains (A @ B) = tx_chains A @ tx_chains B"
  by (simp_all add: tx_chains_def)

definition drv_inv :: "ioat_env \<Rightarrow> (nat \<times> nat list) list \<Rightarrow> ioat_dma_chan \<Rightarrow> bool" where
  "drv_inv ie T io \<longleftrightarrow> chan_inv ie (tx_chains T) io \<and> used_desc io \<noteq> [] \<and> xfercap io \<noteq> 0 \<and> seen_addr io \<and>
     (\<exists>c. completion io = Completion c \<and> hw_addr io (ioat_chansts_to_addr ie c)) \<and> (\<forall>t \<in> set T. tx_ok io t)"

lemma tx_ok_cong:
  assumes "tx_ok io t" and "\<And>x. x \<in> set (snd t) \<Longrightarrow> descs io' x = descs io x"
  shows "tx_ok io' t"
  using assms by (auto simp: tx_ok_def split: prod.splits)

lemma in_chains: "t \<in> set T \<Longrightarrow> x \<in> set (snd t) \<Longrightarrow> x \<in> set (tx_chains T)"
  by (auto simp: tx_chains_def)

text \<open>A step that keeps the lists and the store keeps the invariant.\<close>

lemma drv_inv_same:
  assumes "drv_inv ie T io" and "chan_inv ie (tx_chains T) io'" and "descs io' = descs io"
    and "used_desc io' = used_desc io" and "xfercap io' = xfercap io" and "last_completion io' = last_completion io"
    and "\<exists>c. completion io' = Completion c \<and> hw_addr io (ioat_chansts_to_addr ie c)"
  shows "drv_inv ie T io'"
proof -
  have "tx_ok io' t" if "t \<in> set T" for t
    using assms(1) that tx_ok_cong [of io t io'] assms(3) by (auto simp: drv_inv_def)
  then show ?thesis using assms by (auto simp: drv_inv_def hw_addr_def seen_addr_def)
qed

lemma cleanup_locked_drv:
  assumes "cookie_env ie" and "drv_inv ie T io" and "completion io = Completion c"
    and "ioat_chansts_to_addr ie c = pc" and "pc \<in> (\<lambda>x. sw_phys (descs io x)) ` set (used_desc io)"
  shows "drv_inv ie T (cleanup_locked ie pc io)"
proof -
  obtain as e bs where u: "used_desc io = as @ e # bs" "sw_phys (descs io e) = pc" "\<forall>x \<in> set as. sw_phys (descs io x) \<noteq> pc"
    using split_list_first_prop [of "used_desc io" "\<lambda>x. sw_phys (descs io x) = pc"] assms(5) by auto
  have dist: "distinct (used_desc io @ tx_chains T @ free_desc io)"
    using assms(2) by (simp add: drv_inv_def chan_inv_def desc_wf_def)
  have inv: "chan_inv ie (tx_chains T) (cleanup_locked ie pc io)"
    using assms(1,2) cleanup_locked_inv by (auto simp: drv_inv_def)
  let ?io = "cleanup_loop ie pc (used_desc io) io"
  have d: "distinct ([] @ as @ e # bs)" using dist u(1) by (auto simp: disjoint_iff)
  obtain act where eq: "?io = io\<lparr>used_desc := [] @ filter (\<lambda>x. \<not> acked io x) as @ e # bs,
      free_desc := free_desc io @ filter (acked io) as,
      descs := (\<lambda>x. if x \<in> set (as @ [e]) then finished (descs io x) else descs io x),
      unmapped := unmapped io @ concat (map (\<lambda>x. desc_unmaps (descs io x)) (as @ [e])),
      called := called io @ concat (map (\<lambda>x. desc_calls (descs io x)) (as @ [e])),
      completed_cookie := last_cookie (completed_cookie io) (map (\<lambda>x. sw_cookie (descs io x)) (as @ [e])),
      ic_active := act, ic_state := (if bs = [] then ic_state io - {IOAT_COMPLETION_PENDING} else ic_state io)\<rparr>"
    using cleanup_loop_ok [OF assms(1) _ d u(3,2)] u(1) by auto
  have tx: "tx_ok (cleanup_locked ie pc io) t" if "t \<in> set T" for t
  proof (rule tx_ok_cong)
    show "tx_ok io t" using assms(2) that by (simp add: drv_inv_def)
    fix x assume "x \<in> set (snd t)"
    then have "x \<in> set (tx_chains T)" by (rule in_chains [OF that])
    then have "x \<notin> set (as @ [e])" using dist u(1) by (auto simp: disjoint_iff)
    then show "descs (cleanup_locked ie pc io) x = descs io x" by (simp add: cleanup_locked_def eq)
  qed
  show ?thesis
    using inv tx assms(2,3,4) u(2) by (simp add: drv_inv_def hw_addr_def seen_addr_def cleanup_locked_def eq)
qed

lemma preamble_total:
  assumes "completion io = Completion c"
  shows "\<exists>pc io1. ioat_cleanup_preamble ie io = Inr (pc, io1)"
  using assms by (cases "ioat_chansts_to_addr ie c = last_completion io")
    (simp_all add: ioat_cleanup_preamble_def ioat_get_current_completion_def)

lemma chan_inv_state [simp]:
  "chan_inv ie Q (io\<lparr>ic_state := st\<rparr>) = chan_inv ie Q io" "chan_inv ie Q (io\<lparr>reg_chansts := v\<rparr>) = chan_inv ie Q io"
  "chan_inv ie Q (io\<lparr>reg_cmds := rc\<rparr>) = chan_inv ie Q io" "chan_inv ie Q (io\<lparr>reg_chainaddr := ra\<rparr>) = chan_inv ie Q io"
  by (simp_all add: chan_inv_def desc_wf_def)

lemma cleanup_step_drv:
  assumes "cookie_env ie" and "drv_inv ie T io" and "ioat_cleanup_preamble ie io = Inr (pc, io1)"
  shows "drv_inv ie T io1 \<and> (\<forall>p. pc = Some p \<longrightarrow> drv_inv ie T (cleanup_locked ie p io1)) \<and>
    last_completion io1 = last_completion io"
proof -
  obtain c where c: "completion io = Completion c" "hw_addr io (ioat_chansts_to_addr ie c)"
    using assms(2) by (auto simp: drv_inv_def)
  let ?a = "ioat_chansts_to_addr ie c"
  have pre: "pc = None \<and> io1 = io \<or>
      pc = Some ?a \<and> ?a \<noteq> last_completion io \<and> io1 = mod_timer COMPLETION_TIMEOUT (clear_bit_state IOAT_COMPLETION_ACK io)"
    using assms(3) c(1)
    by (auto simp: ioat_cleanup_preamble_def ioat_get_current_completion_def split: if_splits)
  have inv1: "drv_inv ie T io1"
    using pre
  proof
    assume "pc = Some ?a \<and> ?a \<noteq> last_completion io \<and> io1 = mod_timer COMPLETION_TIMEOUT (clear_bit_state IOAT_COMPLETION_ACK io)"
    then show ?thesis
      using assms(2) c by (intro drv_inv_same [OF assms(2)]) (simp_all add: drv_inv_def mod_timer_def clear_bit_state_def)
  qed (use assms(2) in simp)
  moreover have "drv_inv ie T (cleanup_locked ie p io1)" if "pc = Some p" for p
  proof (rule cleanup_locked_drv [OF assms(1) inv1])
    show "completion io1 = Completion c" using pre c(1) by (auto simp: mod_timer_def clear_bit_state_def)
    show "ioat_chansts_to_addr ie c = p" using pre that by simp
    show "p \<in> (\<lambda>x. sw_phys (descs io1 x)) ` set (used_desc io1)"
      using pre that c(2) by (auto simp: hw_addr_def mod_timer_def clear_bit_state_def)
  qed
  ultimately show ?thesis using pre by (auto simp: mod_timer_def clear_bit_state_def)
qed

lemma cleanup_event_drv:
  assumes "cookie_env ie" and "drv_inv ie T io"
  shows "\<exists>io'. ioat1_cleanup_event ie cl dl io = Inr io' \<and> drv_inv ie T io'"
proof -
  obtain c where c: "completion io = Completion c" using assms(2) by (auto simp: drv_inv_def)
  obtain pc io1 where p: "ioat_cleanup_preamble ie io = Inr (pc, io1)"
    using preamble_total c by blast
  note d = cleanup_step_drv [OF assms p]
  have r: "drv_inv ie T (x\<lparr>reg_run := True\<rparr>)" if "drv_inv ie T x" for x
    using that by (intro drv_inv_same [OF that]) (auto simp: drv_inv_def)
  show ?thesis
    using p d r assms(2) by (cases pc) (auto simp: ioat1_cleanup_event_def ioat1_cleanup_def)
qed

lemma timer_drv:
  assumes "cookie_env ie" and "drv_inv ie T io"
    and "ioat_chansts_to_addr ie (ioat_chansts io) = 0 \<or> hw_addr io (ioat_chansts_to_addr ie (ioat_chansts io))"
  shows "\<exists>io'. ioat1_timer_event ie io = Inr io' \<and> drv_inv ie T io'"
proof -
  obtain c where c: "completion io = Completion c" "hw_addr io (ioat_chansts_to_addr ie c)"
    using assms(2) by (auto simp: drv_inv_def)
  obtain pc io1 where p: "ioat_cleanup_preamble ie io = Inr (pc, io1)"
    using preamble_total c by blast
  note d = cleanup_step_drv [OF assms(1,2) p]
  have keep: "drv_inv ie T io'" if "chan_inv ie (tx_chains T) io'" "descs io' = descs io" "used_desc io' = used_desc io"
    "xfercap io' = xfercap io" "last_completion io' = last_completion io"
    "\<exists>c. completion io' = Completion c \<and> hw_addr io (ioat_chansts_to_addr ie c)" for io'
    by (rule drv_inv_same [OF assms(2) that])
  have ci: "chan_inv ie (tx_chains T) io" "used_desc io \<noteq> []" using assms(2) by (simp_all add: drv_inv_def)
  show ?thesis
  proof (cases "IOAT_RESET_PENDING \<in> ic_state io")
    case True
    then show ?thesis
      using ci c by (auto simp: ioat1_timer_event_def Let_def ioat_start_def ioat_set_chainaddr_def write_cmd_def
          mod_timer_def set_bit_state_def clear_bit_state_def neq_Nil_conv intro!: keep)
  next
    case nr: False
    show ?thesis
    proof (cases "pc")
      case (Some a)
      then show ?thesis using p d nr assms(2) by (auto simp: ioat1_timer_event_def)
    next
      case None
      then have "io1 = io" using p by (auto simp: ioat_cleanup_preamble_def seq_ok_eq_Inr_iff split: if_splits)
      then show ?thesis
        using None p nr ci c assms(2,3)
        by (auto simp: ioat1_timer_event_def Let_def ioat1_reset_channel_def write_cmd_def mod_timer_def
            set_bit_state_def intro!: keep)
    qed
  qed
qed

lemma chan_inv_wf: "chan_inv ie Q io \<longleftrightarrow> desc_wf ie io (used_desc io @ Q) \<and> (\<forall>x \<in> set (used_desc io). used_ok (descs io x))"
  by (simp add: chan_inv_def)

lemma prep_drv:
  assumes "drv_inv ie T io" and "ioat1_dma_prep_memcpy ie dest src n fl io = Some (r, io')"
  shows "case r of None \<Rightarrow> drv_inv ie T io' | Some d \<Rightarrow> drv_inv ie ((d, tx_list (descs io' d)) # T) io' \<and>
    prepared ie io' dest src n fl d (tx_list (descs io' d))"
proof -
  let ?R = "used_desc io @ tx_chains T"
  have w: "desc_wf ie io ?R" "xfercap io \<noteq> 0" using assms(1) by (simp_all add: drv_inv_def chan_inv_def)
  have p: "core io' = core io" "\<forall>x \<in> set ?R. descs io' x = descs io x"
    "case r of None \<Rightarrow> desc_wf ie io' ?R | Some d \<Rightarrow> \<exists>ch. desc_wf ie io' (ch @ ?R) \<and> prepared ie io' dest src n fl d ch"
    using prep_memcpy_ok [OF w, of dest src n fl] assms(2) by auto
  note cf = core_eqD [OF p(1)]
  have used: "\<forall>x \<in> set (used_desc io'). used_ok (descs io' x)"
    using assms(1) p(2) by (simp add: drv_inv_def chan_inv_def cf(1))
  have tx: "tx_ok io' t" if "t \<in> set T" for t
    using assms(1) that p(2) in_chains [OF that] tx_ok_cong [of io t io'] by (auto simp: drv_inv_def)
  have hwa: "\<exists>c. completion io' = Completion c \<and> hw_addr io' (ioat_chansts_to_addr ie c)" "seen_addr io'"
  proof -
    have "(\<lambda>x. sw_phys (descs io' x)) ` set (used_desc io') = (\<lambda>x. sw_phys (descs io x)) ` set (used_desc io)"
      using p(2) by (auto simp: cf(1) image_iff)
    then show "\<exists>c. completion io' = Completion c \<and> hw_addr io' (ioat_chansts_to_addr ie c)" "seen_addr io'"
      using assms(1) by (simp_all add: drv_inv_def hw_addr_def seen_addr_def cf(9,10))
  qed
  show ?thesis
  proof (cases r)
    case None
    then show ?thesis using p(3) used tx hwa assms(1) by (simp add: drv_inv_def chan_inv_def cf)
  next
    case (Some d)
    then obtain ch where ch: "desc_wf ie io' (ch @ ?R)" "prepared ie io' dest src n fl d ch" using p(3) by auto
    have tl: "tx_list (descs io' d) = ch" using ch(2) unfolding prepared_def by blast
    have "desc_wf ie io' (used_desc io @ ch @ tx_chains T)" by (rule desc_wf_perm [OF ch(1)]) simp
    moreover have "tx_ok io' (d, ch)" using ch(2) unfolding tx_ok_def prepared_def prod.case by (elim conjE, intro conjI) assumption+
    ultimately show ?thesis
      using Some used tx hwa assms(1) tl ch(2) by (simp add: drv_inv_def chan_inv_def cf)
  qed
qed

lemma submit_drv:
  assumes "cookie_env ie" and "drv_inv ie (A @ (d, ch) # B) io"
  shows "\<exists>k io'. ioat1_tx_submit ie d io = Inr (k, io') \<and> 0 < k \<and> drv_inv ie (A @ B) io' \<and>
    used_desc io' = used_desc io @ ch"
proof -
  have t: "tx_ok io (d, ch)" and ci: "chan_inv ie (tx_chains A @ ch @ tx_chains B) io" and ne: "used_desc io \<noteq> []"
    using assms(2) by (simp_all add: drv_inv_def)
  have tt: "ch \<noteq> []" "d = last ch" "tx_list (descs io d) = ch" "\<forall>x \<in> set ch. x \<noteq> d \<longrightarrow> idle_desc (descs io x)"
    using t unfolding tx_ok_def prod.case by blast+
  obtain k io' where s: "ioat1_tx_submit ie d io = Inr (k, io')" "0 < k" "chan_inv ie (tx_chains A @ tx_chains B) io'"
    "used_desc io' = used_desc io @ ch" "completion io' = completion io" "last_completion io' = last_completion io"
    "xfercap io' = xfercap io" "\<forall>x. sw_phys (descs io' x) = sw_phys (descs io x)"
    "\<forall>x. x \<notin> set (used_desc io) \<and> x \<noteq> d \<longrightarrow> descs io' x = descs io x"
    using submit_ok [OF assms(1) ci ne tt] by blast
  have da: "distinct (used_desc io @ tx_chains A @ ch @ tx_chains B @ free_desc io)"
    using ci by (simp add: chan_inv_def desc_wf_def)
  have "tx_ok io' t'" if "t' \<in> set (A @ B)" for t'
  proof (rule tx_ok_cong)
    show "tx_ok io t'" using assms(2) that by (auto simp: drv_inv_def)
    fix x assume x: "x \<in> set (snd t')"
    have "x \<in> set (tx_chains A) \<or> x \<in> set (tx_chains B)" using that in_chains [OF _ x, of A] in_chains [OF _ x, of B] by auto
    then have "x \<notin> set (used_desc io)" "x \<noteq> d" using da tt(1,2) by (auto simp: disjoint_iff)
    then show "descs io' x = descs io x" using s(9) by blast
  qed
  moreover have "\<exists>c. completion io' = Completion c \<and> hw_addr io' (ioat_chansts_to_addr ie c)" "seen_addr io'"
    using assms(2) s(4,5,6,8) by (auto simp: drv_inv_def hw_addr_def seen_addr_def)
  ultimately have "drv_inv ie (A @ B) io'" using s(3,4,7) tt(1) assms(2) by (simp add: drv_inv_def)
  then show ?thesis using s by blast
qed

lemma ioat_step_inv:
  assumes "ioat_step ie (T, io) (T', io')" and "cookie_env ie" and "drv_inv ie T io"
  shows "drv_inv ie T' io'"
  using assms(1)
proof (cases rule: ioat_step.cases)
  case (step_prep dest src n fl d)
  then show ?thesis using prep_drv [OF assms(3) step_prep(2)] by simp
next
  case (step_prep_fail dest src n fl)
  then show ?thesis using prep_drv [OF assms(3) step_prep_fail(2)] by simp
next
  case (step_submit d k A ch B)
  then show ?thesis using submit_drv [OF assms(2), of A d ch B io] assms(3) by auto
next
  case step_issue
  have "drv_inv ie T (ioat1_dma_memcpy_issue_pending io)"
    by (rule drv_inv_same [OF assms(3)])
       (use assms(3) in \<open>auto simp: drv_inv_def ioat1_dma_memcpy_issue_pending_def issue_pending_locked_def write_cmd_def\<close>)
  then show ?thesis using step_issue by simp
next
  case (step_cleanup cl dl)
  then show ?thesis using cleanup_event_drv [OF assms(2,3), of cl dl] by auto
next
  case step_timer
  then show ?thesis using timer_drv [OF assms(2,3)] by auto
next
  case (step_hardware x c v)
  have "drv_inv ie T (io\<lparr>completion := Completion c, reg_chansts := v\<rparr>)"
    by (rule drv_inv_same [OF assms(3)]) (use assms(3) step_hardware in \<open>auto simp: drv_inv_def hw_addr_def image_iff\<close>)
  then show ?thesis using step_hardware by simp
next
  case step_suspend
  have "drv_inv ie T (ioat_suspend io)"
    by (rule drv_inv_same [OF assms(3)]) (use assms(3) in \<open>auto simp: drv_inv_def ioat_suspend_def write_cmd_def\<close>)
  then show ?thesis using step_suspend by simp
next
  case step_resume
  have "drv_inv ie T (ioat_resume io)"
    by (rule drv_inv_same [OF assms(3)]) (use assms(3) in \<open>auto simp: drv_inv_def ioat_resume_def write_cmd_def\<close>)
  then show ?thesis using step_resume by simp
qed

end
