(* ===== verification/Ioat_Driver.thy ===== *)
theory Ioat_Driver
  imports Ioat_Run
begin

text \<open>
  Properties of the I/OAT channel driver over its whole life: allocation of the channel resources,
  any run of the driver, release of the resources.
\<close>

subsection \<open>Allocation and release\<close>

lemma alloc_descriptor_free:
  assumes "ioat_dma_alloc_descriptor ie io = (r, io')"
  shows "free_desc io' = free_desc io"
  using assms by (auto simp: ioat_dma_alloc_descriptor_def Let_def split: option.splits if_splits)

lemma alloc_descs_wf:
  assumes "alloc_descs ie n acc io = (tmp, io')" and "free_desc io = []" and "desc_wf ie io acc"
    and "\<forall>x \<in> set acc. idle_desc (descs io x)"
  shows "core io' = core io \<and> free_desc io' = [] \<and> desc_wf ie io' tmp \<and> (\<forall>x \<in> set tmp. idle_desc (descs io' x)) \<and>
    length tmp \<le> length acc + n"
  using assms
proof (induction n arbitrary: acc io)
  case (Suc n)
  obtain r io1 where a: "ioat_dma_alloc_descriptor ie io = (r, io1)" by (cases "ioat_dma_alloc_descriptor ie io")
  then have g: "ioat1_dma_get_next_descriptor ie io = (r, io1)"
    using Suc.prems(2) by (simp add: ioat1_dma_get_next_descriptor_def)
  note w = get_next_wf [OF Suc.prems(3) g] and f = alloc_descriptor_free [OF a]
  show ?case
  proof (cases r)
    case None
    then show ?thesis using Suc.prems a w f by auto
  next
    case (Some d)
    have p: "desc_wf ie io1 (acc @ [d])" by (rule desc_wf_perm [of ie io1 "d # acc"]) (use w Some in auto)
    have i: "\<forall>x \<in> set (acc @ [d]). idle_desc (descs io1 x)" using w Some Suc.prems(4) by auto
    have "alloc_descs ie n (acc @ [d]) io1 = (tmp, io')" using Suc.prems(1) a Some by simp
    from Suc.IH [OF this _ p i] show ?thesis using f Suc.prems(2) w by auto
  qed
qed auto

text \<open>A channel as probing leaves it: no descriptor, no progress.\<close>

definition fresh_channel :: "ioat_dma_chan \<Rightarrow> bool" where
  "fresh_channel io \<longleftrightarrow> free_desc io = [] \<and> used_desc io = [] \<and> pool_live io = {#} \<and> last_completion io = 0 \<and>
     xfercap io \<noteq> 0"

lemma start_null_ok:
  assumes "desc_wf ie io []" and "free_desc io = d # ds" and "used_desc io = []"
  shows "chan_inv ie [] (ioat1_dma_start_null_desc ie io)"
    and "used_desc (ioat1_dma_start_null_desc ie io) = [d]" and "free_desc (ioat1_dma_start_null_desc ie io) = ds"
proof -
  let ?io1 = "io\<lparr>free_desc := ds\<rparr>"
  let ?f = "\<lambda>s. s\<lparr>sw_hw := (sw_hw s)\<lparr>hw_null := True, hw_int_en := True, hw_compl_write := True, hw_size := 1,
      hw_src_addr := 0, hw_dst_addr := 0, hw_next := 0\<rparr>, sw_flags := async_tx_ack (sw_flags s)\<rparr>"
  let ?s = "ioat1_dma_start_null_desc ie io"
  have w: "desc_wf ie ?io1 [d]" and i: "idle_desc (descs io d)" and dn: "d \<notin> set ds"
    using assms by (auto simp: desc_wf_def)
  have e: "used_desc ?s = [d]" "free_desc ?s = ds" "alloc_count ?s = alloc_count io" "pool_live ?s = pool_live io"
    "descs ?s = descs (upd_desc d ?f ?io1)"
    using assms(2,3) by (simp_all add: ioat1_dma_start_null_desc_def ioat1_dma_get_next_descriptor_def Let_def ioat_start_def
        write_cmd_def ioat_set_chainaddr_def upd_hw_def upd_desc_def)
  have "desc_wf ie (upd_desc d ?f ?io1) [d]" by (rule desc_wf_upd [OF w]) (use dn in simp_all)
  then have "desc_wf ie ?s [d]" unfolding desc_wf_def e by simp
  moreover have "used_ok (descs ?s d)" unfolding e using i by (simp add: used_ok_def idle_desc_def)
  ultimately show "chan_inv ie [] ?s" by (simp add: chan_inv_def e)
  show "used_desc ?s = [d]" "free_desc ?s = ds" by (rule e)+
qed

lemma start_null_fields [simp]:
  "xfercap (ioat1_dma_start_null_desc ie io) = xfercap io" "completion (ioat1_dma_start_null_desc ie io) = completion io"
  "last_completion (ioat1_dma_start_null_desc ie io) = last_completion io"
  "desccount (ioat1_dma_start_null_desc ie io) = desccount io"
  by (auto simp: ioat1_dma_start_null_desc_def ioat1_dma_get_next_descriptor_def ioat_dma_alloc_descriptor_def Let_def
      ioat_start_def write_cmd_def ioat_set_chainaddr_def upd_hw_def upd_desc_def split: list.splits option.splits)

lemma alloc_resources_ok:
  assumes "ioat1_dma_alloc_chan_resources ie io = Inr (n, io')" and "fresh_channel io" and "0 < n"
  shows "drv_inv ie [] io'" and "n = unat (desccount io')" and "length (used_desc io') = 1"
proof -
  let ?io2 = "(io\<lparr>reg_run := True\<rparr>)\<lparr>chanerr_acks := (if reg_chanerr io \<noteq> 0 then chanerr_acks io @ [reg_chanerr io] else chanerr_acks io)\<rparr>"
  obtain tmp io3 where al: "alloc_descs ie (nat (sint (ioat_initial_desc_count ie))) [] ?io2 = (tmp, io3)"
    by (cases "alloc_descs ie (nat (sint (ioat_initial_desc_count ie))) [] ?io2")
  have f0: "free_desc io = []" "used_desc io = []" "pool_live io = {#}" "last_completion io = 0" "xfercap io \<noteq> 0"
    using assms(2) by (simp_all add: fresh_channel_def)
  have w: "core io3 = core ?io2" "free_desc io3 = []" "desc_wf ie io3 tmp" "\<forall>x \<in> set tmp. idle_desc (descs io3 x)"
    using alloc_descs_wf [OF al] f0 by (simp_all add: desc_wf_def)
  obtain a where a: "completion_addr ie = Some a" "n = unat (desccount io')"
    "io' = ioat1_dma_start_null_desc ie (io3\<lparr>desccount := of_nat (length tmp), free_desc := tmp, completion := Completion 0,
        completion_dma := a, reg_chancmp := push_bit 32 (ucast (ucast (drop_bit 32 a) :: u32)) OR
          ucast (ucast (a AND 0x00000000FFFFFFFF) :: u32), tasklet_enabled := True\<rparr>)" (is "io' = ioat1_dma_start_null_desc ie ?io5")
    using assms(1) f0(1) al w(2)
    by (cases "reg_chanerr io = 0") (auto simp: ioat1_dma_alloc_chan_resources_def Let_def split: option.splits)
  have "tmp \<noteq> []" using assms(3) a(2,3) by auto
  then obtain d ds where tmp: "tmp = d # ds" by (cases tmp) auto
  have w5: "desc_wf ie ?io5 []" "free_desc ?io5 = d # ds" "used_desc ?io5 = []"
    using w(2-4) core_eqD(1) [OF w(1)] f0(2) tmp by (simp_all add: desc_wf_def)
  note s = start_null_ok [OF w5]
  show "drv_inv ie [] io'"
    using s f0(4,5) core_eqD(2,10) [OF w(1)] by (simp add: drv_inv_def a(3) hw_addr_def seen_addr_def ioat_chansts_to_addr_def)
  show "n = unat (desccount io')" "length (used_desc io') = 1" using a(2,3) s(2) by simp_all
qed

lemma cleanup_drv:
  assumes "cookie_env ie" and "drv_inv ie T io"
  shows "\<exists>io'. ioat1_cleanup ie cl dl io = Inr io' \<and> drv_inv ie T io'"
proof -
  obtain c where c: "completion io = Completion c" using assms(2) by (auto simp: drv_inv_def)
  obtain pc io1 where p: "ioat_cleanup_preamble ie io = Inr (pc, io1)" using preamble_total c by blast
  show ?thesis
    using p cleanup_step_drv [OF assms p] assms(2) by (cases pc) (auto simp: ioat1_cleanup_def)
qed

lemma free_descs_eq:
  assumes "pool_live io = mset (map (\<lambda>x. sw_phys (descs io x)) ds) + M"
  shows "free_descs ds io = io\<lparr>pool_live := M\<rparr>"
  using assms by (induction ds arbitrary: io) simp_all

lemma free_descs_xfercap [simp]: "xfercap (free_descs ds io) = xfercap io"
  by (induction ds arbitrary: io) simp_all

lemma free_resources_ok:
  assumes "cookie_env ie" and "drv_inv ie T io" and "desccount io \<noteq> 0"
  shows "\<exists>io'. ioat1_dma_free_chan_resources ie cl dl io = Inr io' \<and> used_desc io' = [] \<and> free_desc io' = [] \<and>
    completion io' = Freed_Completion \<and> pool_live io' = mset (map (\<lambda>x. the (pool_phys ie x)) (tx_chains T)) \<and>
    desccount io' = 0 \<and> last_completion io' = 0 \<and> pending io' = 0 \<and> xfercap io' \<noteq> 0"
proof -
  let ?io0 = "io\<lparr>tasklet_enabled := False, ic_timer := None\<rparr>"
  have "drv_inv ie T ?io0"
    by (rule drv_inv_same [OF assms(2)]) (use assms(2) in \<open>auto simp: drv_inv_def\<close>)
  from cleanup_drv [OF assms(1) this] obtain io1 where c: "ioat1_cleanup ie cl dl ?io0 = Inr io1" "drv_inv ie T io1" by blast
  let ?M = "mset (map (\<lambda>x. the (pool_phys ie x)) (tx_chains T))"
  have wf: "desc_wf ie io1 (used_desc io1 @ tx_chains T)" using c(2) by (simp add: drv_inv_def chan_inv_def)
  have "mset (map (\<lambda>x. sw_phys (descs io1 x)) (tx_chains T)) = ?M"
    using wf by (intro arg_cong [of _ _ mset]) (auto simp: desc_wf_def)
  then have live: "pool_live io1 = mset (map (\<lambda>x. sw_phys (descs io1 x)) (used_desc io1)) +
      (mset (map (\<lambda>x. sw_phys (descs io1 x)) (free_desc io1)) + ?M)"
    using wf by (simp add: desc_wf_def)
  let ?io2 = "write_cmd CHANCMD_RESET io1"
  have u: "free_descs (used_desc ?io2) ?io2 = ?io2\<lparr>pool_live := mset (map (\<lambda>x. sw_phys (descs io1 x)) (free_desc io1)) + ?M\<rparr>"
    by (rule free_descs_eq) (simp add: live write_cmd_def)
  let ?io3 = "(free_descs (used_desc ?io2) ?io2)\<lparr>used_desc := []\<rparr>"
  have f: "free_descs (free_desc ?io3) ?io3 = ?io3\<lparr>pool_live := ?M\<rparr>"
    unfolding u by (rule free_descs_eq) (simp add: write_cmd_def)
  show ?thesis
    using assms(3) c f by (simp add: ioat1_dma_free_chan_resources_def Let_def write_cmd_def drv_inv_def)
qed

subsection \<open>Runs\<close>

lemma complete_desc_count: "desccount (complete_desc ie d io) = desccount io"
  by (simp add: complete_desc_def Let_def upd_desc_def ioat_unmap_log split: prod.splits option.splits)

lemma cleanup_loop_count: "desccount (cleanup_loop ie pc ds io) = desccount io"
  by (induction ds arbitrary: io) (simp_all add: Let_def complete_desc_count clear_bit_state_def)

lemma cleanup_count: "ioat1_cleanup ie cl dl io = Inr io' \<Longrightarrow> desccount io' = desccount io"
  by (auto simp: ioat1_cleanup_def seq_ok_eq_Inr_iff ioat_cleanup_preamble_def cleanup_locked_def cleanup_loop_count
      mod_timer_def clear_bit_state_def split: if_splits)

lemma timer_count: "ioat1_timer_event ie io = Inr io' \<Longrightarrow> desccount io' = desccount io"
  by (auto simp: ioat1_timer_event_def seq_ok_eq_Inr_iff ioat_cleanup_preamble_def cleanup_locked_def cleanup_loop_count
      mod_timer_def clear_bit_state_def set_bit_state_def ioat_start_def write_cmd_def ioat_set_chainaddr_def
      ioat1_reset_channel_def Let_def split: if_splits list.splits)

lemma submit_count: "ioat1_tx_submit ie d io = Inr (k, io') \<Longrightarrow> desccount io' = desccount io"
  by (auto simp: ioat1_tx_submit_def Let_def upd_desc_def upd_hw_def submit_account_def mod_timer_def set_bit_state_def
      issue_pending_locked_def write_cmd_def split: if_splits)

lemma prep_count:
  assumes "drv_inv ie T io" and "ioat1_dma_prep_memcpy ie dest src n fl io = Some (r, io')"
  shows "desccount io' = desccount io"
proof -
  have "desc_wf ie io (used_desc io @ tx_chains T)" "xfercap io \<noteq> 0"
    using assms(1) by (simp_all add: drv_inv_def chan_inv_def)
  from prep_memcpy_ok [OF this, of dest src n fl] show ?thesis using assms(2) by (auto dest: core_eqD(7))
qed

lemma ioat_step_count:
  assumes "ioat_step ie (T, io) (T', io')" and "drv_inv ie T io"
  shows "desccount io' = desccount io"
  using assms(1)
  by (cases rule: ioat_step.cases)
     (auto dest: prep_count [OF assms(2)] submit_count timer_count cleanup_count
       simp: ioat1_dma_memcpy_issue_pending_def issue_pending_locked_def write_cmd_def ioat_suspend_def ioat_resume_def
         ioat1_cleanup_event_def seq_ok_eq_Inr_iff)

lemma ioat_run_inv:
  assumes "(ioat_step ie)\<^sup>*\<^sup>* (T0, io0) (T, io)" and "cookie_env ie" and "drv_inv ie T0 io0"
  shows "drv_inv ie T io \<and> desccount io = desccount io0"
  using assms(1)
proof (induction rule: rtranclp_induct2)
  case refl
  then show ?case using assms(3) by simp
next
  case (step T1 io1 T2 io2)
  then show ?case using ioat_step_inv [OF step(2) assms(2)] ioat_step_count [OF step(2)] by simp
qed

text \<open>Preparing a copy fails only when an allocation fails.\<close>

lemma get_next_some:
  assumes "\<And>i. pool_phys ie i \<noteq> None \<and> kz_ok ie i"
  shows "fst (ioat1_dma_get_next_descriptor ie io) \<noteq> None"
proof -
  obtain p where "pool_phys ie (alloc_count io) = Some p" using assms by blast
  then show ?thesis
    using assms by (cases "free_desc io") (simp_all add: ioat1_dma_get_next_descriptor_def ioat_dma_alloc_descriptor_def Let_def)
qed

lemma prep_loop_some:
  assumes "\<And>i. pool_phys ie i \<noteq> None \<and> kz_ok ie i" and "prep_loop ie desc n src dest k pre io = Some y" and "desc \<noteq> None"
  shows "fst y \<noteq> None"
proof -
  let ?P = "\<lambda>ie' desc n src dest k pre io y. ie' = ie \<longrightarrow> desc \<noteq> None \<longrightarrow> fst y \<noteq> None"
  have nn: "ioat1_dma_get_next_descriptor ie io \<noteq> (None, io')" for io io'
    using get_next_some [OF assms(1), of io] by auto
  have "?P ie desc n src dest k pre io y"
    by (rule prep_loop.raw_induct [of ?P, OF _ assms(2)])
       (fastforce simp: Let_def nn split: option.splits prod.splits if_splits)
  then show ?thesis using assms(3) by simp
qed

lemma prep_some:
  assumes "\<And>i. pool_phys ie i \<noteq> None \<and> kz_ok ie i" and "ioat1_dma_prep_memcpy ie dest src n fl io = Some (r, io')"
  shows "r \<noteq> None"
proof -
  obtain e io1 where g: "ioat1_dma_get_next_descriptor ie io = (Some e, io1)"
    using get_next_some [OF assms(1), of io] by (cases "ioat1_dma_get_next_descriptor ie io") auto
  then obtain y where y: "prep_loop ie (Some e) n src dest 0 [] io1 = Some y"
    using assms(2) by (auto simp: ioat1_dma_prep_memcpy_def split: option.splits)
  then show ?thesis
    using assms(2) g prep_loop_some [OF assms(1) y]
    by (cases y) (auto simp: ioat1_dma_prep_memcpy_def split: option.splits)
qed

text \<open>The states of a channel whose resources were allocated at least in part.\<close>

definition ioat_reach :: "ioat_env \<Rightarrow> (nat \<times> nat list) list \<Rightarrow> ioat_dma_chan \<Rightarrow> bool" where
  "ioat_reach ie T io \<longleftrightarrow> (\<exists>io0 n io1. fresh_channel io0 \<and> ioat1_dma_alloc_chan_resources ie io0 = Inr (n, io1) \<and> 0 < n \<and>
     (ioat_step ie)\<^sup>*\<^sup>* ([], io1) (T, io))"

lemma ioat_reach_inv:
  assumes "ioat_reach ie T io" and "cookie_env ie"
  shows "drv_inv ie T io" "desccount io \<noteq> 0"
proof -
  obtain io0 n io1 where r: "fresh_channel io0" "ioat1_dma_alloc_chan_resources ie io0 = Inr (n, io1)" "0 < n"
    "(ioat_step ie)\<^sup>*\<^sup>* ([], io1) (T, io)" using assms(1) by (auto simp: ioat_reach_def)
  note a = alloc_resources_ok [OF r(2,1,3)]
  show "drv_inv ie T io" using ioat_run_inv [OF r(4) assms(2) a(1)] by simp
  have "desccount io1 \<noteq> 0" using a(2) r(3) by auto
  then show "desccount io \<noteq> 0" using ioat_run_inv [OF r(4) assms(2) a(1)] by simp
qed

subsection \<open>A channel\<close>

text \<open>A channel that splits copies at 4096 bytes, with two initial descriptors.\<close>

definition demo_ie :: ioat_env where
  "demo_ie = \<lparr>ck_assign = (\<lambda>k. if k + 1 < DMA_MIN_COOKIE then DMA_MIN_COOKIE else k + 1), ck_complete = (\<lambda>k. (k, 0)),
     ck_status = dma_async_is_complete, pool_phys = (\<lambda>n. Some (0x1000 + 64 * of_nat n)),
     kz_ok = (\<lambda>_. True), completion_addr = Some 0x8000, addr_mask = 0xFFFFFFFFFFFFFFC0, status_mask = 7, status_halted = 3,
     status_active = 0, status_done = 1, status_suspended = 2, ioat_pending_level = 4, ioat_initial_desc_count = 2\<rparr>"

definition demo_ioat_chan :: ioat_dma_chan where
  "demo_ioat_chan = \<lparr>chan_cookie = 1, completed_cookie = 1, last_completion = 0, ic_state = {}, ic_timer = None, completion_dma = 0,
     completion = No_Completion, tasklet_enabled = False, tasklet_scheduled = False, xfercap = 4096, free_desc = [],
     used_desc = [], pending = 0, desccount = 0, ic_active = 0, descs = (\<lambda>_. fresh_desc 0), alloc_count = 0,
     pool_live = {#}, reg_cmds = [], reg_chainaddr = 0, reg_chanerr = 0, chanerr_acks = [], reg_chancmp = 0,
     reg_run = False, reg_chansts = 0, unmapped = [], called = []\<rparr>"

lemma demo_cookie_env: "cookie_env demo_ie"
  by (simp add: cookie_env_def demo_ie_def DMA_MIN_COOKIE_def)

lemma demo_fresh: "fresh_channel demo_ioat_chan"
  by (simp add: fresh_channel_def demo_ioat_chan_def)

definition demo_started :: ioat_dma_chan where
  "demo_started = (case ioat1_dma_alloc_chan_resources demo_ie demo_ioat_chan of Inr (n, io) \<Rightarrow> io | Inl e \<Rightarrow> demo_ioat_chan)"

lemma alloc_descs_full:
  assumes "\<And>i. i < alloc_count io + n \<Longrightarrow> pool_phys ie i \<noteq> None \<and> kz_ok ie i"
  shows "length (fst (alloc_descs ie n acc io)) = length acc + n"
  using assms
proof (induction n arbitrary: acc io)
  case (Suc n)
  obtain p where p: "pool_phys ie (alloc_count io) = Some p" "kz_ok ie (alloc_count io)"
    using Suc.prems [of "alloc_count io"] by auto
  let ?io1 = "upd_desc (alloc_count io) (\<lambda>_. fresh_desc p) (io\<lparr>alloc_count := alloc_count io + 1, pool_live := add_mset p (pool_live io)\<rparr>)"
  have "ioat_dma_alloc_descriptor ie io = (Some (alloc_count io), ?io1)"
    using p by (simp add: ioat_dma_alloc_descriptor_def Let_def)
  then show ?case using Suc.IH [of ?io1 "acc @ [alloc_count io]"] Suc.prems by simp
qed simp

lemma alloc_resources_count:
  assumes "free_desc io = []" and "completion_addr ie = Some a"
    and "\<And>i. i < alloc_count io + nat (sint (ioat_initial_desc_count ie)) \<Longrightarrow> pool_phys ie i \<noteq> None \<and> kz_ok ie i"
  shows "\<exists>io'. ioat1_dma_alloc_chan_resources ie io = Inr (unat (of_nat (nat (sint (ioat_initial_desc_count ie))) :: u16), io')"
proof -
  let ?n = "nat (sint (ioat_initial_desc_count ie))"
  let ?io1 = "io\<lparr>reg_run := True\<rparr>"
  let ?io2 = "if reg_chanerr ?io1 \<noteq> 0 then ?io1\<lparr>chanerr_acks := chanerr_acks ?io1 @ [reg_chanerr ?io1]\<rparr> else ?io1"
  obtain tmp io3 where al: "alloc_descs ie ?n [] ?io2 = (tmp, io3)" by (cases "alloc_descs ie ?n [] ?io2")
  have "alloc_count ?io2 = alloc_count io" by simp
  then have "length tmp = ?n" using alloc_descs_full [of ?io2 ?n ie "[]"] al assms(3) by simp
  then show ?thesis
    unfolding ioat1_dma_alloc_chan_resources_def Let_def al using assms(1,2) by simp
qed

lemma demo_alloc: "ioat1_dma_alloc_chan_resources demo_ie demo_ioat_chan = Inr (2, demo_started)"
proof -
  have "\<exists>io'. ioat1_dma_alloc_chan_resources demo_ie demo_ioat_chan = Inr (2, io')"
    using alloc_resources_count [of demo_ioat_chan demo_ie "0x8000"] by (simp add: demo_ioat_chan_def demo_ie_def)
  then show ?thesis by (auto simp: demo_started_def)
qed

lemma demo_ioat_reach: "ioat_reach demo_ie [] demo_started"
  unfolding ioat_reach_def using demo_fresh demo_alloc by (intro exI conjI) auto

subsection \<open>Descriptors are conserved\<close>

lemma drv_inv_total:
  assumes "drv_inv ie T io" and "cookie_env ie"
  shows "\<exists>io'. ioat1_cleanup_event ie cl dl io = Inr io'" "t \<in> set T \<Longrightarrow> \<exists>k io'. ioat1_tx_submit ie (fst t) io = Inr (k, io') \<and> 0 < k"
    and "\<exists>io'. ioat1_timer_event ie io = Inr io'" "\<exists>r io'. ioat1_dma_prep_memcpy ie dest src n fl io = Some (r, io')"
    and "\<exists>st io'. ioat_dma_tx_status ie cl dl k io = Inr (st, io')"
proof -
  show ce: "\<exists>io'. ioat1_cleanup_event ie cl dl io = Inr io'" using cleanup_event_drv [OF assms(2,1)] by blast
  show "\<exists>st io'. ioat_dma_tx_status ie cl dl k io = Inr (st, io')" using ce by (auto simp: ioat_dma_tx_status_def Let_def)
  obtain c where c: "completion io = Completion c" and u: "used_desc io \<noteq> []" using assms(1) by (auto simp: drv_inv_def)
  obtain pc io1 where "ioat_cleanup_preamble ie io = Inr (pc, io1)" using preamble_total [OF c] by blast
  then show "\<exists>io'. ioat1_timer_event ie io = Inr io'"
    using u by (cases pc) (auto simp: ioat1_timer_event_def Let_def clear_bit_state_def neq_Nil_conv)
  have "desc_wf ie io (used_desc io @ tx_chains T)" "xfercap io \<noteq> 0" using assms(1) by (simp_all add: drv_inv_def chan_inv_def)
  from prep_memcpy_ok [OF this, of dest src n fl] show "\<exists>r io'. ioat1_dma_prep_memcpy ie dest src n fl io = Some (r, io')" by blast
  assume "t \<in> set T"
  then obtain A d ch B where "T = A @ (d, ch) # B" "t = (d, ch)" by (metis split_list surj_pair)
  then show "\<exists>k io'. ioat1_tx_submit ie (fst t) io = Inr (k, io') \<and> 0 < k"
    using submit_drv [OF assms(2), of A d ch B io] assms(1) by auto
qed

text \<open>
  C21. However preparations, submissions, cleanups, timer events, commands and hardware progress are
  interleaved on an I/OAT channel, no descriptor is ever on two of the used list, the free list and
  the chains of prepared transactions, the pool holds exactly the hardware halves of those
  descriptors and free descriptors are idle; and no operation that can come next faults: a cleanup,
  a timer event and a status query run to their end, whatever the locks and the status register say,
  a preparation terminates, every prepared transaction can be submitted and gets a valid cookie, and
  the resources can be released.
\<close>

theorem ioat_descriptors_conserved:
  assumes "ioat_reach ie T io" and "cookie_env ie"
  shows "distinct (used_desc io @ tx_chains T @ free_desc io) \<and>
    pool_live io = mset (map (\<lambda>x. sw_phys (descs io x)) (used_desc io @ tx_chains T @ free_desc io)) \<and>
    (\<forall>x \<in> set (free_desc io). idle_desc (descs io x)) \<and>
    (\<forall>cl dl. \<exists>io'. ioat1_cleanup_event ie cl dl io = Inr io') \<and>
    (\<forall>t \<in> set T. \<exists>k io'. ioat1_tx_submit ie (fst t) io = Inr (k, io') \<and> 0 < k) \<and>
    (\<exists>io'. ioat1_timer_event ie io = Inr io') \<and>
    (\<forall>dest src n fl. \<exists>r io'. ioat1_dma_prep_memcpy ie dest src n fl io = Some (r, io')) \<and>
    (\<forall>cl dl k. \<exists>st io'. ioat_dma_tx_status ie cl dl k io = Inr (st, io')) \<and>
    (\<forall>cl dl. \<exists>io'. ioat1_dma_free_chan_resources ie cl dl io = Inr io')"
proof -
  note i = ioat_reach_inv(1) [OF assms]
  have w: "desc_wf ie io (used_desc io @ tx_chains T)" using i by (simp add: drv_inv_def chan_inv_def)
  show ?thesis
  proof (intro conjI)
    show "distinct (used_desc io @ tx_chains T @ free_desc io)" using w by (simp add: desc_wf_def)
    show "pool_live io = mset (map (\<lambda>x. sw_phys (descs io x)) (used_desc io @ tx_chains T @ free_desc io))"
      using w by (simp add: desc_wf_def)
    show "\<forall>x \<in> set (free_desc io). idle_desc (descs io x)" using w by (simp add: desc_wf_def)
    show "\<forall>t \<in> set T. \<exists>k io'. ioat1_tx_submit ie (fst t) io = Inr (k, io') \<and> 0 < k"
      using drv_inv_total(2) [OF i assms(2)] by blast
    show "\<forall>cl dl. \<exists>io'. ioat1_dma_free_chan_resources ie cl dl io = Inr io'"
      using free_resources_ok [OF assms(2) i ioat_reach_inv(2) [OF assms]] by blast
  qed (use drv_inv_total(1,3,4,5) [OF i assms(2)] in blast)+
qed

text \<open>A copy of 10000 bytes, prepared and then submitted on the channel of the examples.\<close>

lemma demo_pool: "pool_phys demo_ie i \<noteq> None \<and> kz_ok demo_ie i"
  by (simp add: demo_ie_def)

lemma demo_prep:
  obtains d io' where "ioat1_dma_prep_memcpy demo_ie 0x50000 0x90000 10000 0 demo_started = Some (Some d, io')"
    "ioat_reach demo_ie [(d, tx_list (descs io' d))] io'"
proof -
  note i = ioat_reach_inv(1) [OF demo_ioat_reach demo_cookie_env]
  have w: "desc_wf demo_ie demo_started (used_desc demo_started @ tx_chains [])" "xfercap demo_started \<noteq> 0"
    using i by (simp_all add: drv_inv_def chan_inv_def)
  obtain r io' where p: "ioat1_dma_prep_memcpy demo_ie 0x50000 0x90000 10000 0 demo_started = Some (r, io')"
    using prep_memcpy_ok [OF w, of "0x50000" "0x90000" 10000 0] by auto
  then obtain d where d: "r = Some d" using prep_some [OF demo_pool p] by auto
  have "ioat_step demo_ie ([], demo_started) ([(d, tx_list (descs io' d))], io')"
    using p d by (auto intro: ioat_step.step_prep)
  then have "ioat_reach demo_ie [(d, tx_list (descs io' d))] io'"
    unfolding ioat_reach_def using demo_fresh demo_alloc by (intro exI conjI) auto
  then show thesis using that p d by blast
qed

lemma ioat_descriptors_conserved_witness:
  "\<exists>d io'. ioat1_dma_prep_memcpy demo_ie 0x50000 0x90000 10000 0 demo_started = Some (Some d, io') \<and>
     distinct (used_desc io' @ tx_list (descs io' d) @ free_desc io') \<and>
     (\<exists>k io2. ioat1_tx_submit demo_ie d io' = Inr (k, io2) \<and> 0 < k) \<and>
     (\<exists>io2. ioat1_timer_event demo_ie io' = Inr io2)"
proof -
  obtain d io' where p: "ioat1_dma_prep_memcpy demo_ie 0x50000 0x90000 10000 0 demo_started = Some (Some d, io')"
    "ioat_reach demo_ie [(d, tx_list (descs io' d))] io'" by (rule demo_prep)
  show ?thesis using ioat_descriptors_conserved [OF p(2) demo_cookie_env] p(1) by auto
qed

subsection \<open>Preparing a copy\<close>

lemma chain_links:
  "chain_ok cap h ch n src dest \<Longrightarrow> map (\<lambda>x. hw_next (sw_hw (h x))) ch = map (\<lambda>x. sw_phys (h x)) (tl ch) @ [0]"
  by (induction cap h ch n src dest rule: chain_ok.induct) simp_all

text \<open>
  C22. Preparing a copy always ends. On success the chain of hardware descriptors copies every byte of
  the request exactly once and in order, no descriptor moves more than the channel's transfer
  capacity, the descriptors are linked in the order of the chain and the last one ends it, asks for
  a completion write and raises an interrupt exactly when the caller asked for one. On failure all
  descriptors are back on the free list. Either way the descriptors in use are untouched.
\<close>

theorem ioat_prep_covers_request:
  assumes "ioat_reach ie T io" and "cookie_env ie"
  shows "\<exists>r io'. ioat1_dma_prep_memcpy ie dest src n flags io = Some (r, io') \<and> used_desc io' = used_desc io \<and>
    (\<forall>x \<in> set (used_desc io @ tx_chains T). descs io' x = descs io x) \<and>
    (case r of None \<Rightarrow> pool_live io' = mset (map (\<lambda>x. sw_phys (descs io' x)) (used_desc io @ tx_chains T @ free_desc io'))
     | Some d \<Rightarrow> let ch = tx_list (descs io' d) in
         concat (map (desc_bytes (descs io')) ch) = map (\<lambda>t. (src + of_nat t, dest + of_nat t)) [0 ..< unat n] \<and>
         (\<forall>x \<in> set ch. hw_size (sw_hw (descs io' x)) \<le> xfercap io) \<and>
         map (\<lambda>x. hw_next (sw_hw (descs io' x))) ch = map (\<lambda>x. sw_phys (descs io' x)) (tl ch) @ [0] \<and>
         d = last ch \<and> hw_compl_write (sw_hw (descs io' d)) \<and>
         (hw_int_en (sw_hw (descs io' d)) \<longleftrightarrow> flags AND DMA_PREP_INTERRUPT \<noteq> 0))"
proof -
  note i = ioat_reach_inv(1) [OF assms]
  have w: "desc_wf ie io (used_desc io @ tx_chains T)" "xfercap io \<noteq> 0"
    using i by (simp_all add: drv_inv_def chan_inv_def)
  obtain r io' where p: "ioat1_dma_prep_memcpy ie dest src n flags io = Some (r, io')" "core io' = core io"
    "\<forall>x \<in> set (used_desc io @ tx_chains T). descs io' x = descs io x"
    "case r of None \<Rightarrow> desc_wf ie io' (used_desc io @ tx_chains T)
     | Some d \<Rightarrow> \<exists>ch. desc_wf ie io' (ch @ used_desc io @ tx_chains T) \<and> prepared ie io' dest src n flags d ch"
    using prep_memcpy_ok [OF w, of dest src n flags] by blast
  note cf = core_eqD [OF p(2)]
  show ?thesis
  proof (cases r)
    case None
    then show ?thesis using p cf(1) by (intro exI [of _ r] exI [of _ io']) (simp add: desc_wf_def)
  next
    case (Some d)
    then obtain ch where ch: "prepared ie io' dest src n flags d ch" using p(4) by auto
    then have c: "tx_list (descs io' d) = ch" "d = last ch" "chain_ok (xfercap io) (descs io') ch n src dest"
      "hw_compl_write (sw_hw (descs io' d))" "hw_int_en (sw_hw (descs io' d)) \<longleftrightarrow> flags AND DMA_PREP_INTERRUPT \<noteq> 0"
      unfolding prepared_def cf(2) by blast+
    have sz: "\<forall>x \<in> set ch. hw_size (sw_hw (descs io' x)) \<le> xfercap io" using chain_sizes [OF c(3)] by blast
    show ?thesis
      by (rule exI [of _ "Some d"], rule exI [of _ io'], unfold option.case c(1) Let_def)
         (intro conjI p(1) [unfolded Some] cf(1) p(3) chain_bytes [OF c(3)] sz chain_links [OF c(3)] c(2,4,5))
  qed
qed

lemma ioat_prep_covers_request_witness:
  "\<exists>d io'. ioat1_dma_prep_memcpy demo_ie 0x50000 0x90000 10000 0 demo_started = Some (Some d, io') \<and>
     concat (map (desc_bytes (descs io')) (tx_list (descs io' d))) =
       map (\<lambda>t. (0x90000 + of_nat t, 0x50000 + of_nat t)) [0 ..< 10000] \<and> \<not> hw_int_en (sw_hw (descs io' d))"
proof -
  obtain d io' where p: "ioat1_dma_prep_memcpy demo_ie 0x50000 0x90000 10000 0 demo_started = Some (Some d, io')"
    by (rule demo_prep)
  show ?thesis
    using ioat_prep_covers_request [OF demo_ioat_reach demo_cookie_env, of "0x50000" "0x90000" 10000 0] p
    by (auto simp: Let_def)
qed

end
