(* ===== verification/Ioat_Transfer.thy ===== *)
theory Ioat_Transfer
  imports Ioat_Driver
begin

text \<open>
  What a cleanup of an I/OAT channel completes, a transfer from preparation to completion, the
  release of the channel resources and the watchdog.
\<close>

subsection \<open>Cleanup\<close>

lemma cleanup_event_eq:
  assumes "cookie_env ie" and "completion io = Completion c" and "ioat_chansts_to_addr ie c = sw_phys (descs io e)"
    and "used_desc io = as @ e # bs" and "distinct (used_desc io)"
    and "\<forall>x \<in> set as. sw_phys (descs io x) \<noteq> sw_phys (descs io e)" and "sw_phys (descs io e) \<noteq> last_completion io"
  shows "\<exists>io'. ioat1_cleanup_event ie True True io = Inr io' \<and>
    used_desc io' = filter (\<lambda>x. \<not> acked io x) as @ e # bs \<and> free_desc io' = free_desc io @ filter (acked io) as \<and>
    unmapped io' = unmapped io @ concat (map (\<lambda>x. desc_unmaps (descs io x)) (as @ [e])) \<and>
    called io' = called io @ concat (map (\<lambda>x. desc_calls (descs io x)) (as @ [e])) \<and>
    completed_cookie io' = last_cookie (completed_cookie io) (map (\<lambda>x. sw_cookie (descs io x)) (as @ [e])) \<and>
    last_completion io' = sw_phys (descs io e) \<and> chan_cookie io' = chan_cookie io \<and>
    (IOAT_COMPLETION_PENDING \<in> ic_state io' \<longleftrightarrow> bs \<noteq> [] \<and> IOAT_COMPLETION_PENDING \<in> ic_state io)"
proof -
  let ?io1 = "mod_timer COMPLETION_TIMEOUT (clear_bit_state IOAT_COMPLETION_ACK io)"
  have pre: "ioat_cleanup_preamble ie io = Inr (Some (sw_phys (descs io e)), ?io1)"
    using assms(2,3,7) by (simp add: ioat_cleanup_preamble_def ioat_get_current_completion_def)
  have d1: "descs ?io1 = descs io" "used_desc ?io1 = used_desc io" "free_desc ?io1 = free_desc io"
    "unmapped ?io1 = unmapped io" "called ?io1 = called io" "completed_cookie ?io1 = completed_cookie io"
    "chan_cookie ?io1 = chan_cookie io" "ic_state ?io1 = ic_state io - {IOAT_COMPLETION_ACK}"
    by (simp_all add: mod_timer_def clear_bit_state_def)
  have ack: "acked ?io1 = acked io" by (simp add: acked_def d1 fun_eq_iff)
  have "\<exists>act. cleanup_loop ie (sw_phys (descs io e)) (as @ e # bs) ?io1 = ?io1\<lparr>
      used_desc := [] @ filter (\<lambda>x. \<not> acked ?io1 x) as @ e # bs,
      free_desc := free_desc ?io1 @ filter (acked ?io1) as,
      descs := (\<lambda>x. if x \<in> set (as @ [e]) then finished (descs ?io1 x) else descs ?io1 x),
      unmapped := unmapped ?io1 @ concat (map (\<lambda>x. desc_unmaps (descs ?io1 x)) (as @ [e])),
      called := called ?io1 @ concat (map (\<lambda>x. desc_calls (descs ?io1 x)) (as @ [e])),
      completed_cookie := last_cookie (completed_cookie ?io1) (map (\<lambda>x. sw_cookie (descs ?io1 x)) (as @ [e])),
      ic_active := act, ic_state := (if bs = [] then ic_state ?io1 - {IOAT_COMPLETION_PENDING} else ic_state ?io1)\<rparr>"
    using assms(4,5,6) by (intro cleanup_loop_ok [OF assms(1)]) (simp_all add: d1)
  then show ?thesis
    using pre assms(4)
    by (auto simp: ioat1_cleanup_event_def ioat1_cleanup_def cleanup_locked_def d1 ack split: if_splits)
qed

lemma pool_inj:
  assumes "desc_wf ie io R" and "\<forall>a. count (pool_live io) a \<le> 1"
  shows "distinct (map (\<lambda>x. sw_phys (descs io x)) (R @ free_desc io))"
proof -
  let ?xs = "map (\<lambda>x. sw_phys (descs io x)) (R @ free_desc io)"
  have "pool_live io = mset ?xs" using assms(1) by (simp only: desc_wf_def)
  then have "\<forall>a. count (mset ?xs) a \<le> 1" using assms(2) by simp
  then have "count (mset ?xs) a = (if a \<in> set ?xs then 1 else 0)" for a
    using count_greater_zero_iff [of "mset ?xs" a] by (metis le_neq_implies_less less_one not_gr_zero set_mset_mset)
  then show ?thesis unfolding distinct_count_atmost_1 by blast
qed

lemma reach_used_inj:
  assumes "drv_inv ie T io" and "\<forall>a. count (pool_live io) a \<le> 1"
  shows "inj_on (\<lambda>x. sw_phys (descs io x)) (set (used_desc io @ tx_chains T @ free_desc io))"
proof -
  have "desc_wf ie io (used_desc io @ tx_chains T)" using assms(1) by (simp add: drv_inv_def chan_inv_def)
  from pool_inj [OF this assms(2)] show ?thesis by (simp only: distinct_map append_assoc)
qed

text \<open>
  C24. When the hardware has written back the address of a used descriptor, a cleanup completes
  exactly the descriptors up to that one, in the order of submission: their buffers are unmapped and
  their callbacks run once each, the channel's completed cookie becomes that of the last of
  them that carries one, those that the client acknowledged return to the free list. The completed
  descriptor stays on the used list to append to, with all later ones; the completion time-out is
  cancelled exactly when no later one is left.
\<close>

theorem ioat_cleanup_completes_prefix:
  assumes "ioat_reach ie T io" and "cookie_env ie" and "\<forall>a. count (pool_live io) a \<le> 1"
    and "completion io = Completion c" and "ioat_chansts_to_addr ie c = sw_phys (descs io e)"
    and "used_desc io = as @ e # bs" and "sw_phys (descs io e) \<noteq> last_completion io"
  shows "\<exists>io'. ioat1_cleanup_event ie True True io = Inr io' \<and>
    used_desc io' = filter (\<lambda>x. \<not> acked io x) as @ e # bs \<and> free_desc io' = free_desc io @ filter (acked io) as \<and>
    unmapped io' = unmapped io @ concat (map (\<lambda>x. desc_unmaps (descs io x)) (as @ [e])) \<and>
    called io' = called io @ concat (map (\<lambda>x. desc_calls (descs io x)) (as @ [e])) \<and>
    completed_cookie io' = last_cookie (completed_cookie io) (map (\<lambda>x. sw_cookie (descs io x)) (as @ [e])) \<and>
    last_completion io' = sw_phys (descs io e) \<and> chan_cookie io' = chan_cookie io \<and>
    (IOAT_COMPLETION_PENDING \<in> ic_state io' \<longleftrightarrow> bs \<noteq> [] \<and> IOAT_COMPLETION_PENDING \<in> ic_state io)"
proof -
  note i = ioat_reach_inv(1) [OF assms(1,2)]
  have dist: "distinct (used_desc io)" using i by (simp add: drv_inv_def chan_inv_def desc_wf_def)
  have "sw_phys (descs io x) \<noteq> sw_phys (descs io e)" if "x \<in> set as" for x
    using inj_onD [OF reach_used_inj [OF i assms(3)], of x e] that dist assms(6) by auto
  then show ?thesis by (intro cleanup_event_eq [OF assms(2,4,5,6) dist _ assms(7)]) blast
qed

subsection \<open>A transfer from preparation to completion\<close>

text \<open>The mappings of a request that its flags ask the driver to release.\<close>

definition request_unmaps :: "u32 \<Rightarrow> u64 \<Rightarrow> u64 \<Rightarrow> u64 \<Rightarrow> dma_mapping list" where
  "request_unmaps flags dest src n =
     (if flags AND DMA_COMPL_SKIP_DEST_UNMAP = 0
      then [(if flags AND DMA_COMPL_DEST_UNMAP_SINGLE \<noteq> 0 then Map_Single else Map_Page, dest, n, From_Device)] else []) @
     (if flags AND DMA_COMPL_SKIP_SRC_UNMAP = 0
      then [(if flags AND DMA_COMPL_SRC_UNMAP_SINGLE \<noteq> 0 then Map_Single else Map_Page, src, n, To_Device)] else [])"

lemma chain_unmaps:
  "chain_ok cap h ch n src dest \<Longrightarrow> unmap_calls flags n (sw_hw (h (last ch))) = request_unmaps flags dest src n"
  using chain_last by (simp add: unmap_calls_def request_unmaps_def)

lemma submit_log [simp]:
  "unmapped (submit_account ie d io) = unmapped io" "called (submit_account ie d io) = called io"
  "completed_cookie (submit_account ie d io) = completed_cookie io"
  by (simp_all add: submit_account_def Let_def mod_timer_def set_bit_state_def issue_pending_locked_def write_cmd_def)

lemma desc_unmaps_next [simp]: "desc_unmaps (ds\<lparr>sw_hw := (sw_hw ds)\<lparr>hw_next := v\<rparr>\<rparr>) = desc_unmaps ds"
  by (simp add: desc_unmaps_def unmap_calls_def)

lemma submitted_request:
  assumes "cookie_env ie" and "drv_inv ie T io" and "ioat1_dma_prep_memcpy ie dest src n flags io = Some (Some d, io1)"
    and "ioat1_tx_submit ie d io1 = Inr (k, io2)"
  shows "drv_inv ie T io2" "0 < k" "chan_cookie io2 = k" "last_completion io2 = last_completion io"
    "unmapped io2 = unmapped io" "\<exists>ch. used_desc io2 = used_desc io @ ch @ [d] \<and> (\<forall>x \<in> set ch. sw_cookie (descs io2 x) = 0)"
    "desc_unmaps (descs io2 d) = request_unmaps flags dest src n" "sw_cookie (descs io2 d) = k"
    "\<forall>x \<in> set (used_desc io). desc_unmaps (descs io2 x) = desc_unmaps (descs io x) \<and> sw_phys (descs io2 x) = sw_phys (descs io x)"
proof -
  let ?ch = "tx_list (descs io1 d)"
  let ?k = "ck_assign ie (chan_cookie io1)" and ?u = "last (used_desc io1)"
  have p: "drv_inv ie ((d, ?ch) # T) io1" "prepared ie io1 dest src n flags d ?ch"
    using prep_drv [OF assms(2,3)] by simp_all
  have w: "desc_wf ie io (used_desc io @ tx_chains T)" "xfercap io \<noteq> 0" using assms(2) by (simp_all add: drv_inv_def chan_inv_def)
  have co: "core io1 = core io" "\<forall>x \<in> set (used_desc io). descs io1 x = descs io x"
    using prep_memcpy_ok [OF w, of dest src n flags] assms(3) by auto
  note cf = core_eqD [OF co(1)]
  have ch: "?ch \<noteq> []" "d = last ?ch" "chain_ok (xfercap io1) (descs io1) ?ch n src dest" "sw_len (descs io1 d) = n"
    "sw_flags (descs io1 d) = flags" "\<forall>x \<in> set ?ch. x \<noteq> d \<longrightarrow> idle_desc (descs io1 x)"
    using p(2) unfolding prepared_def by blast+
  have "distinct (used_desc io1 @ ?ch @ tx_chains T @ free_desc io1)" and une: "used_desc io1 \<noteq> []"
    using p(1) by (simp_all add: drv_inv_def chan_inv_def desc_wf_def)
  then have dist: "distinct ?ch" "set (used_desc io1) \<inter> set ?ch = {}" by (auto simp: disjoint_iff)
  have ld: "last ?ch = d" by (rule ch(2) [symmetric])
  have "d \<in> set ?ch" by (rule last_in_set [OF ch(1), unfolded ld])
  then have du: "d \<notin> set (used_desc io1)" "d \<noteq> ?u" using dist(2) last_in_set [OF une] by blast+
  define h2 where "h2 = (descs io1)(d := (descs io1 d)\<lparr>sw_cookie := ?k, tx_list := []\<rparr>,
      ?u := (descs io1 ?u)\<lparr>sw_hw := (sw_hw (descs io1 ?u))\<lparr>hw_next := sw_phys (descs io1 (hd ?ch))\<rparr>\<rparr>)"
  have k: "k = ?k" and io2: "io2 = submit_account ie d (io1\<lparr>chan_cookie := ?k, used_desc := used_desc io1 @ ?ch, descs := h2\<rparr>)"
    using submit_eq [OF refl ch(1) une du(2), of ie, folded h2_def] assms(4) by simp_all
  have d2: "descs io2 = h2" and u2: "used_desc io2 = used_desc io1 @ ?ch" by (simp_all add: io2)
  have "\<exists>k io'. ioat1_tx_submit ie d io1 = Inr (k, io') \<and> 0 < k \<and> drv_inv ie ([] @ T) io' \<and> used_desc io' = used_desc io1 @ ?ch"
    by (rule submit_drv [OF assms(1)]) (use p(1) in simp)
  then show di: "drv_inv ie T io2" and "0 < k" using assms(4) by auto
  show "chan_cookie io2 = k" "last_completion io2 = last_completion io" "unmapped io2 = unmapped io" "sw_cookie (descs io2 d) = k"
    using du(2) cf(8,10) k by (simp_all add: io2 h2_def)
  show "\<exists>ch. used_desc io2 = used_desc io @ ch @ [d] \<and> (\<forall>x \<in> set ch. sw_cookie (descs io2 x) = 0)"
  proof (intro exI conjI ballI)
    have bl: "butlast ?ch @ [d] = ?ch" by (rule append_butlast_last_id [OF ch(1), unfolded ld])
    show "used_desc io2 = used_desc io @ butlast ?ch @ [d]" unfolding bl u2 cf(1) by simp
    fix x assume x: "x \<in> set (butlast ?ch)"
    then have xc: "x \<in> set ?ch" by (rule in_set_butlastD)
    have "distinct (butlast ?ch @ [d])" unfolding bl by (rule dist(1))
    then have "x \<noteq> d" using x by auto
    moreover have "x \<noteq> ?u" using dist(2) xc last_in_set [OF une] by blast
    ultimately show "sw_cookie (descs io2 x) = 0" using ch(6) xc by (simp add: d2 h2_def idle_desc_def)
  qed
  show "desc_unmaps (descs io2 d) = request_unmaps flags dest src n"
    using chain_unmaps [OF ch(3), of flags, unfolded ld] ch(4,5) \<open>0 < k\<close> du(2) k by (simp add: d2 h2_def desc_unmaps_def)
  show "\<forall>x \<in> set (used_desc io). desc_unmaps (descs io2 x) = desc_unmaps (descs io x) \<and> sw_phys (descs io2 x) = sw_phys (descs io x)"
    using co(2) du(1) cf(1) by (auto simp: d2 h2_def)
qed

lemma status_done:
  assumes "cookie_env ie"
  shows "ck_status ie k k k = DMA_SUCCESS"
proof -
  have "ck_status ie k k k = dma_async_is_complete k k k" using assms by (simp only: cookie_env_def)
  then show ?thesis by (simp add: dma_async_is_complete_def)
qed

lemma transfer_core:
  assumes "cookie_env ie" and "drv_inv ie T io" and "ioat1_dma_prep_memcpy ie dest src n flags io = Some (Some d, io1)"
    and "ioat1_tx_submit ie d io1 = Inr (k, io2)" and "\<forall>a. count (pool_live io2) a \<le> 1" and "0 \<notin># pool_live io2"
    and "ioat_chansts_to_addr ie c = sw_phys (descs io2 d)"
  shows "\<exists>io3. ioat1_cleanup_event ie True True (io2\<lparr>completion := Completion c\<rparr>) = Inr io3 \<and>
    unmapped io3 = unmapped io @ concat (map (\<lambda>x. desc_unmaps (descs io x)) (used_desc io)) @ request_unmaps flags dest src n \<and>
    completed_cookie io3 = k \<and> chan_cookie io3 = k \<and> IOAT_COMPLETION_PENDING \<notin> ic_state io3 \<and> last (used_desc io3) = d"
proof -
  note s = submitted_request [OF assms(1-4)]
  obtain ch where ch: "used_desc io2 = used_desc io @ ch @ [d]" "\<forall>x \<in> set ch. sw_cookie (descs io2 x) = 0" using s(6) by blast
  let ?io = "io2\<lparr>completion := Completion c\<rparr>"
  let ?as = "used_desc io @ ch"
  have wf: "desc_wf ie io2 (used_desc io2 @ tx_chains T)" using s(1) by (simp add: drv_inv_def chan_inv_def)
  have dist: "distinct (used_desc io2)" using wf by (simp add: desc_wf_def)
  have inj: "inj_on (\<lambda>x. sw_phys (descs io2 x)) (set (used_desc io2))"
    by (rule inj_on_subset [OF reach_used_inj [OF s(1) assms(5)]]) simp
  have ne: "sw_phys (descs io2 x) \<noteq> sw_phys (descs io2 d)" if "x \<in> set ?as" for x
    using inj_onD [OF inj, of x d] that dist ch(1) by auto
  have "sw_phys (descs io2 d) \<in># pool_live io2"
    using wf ch(1) by (simp add: desc_wf_def)
  then have nz: "sw_phys (descs io2 d) \<noteq> 0" using assms(6) by auto
  have "last_completion io = 0 \<or> (\<exists>x \<in> set (used_desc io). last_completion io = sw_phys (descs io2 x))"
    using assms(2) s(9) by (auto simp: drv_inv_def seen_addr_def)
  then have lc: "sw_phys (descs io2 d) \<noteq> last_completion io2" using nz ne s(4) by (metis Un_iff set_append)
  have un: "concat (map (\<lambda>x. desc_unmaps (descs io2 x)) (used_desc io)) = concat (map (\<lambda>x. desc_unmaps (descs io x)) (used_desc io))"
    using s(9) by (metis (no_types, lifting) map_eq_conv)
  have un0: "concat (map (\<lambda>x. desc_unmaps (descs io2 x)) ch) = []" using ch(2) by (simp add: desc_unmaps_def)
  have lcook: "last_cookie q (map (\<lambda>x. sw_cookie (descs io2 x)) (?as @ [d])) = k" for q
    using s(2,8) by (simp add: last_cookie_def)
  obtain io3 where io3: "ioat1_cleanup_event ie True True ?io = Inr io3" "used_desc io3 = filter (\<lambda>x. \<not> acked ?io x) ?as @ d # []"
    "unmapped io3 = unmapped ?io @ concat (map (\<lambda>x. desc_unmaps (descs ?io x)) (?as @ [d]))"
    "completed_cookie io3 = last_cookie (completed_cookie ?io) (map (\<lambda>x. sw_cookie (descs ?io x)) (?as @ [d]))"
    "chan_cookie io3 = chan_cookie ?io" "IOAT_COMPLETION_PENDING \<notin> ic_state io3"
    using cleanup_event_eq [OF assms(1), of ?io c d ?as "[]"] assms(7) ch(1) dist ne lc by auto
  show ?thesis
    by (rule exI [of _ io3]) (use io3 s(3,5,7) un un0 lcook in simp)
qed

text \<open>
  C23. A copy that was prepared and submitted and that the hardware reports as finished is completed by
  the next cleanup: the driver releases exactly the mappings of the request that its flags ask
  for, with the addresses and the length the caller gave although the request may have been split,
  after those of the earlier requests; the cookie of the request reports success, its descriptor stays
  at the end of the used list and the completion time-out is cancelled.
\<close>

theorem ioat_transfer_roundtrip:
  assumes "ioat_reach ie T io" and "cookie_env ie" and "ioat1_dma_prep_memcpy ie dest src n flags io = Some (Some d, io1)"
    and "ioat1_tx_submit ie d io1 = Inr (k, io2)" and "\<forall>a. count (pool_live io2) a \<le> 1" and "0 \<notin># pool_live io2"
    and "ioat_chansts_to_addr ie c = sw_phys (descs io2 d)"
  shows "\<exists>io3. ioat1_cleanup_event ie True True (io2\<lparr>completion := Completion c\<rparr>) = Inr io3 \<and>
    unmapped io3 = unmapped io @ concat (map (\<lambda>x. desc_unmaps (descs io x)) (used_desc io)) @ request_unmaps flags dest src n \<and>
    ioat_dma_tx_status ie cl dl k io3 = Inr (DMA_SUCCESS, io3) \<and>
    IOAT_COMPLETION_PENDING \<notin> ic_state io3 \<and> last (used_desc io3) = d"
proof -
  have ok: "ck_status ie k k k = DMA_SUCCESS" by (rule status_done [OF assms(2)])
  from transfer_core [OF assms(2) ioat_reach_inv(1) [OF assms(1,2)] assms(3-7)]
  obtain io3 where f: "ioat1_cleanup_event ie True True (io2\<lparr>completion := Completion c\<rparr>) = Inr io3 \<and>
    unmapped io3 = unmapped io @ concat (map (\<lambda>x. desc_unmaps (descs io x)) (used_desc io)) @ request_unmaps flags dest src n \<and>
    completed_cookie io3 = k \<and> chan_cookie io3 = k \<and> IOAT_COMPLETION_PENDING \<notin> ic_state io3 \<and> last (used_desc io3) = d"
    by (elim exE)
  have ck: "completed_cookie io3 = k" "chan_cookie io3 = k" using f by simp_all
  have "ioat_dma_tx_status ie cl dl k io3 = Inr (DMA_SUCCESS, io3)"
    unfolding ioat_dma_tx_status_def Let_def ck ok by simp
  with f show ?thesis by (intro exI [of _ io3]) simp
qed

lemma ioat_reach_step: "ioat_reach ie T io \<Longrightarrow> ioat_step ie (T, io) (T', io') \<Longrightarrow> ioat_reach ie T' io'"
  unfolding ioat_reach_def by (metis rtranclp.rtrancl_into_rtrancl)

lemma demo_fields_ioat: "free_desc demo_started = [1]" "xfercap demo_started = 4096" "pool_live demo_started = {#0x1000, 0x1040#}"
  by code_simp+

lemma demo_transfer:
  obtains io1 k io2 where
    "ioat1_dma_prep_memcpy demo_ie 0x50000 0x90000 100 (DMA_CTRL_ACK OR DMA_COMPL_SRC_UNMAP_SINGLE OR DMA_COMPL_DEST_UNMAP_SINGLE)
       demo_started = Some (Some 1, io1)"
    "ioat1_tx_submit demo_ie 1 io1 = Inr (k, io2)" "ioat_reach demo_ie [] io2" "pool_live io2 = {#0x1000, 0x1040#}"
    "ioat_chansts_to_addr demo_ie (sw_phys (descs io2 1)) = sw_phys (descs io2 1)"
proof -
  let ?fl = "DMA_CTRL_ACK OR DMA_COMPL_SRC_UNMAP_SINGLE OR DMA_COMPL_DEST_UNMAP_SINGLE"
  let ?io1 = "snd (the (ioat1_dma_prep_memcpy demo_ie 0x50000 0x90000 100 ?fl demo_started))"
  have p: "ioat1_dma_prep_memcpy demo_ie 0x50000 0x90000 100 ?fl demo_started = Some (Some 1, ?io1)"
    "pool_live ?io1 = {#0x1000, 0x1040#}"
    by (simp_all add: ioat1_dma_prep_memcpy_def ioat1_dma_get_next_descriptor_def demo_fields_ioat prep_loop.simps [of _ "Some (Suc 0)"] Let_def)
  note i = ioat_reach_inv(1) [OF demo_ioat_reach demo_cookie_env]
  have pd: "drv_inv demo_ie ([] @ (1, tx_list (descs ?io1 1)) # []) ?io1" using prep_drv [OF i p(1)] by simp
  obtain k io2 where s: "ioat1_tx_submit demo_ie 1 ?io1 = Inr (k, io2)" using submit_drv [OF demo_cookie_env pd] by blast
  have pl: "pool_live io2 = pool_live ?io1"
    using s by (auto simp: ioat1_tx_submit_def Let_def upd_desc_def upd_hw_def split: if_splits)
  note sr = submitted_request [OF demo_cookie_env i p(1) s]
  have "1 \<in> set (used_desc io2)" using sr(6) by auto
  then have "pool_phys demo_ie 1 = Some (sw_phys (descs io2 1))"
    using sr(1) by (auto simp: drv_inv_def chan_inv_def desc_wf_def)
  then have "sw_phys (descs io2 1) = 0x1040" by (simp add: demo_ie_def)
  then have "ioat_chansts_to_addr demo_ie (sw_phys (descs io2 1)) = sw_phys (descs io2 1)"
    by (simp add: ioat_chansts_to_addr_def demo_ie_def)
  moreover have "ioat_reach demo_ie [] io2"
    using ioat_reach_step [OF ioat_reach_step [OF demo_ioat_reach step_prep [OF p(1)]] step_submit [OF s, of "[]" _ "[]", unfolded append_Nil]] .
  ultimately show thesis using that p s pl by simp
qed

lemma ioat_transfer_roundtrip_witness:
  "\<exists>io1 k io2 io3. ioat1_dma_prep_memcpy demo_ie 0x50000 0x90000 100
       (DMA_CTRL_ACK OR DMA_COMPL_SRC_UNMAP_SINGLE OR DMA_COMPL_DEST_UNMAP_SINGLE) demo_started = Some (Some 1, io1) \<and>
     ioat1_tx_submit demo_ie 1 io1 = Inr (k, io2) \<and>
     ioat1_cleanup_event demo_ie True True (io2\<lparr>completion := Completion (sw_phys (descs io2 1))\<rparr>) = Inr io3 \<and>
     ioat_dma_tx_status demo_ie True True k io3 = Inr (DMA_SUCCESS, io3) \<and>
     unmapped io3 = unmapped demo_started @ concat (map (\<lambda>x. desc_unmaps (descs demo_started x)) (used_desc demo_started)) @
       [(Map_Single, 0x50000, 100, From_Device), (Map_Single, 0x90000, 100, To_Device)]"
proof -
  let ?fl = "DMA_CTRL_ACK OR DMA_COMPL_SRC_UNMAP_SINGLE OR DMA_COMPL_DEST_UNMAP_SINGLE"
  obtain io1 k io2 where t: "ioat1_dma_prep_memcpy demo_ie 0x50000 0x90000 100 ?fl demo_started = Some (Some 1, io1)"
    "ioat1_tx_submit demo_ie 1 io1 = Inr (k, io2)" "pool_live io2 = {#0x1000, 0x1040#}"
    "ioat_chansts_to_addr demo_ie (sw_phys (descs io2 1)) = sw_phys (descs io2 1)" "ioat_reach demo_ie [] io2" by (rule demo_transfer)
  have u: "request_unmaps ?fl 0x50000 0x90000 100 = [(Map_Single, 0x50000, 100, From_Device), (Map_Single, 0x90000, 100, To_Device)]"
    by code_simp
  have "\<forall>a. count (pool_live io2) a \<le> 1" "0 \<notin># pool_live io2" using t(3) by simp_all
  from ioat_transfer_roundtrip [OF demo_ioat_reach demo_cookie_env t(1,2) this t(4), of True True]
  show ?thesis using t(1,2) u by auto
qed

lemma ioat_cleanup_completes_prefix_witness:
  "\<exists>as io io'. ioat_reach demo_ie [] io \<and> used_desc io = as @ [1] \<and> ioat1_cleanup_event demo_ie True True io = Inr io' \<and>
     used_desc io' = filter (\<lambda>x. \<not> acked io x) as @ [1] \<and> last_completion io' = sw_phys (descs io 1)"
proof -
  let ?fl = "DMA_CTRL_ACK OR DMA_COMPL_SRC_UNMAP_SINGLE OR DMA_COMPL_DEST_UNMAP_SINGLE"
  obtain io1 k io2 where t: "ioat1_dma_prep_memcpy demo_ie 0x50000 0x90000 100 ?fl demo_started = Some (Some 1, io1)"
    "ioat1_tx_submit demo_ie 1 io1 = Inr (k, io2)" "pool_live io2 = {#0x1000, 0x1040#}"
    "ioat_chansts_to_addr demo_ie (sw_phys (descs io2 1)) = sw_phys (descs io2 1)" "ioat_reach demo_ie [] io2" by (rule demo_transfer)
  note i = ioat_reach_inv(1) [OF demo_ioat_reach demo_cookie_env]
  note s = submitted_request [OF demo_cookie_env i t(1,2)]
  obtain ch where ch: "used_desc io2 = used_desc demo_started @ ch @ [1]" using s(6) by blast
  let ?io = "io2\<lparr>completion := Completion (sw_phys (descs io2 1)), reg_chansts := 0\<rparr>"
  have r3: "ioat_reach demo_ie [] ?io"
    by (rule ioat_reach_step [OF t(5)], rule step_hardware [of 1]) (use ch t(4) in simp_all)
  have "sw_phys (descs io2 1) \<noteq> last_completion io2"
  proof -
    have "last_completion demo_started = 0" by code_simp
    moreover have "sw_phys (descs io2 1) \<in># pool_live io2"
      using s(1) ch by (simp add: drv_inv_def chan_inv_def desc_wf_def)
    ultimately show ?thesis using t(3) s(4) by auto
  qed
  moreover have "\<forall>a. count (pool_live ?io) a \<le> 1" using t(3) by simp
  ultimately obtain io' where "ioat1_cleanup_event demo_ie True True ?io = Inr io'"
    "used_desc io' = filter (\<lambda>x. \<not> acked ?io x) (used_desc demo_started @ ch) @ 1 # []" "last_completion io' = sw_phys (descs ?io 1)"
    using ioat_cleanup_completes_prefix [OF r3 demo_cookie_env, of "sw_phys (descs io2 1)" 1 "used_desc demo_started @ ch" "[]"]
      t(4) ch by auto
  then show ?thesis using r3 ch by (intro exI [of _ "used_desc demo_started @ ch"] exI [of _ ?io] exI [of _ io']) simp
qed

subsection \<open>The watchdog\<close>

lemma chainaddr_halves:
  "push_bit 32 (ucast (ucast (drop_bit 32 a) :: u32)) OR ucast (ucast (a AND 0x00000000FFFFFFFF) :: u32) = (a :: u64)"
proof -
  have m: "(0x00000000FFFFFFFF :: u64) = mask 32" by (simp add: mask_eq_exp_minus_1)
  show ?thesis unfolding m by (rule bit_word_eqI) (auto simp: bit_simps)
qed

text \<open>
  C25. A channel that hangs is restarted by the third expiry of its timer. The first expiry without
  progress rereads the status and marks the channel, the second one resets the hardware and forces
  the pending count so low that nothing is issued meanwhile, the third one gives the hardware a
  chain address again and starts it. The chain starts with the last used descriptor: the descriptors
  before it stay on the used list, but the hardware does not see them any more.
\<close>

theorem ioat_watchdog_restarts:
  assumes "ioat_reach ie T io" and "cookie_env ie" and "completion io = Completion c"
    and "ioat_chansts_to_addr ie c = last_completion io"
    and "ioat_chansts_to_addr ie (ioat_chansts io) \<in> {0, last_completion io}"
    and "IOAT_COMPLETION_PENDING \<in> ic_state io" and "IOAT_COMPLETION_ACK \<notin> ic_state io" and "IOAT_RESET_PENDING \<notin> ic_state io"
  shows "\<exists>io1 io2 io3. ioat1_timer_event ie io = Inr io1 \<and> ioat1_timer_event ie io1 = Inr io2 \<and> ioat1_timer_event ie io2 = Inr io3 \<and>
    reg_cmds io1 = reg_cmds io \<and> ic_timer io1 = Some COMPLETION_TIMEOUT \<and>
    reg_cmds io2 = reg_cmds io @ [CHANCMD_RESET] \<and> ic_timer io2 = Some RESET_DELAY \<and> sint (pending io2) = - (2 ^ 31) \<and>
    reg_cmds io3 = reg_cmds io @ [CHANCMD_RESET, CHANCMD_START] \<and> ic_timer io3 = Some COMPLETION_TIMEOUT \<and> pending io3 = 0 \<and>
    reg_chainaddr io3 = sw_phys (descs io (last (used_desc io))) \<and> used_desc io3 = used_desc io"
proof -
  have ne: "used_desc io \<noteq> []" using ioat_reach_inv(1) [OF assms(1,2)] by (simp add: drv_inv_def)
  define io1 where "io1 = mod_timer COMPLETION_TIMEOUT (set_bit_state IOAT_COMPLETION_ACK
      (if ioat_chansts_to_addr ie (ioat_chansts io) \<noteq> 0 then io\<lparr>completion := Completion (ioat_chansts io)\<rparr> else io))"
  have t1: "ioat1_timer_event ie io = Inr io1"
    using assms(3,4,6-8) by (simp add: ioat1_timer_event_def ioat_cleanup_preamble_def ioat_get_current_completion_def Let_def io1_def)
  have f1: "ic_state io1 = insert IOAT_COMPLETION_ACK (ic_state io)" "used_desc io1 = used_desc io" "descs io1 = descs io"
    "reg_cmds io1 = reg_cmds io" "ic_timer io1 = Some COMPLETION_TIMEOUT" "last_completion io1 = last_completion io"
    by (simp_all add: io1_def mod_timer_def set_bit_state_def)
  have pre: "ioat_cleanup_preamble ie io1 = Inr (None, io1)"
    using assms(3,4,5)
    by (auto simp: ioat_cleanup_preamble_def ioat_get_current_completion_def io1_def mod_timer_def set_bit_state_def)
  have t2: "ioat1_timer_event ie io1 = Inr (ioat1_reset_channel io1)"
    using assms(6,8) pre f1(1) by (simp add: ioat1_timer_event_def)
  let ?io2 = "ioat1_reset_channel io1"
  have f2: "IOAT_RESET_PENDING \<in> ic_state ?io2" "used_desc ?io2 = used_desc io" "descs ?io2 = descs io"
    "reg_cmds ?io2 = reg_cmds io @ [CHANCMD_RESET]" "ic_timer ?io2 = Some RESET_DELAY" "sint (pending ?io2) = - (2 ^ 31)"
    by (simp_all add: ioat1_reset_channel_def Let_def mod_timer_def set_bit_state_def write_cmd_def f1)
  define io3 where "io3 = mod_timer COMPLETION_TIMEOUT (set_bit_state IOAT_COMPLETION_PENDING
      ((ioat_start (ioat_set_chainaddr (sw_phys (descs io (last (used_desc io)))) (clear_bit_state IOAT_RESET_PENDING ?io2)))\<lparr>pending := 0\<rparr>))"
  have t3: "ioat1_timer_event ie ?io2 = Inr io3"
    using ne f2(1-3) by (auto simp: ioat1_timer_event_def Let_def clear_bit_state_def io3_def split: list.splits)
  have f3: "reg_cmds io3 = reg_cmds io @ [CHANCMD_RESET, CHANCMD_START]" "ic_timer io3 = Some COMPLETION_TIMEOUT" "pending io3 = 0"
    "reg_chainaddr io3 = sw_phys (descs io (last (used_desc io)))" "used_desc io3 = used_desc io"
    by (simp_all add: io3_def mod_timer_def set_bit_state_def clear_bit_state_def ioat_start_def write_cmd_def
        ioat_set_chainaddr_def Let_def chainaddr_halves f2)
  show ?thesis
    using t1 t2 t3 f1(4,5) f2(4-6) f3 by (intro exI [of _ io1] exI [of _ ?io2] exI [of _ io3]) simp
qed

lemma submit_fields:
  assumes "ioat1_tx_submit ie d io = Inr (k, io')"
  shows "ic_state io' = insert IOAT_COMPLETION_PENDING (ic_state io)" "completion io' = completion io"
    "reg_chansts io' = reg_chansts io" "last_completion io' = last_completion io"
  using assms
  by (auto simp: ioat1_tx_submit_def Let_def upd_desc_def upd_hw_def submit_account_def mod_timer_def set_bit_state_def
      issue_pending_locked_def write_cmd_def split: if_splits)

lemma ioat_watchdog_restarts_witness:
  "\<exists>io io1 io2 io3. ioat_reach demo_ie [] io \<and> ioat1_timer_event demo_ie io = Inr io1 \<and>
     ioat1_timer_event demo_ie io1 = Inr io2 \<and> ioat1_timer_event demo_ie io2 = Inr io3 \<and>
     reg_cmds io3 = reg_cmds io @ [CHANCMD_RESET, CHANCMD_START] \<and>
     reg_chainaddr io3 = sw_phys (descs io (last (used_desc io)))"
proof -
  let ?fl = "DMA_CTRL_ACK OR DMA_COMPL_SRC_UNMAP_SINGLE OR DMA_COMPL_DEST_UNMAP_SINGLE"
  obtain io1 k io2 where t: "ioat1_dma_prep_memcpy demo_ie 0x50000 0x90000 100 ?fl demo_started = Some (Some 1, io1)"
    "ioat1_tx_submit demo_ie 1 io1 = Inr (k, io2)" "ioat_reach demo_ie [] io2" by (rule demo_transfer)
  have c: "completion io2 = Completion 0" "last_completion io2 = 0" "reg_chansts io2 = 0" "ic_state io2 = {IOAT_COMPLETION_PENDING}"
  proof -
    have "desc_wf demo_ie demo_started (used_desc demo_started @ tx_chains [])" "xfercap demo_started \<noteq> 0"
      using ioat_reach_inv(1) [OF demo_ioat_reach demo_cookie_env] by (simp_all add: drv_inv_def chan_inv_def)
    from prep_memcpy_ok [OF this, of "0x50000" "0x90000" 100 ?fl] have co: "core io1 = core demo_started" using t(1) by auto
    have "reg_chansts (core io1) = reg_chansts (core demo_started)" using co by simp
    moreover have "completion demo_started = Completion 0" "last_completion demo_started = 0" "reg_chansts demo_started = 0"
      "ic_state demo_started = {}" by code_simp+
    ultimately show "completion io2 = Completion 0" "last_completion io2 = 0" "reg_chansts io2 = 0"
      "ic_state io2 = {IOAT_COMPLETION_PENDING}"
      using submit_fields [OF t(2)] core_eqD [OF co] by (simp_all add: core_def)
  qed
  have z: "ioat_chansts_to_addr demo_ie 0 = 0" "ioat_chansts_to_addr demo_ie (ioat_chansts io2) = 0"
    by (simp_all add: ioat_chansts_to_addr_def ioat_chansts_def c(3))
  obtain a b e where "ioat1_timer_event demo_ie io2 = Inr a \<and> ioat1_timer_event demo_ie a = Inr b \<and>
      ioat1_timer_event demo_ie b = Inr e \<and> reg_cmds e = reg_cmds io2 @ [CHANCMD_RESET, CHANCMD_START] \<and>
      reg_chainaddr e = sw_phys (descs io2 (last (used_desc io2)))"
    using ioat_watchdog_restarts [OF t(3) demo_cookie_env c(1)] c(2,4) z by auto
  then show ?thesis using t(3) by blast
qed

subsection \<open>Channel resources\<close>

text \<open>
  C26. Releasing the resources of a channel after any run takes every descriptor off its lists and gives
  all hardware descriptors back to the pool, except those of transactions that were prepared and
  never submitted; when there are none, the pool is empty and the channel is as fresh as probing left
  it, so that its resources can be allocated again.
\<close>

theorem ioat_resources_roundtrip:
  assumes "ioat_reach ie T io" and "cookie_env ie"
  shows "\<exists>io'. ioat1_dma_free_chan_resources ie cl dl io = Inr io' \<and> used_desc io' = [] \<and> free_desc io' = [] \<and>
    pool_live io' = mset (map (\<lambda>x. the (pool_phys ie x)) (tx_chains T)) \<and> desccount io' = 0 \<and>
    (fresh_channel io' \<longleftrightarrow> tx_chains T = [])"
proof -
  obtain io' where f: "ioat1_dma_free_chan_resources ie cl dl io = Inr io'" "used_desc io' = []" "free_desc io' = []"
    "pool_live io' = mset (map (\<lambda>x. the (pool_phys ie x)) (tx_chains T))" "desccount io' = 0" "last_completion io' = 0"
    "xfercap io' \<noteq> 0"
    using free_resources_ok [OF assms(2) ioat_reach_inv [OF assms], of cl dl] by blast
  then have "fresh_channel io' \<longleftrightarrow> tx_chains T = []" by (simp add: fresh_channel_def)
  with f show ?thesis by (intro exI [of _ io']) simp
qed

lemma ioat_resources_roundtrip_witness:
  "\<exists>io'. ioat1_dma_free_chan_resources demo_ie True True demo_started = Inr io' \<and> pool_live io' = {#} \<and> fresh_channel io'"
  using ioat_resources_roundtrip [OF demo_ioat_reach demo_cookie_env, of True True] by auto

end
