(* ===== verification/Ioat_Device.thy ===== *)
theory Ioat_Device
  imports Ioat_Transfer "HOL-Library.Countable"
begin

text \<open>
  The device side of \<^verbatim>\<open>src/source/drivers/dma/ioat/dma.c\<close>: enumeration of the channels, the interrupt
  handlers and their installation, the self test, probing, registration, the sysfs entries, removal,
  and the suspend and resume entry points that the priority policy calls. The driver state of the
  engine is the device; its routines are the channel routines of the data path, a transaction
  handle pairs a channel with a descriptor. A fault inside a routine is kept in the device state.

  Parameters: the contents of registers, the results of allocation, of the PCI and interrupt layers
  and of the sysfs layer, the bits of \<^verbatim>\<open>registers.h\<close>, \<^verbatim>\<open>dma_cookie_init\<close>, and what the hardware does
  while the self test waits.
\<close>

subsection \<open>State\<close>

datatype irq_line = Msix_Vector nat | Msi_Irq | Intx_Irq

datatype irq_handler = Do_Interrupt_Msix "nat option" | Do_Interrupt

record ioatdma_device =
  dma_pool :: bool
  completion_pool :: bool
  version :: u8
  idx :: "nat option list"
  dca :: bool
  chan_data :: "nat \<Rightarrow> ioat_dma_chan"
  irqs :: "(irq_line \<times> irq_handler) list"
  msix_enabled :: bool
  msi_enabled :: bool
  intrctrl :: u8
  dmactrl :: u32
  kobjs :: "nat list"
  dev_fault :: "fault option"

text \<open>
  \<open>new_chan i\<close>: the channel that the \<open>i\<close>th allocation of the enumeration returns, or failure.
  \<open>enable_msix\<close> depends on whether MSI-X is on already and on the number of vectors.
\<close>

record dev_env =
  chancnt_reg :: u8
  xfercap_reg :: u8
  i7300_platform :: bool
  new_chan :: "nat \<Rightarrow> nat option"
  cookie_init :: dma_cookie
  create_dma_pool :: bool
  create_completion_pool :: bool
  irq_style :: string
  enable_msix :: "bool \<Rightarrow> nat \<Rightarrow> int"
  enable_msi :: "bool \<Rightarrow> int"
  request_irq :: "irq_line \<Rightarrow> irq_handler \<Rightarrow> int"
  MASTER_INT_EN :: u8
  INT_STATUS :: u8
  MSIX_VECTOR_CONTROL :: u8
  DMACTRL_MSI_EN :: u32
  kobject_add :: "nat \<Rightarrow> int"
  dca_init :: bool

type_synonym ioat_engine = "ioatdma_device engine"

definition upd_drv :: "(ioatdma_device \<Rightarrow> ioatdma_device) \<Rightarrow> ioat_engine \<Rightarrow> ioat_engine" where
  "upd_drv f s = s\<lparr>drv := f (drv s)\<rparr>"

definition set_chan :: "nat \<Rightarrow> ioat_dma_chan \<Rightarrow> ioatdma_device \<Rightarrow> ioatdma_device" where
  "set_chan c io dv = dv\<lparr>chan_data := (chan_data dv)(c := io)\<rparr>"

definition upd_chan_data :: "nat \<Rightarrow> (ioat_dma_chan \<Rightarrow> ioat_dma_chan) \<Rightarrow> ioatdma_device \<Rightarrow> ioatdma_device" where
  "upd_chan_data c f dv = set_chan c (f (chan_data dv c)) dv"

definition ioat_chan_by_index :: "ioatdma_device \<Rightarrow> nat \<Rightarrow> nat option outcome" where
  "ioat_chan_by_index dv i = (if i < length (idx dv) then Inr (idx dv ! i) else Inl Out_Of_Bounds)"

subsection \<open>Interrupt handlers\<close>

definition tasklet_schedule :: "nat option \<Rightarrow> ioatdma_device \<Rightarrow> ioatdma_device outcome" where
  "tasklet_schedule ch dv = (case ch of None \<Rightarrow> Inl Null_Deref
     | Some c \<Rightarrow> Inr (upd_chan_data c (\<lambda>io. io\<lparr>tasklet_scheduled := True\<rparr>) dv))"

fun schedule_bits :: "nat list \<Rightarrow> ioatdma_device \<Rightarrow> ioatdma_device outcome" where
  "schedule_bits [] dv = Inr dv"
| "schedule_bits (b # bs) dv =
     seq_ok (ioat_chan_by_index dv b) (\<lambda>ch. seq_ok (tasklet_schedule ch dv) (schedule_bits bs))"

text \<open>The result says whether the interrupt was ours; writing the register back acknowledges it.\<close>

definition ioat_dma_do_interrupt :: "dev_env \<Rightarrow> u32 \<Rightarrow> ioatdma_device \<Rightarrow> (bool \<times> ioatdma_device) outcome" where
  "ioat_dma_do_interrupt de attnstatus dv =
     (let ctrl = intrctrl dv in
      if ctrl AND MASTER_INT_EN de = 0 then Inr (False, dv)
      else if ctrl AND INT_STATUS de = 0 then Inr (False, dv\<lparr>intrctrl := ctrl\<rparr>)
      else seq_ok (schedule_bits (filter (bit (ucast attnstatus :: u64)) [0 ..< 64]) dv)
             (\<lambda>dv1. Inr (True, dv1\<lparr>intrctrl := ctrl\<rparr>)))"

definition ioat_dma_do_interrupt_msix :: "nat option \<Rightarrow> ioatdma_device \<Rightarrow> (bool \<times> ioatdma_device) outcome" where
  "ioat_dma_do_interrupt_msix ch dv = seq_ok (tasklet_schedule ch dv) (\<lambda>dv1. Inr (True, dv1))"

subsection \<open>Enumeration\<close>

definition zero_chan :: ioat_dma_chan where
  "zero_chan = \<lparr>chan_cookie = 0, completed_cookie = 0, last_completion = 0, ic_state = {}, ic_timer = None, completion_dma = 0,
     completion = No_Completion, tasklet_enabled = True, tasklet_scheduled = False, xfercap = 0, free_desc = [],
     used_desc = [], pending = 0, desccount = 0, ic_active = 0, descs = (\<lambda>_. fresh_desc 0), alloc_count = 0,
     pool_live = {#}, reg_cmds = [], reg_chainaddr = 0, reg_chanerr = 0, chanerr_acks = [], reg_chancmp = 0,
     reg_run = False, reg_chansts = 0, unmapped = [], called = []\<rparr>"

definition ioat_init_channel :: "dev_env \<Rightarrow> nat \<Rightarrow> nat \<Rightarrow> nat \<Rightarrow> ioat_engine \<Rightarrow> ioat_engine outcome" where
  "ioat_init_channel de k c i s =
     (let s1 = upd_chan c (\<lambda>ch. ch\<lparr>ch_device := k\<rparr>) s;
          s2 = upd_drv (upd_chan_data c (\<lambda>io. io\<lparr>chan_cookie := cookie_init de, completed_cookie := cookie_init de\<rparr>)) s1;
          s3 = upd_dev k (\<lambda>dev. dev\<lparr>channels := channels dev @ [c]\<rparr>) s2
      in if i < length (idx (drv s3))
         then Inr (upd_drv (upd_chan_data c (\<lambda>io. io\<lparr>ic_timer := None, tasklet_enabled := False, tasklet_scheduled := False\<rparr>))
                (upd_drv (\<lambda>dv. dv\<lparr>idx := (idx dv)[i := Some c]\<rparr>) s3))
         else Inl Out_Of_Bounds)"

fun enumerate_loop :: "dev_env \<Rightarrow> nat \<Rightarrow> u32 \<Rightarrow> nat list \<Rightarrow> nat \<Rightarrow> ioat_engine \<Rightarrow> (nat \<times> ioat_engine) outcome" where
  "enumerate_loop de k cap [] n s = Inr (n, s)"
| "enumerate_loop de k cap (i # is) n s = (case new_chan de i of None \<Rightarrow> Inr (n, s)
     | Some c \<Rightarrow> seq_ok (ioat_init_channel de k c i (upd_drv (set_chan c zero_chan) s)) (\<lambda>s1.
         enumerate_loop de k cap is (n + 1)
           (upd_drv (upd_chan_data c (\<lambda>io. io\<lparr>xfercap := ucast cap, free_desc := [], used_desc := []\<rparr>)) s1)))"

definition ioat1_enumerate_channels :: "dev_env \<Rightarrow> nat \<Rightarrow> ioat_engine \<Rightarrow> (nat \<times> ioat_engine) outcome" where
  "ioat1_enumerate_channels de k s =
     (let s0 = upd_dev k (\<lambda>dev. dev\<lparr>channels := []\<rparr>) s;
          n0 = ucast (chancnt_reg de AND 0x1f) :: u32;
          n1 = (if of_nat (length (idx (drv s0))) < n0 then of_nat (length (idx (drv s0))) else n0);
          scale = xfercap_reg de AND 0x1f;
          cap = (if scale = 0 then - 1 else ucast (push_bit (unat scale) (1 :: u64)) :: u32);
          n2 = (if i7300_platform de then n1 - 1 else n1)
      in seq_ok (enumerate_loop de k cap [0 ..< unat n2] 0 s0) (\<lambda>(i, s1).
           Inr (i, upd_dev k (\<lambda>dev. dev\<lparr>chancnt := i\<rparr>) s1)))"

subsection \<open>Installing the interrupt handlers\<close>

text \<open>The fall-back ladder of \<open>ioat_dma_setup_interrupts\<close>, from the last rung to the first.\<close>

definition no_irq :: "int \<Rightarrow> ioatdma_device \<Rightarrow> int \<times> ioatdma_device" where
  "no_irq err dv = (err, dv\<lparr>intrctrl := 0\<rparr>)"

definition ioat1_intr_quirk :: "dev_env \<Rightarrow> ioatdma_device \<Rightarrow> ioatdma_device" where
  "ioat1_intr_quirk de dv = dv\<lparr>dmactrl := (if msi_enabled dv then dmactrl dv OR DMACTRL_MSI_EN de
     else dmactrl dv AND NOT (DMACTRL_MSI_EN de))\<rparr>"

definition irq_done :: "dev_env \<Rightarrow> u8 \<Rightarrow> ioatdma_device \<Rightarrow> int \<times> ioatdma_device" where
  "irq_done de ctrl dv = (0, (ioat1_intr_quirk de dv)\<lparr>intrctrl := ctrl OR MASTER_INT_EN de\<rparr>)"

definition add_irq :: "irq_line \<Rightarrow> irq_handler \<Rightarrow> ioatdma_device \<Rightarrow> ioatdma_device" where
  "add_irq l h dv = dv\<lparr>irqs := irqs dv @ [(l, h)]\<rparr>"

definition free_irq :: "irq_line \<Rightarrow> irq_handler \<Rightarrow> ioatdma_device \<Rightarrow> ioatdma_device" where
  "free_irq l h dv = dv\<lparr>irqs := removeAll (l, h) (irqs dv)\<rparr>"

definition setup_intx :: "dev_env \<Rightarrow> ioatdma_device \<Rightarrow> int \<times> ioatdma_device" where
  "setup_intx de dv = (let err = request_irq de Intx_Irq Do_Interrupt in
     if err \<noteq> 0 then no_irq err dv else irq_done de 0 (add_irq Intx_Irq Do_Interrupt dv))"

definition setup_msi :: "dev_env \<Rightarrow> ioatdma_device \<Rightarrow> int \<times> ioatdma_device" where
  "setup_msi de dv =
     (if enable_msi de (msix_enabled dv) \<noteq> 0 then setup_intx de dv
      else let dv1 = dv\<lparr>msi_enabled := True\<rparr> in
        if request_irq de Msi_Irq Do_Interrupt \<noteq> 0 then setup_intx de (dv1\<lparr>msi_enabled := False\<rparr>)
        else irq_done de 0 (add_irq Msi_Irq Do_Interrupt dv1))"

definition setup_msix_single_vector :: "dev_env \<Rightarrow> ioatdma_device \<Rightarrow> int \<times> ioatdma_device" where
  "setup_msix_single_vector de dv =
     (if enable_msix de (msix_enabled dv) 1 \<noteq> 0 then setup_msi de dv
      else let dv1 = dv\<lparr>msix_enabled := True\<rparr> in
        if request_irq de (Msix_Vector 0) Do_Interrupt \<noteq> 0 then setup_msi de (dv1\<lparr>msix_enabled := False\<rparr>)
        else irq_done de 0 (add_irq (Msix_Vector 0) Do_Interrupt dv1))"

text \<open>Request one vector per channel; when one is refused, give back those before it.\<close>

fun request_msix :: "dev_env \<Rightarrow> nat list \<Rightarrow> nat list \<Rightarrow> ioatdma_device \<Rightarrow> (bool \<times> ioatdma_device) outcome" where
  "request_msix de [] pre dv = Inr (True, dv)"
| "request_msix de (i # is) pre dv = seq_ok (ioat_chan_by_index dv i) (\<lambda>ch.
     if request_irq de (Msix_Vector i) (Do_Interrupt_Msix ch) \<noteq> 0 then
       Inr (False, fold (\<lambda>j. free_irq (Msix_Vector j) (Do_Interrupt_Msix (idx dv ! j))) pre dv)
     else request_msix de is (pre @ [i]) (add_irq (Msix_Vector i) (Do_Interrupt_Msix ch) dv))"

definition setup_msix :: "dev_env \<Rightarrow> nat \<Rightarrow> ioatdma_device \<Rightarrow> (int \<times> ioatdma_device) outcome" where
  "setup_msix de msixcnt dv =
     (let err = enable_msix de (msix_enabled dv) msixcnt in
      if err < 0 then Inr (setup_msi de dv)
      else if err > 0 then Inr (setup_msix_single_vector de dv)
      else seq_ok (request_msix de [0 ..< msixcnt] [] (dv\<lparr>msix_enabled := True\<rparr>)) (\<lambda>(ok, dv1).
        Inr (if ok then irq_done de (MSIX_VECTOR_CONTROL de) dv1 else setup_msix_single_vector de dv1)))"

definition ioat_dma_setup_interrupts :: "dev_env \<Rightarrow> nat \<Rightarrow> ioatdma_device \<Rightarrow> (int \<times> ioatdma_device) outcome" where
  "ioat_dma_setup_interrupts de cnt dv =
     (if irq_style de = ''msix'' then setup_msix de cnt dv
      else if irq_style de = ''msix-single-vector'' then Inr (setup_msix_single_vector de dv)
      else if irq_style de = ''msi'' then Inr (setup_msi de dv)
      else if irq_style de = ''intx'' then Inr (setup_intx de dv)
      else Inr (no_irq (- errno_code EINVAL) dv))"

definition ioat_disable_interrupts :: "ioatdma_device \<Rightarrow> ioatdma_device" where
  "ioat_disable_interrupts dv = dv\<lparr>intrctrl := 0\<rparr>"

subsection \<open>The device routines\<close>

definition faulty :: "fault \<Rightarrow> ioatdma_device \<Rightarrow> ioatdma_device" where
  "faulty e dv = dv\<lparr>dev_fault := Some e\<rparr>"

definition dev_alloc :: "ioat_env \<Rightarrow> nat \<Rightarrow> ioatdma_device \<Rightarrow> (errno + nat) \<times> ioatdma_device" where
  "dev_alloc ie c dv = (case ioat1_dma_alloc_chan_resources ie (chan_data dv c) of
     Inl e \<Rightarrow> (Inr 0, faulty e dv) | Inr (n, io) \<Rightarrow> (Inr n, set_chan c io dv))"

definition dev_free :: "ioat_env \<Rightarrow> nat \<Rightarrow> ioatdma_device \<Rightarrow> ioatdma_device" where
  "dev_free ie c dv = (case ioat1_dma_free_chan_resources ie True True (chan_data dv c) of
     Inl e \<Rightarrow> faulty e dv | Inr io \<Rightarrow> set_chan c io dv)"

definition dev_prep :: "ioat_env \<Rightarrow> nat \<Rightarrow> u64 \<Rightarrow> u64 \<Rightarrow> u64 \<Rightarrow> u32 \<Rightarrow> ioatdma_device \<Rightarrow> nat option \<times> ioatdma_device" where
  "dev_prep ie c dest src n flags dv = (case ioat1_dma_prep_memcpy ie dest src n flags (chan_data dv c) of
     None \<Rightarrow> (None, dv) | Some (r, io) \<Rightarrow> (map_option (\<lambda>d. prod_encode (c, d)) r, set_chan c io dv))"

definition dev_submit :: "ioat_env \<Rightarrow> nat \<Rightarrow> ioatdma_device \<Rightarrow> dma_cookie \<times> ioatdma_device" where
  "dev_submit ie tx dv = (case prod_decode tx of (c, d) \<Rightarrow>
     case ioat1_tx_submit ie d (chan_data dv c) of Inl e \<Rightarrow> (0, faulty e dv) | Inr (k, io) \<Rightarrow> (k, set_chan c io dv))"

definition dev_status :: "ioat_env \<Rightarrow> nat \<Rightarrow> dma_cookie \<Rightarrow> ioatdma_device \<Rightarrow> dma_status \<times> ioatdma_device" where
  "dev_status ie c k dv = (case ioat_dma_tx_status ie True True k (chan_data dv c) of
     Inl e \<Rightarrow> (DMA_ERROR, faulty e dv) | Inr (st, io) \<Rightarrow> (st, set_chan c io dv))"

definition install_routines :: "ioat_env \<Rightarrow> ioatdma_device dma_device \<Rightarrow> ioatdma_device dma_device" where
  "install_routines ie dev = dev\<lparr>
     routines := routines dev \<union> {Prep_Memcpy, Issue_Pending, Alloc_Resources, Free_Resources, Tx_Status},
     device_prep_dma_memcpy := dev_prep ie, device_issue_pending := (\<lambda>c. upd_chan_data c ioat1_dma_memcpy_issue_pending),
     device_alloc_chan_resources := dev_alloc ie, device_free_chan_resources := dev_free ie,
     device_tx_status := dev_status ie, tx_submit := dev_submit ie\<rparr>"

subsection \<open>Self test\<close>

record test_env =
  src_buf :: "u64 option"
  dest_buf :: "u64 option"
  test_map :: map_env
  wait_done :: "ioatdma_device \<Rightarrow> u64 \<times> ioatdma_device"
  dest_bytes :: "u8 list"

definition IOAT_TEST_SIZE :: nat where "IOAT_TEST_SIZE = 2000"

definition ioat_dma_test_callback :: nat where "ioat_dma_test_callback = 0"

definition src_bytes :: "u8 list" where "src_bytes = map of_nat [0 ..< IOAT_TEST_SIZE]"

definition test_arm :: "nat \<Rightarrow> ioatdma_device \<Rightarrow> ioatdma_device" where
  "test_arm tx dv = (case prod_decode tx of (c, d) \<Rightarrow> upd_chan_data c
     (upd_desc d (\<lambda>ds. ds\<lparr>sw_flags := async_tx_ack (sw_flags ds), sw_callback := Some ioat_dma_test_callback\<rparr>)) dv)"

definition test_flags :: u32 where
  "test_flags = DMA_COMPL_SKIP_SRC_UNMAP OR DMA_COMPL_SKIP_DEST_UNMAP OR DMA_PREP_INTERRUPT"

definition test_unmap :: "u64 \<Rightarrow> u64 \<Rightarrow> 'd engine \<Rightarrow> 'd engine" where
  "test_unmap dma_src dma_dest s = dma_unmap Map_Single dma_dest (of_nat IOAT_TEST_SIZE) From_Device
     (dma_unmap Map_Single dma_src (of_nat IOAT_TEST_SIZE) To_Device s)"

definition test_release :: "nat \<Rightarrow> nat \<Rightarrow> 'd engine \<Rightarrow> 'd engine" where
  "test_release k c s = s\<lparr>drv := device_free_chan_resources (devs s k) c (drv s)\<rparr>"

text \<open>From the prepared transaction to the comparison: the error, whether to unmap, and the engine.\<close>

definition test_run :: "test_env \<Rightarrow> nat \<Rightarrow> nat \<Rightarrow> ioat_engine \<Rightarrow> int \<times> bool \<times> ioat_engine" where
  "test_run te c tx s =
     (case call_submit c tx (upd_drv (test_arm tx) s) of (cookie, s1) \<Rightarrow>
        if cookie < 0 then (- errno_code ENODEV, True, s1)
        else case wait_done te (drv (dma_async_issue_pending c s1)) of (tmo, dv) \<Rightarrow>
          let s2 = (dma_async_issue_pending c s1)\<lparr>drv := dv\<rparr> in
          if tmo = 0 then (- errno_code ENODEV, True, s2)
          else case dma_async_is_tx_complete c cookie s2 of (status, s3) \<Rightarrow>
            if status \<noteq> DMA_SUCCESS then (- errno_code ENODEV, True, s3)
            else if src_bytes \<noteq> dest_bytes te then (- errno_code ENODEV, False, s3)
            else (0, True, s3))"

definition ioat_dma_self_test :: "test_env \<Rightarrow> nat \<Rightarrow> ioat_engine \<Rightarrow> (int \<times> ioat_engine) outcome" where
  "ioat_dma_self_test te k s = (case (src_buf te, dest_buf te) of
     (Some src, Some dest) \<Rightarrow>
       (case channels (devs s k) of [] \<Rightarrow> Inl Out_Of_Bounds
        | c # cs \<Rightarrow> (case device_alloc_chan_resources (devs s k) c (drv s) of (r, dv) \<Rightarrow>
            let s1 = s\<lparr>drv := dv\<rparr> in
            if (case r of Inl e \<Rightarrow> True | Inr n \<Rightarrow> n < 1) then Inr (- errno_code ENODEV, s1)
            else
              let dma_src = map_single (test_map te) src (of_nat IOAT_TEST_SIZE) To_Device;
                  s2 = note_map Map_Single dma_src (of_nat IOAT_TEST_SIZE) To_Device s1;
                  dma_dest = map_single (test_map te) dest (of_nat IOAT_TEST_SIZE) From_Device;
                  s3 = note_map Map_Single dma_dest (of_nat IOAT_TEST_SIZE) From_Device s2
              in case call_prep c dma_dest dma_src (of_nat IOAT_TEST_SIZE) test_flags s3 of
                   (None, s4) \<Rightarrow> Inr (- errno_code ENODEV, test_release k c (test_unmap dma_src dma_dest s4))
                 | (Some tx, s4) \<Rightarrow> (case test_run te c tx s4 of (err, unmap, s5) \<Rightarrow>
                     Inr (err, test_release k c (if unmap then test_unmap dma_src dma_dest s5 else s5)))))
     | _ \<Rightarrow> Inr (- errno_code ENOMEM, s))"

subsection \<open>Sysfs attributes\<close>

text \<open>Printing with \<^verbatim>\<open>%d\<close> of the unsigned values shown.\<close>

fun dec_digits :: "nat \<Rightarrow> string" where
  "dec_digits n = (if n < 10 then [char_of (48 + n)] else dec_digits (n div 10) @ [char_of (48 + n mod 10)])"

definition newline :: string where "newline = [char_of (10 :: nat)]"

definition ring_size_show :: "nat \<Rightarrow> ioatdma_device \<Rightarrow> string" where
  "ring_size_show c dv = dec_digits (unat (desccount (chan_data dv c))) @ newline"

definition ring_active_show :: "nat \<Rightarrow> ioatdma_device \<Rightarrow> string" where
  "ring_active_show c dv = dec_digits (unat (ic_active (chan_data dv c))) @ newline"

definition cap_show :: "nat \<Rightarrow> ioat_engine \<Rightarrow> string" where
  "cap_show c s =
     (let has = (\<lambda>tx. dma_has_cap tx (cap_mask (devs s (ch_device (chans s c))))) in
      ''copy'' @ (if has DMA_PQ then '' pq'' else []) @ (if has DMA_PQ_VAL then '' pq_val'' else []) @
      (if has DMA_XOR then '' xor'' else []) @ (if has DMA_XOR_VAL then '' xor_val'' else []) @
      (if has DMA_MEMSET then '' fill'' else []) @ (if has DMA_INTERRUPT then '' intr'' else []) @ newline)"

definition version_show :: "ioatdma_device \<Rightarrow> string" where
  "version_show dv = dec_digits (unat (drop_bit 4 (version dv))) @ ''.'' @ dec_digits (unat (version dv AND 0xf)) @ newline"

datatype sysfs_entry = Ring_Size | Ring_Active | Ioat_Cap | Ioat_Version | No_Show

definition ioat_attr_show :: "sysfs_entry \<Rightarrow> nat \<Rightarrow> ioat_engine \<Rightarrow> errno + string" where
  "ioat_attr_show entry c s = (case entry of No_Show \<Rightarrow> Inl EIO
     | Ring_Size \<Rightarrow> Inr (ring_size_show c (drv s)) | Ring_Active \<Rightarrow> Inr (ring_active_show c (drv s))
     | Ioat_Cap \<Rightarrow> Inr (cap_show c s) | Ioat_Version \<Rightarrow> Inr (version_show (drv s)))"

subsection \<open>Probe, registration, removal\<close>

definition destroy_pools :: "ioatdma_device \<Rightarrow> ioatdma_device" where
  "destroy_pools dv = dv\<lparr>dma_pool := False, completion_pool := False\<rparr>"

definition ioat_probe :: "dev_env \<Rightarrow> test_env \<Rightarrow> nat \<Rightarrow> ioat_engine \<Rightarrow> (int \<times> ioat_engine) outcome" where
  "ioat_probe de te k s =
     (if \<not> create_dma_pool de then Inr (- errno_code ENOMEM, s)
      else let s1 = upd_drv (\<lambda>dv. dv\<lparr>dma_pool := True\<rparr>) s in
      if \<not> create_completion_pool de then Inr (- errno_code ENOMEM, upd_drv (\<lambda>dv. dv\<lparr>dma_pool := False\<rparr>) s1)
      else seq_ok (ioat1_enumerate_channels de k (upd_drv (\<lambda>dv. dv\<lparr>completion_pool := True\<rparr>) s1)) (\<lambda>(n, s2).
        let s3 = upd_dev k (\<lambda>dev. dev\<lparr>cap_mask := dma_cap_set DMA_MEMCPY (cap_mask dev),
                   routines := insert Struct_Device (routines dev)\<rparr>) s2
        in if chancnt (devs s3 k) = 0 then Inr (- errno_code ENODEV, upd_drv destroy_pools s3)
        else seq_ok (ioat_dma_setup_interrupts de (chancnt (devs s3 k)) (drv s3)) (\<lambda>(err, dv).
          let s4 = s3\<lparr>drv := dv\<rparr> in
          if err \<noteq> 0 then Inr (err, upd_drv destroy_pools s4)
          else seq_ok (ioat_dma_self_test te k s4) (\<lambda>(err, s5).
            if err \<noteq> 0 then Inr (err, upd_drv destroy_pools (upd_drv ioat_disable_interrupts s5))
            else Inr (0, s5)))))"

definition ioat_register :: "kenv \<Rightarrow> async_tx_config \<Rightarrow> reg_env \<Rightarrow> nat \<Rightarrow> ioat_engine \<Rightarrow> (int \<times> ioat_engine) outcome" where
  "ioat_register env cfg re k s = seq_ok (dma_async_device_register env cfg re (Some k) s) (\<lambda>(err, s1).
     case err of None \<Rightarrow> Inr (0, s1)
     | Some e \<Rightarrow> Inr (- errno_code e, upd_drv destroy_pools (upd_drv ioat_disable_interrupts s1)))"

fun kobject_add_chans :: "dev_env \<Rightarrow> nat list \<Rightarrow> ioatdma_device \<Rightarrow> ioatdma_device" where
  "kobject_add_chans de [] dv = dv"
| "kobject_add_chans de (c # cs) dv = kobject_add_chans de cs
     (if kobject_add de c \<noteq> 0 then upd_chan_data c (set_bit_state IOAT_KOBJ_INIT_FAIL) dv
      else dv\<lparr>kobjs := kobjs dv @ [c]\<rparr>)"

definition ioat_kobject_add :: "dev_env \<Rightarrow> nat \<Rightarrow> ioat_engine \<Rightarrow> ioat_engine" where
  "ioat_kobject_add de k s = upd_drv (kobject_add_chans de (channels (devs s k))) s"

fun kobject_del_chans :: "nat list \<Rightarrow> ioatdma_device \<Rightarrow> ioatdma_device" where
  "kobject_del_chans [] dv = dv"
| "kobject_del_chans (c # cs) dv = kobject_del_chans cs
     (if IOAT_KOBJ_INIT_FAIL \<notin> ic_state (chan_data dv c) then dv\<lparr>kobjs := removeAll c (kobjs dv)\<rparr> else dv)"

definition ioat_kobject_del :: "nat \<Rightarrow> ioat_engine \<Rightarrow> ioat_engine" where
  "ioat_kobject_del k s = upd_drv (kobject_del_chans (channels (devs s k))) s"

definition ioat1_dma_probe :: "ioat_env \<Rightarrow> dev_env \<Rightarrow> test_env \<Rightarrow> kenv \<Rightarrow> async_tx_config \<Rightarrow> reg_env \<Rightarrow> nat \<Rightarrow> bool
    \<Rightarrow> ioat_engine \<Rightarrow> (int \<times> ioat_engine) outcome" where
  "ioat1_dma_probe ie de te env cfg re k want_dca s =
     seq_ok (ioat_probe de te k (upd_dev k (install_routines ie) s)) (\<lambda>(err, s1).
       if err \<noteq> 0 then Inr (err, s1)
       else seq_ok (ioat_register env cfg re k s1) (\<lambda>(err, s2).
         if err \<noteq> 0 then Inr (err, s2)
         else let s3 = ioat_kobject_add de k s2 in
           Inr (err, if want_dca then upd_drv (\<lambda>dv. dv\<lparr>dca := dca_init de\<rparr>) s3 else s3)))"

definition ioat_dma_remove :: "kenv \<Rightarrow> nat \<Rightarrow> ioat_engine \<Rightarrow> ioat_engine" where
  "ioat_dma_remove env k s =
     (let s1 = ioat_kobject_del k (upd_drv ioat_disable_interrupts s);
          s2 = upd_drv destroy_pools (dma_async_device_unregister env k s1)
      in upd_dev k (\<lambda>dev. dev\<lparr>channels := []\<rparr>) s2)"

definition ioat_suspend_chan :: "nat \<Rightarrow> ioatdma_device \<Rightarrow> ioatdma_device" where
  "ioat_suspend_chan c = upd_chan_data c ioat_suspend"

definition ioat_resume_chan :: "nat \<Rightarrow> ioatdma_device \<Rightarrow> ioatdma_device" where
  "ioat_resume_chan c = upd_chan_data c ioat_resume"

subsection \<open>Enumerated channels\<close>

lemma xfercap_nonzero:
  "(if r AND 0x1f = 0 then - 1 else ucast (push_bit (unat (r AND 0x1f)) (1 :: u64)) :: u32) \<noteq> (0 :: u32)"
  for r :: u8
proof -
  let ?n = "unat (r AND 0x1f)"
  have m: "(0x1f :: u8) = mask 5" by (simp add: mask_eq_exp_minus_1)
  have "?n < 2 ^ 5"
    unfolding m take_bit_eq_mask [symmetric] unsigned_take_bit_eq by (rule take_bit_nat_less_exp)
  then have "bit (ucast (push_bit ?n (1 :: u64)) :: u32) ?n" by (simp add: bit_simps)
  then show ?thesis by auto
qed

definition enumerated :: "nat \<Rightarrow> nat \<Rightarrow> ioat_engine \<Rightarrow> bool" where
  "enumerated k n s \<longleftrightarrow> length (channels (devs s k)) = n \<and>
     (\<forall>c \<in> set (channels (devs s k)). fresh_channel (chan_data (drv s) c) \<and> ch_device (chans s c) = k)"

lemma ucast_cap_nonzero: "cap \<noteq> 0 \<Longrightarrow> ucast cap \<noteq> (0 :: u64)" for cap :: u32
  by transfer (simp add: take_bit_take_bit min_def)

lemma ucast_u8_nonzero: "x \<noteq> 0 \<Longrightarrow> ucast x \<noteq> (0 :: u32)" for x :: u8
  by transfer (simp add: take_bit_take_bit min_def)

lemma init_channel_enumerated:
  assumes "enumerated k n s" and "i < length (idx (drv s))" and "cap \<noteq> 0"
  shows "\<exists>s1. ioat_init_channel de k c i (upd_drv (set_chan c zero_chan) s) = Inr s1 \<and> length (idx (drv s1)) = length (idx (drv s)) \<and>
    enumerated k (n + 1) (upd_drv (upd_chan_data c (\<lambda>io. io\<lparr>xfercap := ucast (cap :: u32), free_desc := [], used_desc := []\<rparr>)) s1)"
  using assms ucast_cap_nonzero [OF assms(3)]
  by (auto simp: ioat_init_channel_def Let_def upd_drv_def set_chan_def upd_chan_data_def enumerated_def fresh_channel_def
      zero_chan_def upd_chan_def upd_dev_def)

lemma enumerate_loop_ok:
  assumes "enumerated k n s" and "\<forall>i \<in> set is. i < length (idx (drv s))" and "cap \<noteq> 0"
  shows "\<exists>m s'. enumerate_loop de k cap is n s = Inr (m, s') \<and> enumerated k m s' \<and> m \<le> n + length is"
  using assms(1,2)
proof (induction "is" arbitrary: n s)
  case (Cons i "is")
  show ?case
  proof (cases "new_chan de i")
    case None
    then show ?thesis using Cons.prems(1) by simp
  next
    case (Some c)
    let ?f = "\<lambda>io. io\<lparr>xfercap := ucast cap, free_desc := [], used_desc := []\<rparr>"
    obtain s1 where s1: "ioat_init_channel de k c i (upd_drv (set_chan c zero_chan) s) = Inr s1"
      "length (idx (drv s1)) = length (idx (drv s))" "enumerated k (n + 1) (upd_drv (upd_chan_data c ?f) s1)"
      using init_channel_enumerated [OF Cons.prems(1) _ assms(3), of i de c] Cons.prems(2) by auto
    have "\<forall>j \<in> set is. j < length (idx (drv (upd_drv (upd_chan_data c ?f) s1)))"
      using Cons.prems(2) s1(2) by (simp add: upd_drv_def upd_chan_data_def set_chan_def)
    from Cons.IH [OF s1(3) this] show ?thesis using Some s1(1) by auto
  qed
qed simp

text \<open>
  C29. Enumeration initialises at most as many channels as the device has slots for. Every channel it
  lists belongs to the device, has empty descriptor lists and a transfer capacity that is not zero,
  whatever the capability register holds, so that preparing a copy on it ends. The count must not
  be zero when one channel is reserved for the idle driver, where it would wrap around.
\<close>

theorem enumerated_channels_fresh:
  assumes "length (idx (drv s)) = 4" and "\<not> (i7300_platform de \<and> chancnt_reg de AND 0x1f = 0)"
  shows "\<exists>n s'. ioat1_enumerate_channels de k s = Inr (n, s') \<and> n \<le> 4 \<and> chancnt (devs s' k) = n \<and>
    length (channels (devs s' k)) = n \<and>
    (\<forall>c \<in> set (channels (devs s' k)). fresh_channel (chan_data (drv s') c) \<and> ch_device (chans s' c) = k)"
proof -
  let ?s0 = "upd_dev k (\<lambda>dev. dev\<lparr>channels := []\<rparr>) s"
  let ?n0 = "ucast (chancnt_reg de AND 0x1f) :: u32"
  let ?n1 = "if of_nat (length (idx (drv ?s0))) < ?n0 then of_nat (length (idx (drv ?s0))) else ?n0"
  let ?n2 = "if i7300_platform de then ?n1 - 1 else ?n1"
  let ?cap = "if xfercap_reg de AND 0x1f = 0 then - 1 else ucast (push_bit (unat (xfercap_reg de AND 0x1f)) (1 :: u64)) :: u32"
  have d0: "drv ?s0 = drv s" by (simp add: upd_dev_def)
  have n0: "?n0 \<noteq> 0" if "i7300_platform de" using that assms(2) ucast_u8_nonzero [of "chancnt_reg de AND 0x1f"] by simp
  have n1: "?n1 \<le> 4" "i7300_platform de \<Longrightarrow> ?n1 \<noteq> 0" using n0 by (auto simp: d0 assms(1) not_less)
  have b: "unat ?n2 \<le> 4"
  proof (cases "i7300_platform de")
    case True
    then have "unat (1 :: u32) \<le> unat ?n1" using n1(2) by (simp add: Suc_le_eq unat_gt_0)
    then show ?thesis using True n1(1) unat_diff_small [of "1 :: u32" ?n1] by (simp add: word_le_nat_alt)
  qed (use n1(1) in \<open>simp add: word_le_nat_alt\<close>)
  have e0: "enumerated k 0 ?s0" by (simp add: enumerated_def upd_dev_def)
  obtain m s' where "enumerate_loop de k ?cap [0 ..< unat ?n2] 0 ?s0 = Inr (m, s')" "enumerated k m s'" "m \<le> 4"
    using enumerate_loop_ok [OF e0 _ xfercap_nonzero [of "xfercap_reg de"], of "[0 ..< unat ?n2]" de] b assms(1) d0 by auto
  then show ?thesis
    unfolding ioat1_enumerate_channels_def Let_def by (simp add: enumerated_def upd_dev_def)
qed

subsection \<open>Interrupts\<close>

lemma free_irqs:
  "irqs (fold (\<lambda>j. free_irq (Msix_Vector j) (h j)) pre dv) = filter (\<lambda>x. \<forall>j \<in> set pre. x \<noteq> (Msix_Vector j, h j)) (irqs dv)"
  "idx (fold (\<lambda>j. free_irq (Msix_Vector j) (h j)) pre dv) = idx dv"
  by (induction pre arbitrary: dv) (auto simp: free_irq_def removeAll_filter_not_eq intro!: filter_cong)

definition msix_irqs :: "ioatdma_device \<Rightarrow> nat list \<Rightarrow> (irq_line \<times> irq_handler) list" where
  "msix_irqs dv is = map (\<lambda>i. (Msix_Vector i, Do_Interrupt_Msix (idx dv ! i))) is"

lemma add_irq_idx [simp]: "idx (add_irq l h dv) = idx dv" "irqs (add_irq l h dv) = irqs dv @ [(l, h)]"
  "msix_irqs (add_irq l h dv) is = msix_irqs dv is"
  by (simp_all add: add_irq_def msix_irqs_def)

lemma request_msix_ok:
  assumes "\<forall>i \<in> set is. i < length (idx dv)" and "irqs dv = msix_irqs dv pre"
  shows "\<exists>ok dv'. request_msix de is pre dv = Inr (ok, dv') \<and> idx dv' = idx dv \<and>
    irqs dv' = (if ok then msix_irqs dv (pre @ is) else [])"
  using assms
proof (induction "is" arbitrary: pre dv)
  case (Cons i "is")
  let ?h = "Do_Interrupt_Msix (idx dv ! i)"
  have ci: "ioat_chan_by_index dv i = Inr (idx dv ! i)" using Cons.prems(1) by (simp add: ioat_chan_by_index_def)
  show ?case
  proof (cases "request_irq de (Msix_Vector i) ?h = 0")
    case True
    have "irqs (add_irq (Msix_Vector i) ?h dv) = msix_irqs (add_irq (Msix_Vector i) ?h dv) (pre @ [i])"
      using Cons.prems(2) by simp (simp add: msix_irqs_def)
    then obtain ok dv' where "request_msix de is (pre @ [i]) (add_irq (Msix_Vector i) ?h dv) = Inr (ok, dv')" "idx dv' = idx dv"
      "irqs dv' = (if ok then msix_irqs dv ((pre @ [i]) @ is) else [])"
      using Cons.IH [of "add_irq (Msix_Vector i) ?h dv" "pre @ [i]"] Cons.prems(1) by auto
    then show ?thesis using True ci by (intro exI [of _ ok] exI [of _ dv']) simp
  next
    case False
    then show ?thesis using ci Cons.prems(2) by (intro exI [of _ False]) (simp add: free_irqs msix_irqs_def filter_empty_conv)
  qed
qed auto

text \<open>A rung of the ladder either installs its handler or leaves none.\<close>

definition irq_result :: "dev_env \<Rightarrow> (irq_line \<times> irq_handler) list set \<Rightarrow> ioatdma_device \<Rightarrow> int \<times> ioatdma_device \<Rightarrow> bool" where
  "irq_result de styles dv r = (case r of (err, dv') \<Rightarrow> idx dv' = idx dv \<and>
     (if err = 0 then irqs dv' \<in> styles \<and> intrctrl dv' AND MASTER_INT_EN de = MASTER_INT_EN de
      else irqs dv' = [] \<and> intrctrl dv' = 0))"

lemma irq_result_mono: "irq_result de A dv r \<Longrightarrow> A \<subseteq> B \<Longrightarrow> irq_result de B dv r"
  by (auto simp: irq_result_def split: prod.splits if_splits)

lemma irq_done_result:
  "irqs dv' \<in> styles \<Longrightarrow> idx dv' = idx dv \<Longrightarrow> irq_result de styles dv (irq_done de ctrl dv')"
proof -
  have "(ctrl OR m) AND m = m" for m :: u8 by (rule bit_word_eqI) (auto simp: bit_simps)
  then show "irqs dv' \<in> styles \<Longrightarrow> idx dv' = idx dv \<Longrightarrow> irq_result de styles dv (irq_done de ctrl dv')"
    by (simp add: irq_result_def irq_done_def ioat1_intr_quirk_def)
qed

lemma setup_intx_result: "irqs dv' = [] \<Longrightarrow> idx dv' = idx dv \<Longrightarrow> irq_result de {[(Intx_Irq, Do_Interrupt)]} dv (setup_intx de dv')"
  by (auto simp: setup_intx_def Let_def no_irq_def add_irq_def intro!: irq_done_result) (simp add: irq_result_def)

lemma setup_msi_result:
  "irqs dv' = [] \<Longrightarrow> idx dv' = idx dv \<Longrightarrow>
     irq_result de {[(Msi_Irq, Do_Interrupt)], [(Intx_Irq, Do_Interrupt)]} dv (setup_msi de dv')"
  by (auto simp: setup_msi_def Let_def add_irq_def intro!: irq_done_result intro: irq_result_mono [OF setup_intx_result])

lemma setup_single_result:
  "irqs dv' = [] \<Longrightarrow> idx dv' = idx dv \<Longrightarrow>
     irq_result de {[(Msix_Vector 0, Do_Interrupt)], [(Msi_Irq, Do_Interrupt)], [(Intx_Irq, Do_Interrupt)]} dv
       (setup_msix_single_vector de dv')"
  by (auto simp: setup_msix_single_vector_def Let_def add_irq_def intro!: irq_done_result
      intro: irq_result_mono [OF setup_msi_result])

text \<open>
  C28. Setting up the interrupts of a device installs the handlers of exactly one style, one per channel
  with a vector of its own or a single one for the whole device, and enables interrupt generation;
  or it fails with an error, leaves no handler behind and disables interrupts. Every style falls
  back to the next weaker one, and an unknown style is refused.
\<close>

theorem interrupts_all_or_nothing:
  assumes "irqs dv = []" and "cnt \<le> length (idx dv)"
  shows "\<exists>err dv'. ioat_dma_setup_interrupts de cnt dv = Inr (err, dv') \<and> idx dv' = idx dv \<and>
    (if err = 0
     then irqs dv' \<in> {map (\<lambda>i. (Msix_Vector i, Do_Interrupt_Msix (idx dv ! i))) [0 ..< cnt], [(Msix_Vector 0, Do_Interrupt)],
            [(Msi_Irq, Do_Interrupt)], [(Intx_Irq, Do_Interrupt)]} \<and> intrctrl dv' AND MASTER_INT_EN de = MASTER_INT_EN de
     else irqs dv' = [] \<and> intrctrl dv' = 0)"
proof -
  let ?S = "{map (\<lambda>i. (Msix_Vector i, Do_Interrupt_Msix (idx dv ! i))) [0 ..< cnt], [(Msix_Vector 0, Do_Interrupt)],
      [(Msi_Irq, Do_Interrupt)], [(Intx_Irq, Do_Interrupt)]}"
  have single: "irq_result de ?S dv (setup_msix_single_vector de dv')" if "irqs dv' = []" "idx dv' = idx dv" for dv'
    by (rule irq_result_mono [OF setup_single_result [OF that]]) auto
  have msi: "irq_result de ?S dv (setup_msi de dv)" by (rule irq_result_mono [OF setup_msi_result [OF assms(1) refl]]) auto
  have intx: "irq_result de ?S dv (setup_intx de dv)" by (rule irq_result_mono [OF setup_intx_result [OF assms(1) refl]]) auto
  have bad: "irq_result de ?S dv (no_irq (- errno_code EINVAL) dv)" by (simp add: irq_result_def no_irq_def assms(1))
  obtain ok dv' where r: "request_msix de [0 ..< cnt] [] (dv\<lparr>msix_enabled := True\<rparr>) = Inr (ok, dv')"
    "idx dv' = idx dv" "irqs dv' = (if ok then msix_irqs dv [0 ..< cnt] else [])"
    using request_msix_ok [of "[0 ..< cnt]" "dv\<lparr>msix_enabled := True\<rparr>" "[]" de] assms by (auto simp: msix_irqs_def)
  have fin: "irq_result de ?S dv (irq_done de c dv')" if ok for c
    using that r by (intro irq_done_result) (simp_all add: msix_irqs_def)
  have part: "irq_result de ?S dv (setup_msix_single_vector de dv')" if "\<not> ok"
    using that r by (intro single) simp_all
  have "case setup_msix de cnt dv of Inl e \<Rightarrow> False | Inr res \<Rightarrow> irq_result de ?S dv res"
    using r(1) single [OF assms(1) refl] msi fin part by (cases ok) (simp_all add: setup_msix_def Let_def)
  then have "case ioat_dma_setup_interrupts de cnt dv of Inl e \<Rightarrow> False | Inr res \<Rightarrow> irq_result de ?S dv res"
    using single [OF assms(1) refl] msi intx bad by (simp add: ioat_dma_setup_interrupts_def)
  then obtain err dv2 where "ioat_dma_setup_interrupts de cnt dv = Inr (err, dv2)" "irq_result de ?S dv (err, dv2)"
    by (cases "ioat_dma_setup_interrupts de cnt dv") auto
  then show ?thesis unfolding irq_result_def prod.case by blast
qed

subsection \<open>The self test and its mappings\<close>

lemma drv_only [simp]:
  "live_maps (upd_drv f s) = live_maps s" "devs (upd_drv f s) = devs s"
  "live_maps (dma_async_issue_pending c s) = live_maps s" "live_maps (test_release k c s) = live_maps s"
  by (simp_all add: upd_drv_def dma_async_issue_pending_def test_release_def)

lemma test_run_maps:
  assumes "test_run te c tx s = (err, unmap, s')"
  shows "live_maps s' = live_maps s" and "\<not> unmap \<Longrightarrow> err = - errno_code ENODEV \<and> dest_bytes te \<noteq> src_bytes"
    and "err = 0 \<Longrightarrow> dest_bytes te = src_bytes \<and> unmap"
  using assms
  by (auto simp: test_run_def call_submit_def dma_async_is_tx_complete_def Let_def split: prod.splits if_splits)

lemma test_unmap_maps:
  assumes "maps_ok s" and "live_maps s' = mapped Map_Single dd (of_nat IOAT_TEST_SIZE) From_Device +
      (mapped Map_Single ds (of_nat IOAT_TEST_SIZE) To_Device + live_maps s)"
  shows "live_maps (test_unmap ds dd s') = live_maps s"
  unfolding test_unmap_def by (rule unmap_mapped(1) [OF assms])

text \<open>
  The self test of a device releases the two DMA mappings it makes on every path but one: when
  the copied bytes differ from the source it jumps past the unmapping and both mappings stay live.
  When it succeeds the bytes are equal and no mapping is left.
\<close>

theorem self_test_mappings:
  assumes "maps_ok s" and "ioat_dma_self_test te k s = Inr (err, s')"
  shows "(live_maps s' = live_maps s \<or>
      err = - errno_code ENODEV \<and> dest_bytes te \<noteq> src_bytes \<and> (\<exists>src dest. src_buf te = Some src \<and> dest_buf te = Some dest \<and>
        live_maps s' = mapped Map_Single (map_single (test_map te) dest 2000 From_Device) 2000 From_Device +
          (mapped Map_Single (map_single (test_map te) src 2000 To_Device) 2000 To_Device + live_maps s))) \<and>
    (err = 0 \<longrightarrow> live_maps s' = live_maps s \<and> dest_bytes te = src_bytes)"
proof (cases "src_buf te = None \<or> dest_buf te = None")
  case True
  then show ?thesis using assms(2) by (auto simp: ioat_dma_self_test_def split: option.splits)
next
  case False
  then obtain src dest where b: "src_buf te = Some src" "dest_buf te = Some dest" by auto
  let ?ds = "map_single (test_map te) src (of_nat IOAT_TEST_SIZE) To_Device"
  let ?dd = "map_single (test_map te) dest (of_nat IOAT_TEST_SIZE) From_Device"
  obtain c cs where ch: "channels (devs s k) = c # cs"
    using assms(2) b by (cases "channels (devs s k)") (simp_all add: ioat_dma_self_test_def)
  obtain r dv where al: "device_alloc_chan_resources (devs s k) c (drv s) = (r, dv)"
    by (cases "device_alloc_chan_resources (devs s k) c (drv s)")
  let ?s3 = "note_map Map_Single ?dd (of_nat IOAT_TEST_SIZE) From_Device (note_map Map_Single ?ds (of_nat IOAT_TEST_SIZE) To_Device (s\<lparr>drv := dv\<rparr>))"
  obtain q s4 where pr: "call_prep c ?dd ?ds (of_nat IOAT_TEST_SIZE) test_flags ?s3 = (q, s4)"
    by (cases "call_prep c ?dd ?ds (of_nat IOAT_TEST_SIZE) test_flags ?s3")
  have l4: "live_maps s4 = mapped Map_Single ?dd (of_nat IOAT_TEST_SIZE) From_Device +
      (mapped Map_Single ?ds (of_nat IOAT_TEST_SIZE) To_Device + live_maps s)"
    using call_prep_live [OF pr] by (simp add: note_map_mapped)
  have enodev: "- errno_code ENODEV \<noteq> 0" by simp
  show ?thesis
  proof (cases "(case r of Inl e \<Rightarrow> True | Inr n \<Rightarrow> n < 1)")
    case True
    then show ?thesis using assms(2) b ch al by (auto simp: ioat_dma_self_test_def Let_def)
  next
    case ok: False
    show ?thesis
    proof (cases q)
      case None
      then show ?thesis
        using assms(2) b ch al ok pr test_unmap_maps [OF assms(1) l4] by (auto simp: ioat_dma_self_test_def Let_def)
    next
      case (Some tx)
      obtain e u s5 where run: "test_run te c tx s4 = (e, u, s5)" by (cases "test_run te c tx s4")
      note m = test_run_maps [OF run]
      have l5: "live_maps s5 = mapped Map_Single ?dd (of_nat IOAT_TEST_SIZE) From_Device +
          (mapped Map_Single ?ds (of_nat IOAT_TEST_SIZE) To_Device + live_maps s)" using l4 m(1) by simp
      have res: "err = e" "s' = test_release k c (if u then test_unmap ?ds ?dd s5 else s5)"
        using assms(2) b ch al ok pr Some run by (simp_all add: ioat_dma_self_test_def Let_def)
      show ?thesis
        using res m(2,3) b l5 test_unmap_maps [OF assms(1) l5] by (cases u) (auto simp: IOAT_TEST_SIZE_def)
    qed
  qed
qed

subsection \<open>A device\<close>

definition demo_ioat_dev :: ioatdma_device where
  "demo_ioat_dev = \<lparr>dma_pool = True, completion_pool = True, version = 0x12, idx = [None, None, None, None], dca = False,
     chan_data = (\<lambda>_. demo_ioat_chan), irqs = [], msix_enabled = False, msi_enabled = False, intrctrl = 0, dmactrl = 0,
     kobjs = [], dev_fault = None\<rparr>"

text \<open>Two channels; the second MSI-X vector is refused.\<close>

definition demo_dev_env :: dev_env where
  "demo_dev_env = \<lparr>chancnt_reg = 2, xfercap_reg = 0, i7300_platform = False, new_chan = (\<lambda>i. Some (4 + i)), cookie_init = 1,
     create_dma_pool = True, create_completion_pool = True, irq_style = ''msix'',
     enable_msix = (\<lambda>on n. if on then - 22 else 0), enable_msi = (\<lambda>on. if on then - 22 else 0),
     request_irq = (\<lambda>l h. if l = Msix_Vector 1 then - 16 else 0), MASTER_INT_EN = 1, INT_STATUS = 2,
     MSIX_VECTOR_CONTROL = 8, DMACTRL_MSI_EN = 1, kobject_add = (\<lambda>_. 0), dca_init = True\<rparr>"

definition demo_ioat_engine :: ioat_engine where
  "demo_ioat_engine = \<lparr>dma_device_list = [], dma_idr = {}, idr_ref = (\<lambda>_. 0), dmaengine_ref_count = 0,
     copy_dmaengine_ref_count = 0, channel_table = (\<lambda>_ _. None), percpu_chan_copy = (\<lambda>_. \<lparr>cc_chan = None, cc_use = 0\<rparr>),
     list_chan_prio = list_chan_prio (demo_engine 0),
     devs = (\<lambda>_. \<lparr>chancnt = 1, privatecnt = 0, channels = [4], cap_mask = {}, copy_align = 0, dev_id = 0, dev_owner = Some 0,
       routines = {}, device_alloc_chan_resources = (\<lambda>c d. (Inr 1, d)), device_free_chan_resources = (\<lambda>c d. d),
       device_prep_dma_memcpy = (\<lambda>c dest src n flags d. (Some 0, d)), tx_submit = (\<lambda>t d. (1, d)),
       device_tx_status = (\<lambda>c k d. (DMA_SUCCESS, d)), device_issue_pending = (\<lambda>c d. d)\<rparr>),
     chans = (\<lambda>_. Dma_Engine.demo_chan 0 0), mods = mods (demo_engine 0), live_maps = {#}, drv = demo_ioat_dev\<rparr>"

text \<open>The hardware reports success, but the destination keeps its zeros.\<close>

definition demo_test :: test_env where
  "demo_test = \<lparr>src_buf = Some 0x10000, dest_buf = Some 0x20000,
     test_map = \<lparr>map_single = (\<lambda>a n dir. a), map_page = (\<lambda>p off n dir. 0x1000 * of_nat p + ucast off)\<rparr>,
     wait_done = (\<lambda>dv. (1, dv)), dest_bytes = []\<rparr>"

lemma enumerated_channels_fresh_witness:
  "\<exists>n s'. ioat1_enumerate_channels demo_dev_env 0 demo_ioat_engine = Inr (n, s') \<and> length (channels (devs s' 0)) = n"
  using enumerated_channels_fresh [of demo_ioat_engine demo_dev_env 0]
  by (auto simp: demo_ioat_engine_def demo_ioat_dev_def demo_dev_env_def)

lemma interrupts_all_or_nothing_witness:
  "\<exists>dv'. ioat_dma_setup_interrupts demo_dev_env 2 demo_ioat_dev = Inr (0, dv') \<and> irqs dv' = [(Intx_Irq, Do_Interrupt)] \<and>
     intrctrl dv' AND MASTER_INT_EN demo_dev_env = MASTER_INT_EN demo_dev_env"
proof -
  have r: "map_sum id (\<lambda>(e, dv). (e, irqs dv)) (ioat_dma_setup_interrupts demo_dev_env 2 demo_ioat_dev) = Inr (0, [(Intx_Irq, Do_Interrupt)])"
    by code_simp
  have "irqs demo_ioat_dev = []" "2 \<le> length (idx demo_ioat_dev)" by (simp_all add: demo_ioat_dev_def)
  from interrupts_all_or_nothing [OF this, of demo_dev_env] show ?thesis using r by auto
qed

lemma self_test_mappings_witness:
  "\<exists>s'. ioat_dma_self_test demo_test 0 demo_ioat_engine = Inr (- errno_code ENODEV, s') \<and>
     live_maps s' = mapped Map_Single 0x20000 2000 From_Device + (mapped Map_Single 0x10000 2000 To_Device + {#})"
proof -
  have mo: "maps_ok demo_ioat_engine" by (simp add: maps_ok_def demo_ioat_engine_def)
  have "src_bytes \<noteq> []" by (simp add: src_bytes_def IOAT_TEST_SIZE_def)
  then obtain s' where r: "ioat_dma_self_test demo_test 0 demo_ioat_engine = Inr (- errno_code ENODEV, s')" "live_maps s' \<noteq> {#}"
    by (simp add: ioat_dma_self_test_def demo_test_def demo_ioat_engine_def Let_def test_run_def call_prep_def call_submit_def
        dma_async_issue_pending_def dma_async_is_tx_complete_def note_map_def upd_drv_def test_release_def)
  then show ?thesis
    using self_test_mappings [OF mo r(1)] by (auto simp: demo_test_def demo_ioat_engine_def)
qed

end
