(* ===== verification/Prio_Ioat.thy ===== *)
theory Prio_Ioat
  imports Prio_Policy Ioat_Device
begin

text \<open>
  The priority policy on I/OAT channels: the suspend and resume entry points of the driver provide
  the interface that the policy's timer needs, so that its alternation shows in the command
  registers of the channels.
\<close>

definition ioat_cmds :: "ioatdma_device chan_cmds" where
  "ioat_cmds = \<lparr>cmd_suspend = ioat_suspend_chan, cmd_resume = ioat_resume_chan\<rparr>"

text \<open>The last suspend or resume command written to a channel decides.\<close>

definition is_suspended :: "chancmd list \<Rightarrow> bool" where
  "is_suspended cmds \<longleftrightarrow> (case rev (filter (\<lambda>c. c = CHANCMD_SUSPEND \<or> c = CHANCMD_RESUME) cmds) of
     [] \<Rightarrow> False | c # cs \<Rightarrow> c = CHANCMD_SUSPEND)"

definition suspended_chans :: "ioatdma_device \<Rightarrow> nat set" where
  "suspended_chans dv = {c. is_suspended (reg_cmds (chan_data dv c))}"

lemma is_suspended_snoc [simp]:
  "is_suspended (cmds @ [CHANCMD_SUSPEND])" "\<not> is_suspended (cmds @ [CHANCMD_RESUME])"
  by (simp_all add: is_suspended_def)

interpretation ioat_susp: suspendable_channels ioat_cmds suspended_chans
  by unfold_locales
     (auto simp: ioat_cmds_def suspended_chans_def ioat_suspend_chan_def ioat_resume_chan_def upd_chan_data_def set_chan_def
       ioat_suspend_def ioat_resume_def write_cmd_def split: if_splits)

text \<open>
  C27. Once the priority policy runs on I/OAT channels, every expiry of its timer succeeds, and after
  any number of them the channels below the highest priority are suspended exactly when the number
  is odd: their last command is to suspend after an odd number of expiries and to resume after a
  positive even one. The channel of the highest priority is never suspended by the timer.
\<close>

theorem priority_timer_alternates:
  assumes "env_wf env" and "eng_inv K (pr_eng ps)" and "start_policy_prio2 env hi lo ps = Inr (4, ps1)"
    and "chan_prio (list_chan_prio (pr_eng ps1)) = map Some cs" and "suspended_chans (drv (pr_eng ps1)) \<inter> set cs = {}"
  shows "\<exists>ps2. run_callbacks ioat_cmds rets ps1 = Inr ps2 \<and>
    suspended_chans (drv (pr_eng ps2)) \<inter> set cs = (if odd (length rets) then set (tl cs) else {})"
proof -
  obtain cs' where c: "length cs' = 4" "list_chan_prio (pr_eng ps1) = prio_running cs'" "ticking (prio_timer ps1)"
    "pt_tick (prio_timer ps1) = 2"
    using start_prio_cases [OF assms(1,2), of hi lo] assms(3) by (auto simp: ticking_def MAX_QUANTUM_def)
  have e: "cs' = cs" using c(2) assms(4) by (simp add: prio_running_def map_injective inj_def inj_map_eq_map)
  have tl: "set (tl cs) \<subseteq> set cs" by (cases cs) auto
  obtain d pt where r: "run_callbacks ioat_cmds rets ps1 = Inr (ps1\<lparr>pr_eng := (pr_eng ps1)\<lparr>drv := d\<rparr>, prio_timer := pt\<rparr>)"
    using run_callbacks_running [OF c(2,1,3)] by blast
  have res: "suspended_chans (drv (pr_eng (ps1\<lparr>pr_eng := (pr_eng ps1)\<lparr>drv := d\<rparr>, prio_timer := pt\<rparr>))) =
      (if odd (length rets) then suspended_chans (drv (pr_eng ps1)) \<union> set (tl cs') else suspended_chans (drv (pr_eng ps1)))"
    by (rule ioat_susp.alternates [OF c(2,1,3) _ _ r]) (use c(4) e tl assms(5) in auto)
  show ?thesis by (rule exI, rule conjI, rule r) (use res e tl assms(5) in auto)
qed

definition demo_prio_ioat :: "ioatdma_device prio_state" where
  "demo_prio_ioat = \<lparr>pr_eng = demo_ioat_engine\<lparr>dma_device_list := [0],
       devs := (\<lambda>d. (devs demo_ioat_engine d)\<lparr>channels := [4, 5, 6, 7], chancnt := 4, cap_mask := {DMA_MEMCPY}, routines := UNIV\<rparr>)\<rparr>,
     prio_timer = prio_timer demo_prio\<rparr>"

lemma demo_prio_ioat_inv: "eng_inv {0} (pr_eng demo_prio_ioat)"
  by (simp add: demo_prio_ioat_def demo_ioat_engine_def eng_inv_def dev_topo_def dev_disc_def dev_private_def dma_has_cap_def Dma_Engine.demo_chan_def)

lemma priority_timer_alternates_witness:
  "\<exists>ps1 ps2. start_policy_prio2 demo_env 100 50 demo_prio_ioat = Inr (4, ps1) \<and> run_callbacks ioat_cmds [1, 1, 2] ps1 = Inr ps2 \<and>
     suspended_chans (drv (pr_eng ps2)) \<inter> {4, 5, 6, 7} = {5, 6, 7}"
proof -
  have "case start_policy_prio2 demo_env 100 50 demo_prio_ioat of Inl _ \<Rightarrow> False
    | Inr (e, s') \<Rightarrow> e = 4 \<and> chan_prio (list_chan_prio (pr_eng s')) = map Some [4, 5, 6, 7] \<and>
        map (\<lambda>c. reg_cmds (chan_data (drv (pr_eng s')) c)) [4, 5, 6, 7] = [[], [], [], []]"
    by code_simp
  then obtain ps1 where p: "start_policy_prio2 demo_env 100 50 demo_prio_ioat = Inr (4, ps1)"
    "chan_prio (list_chan_prio (pr_eng ps1)) = map Some [4, 5, 6, 7]"
    "suspended_chans (drv (pr_eng ps1)) \<inter> set [4, 5, 6, 7] = {}"
    by (auto simp: suspended_chans_def is_suspended_def split: sum.splits)
  from priority_timer_alternates [OF demo_wf demo_prio_ioat_inv p, of "[1, 1, 2]"] p(1) show ?thesis by auto
qed

end
