(* ===== verification/Ioat_Dca.thy ===== *)
theory Ioat_Dca
  imports Prelude
begin

text \<open>
  Direct cache access of the I/OAT device, \<^verbatim>\<open>src/source/drivers/dma/ioat/dca.c\<close>: the table of requesters
  of a provider with its image in the device registers, the tags that route writes to the cache of a
  CPU, and the three start routines, one for each version of the hardware.

  The register offsets and bits of \<^verbatim>\<open>registers.h\<close>, the PCI numbers, the reads from the device, the CPU
  features and the DCA core (which allocates and registers providers) are parameters, in \<open>dca_env\<close>.
  Register writes are logged in order.
\<close>

subsection \<open>State\<close>

definition IOAT_TAG_MAP_LEN :: nat where
  "IOAT_TAG_MAP_LEN = 8"

definition DCA_TAG_MAP_VALID :: u8 where
  "DCA_TAG_MAP_VALID = 0x80"

definition DCA3_TAG_MAP_BIT_TO_INV :: u8 where
  "DCA3_TAG_MAP_BIT_TO_INV = 0x80"

definition DCA3_TAG_MAP_BIT_TO_SEL :: u8 where
  "DCA3_TAG_MAP_BIT_TO_SEL = 0x40"

definition DCA3_TAG_MAP_LITERAL_VAL :: u8 where
  "DCA3_TAG_MAP_LITERAL_VAL = 1"

definition DCA_TAG_MAP_MASK :: u8 where
  "DCA_TAG_MAP_MASK = 0xDF"

definition APICID_BIT :: "u8 \<Rightarrow> u8" where
  "APICID_BIT x = DCA_TAG_MAP_VALID OR x"

definition ioat_tag_map_BNB :: "u8 list" where
  "ioat_tag_map_BNB = [1, APICID_BIT 1, APICID_BIT 2, APICID_BIT 2, 0, 0, 0, 0]"

definition ioat_tag_map_SCNB :: "u8 list" where
  "ioat_tag_map_SCNB = [1, APICID_BIT 1, APICID_BIT 2, APICID_BIT 2, 0, 0, 0, 0]"

definition ioat_tag_map_CNB :: "u8 list" where
  "ioat_tag_map_CNB = [1, APICID_BIT 1, APICID_BIT 3, APICID_BIT 4, APICID_BIT 2, 0, 0, 0]"

definition ioat_tag_map_UNISYS :: "u8 list" where
  "ioat_tag_map_UNISYS = [0, 0, 0, 0, 0, 0, 0, 0]"

definition IOAT_DCA_MAX_REQ :: nat where
  "IOAT_DCA_MAX_REQ = 6"

definition IOAT3_DCA_MAX_REQ :: nat where
  "IOAT3_DCA_MAX_REQ = 2"

text \<open>A slot of the table: the device, a null pointer when the slot is free, and its requester id.\<close>

record ioat_dca_slot =
  slot_pdev :: "nat option"
  rid :: u16

record ioat_dca_priv =
  iobase :: u64
  dca_base :: u64
  max_requesters :: nat
  requester_count :: int
  tag_map :: "u8 list"
  req_slots :: "ioat_dca_slot list"

datatype mmio_write = W8 (waddr: u64) u8 | W16 (waddr: u64) u16 | W32 (waddr: u64) u32

record dca_state =
  priv :: ioat_dca_priv
  mmio_log :: "mmio_write list"

record dca_env =
  readb :: "u64 \<Rightarrow> u8"
  readw :: "u64 \<Rightarrow> u16"
  readl :: "u64 \<Rightarrow> u32"
  IOAT_VER_OFFSET :: u64
  IOAT_VER_3_0 :: u8
  IOAT_DCAOFFSET_OFFSET :: u64
  IOAT_DCA_GREQID_OFFSET :: u64
  IOAT3_DCA_GREQID_OFFSET :: u64
  IOAT_DCA_GREQID_VALID :: u32
  IOAT_DCA_GREQID_LASTID :: u32
  IOAT_FSB_CAP_ENABLE_OFFSET :: u64
  IOAT_FSB_CAP_ENABLE_PREFETCH :: u16
  IOAT_PCI_CAP_ENABLE_OFFSET :: u64
  IOAT_PCI_CAP_ENABLE_MEMWR :: u16
  IOAT3_CSI_CONTROL_OFFSET :: u64
  IOAT3_CSI_CONTROL_PREFETCH :: u16
  IOAT3_PCI_CONTROL_OFFSET :: u64
  IOAT3_PCI_CONTROL_MEMWR :: u16
  IOAT_APICID_TAG_MAP_OFFSET :: u64
  IOAT3_APICID_TAG_MAP_OFFSET_LOW :: u64
  IOAT3_APICID_TAG_MAP_OFFSET_HIGH :: u64
  PCI_VENDOR_ID_INTEL :: u16
  PCI_DEVICE_ID_INTEL_IOAT :: u16
  PCI_DEVICE_ID_INTEL_IOAT_CNB :: u16
  PCI_DEVICE_ID_INTEL_IOAT_SCNB :: u16
  PCI_VENDOR_ID_UNISYS :: u16
  PCI_DEVICE_ID_UNISYS_DMA_DIRECTOR :: u16
  on_pci_bus :: "nat \<Rightarrow> bool"
  bus_number :: "nat \<Rightarrow> u8"
  devfn :: "nat \<Rightarrow> u32"
  pci_vendor :: "nat \<Rightarrow> u16"
  pci_device :: "nat \<Rightarrow> u16"
  cpu_physical_id :: "nat \<Rightarrow> u32"
  config_disable_dca :: bool
  boot_cpu_has_dca :: bool
  cpuid_eax_9 :: u32
  alloc_dca_provider :: "nat \<Rightarrow> ioat_dca_priv option"
  register_dca_provider :: "nat \<Rightarrow> int"

subsection \<open>Requesters\<close>

definition dcaid_from_pcidev :: "dca_env \<Rightarrow> nat \<Rightarrow> u16" where
  "dcaid_from_pcidev env d = ucast (push_bit 8 (ucast (bus_number env d) :: u32) OR devfn env d)"

definition dca_enabled_in_bios :: "dca_env \<Rightarrow> bool" where
  "dca_enabled_in_bios env = bit (cpuid_eax_9 env) 0"

definition system_has_dca_enabled :: "dca_env \<Rightarrow> bool" where
  "system_has_dca_enabled env = (if config_disable_dca env then False
     else if boot_cpu_has_dca env then dca_enabled_in_bios env else False)"

text \<open>The loops over the slots: the first slot that passes the test.\<close>

function slot_scan :: "(ioat_dca_slot \<Rightarrow> bool) \<Rightarrow> ioat_dca_slot list \<Rightarrow> nat \<Rightarrow> nat \<Rightarrow> nat option outcome" where
  "slot_scan P slots m i = (if m \<le> i then Inr None else if length slots \<le> i then Inl Out_Of_Bounds
     else if P (slots ! i) then Inr (Some i) else slot_scan P slots m (i + 1))"
  by pat_completeness auto
termination
  by (relation "measure (\<lambda>(P, slots, m, i). m - i)") auto

text \<open>
  The frame the three pairs of routines share; they differ in the register writes only.
\<close>

definition take_slot :: "nat \<Rightarrow> u16 \<Rightarrow> nat \<Rightarrow> ioat_dca_priv \<Rightarrow> ioat_dca_priv" where
  "take_slot d ident i p = p\<lparr>requester_count := requester_count p + 1,
     req_slots := (req_slots p)[i := \<lparr>slot_pdev = Some d, rid = ident\<rparr>]\<rparr>"

definition drop_slot :: "nat \<Rightarrow> ioat_dca_priv \<Rightarrow> ioat_dca_priv" where
  "drop_slot i p = p\<lparr>requester_count := requester_count p - 1, req_slots := (req_slots p)[i := \<lparr>slot_pdev = None, rid = 0\<rparr>]\<rparr>"

definition add_requester :: "(ioat_dca_priv \<Rightarrow> nat \<Rightarrow> u16 \<Rightarrow> mmio_write list) \<Rightarrow> dca_env \<Rightarrow> nat \<Rightarrow> dca_state
    \<Rightarrow> (int \<times> dca_state) outcome" where
  "add_requester wr env d st = (let p = priv st; ident = dcaid_from_pcidev env d in
     if \<not> on_pci_bus env d then Inr (- errno_code ENODEV, st)
     else if requester_count p = int (max_requesters p) then Inr (- errno_code ENODEV, st)
     else seq_ok (slot_scan (\<lambda>sl. slot_pdev sl = None) (req_slots p) (max_requesters p) 0) (\<lambda>r. case r of
         None \<Rightarrow> Inr (- errno_code EFAULT, st)
       | Some i \<Rightarrow> Inr (int i, st\<lparr>priv := take_slot d ident i p, mmio_log := mmio_log st @ wr p i ident\<rparr>)))"

definition remove_requester :: "(ioat_dca_priv \<Rightarrow> nat \<Rightarrow> mmio_write list) \<Rightarrow> dca_env \<Rightarrow> nat \<Rightarrow> dca_state
    \<Rightarrow> (int \<times> dca_state) outcome" where
  "remove_requester wr env d st = (let p = priv st in
     if \<not> on_pci_bus env d then Inr (- errno_code ENODEV, st)
     else seq_ok (slot_scan (\<lambda>sl. slot_pdev sl = Some d) (req_slots p) (max_requesters p) 0) (\<lambda>r. case r of
         None \<Rightarrow> Inr (- errno_code ENODEV, st)
       | Some i \<Rightarrow> Inr (int i, st\<lparr>priv := drop_slot i p, mmio_log := mmio_log st @ wr p i\<rparr>)))"

text \<open>Version 1 has the ids in a table behind the DCA base, versions 2 and 3 in the global table.\<close>

definition ioat_dca_add_requester :: "dca_env \<Rightarrow> nat \<Rightarrow> dca_state \<Rightarrow> (int \<times> dca_state) outcome" where
  "ioat_dca_add_requester env = add_requester (\<lambda>p i ident.
     [W16 (dca_base p + of_nat (i * 4)) ident, W8 (dca_base p + of_nat (i * 4) + 2) 0]) env"

definition ioat_dca_remove_requester :: "dca_env \<Rightarrow> nat \<Rightarrow> dca_state \<Rightarrow> (int \<times> dca_state) outcome" where
  "ioat_dca_remove_requester env = remove_requester (\<lambda>p i. [W16 (dca_base p + of_nat (i * 4)) 0]) env"

definition ioat2_dca_add_requester :: "dca_env \<Rightarrow> nat \<Rightarrow> dca_state \<Rightarrow> (int \<times> dca_state) outcome" where
  "ioat2_dca_add_requester env = add_requester (\<lambda>p i ident.
     let global_req_table = readw env (dca_base p + IOAT_DCA_GREQID_OFFSET env) in
     [W32 (iobase p + ucast global_req_table + of_nat (i * 4)) (ucast ident OR IOAT_DCA_GREQID_VALID env)]) env"

definition ioat2_dca_remove_requester :: "dca_env \<Rightarrow> nat \<Rightarrow> dca_state \<Rightarrow> (int \<times> dca_state) outcome" where
  "ioat2_dca_remove_requester env = remove_requester (\<lambda>p i.
     let global_req_table = readw env (dca_base p + IOAT_DCA_GREQID_OFFSET env) in
     [W32 (iobase p + ucast global_req_table + of_nat (i * 4)) 0]) env"

definition ioat3_dca_add_requester :: "dca_env \<Rightarrow> nat \<Rightarrow> dca_state \<Rightarrow> (int \<times> dca_state) outcome" where
  "ioat3_dca_add_requester env = add_requester (\<lambda>p i ident.
     let global_req_table = readw env (dca_base p + IOAT3_DCA_GREQID_OFFSET env) in
     [W32 (iobase p + ucast global_req_table + of_nat (i * 4)) (ucast ident OR IOAT_DCA_GREQID_VALID env)]) env"

definition ioat3_dca_remove_requester :: "dca_env \<Rightarrow> nat \<Rightarrow> dca_state \<Rightarrow> (int \<times> dca_state) outcome" where
  "ioat3_dca_remove_requester env = remove_requester (\<lambda>p i.
     let global_req_table = readw env (dca_base p + IOAT3_DCA_GREQID_OFFSET env) in
     [W32 (iobase p + ucast global_req_table + of_nat (i * 4)) 0]) env"

definition ioat_dca_dev_managed :: "nat \<Rightarrow> dca_state \<Rightarrow> bool outcome" where
  "ioat_dca_dev_managed d st = (let p = priv st in
     seq_ok (slot_scan (\<lambda>sl. slot_pdev sl = Some d) (req_slots p) (max_requesters p) 0) (\<lambda>r. Inr (r \<noteq> None)))"

subsection \<open>Tags\<close>

text \<open>The expression \<^verbatim>\<open>apic_id & (1 << bit)\<close>.\<close>

definition apic_bit :: "u32 \<Rightarrow> u8 \<Rightarrow> bool outcome" where
  "apic_bit apic_id b = (if 32 \<le> unat b then Inl Bad_Shift else Inr (apic_id AND push_bit (unat b) 1 \<noteq> 0))"

function tag_loop :: "(u8 \<Rightarrow> bool outcome) \<Rightarrow> u8 list \<Rightarrow> nat \<Rightarrow> u8 \<Rightarrow> u8 outcome" where
  "tag_loop f tm i tag = (if IOAT_TAG_MAP_LEN \<le> i then Inr tag else if length tm \<le> i then Inl Out_Of_Bounds
     else seq_ok (f (tm ! i)) (\<lambda>v. tag_loop f tm (i + 1) (tag OR push_bit i (of_bool v))))"
  by pat_completeness auto
termination
  by (relation "measure (\<lambda>(f, tm, i, tag). IOAT_TAG_MAP_LEN - i)") auto

definition dca_entry_value :: "u32 \<Rightarrow> u8 \<Rightarrow> bool outcome" where
  "dca_entry_value apic_id entry = (if entry AND DCA_TAG_MAP_VALID \<noteq> 0
     then apic_bit apic_id (entry AND NOT DCA_TAG_MAP_VALID) else Inr (entry \<noteq> 0))"

definition ioat_dca_get_tag :: "dca_env \<Rightarrow> nat \<Rightarrow> ioat_dca_priv \<Rightarrow> u8 outcome" where
  "ioat_dca_get_tag env cpu p = tag_loop (dca_entry_value (cpu_physical_id env cpu)) (tag_map p) 0 0"

definition ioat2_dca_get_tag :: "dca_env \<Rightarrow> nat \<Rightarrow> ioat_dca_priv \<Rightarrow> u8 outcome" where
  "ioat2_dca_get_tag env cpu p = seq_ok (ioat_dca_get_tag env cpu p) (\<lambda>tag. Inr (NOT tag AND 0x1F))"

definition dca3_entry_value :: "u32 \<Rightarrow> u8 \<Rightarrow> bool outcome" where
  "dca3_entry_value apic_id entry =
     (if entry AND DCA3_TAG_MAP_BIT_TO_SEL \<noteq> 0
      then apic_bit apic_id (entry AND NOT (DCA3_TAG_MAP_BIT_TO_SEL OR DCA3_TAG_MAP_BIT_TO_INV))
      else if entry AND DCA3_TAG_MAP_BIT_TO_INV \<noteq> 0
      then seq_ok (apic_bit apic_id (entry AND NOT DCA3_TAG_MAP_BIT_TO_INV)) (\<lambda>v. Inr (\<not> v))
      else Inr (entry AND DCA3_TAG_MAP_LITERAL_VAL \<noteq> 0))"

definition ioat3_dca_get_tag :: "dca_env \<Rightarrow> nat \<Rightarrow> ioat_dca_priv \<Rightarrow> u8 outcome" where
  "ioat3_dca_get_tag env cpu p = tag_loop (dca3_entry_value (cpu_physical_id env cpu)) (tag_map p) 0 0"

subsection \<open>Start\<close>

text \<open>What the start routines change besides the provider: providers allocated and registered, register writes.\<close>

record dca_core =
  providers :: int
  registered :: int
  core_log :: "mmio_write list"

definition finish_init :: "dca_env \<Rightarrow> nat \<Rightarrow> ioat_dca_priv \<Rightarrow> dca_core \<Rightarrow> ioat_dca_priv option \<times> dca_core" where
  "finish_init env pdev p co = (if register_dca_provider env pdev \<noteq> 0 then (None, co\<lparr>providers := providers co - 1\<rparr>)
     else (Some p, co\<lparr>registered := registered co + 1\<rparr>))"

definition legacy_tag_map :: "dca_env \<Rightarrow> nat \<Rightarrow> u8 list option" where
  "legacy_tag_map env pdev =
     (if pci_vendor env pdev = PCI_VENDOR_ID_INTEL env then
        (if pci_device env pdev = PCI_DEVICE_ID_INTEL_IOAT env then Some ioat_tag_map_BNB
         else if pci_device env pdev = PCI_DEVICE_ID_INTEL_IOAT_CNB env then Some ioat_tag_map_CNB
         else if pci_device env pdev = PCI_DEVICE_ID_INTEL_IOAT_SCNB env then Some ioat_tag_map_SCNB else None)
      else if pci_vendor env pdev = PCI_VENDOR_ID_UNISYS env then
        (if pci_device env pdev = PCI_DEVICE_ID_UNISYS_DMA_DIRECTOR env then Some ioat_tag_map_UNISYS else None)
      else None)"

definition ioat_dca_init :: "dca_env \<Rightarrow> nat \<Rightarrow> u64 \<Rightarrow> dca_core \<Rightarrow> ioat_dca_priv option \<times> dca_core" where
  "ioat_dca_init env pdev io co =
     (if \<not> system_has_dca_enabled env then (None, co)
      else case legacy_tag_map env pdev of None \<Rightarrow> (None, co)
      | Some tm \<Rightarrow>
          let n = (if readb env (io + IOAT_VER_OFFSET env) = IOAT_VER_3_0 env then IOAT3_DCA_MAX_REQ else IOAT_DCA_MAX_REQ) in
          case alloc_dca_provider env n of None \<Rightarrow> (None, co)
          | Some p \<Rightarrow> finish_init env pdev (p\<lparr>max_requesters := n, dca_base := io + 0x54,
                tag_map := map (\<lambda>i. tm ! i) [0 ..< IOAT_TAG_MAP_LEN]\<rparr>) (co\<lparr>providers := providers co + 1\<rparr>))"

text \<open>The number of entries of the global table, up to the one marked as the last; \<open>None\<close> when none is.\<close>

partial_function (option) count_slots :: "dca_env \<Rightarrow> u64 \<Rightarrow> u16 \<Rightarrow> nat \<Rightarrow> nat option" where
  [code]: "count_slots env io global_req_table slots =
     (let req = readl env (io + ucast global_req_table + of_nat (slots * 4)) in
      if req AND IOAT_DCA_GREQID_LASTID env = 0 then count_slots env io global_req_table (slots + 1) else Some (slots + 1))"

definition ioat2_dca_count_dca_slots :: "dca_env \<Rightarrow> u64 \<Rightarrow> u16 \<Rightarrow> nat option" where
  "ioat2_dca_count_dca_slots env io dca_offset =
     (let global_req_table = readw env (io + ucast dca_offset + IOAT_DCA_GREQID_OFFSET env) in
      if global_req_table = 0 then Some 0 else count_slots env io global_req_table 0)"

definition ioat3_dca_count_dca_slots :: "dca_env \<Rightarrow> u64 \<Rightarrow> u16 \<Rightarrow> nat option" where
  "ioat3_dca_count_dca_slots env io dca_offset =
     (let global_req_table = readw env (io + ucast dca_offset + IOAT3_DCA_GREQID_OFFSET env) in
      if global_req_table = 0 then Some 0 else count_slots env io global_req_table 0)"

text \<open>A control bit the firmware may have left off.\<close>

definition turn_on :: "dca_env \<Rightarrow> u64 \<Rightarrow> u16 \<Rightarrow> mmio_write list" where
  "turn_on env a b = (let ctl = readw env a in if ctl AND b = 0 then [W16 a (ctl OR b)] else [])"

definition dca2_tag_map_valid :: "u8 list \<Rightarrow> bool" where
  "dca2_tag_map_valid tm \<longleftrightarrow> tm ! 0 = 0x80 \<and> tm ! 1 = 0 \<and> tm ! 2 = 0x81 \<and> tm ! 3 = 0x82 \<and> tm ! 4 = 0x82"

definition dca3_tag_map_invalid :: "u8 list \<Rightarrow> bool" where
  "dca3_tag_map_invalid tm \<longleftrightarrow> tm ! 0 = DCA_TAG_MAP_VALID \<and> tm ! 1 = DCA_TAG_MAP_VALID \<and> tm ! 2 = DCA_TAG_MAP_VALID \<and>
     tm ! 3 = DCA_TAG_MAP_VALID \<and> tm ! 4 = DCA_TAG_MAP_VALID"

definition tag2_entry :: "u32 \<Rightarrow> nat \<Rightarrow> u8" where
  "tag2_entry tm i = (let b = ucast (drop_bit (4 * i) tm) AND 0x0f in if b < 8 then b OR DCA_TAG_MAP_VALID else 0)"

definition tag3_entry :: "u64 \<Rightarrow> nat \<Rightarrow> u8" where
  "tag3_entry full i = ucast (drop_bit (8 * i) full) AND DCA_TAG_MAP_MASK"

definition ioat2_dca_init :: "dca_env \<Rightarrow> nat \<Rightarrow> u64 \<Rightarrow> dca_core \<Rightarrow> (ioat_dca_priv option \<times> dca_core) option" where
  "ioat2_dca_init env pdev io co =
     (if \<not> system_has_dca_enabled env then Some (None, co)
      else let dca_offset = readw env (io + IOAT_DCAOFFSET_OFFSET env) in
      if dca_offset = 0 then Some (None, co)
      else case ioat2_dca_count_dca_slots env io dca_offset of None \<Rightarrow> None
      | Some slots \<Rightarrow> Some (if slots = 0 then (None, co)
          else case alloc_dca_provider env slots of None \<Rightarrow> (None, co)
          | Some p0 \<Rightarrow>
              let base = io + ucast dca_offset;
                  tm = readl env (base + IOAT_APICID_TAG_MAP_OFFSET env);
                  p = p0\<lparr>iobase := io, dca_base := base, max_requesters := slots,
                    tag_map := map (tag2_entry tm) [0 ..< 5] @ drop 5 (tag_map p0)\<rparr>;
                  co1 = co\<lparr>providers := providers co + 1, core_log := core_log co
                    @ turn_on env (base + IOAT_FSB_CAP_ENABLE_OFFSET env) (IOAT_FSB_CAP_ENABLE_PREFETCH env)
                    @ turn_on env (base + IOAT_PCI_CAP_ENABLE_OFFSET env) (IOAT_PCI_CAP_ENABLE_MEMWR env)\<rparr>
              in if \<not> dca2_tag_map_valid (tag_map p) then (None, co1\<lparr>providers := providers co1 - 1\<rparr>)
                 else finish_init env pdev p co1))"

definition ioat3_dca_init :: "dca_env \<Rightarrow> nat \<Rightarrow> u64 \<Rightarrow> dca_core \<Rightarrow> (ioat_dca_priv option \<times> dca_core) option" where
  "ioat3_dca_init env pdev io co =
     (if \<not> system_has_dca_enabled env then Some (None, co)
      else let dca_offset = readw env (io + IOAT_DCAOFFSET_OFFSET env) in
      if dca_offset = 0 then Some (None, co)
      else case ioat3_dca_count_dca_slots env io dca_offset of None \<Rightarrow> None
      | Some slots \<Rightarrow> Some (if slots = 0 then (None, co)
          else case alloc_dca_provider env slots of None \<Rightarrow> (None, co)
          | Some p0 \<Rightarrow>
              let base = io + ucast dca_offset;
                  low = readl env (base + IOAT3_APICID_TAG_MAP_OFFSET_LOW env);
                  high = readl env (base + IOAT3_APICID_TAG_MAP_OFFSET_HIGH env);
                  full = ucast low OR push_bit 32 (ucast high) :: u64;
                  p = p0\<lparr>iobase := io, dca_base := base, max_requesters := slots,
                    tag_map := map (tag3_entry full) [0 ..< 8]\<rparr>;
                  co1 = co\<lparr>providers := providers co + 1, core_log := core_log co
                    @ turn_on env (base + IOAT3_CSI_CONTROL_OFFSET env) (IOAT3_CSI_CONTROL_PREFETCH env)
                    @ turn_on env (base + IOAT3_PCI_CONTROL_OFFSET env) (IOAT3_PCI_CONTROL_MEMWR env)\<rparr>
              in if dca3_tag_map_invalid (tag_map p) then (None, co1\<lparr>providers := providers co1 - 1\<rparr>)
                 else finish_init env pdev p co1))"

subsection \<open>The table of requesters and its image in the device\<close>

declare slot_scan.simps [simp del] tag_loop.simps [simp del]

lemma slot_scan_cases:
  assumes "length slots = m"
  shows "(\<exists>k. slot_scan P slots m i = Inr (Some k) \<and> i \<le> k \<and> k < m \<and> P (slots ! k)) \<or>
    (slot_scan P slots m i = Inr None \<and> (\<forall>j. i \<le> j \<longrightarrow> j < m \<longrightarrow> \<not> P (slots ! j)))"
  using assms
proof (induction P slots m i rule: slot_scan.induct)
  case (1 P slots m i)
  note step = slot_scan.simps [of P slots m i]
  consider "m \<le> i" | "i < m" "P (slots ! i)" | "i < m" "\<not> P (slots ! i)" by linarith
  then show ?case
  proof cases
    case 1
    then show ?thesis using step by auto
  next
    case 2
    then show ?thesis using step "1.prems" by auto
  next
    case 3
    have eq: "slot_scan P slots m i = slot_scan P slots m (i + 1)" using step 3 "1.prems" by simp
    have "\<not> m \<le> i" "\<not> length slots \<le> i" using 3 "1.prems" by auto
    from "1.IH" [OF this 3(2) "1.prems"] show ?thesis
      unfolding eq using 3 by (metis Suc_eq_plus1 Suc_leI Suc_leD le_neq_implies_less)
  qed
qed

definition last_write :: "u64 \<Rightarrow> mmio_write list \<Rightarrow> mmio_write option" where
  "last_write a ws = (let vs = filter (\<lambda>w. waddr w = a) ws in if vs = [] then None else Some (last vs))"

lemma last_write_Nil [simp]: "last_write a [] = None"
  by (simp add: last_write_def)

lemma last_write_append:
  "last_write a (xs @ ys) = (case last_write a ys of None \<Rightarrow> last_write a xs | Some w \<Rightarrow> Some w)"
  by (simp add: last_write_def Let_def)

definition occupied :: "ioat_dca_priv \<Rightarrow> nat" where
  "occupied p = length (filter (\<lambda>sl. slot_pdev sl \<noteq> None) (req_slots p))"

lemma length_filter_update:
  "i < length xs \<Longrightarrow> length (filter P (xs[i := y])) + of_bool (P (xs ! i)) = length (filter P xs) + of_bool (P y)"
proof (induction xs arbitrary: i)
  case (Cons x xs)
  then show ?case using Cons.IH [of "i - 1"] by (cases i) auto
qed simp

lemma occupied_take_slot:
  assumes "i < length (req_slots p)" and "slot_pdev (req_slots p ! i) = None"
  shows "occupied (take_slot d ident i p) = occupied p + 1"
  using length_filter_update [OF assms(1), of "\<lambda>sl. slot_pdev sl \<noteq> None" "\<lparr>slot_pdev = Some d, rid = ident\<rparr>"] assms(2)
  by (simp add: occupied_def take_slot_def)

lemma occupied_drop_slot:
  assumes "i < length (req_slots p)" and "slot_pdev (req_slots p ! i) = Some d"
  shows "occupied p = occupied (drop_slot i p) + 1"
  using length_filter_update [OF assms(1), of "\<lambda>sl. slot_pdev sl \<noteq> None" "\<lparr>slot_pdev = None, rid = 0\<rparr>"] assms(2)
  by (simp add: occupied_def drop_slot_def)

lemma occupied_full:
  assumes "length (req_slots p) = m"
  shows "occupied p = m \<longleftrightarrow> (\<forall>i < m. slot_pdev (req_slots p ! i) \<noteq> None)" and "occupied p \<le> m"
proof -
  have "occupied p = length (req_slots p) \<longleftrightarrow> filter (\<lambda>sl. slot_pdev sl \<noteq> None) (req_slots p) = req_slots p"
    unfolding occupied_def by (metis length_filter_less order_less_irrefl filter_True)
  then show "occupied p = m \<longleftrightarrow> (\<forall>i < m. slot_pdev (req_slots p ! i) \<noteq> None)"
    using assms by (simp add: filter_id_conv all_set_conv_all_nth)
  show "occupied p \<le> m" using assms by (auto simp: occupied_def)
qed

text \<open>
  A register image: for each occupied slot the last write to its entry is the id of the requester,
  for each free slot it is the cleared entry, if the entry was ever written.
\<close>

definition mirrored :: "(ioat_dca_priv \<Rightarrow> nat \<Rightarrow> u64) \<Rightarrow> (u64 \<Rightarrow> u16 \<Rightarrow> mmio_write) \<Rightarrow> (u64 \<Rightarrow> mmio_write) \<Rightarrow> dca_state \<Rightarrow> bool" where
  "mirrored entry val clr st \<longleftrightarrow> (\<forall>i < max_requesters (priv st). let sl = req_slots (priv st) ! i; a = entry (priv st) i in
     case slot_pdev sl of Some d \<Rightarrow> last_write a (mmio_log st) = Some (val a (rid sl))
     | None \<Rightarrow> last_write a (mmio_log st) \<in> {None, Some (clr a)})"

definition dca_inv :: "(ioat_dca_priv \<Rightarrow> nat \<Rightarrow> u64) \<Rightarrow> (u64 \<Rightarrow> u16 \<Rightarrow> mmio_write) \<Rightarrow> (u64 \<Rightarrow> mmio_write) \<Rightarrow> dca_state \<Rightarrow> bool" where
  "dca_inv entry val clr st \<longleftrightarrow> length (req_slots (priv st)) = max_requesters (priv st) \<and> max_requesters (priv st) < 2 ^ 31 \<and>
     requester_count (priv st) = int (occupied (priv st)) \<and> mirrored entry val clr st"

text \<open>The contract of the routines on a consistent table: every call succeeds or refuses, none faults.\<close>

definition requester_contract :: "dca_env \<Rightarrow> (nat \<Rightarrow> dca_state \<Rightarrow> (int \<times> dca_state) outcome)
    \<Rightarrow> (nat \<Rightarrow> dca_state \<Rightarrow> (int \<times> dca_state) outcome) \<Rightarrow> dca_state \<Rightarrow> bool" where
  "requester_contract env add rem st \<longleftrightarrow> (let slots = req_slots (priv st) in
     (\<forall>d. \<exists>r st'. add d st = Inr (r, st') \<and>
        (if on_pci_bus env d \<and> occupied (priv st) < length slots
         then 0 \<le> r \<and> nat r < length slots \<and> slot_pdev (slots ! nat r) = None \<and>
           req_slots (priv st') = slots[nat r := \<lparr>slot_pdev = Some d, rid = dcaid_from_pcidev env d\<rparr>]
         else r = - 19 \<and> st' = st)) \<and>
     (\<forall>d. \<exists>r st'. rem d st = Inr (r, st') \<and>
        (if on_pci_bus env d \<and> Some d \<in> slot_pdev ` set slots
         then 0 \<le> r \<and> nat r < length slots \<and> slot_pdev (slots ! nat r) = Some d \<and>
           req_slots (priv st') = slots[nat r := \<lparr>slot_pdev = None, rid = 0\<rparr>]
         else r = - 19 \<and> st' = st)) \<and>
     (\<forall>d. ioat_dca_dev_managed d st = Inr (Some d \<in> slot_pdev ` set slots)))"

inductive dca_reach :: "(nat \<Rightarrow> dca_state \<Rightarrow> (int \<times> dca_state) outcome) \<Rightarrow> (nat \<Rightarrow> dca_state \<Rightarrow> (int \<times> dca_state) outcome)
    \<Rightarrow> ioat_dca_priv \<Rightarrow> dca_state \<Rightarrow> bool" for add rem p where
  started: "dca_reach add rem p \<lparr>priv = p, mmio_log = []\<rparr>"
| added: "dca_reach add rem p st \<Longrightarrow> add d st = Inr (r, st') \<Longrightarrow> dca_reach add rem p st'"
| removed: "dca_reach add rem p st \<Longrightarrow> rem d st = Inr (r, st') \<Longrightarrow> dca_reach add rem p st'"

definition fresh_provider :: "ioat_dca_priv \<Rightarrow> bool" where
  "fresh_provider p \<longleftrightarrow> length (req_slots p) = max_requesters p \<and> max_requesters p < 2 ^ 31 \<and> requester_count p = 0 \<and>
     (\<forall>sl\<in>set (req_slots p). slot_pdev sl = None)"

lemma slot_updates [simp]:
  "max_requesters (take_slot d ident i p) = max_requesters p" "max_requesters (drop_slot i p) = max_requesters p"
  "req_slots (take_slot d ident i p) = (req_slots p)[i := \<lparr>slot_pdev = Some d, rid = ident\<rparr>]"
  "req_slots (drop_slot i p) = (req_slots p)[i := \<lparr>slot_pdev = None, rid = 0\<rparr>]"
  "requester_count (take_slot d ident i p) = requester_count p + 1" "requester_count (drop_slot i p) = requester_count p - 1"
  by (simp_all add: take_slot_def drop_slot_def)

text \<open>
  What the routines need of the register writes: one entry for each slot, at an address of its own,
  which only the writes of this slot touch.
\<close>

locale slot_registers =
  fixes env :: dca_env
    and add_w :: "ioat_dca_priv \<Rightarrow> nat \<Rightarrow> u16 \<Rightarrow> mmio_write list"
    and rem_w :: "ioat_dca_priv \<Rightarrow> nat \<Rightarrow> mmio_write list"
    and entry :: "ioat_dca_priv \<Rightarrow> nat \<Rightarrow> u64"
    and val :: "u64 \<Rightarrow> u16 \<Rightarrow> mmio_write"
    and clr :: "u64 \<Rightarrow> mmio_write"
  assumes entry_fixed: "entry (take_slot d ident i p) = entry p" "entry (drop_slot i p) = entry p"
    and add_last: "i < 2 ^ 31 \<Longrightarrow> j < 2 ^ 31 \<Longrightarrow>
      last_write (entry p j) (add_w p i ident) = (if j = i then Some (val (entry p i) ident) else None)"
    and rem_last: "i < 2 ^ 31 \<Longrightarrow> j < 2 ^ 31 \<Longrightarrow>
      last_write (entry p j) (rem_w p i) = (if j = i then Some (clr (entry p i)) else None)"
begin

lemma add_result:
  assumes "dca_inv entry val clr st"
  shows "\<exists>r st'. add_requester add_w env d st = Inr (r, st') \<and> dca_inv entry val clr st' \<and>
    (if on_pci_bus env d \<and> occupied (priv st) < length (req_slots (priv st))
     then 0 \<le> r \<and> nat r < length (req_slots (priv st)) \<and> slot_pdev (req_slots (priv st) ! nat r) = None \<and>
       req_slots (priv st') = (req_slots (priv st))[nat r := \<lparr>slot_pdev = Some d, rid = dcaid_from_pcidev env d\<rparr>]
     else r = - 19 \<and> st' = st)"
proof (cases "on_pci_bus env d \<and> occupied (priv st) < length (req_slots (priv st))")
  case False
  have "occupied (priv st) \<le> length (req_slots (priv st))" by (rule occupied_full(2)) simp
  then have "add_requester add_w env d st = Inr (- 19, st)"
    using False assms by (auto simp: add_requester_def dca_inv_def Let_def)
  then show ?thesis using False assms by auto
next
  case True
  let ?p = "priv st" and ?id = "dcaid_from_pcidev env d"
  have len: "length (req_slots ?p) = max_requesters ?p" and small: "max_requesters ?p < 2 ^ 31"
    and cnt: "requester_count ?p = int (occupied ?p)" and mir: "mirrored entry val clr st"
    using assms by (auto simp: dca_inv_def)
  obtain k where k: "slot_scan (\<lambda>sl. slot_pdev sl = None) (req_slots ?p) (max_requesters ?p) 0 = Inr (Some k)"
    "k < max_requesters ?p" "slot_pdev (req_slots ?p ! k) = None"
    using slot_scan_cases [OF len, of "\<lambda>sl. slot_pdev sl = None" 0] occupied_full(1) [OF len] True len by auto
  let ?st = "st\<lparr>priv := take_slot d ?id k ?p, mmio_log := mmio_log st @ add_w ?p k ?id\<rparr>"
  have run: "add_requester add_w env d st = Inr (int k, ?st)"
    using True k len cnt by (simp add: add_requester_def Let_def)
  have "mirrored entry val clr ?st"
    unfolding mirrored_def
  proof (intro allI impI)
    fix i assume "i < max_requesters (priv ?st)"
    then have i: "i < max_requesters ?p" "i < 2 ^ 31" "k < 2 ^ 31" using small k(2) by auto
    show "let sl = req_slots (priv ?st) ! i; a = entry (priv ?st) i in
        case slot_pdev sl of Some d \<Rightarrow> last_write a (mmio_log ?st) = Some (val a (rid sl))
        | None \<Rightarrow> last_write a (mmio_log ?st) \<in> {None, Some (clr a)}"
      using mir [unfolded mirrored_def, rule_format, OF i(1)] add_last [OF i(3,2), of ?p ?id] i len
      by (cases "i = k") (auto simp: Let_def entry_fixed last_write_append split: option.splits)
  qed
  then have "dca_inv entry val clr ?st"
    using len small cnt occupied_take_slot [of k ?p d ?id] k by (simp add: dca_inv_def)
  then show ?thesis using run True k len by (intro exI [of _ "int k"] exI [of _ ?st]) simp
qed

lemma rem_result:
  assumes "dca_inv entry val clr st"
  shows "\<exists>r st'. remove_requester rem_w env d st = Inr (r, st') \<and> dca_inv entry val clr st' \<and>
    (if on_pci_bus env d \<and> Some d \<in> slot_pdev ` set (req_slots (priv st))
     then 0 \<le> r \<and> nat r < length (req_slots (priv st)) \<and> slot_pdev (req_slots (priv st) ! nat r) = Some d \<and>
       req_slots (priv st') = (req_slots (priv st))[nat r := \<lparr>slot_pdev = None, rid = 0\<rparr>]
     else r = - 19 \<and> st' = st)"
proof -
  let ?p = "priv st"
  have len: "length (req_slots ?p) = max_requesters ?p" and small: "max_requesters ?p < 2 ^ 31"
    and cnt: "requester_count ?p = int (occupied ?p)" and mir: "mirrored entry val clr st"
    using assms by (auto simp: dca_inv_def)
  have mem: "Some d \<in> slot_pdev ` set (req_slots ?p) \<longleftrightarrow> (\<exists>i < max_requesters ?p. slot_pdev (req_slots ?p ! i) = Some d)"
    using len by (force simp: in_set_conv_nth image_iff)
  show ?thesis
  proof (cases "on_pci_bus env d \<and> Some d \<in> slot_pdev ` set (req_slots ?p)")
    case False
    then have "remove_requester rem_w env d st = Inr (- 19, st)"
      using slot_scan_cases [OF len, of "\<lambda>sl. slot_pdev sl = Some d" 0] mem by (auto simp: remove_requester_def Let_def)
    then show ?thesis using False assms by auto
  next
    case True
    obtain k where k: "slot_scan (\<lambda>sl. slot_pdev sl = Some d) (req_slots ?p) (max_requesters ?p) 0 = Inr (Some k)"
      "k < max_requesters ?p" "slot_pdev (req_slots ?p ! k) = Some d"
      using slot_scan_cases [OF len, of "\<lambda>sl. slot_pdev sl = Some d" 0] True mem by auto
    let ?st = "st\<lparr>priv := drop_slot k ?p, mmio_log := mmio_log st @ rem_w ?p k\<rparr>"
    have run: "remove_requester rem_w env d st = Inr (int k, ?st)"
      using True k by (simp add: remove_requester_def Let_def)
    have "mirrored entry val clr ?st"
      unfolding mirrored_def
    proof (intro allI impI)
      fix i assume "i < max_requesters (priv ?st)"
      then have i: "i < max_requesters ?p" "i < 2 ^ 31" "k < 2 ^ 31" using small k(2) by auto
      show "let sl = req_slots (priv ?st) ! i; a = entry (priv ?st) i in
          case slot_pdev sl of Some d \<Rightarrow> last_write a (mmio_log ?st) = Some (val a (rid sl))
          | None \<Rightarrow> last_write a (mmio_log ?st) \<in> {None, Some (clr a)}"
        using mir [unfolded mirrored_def, rule_format, OF i(1)] rem_last [OF i(3,2), of ?p] i len
        by (cases "i = k") (auto simp: Let_def entry_fixed last_write_append split: option.splits)
    qed
    then have "dca_inv entry val clr ?st"
      using len small cnt occupied_drop_slot [of k ?p d] k by (simp add: dca_inv_def)
    then show ?thesis using run True k len by (intro exI [of _ "int k"] exI [of _ ?st]) simp
  qed
qed

lemma managed_result:
  assumes "dca_inv entry val clr st"
  shows "ioat_dca_dev_managed d st = Inr (Some d \<in> slot_pdev ` set (req_slots (priv st)))"
proof -
  let ?p = "priv st"
  have len: "length (req_slots ?p) = max_requesters ?p" using assms by (auto simp: dca_inv_def)
  then have "Some d \<in> slot_pdev ` set (req_slots ?p) \<longleftrightarrow> (\<exists>i < max_requesters ?p. slot_pdev (req_slots ?p ! i) = Some d)"
    by (force simp: in_set_conv_nth image_iff)
  then show ?thesis
    using slot_scan_cases [OF len, of "\<lambda>sl. slot_pdev sl = Some d" 0] by (auto simp: ioat_dca_dev_managed_def Let_def)
qed

lemma reach_inv:
  assumes "dca_reach (add_requester add_w env) (remove_requester rem_w env) p st" and "fresh_provider p"
  shows "dca_inv entry val clr st"
  using assms(1)
proof induction
  case started
  show ?case
    using assms(2) by (auto simp: dca_inv_def fresh_provider_def occupied_def mirrored_def filter_empty_conv Let_def)
next
  case (added st d r st')
  then show ?case using add_result [OF added.IH, of d] by auto
next
  case (removed st d r st')
  then show ?case using rem_result [OF removed.IH, of d] by auto
qed

lemma reach_contract:
  assumes "dca_reach (add_requester add_w env) (remove_requester rem_w env) p st" and "fresh_provider p"
  shows "dca_inv entry val clr st \<and> requester_contract env (add_requester add_w env) (remove_requester rem_w env) st"
proof -
  note inv = reach_inv [OF assms]
  show ?thesis
    unfolding requester_contract_def Let_def
    using inv add_result [OF inv] rem_result [OF inv] managed_result [OF inv] by meson
qed

end

lemma of_nat_u64_eq:
  assumes "m < 2 ^ 34" and "n < 2 ^ 34"
  shows "(of_nat m :: u64) = of_nat n \<longleftrightarrow> m = n"
proof
  assume "(of_nat m :: u64) = of_nat n"
  then have "unat (of_nat m :: u64) = unat (of_nat n :: u64)" by (rule arg_cong)
  then show "m = n" using assms by (simp add: unat_of_nat take_bit_nat_eq_self)
qed simp

lemma entry_addresses:
  assumes "i < 2 ^ 31" and "j < 2 ^ 31"
  shows "(a :: u64) + of_nat (i * 4) = a + of_nat (j * 4) \<longleftrightarrow> i = j" and "a + of_nat (i * 4) + 2 \<noteq> a + of_nat (j * 4)"
proof -
  show "a + of_nat (i * 4) = a + of_nat (j * 4) \<longleftrightarrow> i = j"
    using of_nat_u64_eq [of "i * 4" "j * 4"] assms by (simp only: add_left_cancel) simp
  have "(of_nat (i * 4 + 2) :: u64) \<noteq> of_nat (j * 4)"
  proof (subst of_nat_u64_eq)
    show "i * 4 + 2 < 2 ^ 34" "j * 4 < 2 ^ 34" using assms by simp_all
    show "i * 4 + 2 \<noteq> j * 4" by presburger
  qed
  then show "a + of_nat (i * 4) + 2 \<noteq> a + of_nat (j * 4)" by (simp add: add.assoc add.commute)
qed

text \<open>The entries of the three versions.\<close>

definition dca1_entry :: "ioat_dca_priv \<Rightarrow> nat \<Rightarrow> u64" where
  "dca1_entry p i = dca_base p + of_nat (i * 4)"

definition dca2_entry :: "dca_env \<Rightarrow> ioat_dca_priv \<Rightarrow> nat \<Rightarrow> u64" where
  "dca2_entry env p i = iobase p + ucast (readw env (dca_base p + IOAT_DCA_GREQID_OFFSET env)) + of_nat (i * 4)"

definition dca3_entry :: "dca_env \<Rightarrow> ioat_dca_priv \<Rightarrow> nat \<Rightarrow> u64" where
  "dca3_entry env p i = iobase p + ucast (readw env (dca_base p + IOAT3_DCA_GREQID_OFFSET env)) + of_nat (i * 4)"

definition table_id :: "dca_env \<Rightarrow> u64 \<Rightarrow> u16 \<Rightarrow> mmio_write" where
  "table_id env a ident = W32 a (ucast ident OR IOAT_DCA_GREQID_VALID env)"

lemma slot_bases [simp]:
  "dca_base (take_slot d ident i p) = dca_base p" "dca_base (drop_slot i p) = dca_base p"
  "iobase (take_slot d ident i p) = iobase p" "iobase (drop_slot i p) = iobase p"
  by (simp_all add: take_slot_def drop_slot_def)

interpretation dca1: slot_registers env
  "\<lambda>p i ident. [W16 (dca_base p + of_nat (i * 4)) ident, W8 (dca_base p + of_nat (i * 4) + 2) 0]"
  "\<lambda>p i. [W16 (dca_base p + of_nat (i * 4)) 0]" dca1_entry W16 "\<lambda>a. W16 a 0" for env
proof
  fix i j :: nat and ident and p :: ioat_dca_priv assume ij: "i < 2 ^ 31" "j < 2 ^ 31"
  note ad = entry_addresses(1) [OF ij, of "dca_base p"] entry_addresses(2) [OF ij, of "dca_base p"]
  show "last_write (dca1_entry p j) [W16 (dca_base p + of_nat (i * 4)) ident, W8 (dca_base p + of_nat (i * 4) + 2) 0] =
      (if j = i then Some (W16 (dca1_entry p i) ident) else None)"
    using ad by (auto simp: last_write_def dca1_entry_def simp del: of_nat_mult add_left_cancel)
  show "last_write (dca1_entry p j) [W16 (dca_base p + of_nat (i * 4)) 0] =
      (if j = i then Some (W16 (dca1_entry p i) 0) else None)"
    using ad by (auto simp: last_write_def dca1_entry_def simp del: of_nat_mult add_left_cancel)
qed (auto simp: dca1_entry_def)

lemma table_writes:
  assumes "i < 2 ^ 31" and "j < 2 ^ 31"
  shows "last_write (a + of_nat (j * 4)) [W32 (a + of_nat (i * 4)) v] = (if j = i then Some (W32 (a + of_nat (i * 4)) v) else None)"
  using entry_addresses(1) [OF assms, of a] by (auto simp: last_write_def simp del: of_nat_mult add_left_cancel)

interpretation dca2: slot_registers env
  "\<lambda>p i ident. let global_req_table = readw env (dca_base p + IOAT_DCA_GREQID_OFFSET env) in
     [W32 (iobase p + ucast global_req_table + of_nat (i * 4)) (ucast ident OR IOAT_DCA_GREQID_VALID env)]"
  "\<lambda>p i. let global_req_table = readw env (dca_base p + IOAT_DCA_GREQID_OFFSET env) in
     [W32 (iobase p + ucast global_req_table + of_nat (i * 4)) 0]"
  "dca2_entry env" "table_id env" "\<lambda>a. W32 a 0" for env
  by unfold_locales (simp_all only: Let_def dca2_entry_def [abs_def] table_id_def table_writes slot_bases)

interpretation dca3: slot_registers env
  "\<lambda>p i ident. let global_req_table = readw env (dca_base p + IOAT3_DCA_GREQID_OFFSET env) in
     [W32 (iobase p + ucast global_req_table + of_nat (i * 4)) (ucast ident OR IOAT_DCA_GREQID_VALID env)]"
  "\<lambda>p i. let global_req_table = readw env (dca_base p + IOAT3_DCA_GREQID_OFFSET env) in
     [W32 (iobase p + ucast global_req_table + of_nat (i * 4)) 0]"
  "dca3_entry env" "table_id env" "\<lambda>a. W32 a 0" for env
  by unfold_locales (simp_all only: Let_def dca3_entry_def [abs_def] table_id_def table_writes slot_bases)

subsection \<open>Tags\<close>

lemma tag_loop_bits:
  assumes "length tm = 8" and "\<forall>k < 8. f (tm ! k) = Inr (v k)" and "i \<le> 8" and "\<forall>k \<ge> i. \<not> bit tag k"
  shows "\<exists>t. tag_loop f tm i tag = Inr t \<and> (\<forall>k. bit t k \<longleftrightarrow> (if k < i then bit tag k else k < 8 \<and> v k))"
  using assms(3,4)
proof (induction "8 - i" arbitrary: i tag)
  case 0
  then have "tag_loop f tm i tag = Inr tag" by (subst tag_loop.simps) (simp add: IOAT_TAG_MAP_LEN_def)
  then show ?case using 0 by auto
next
  case (Suc n)
  let ?t = "tag OR push_bit i (of_bool (v i))"
  have i: "i < 8" using Suc.hyps(2) by simp
  have step: "tag_loop f tm i tag = tag_loop f tm (i + 1) ?t"
    using i assms(1,2) by (subst tag_loop.simps) (simp add: IOAT_TAG_MAP_LEN_def)
  have b: "bit ?t k \<longleftrightarrow> bit tag k \<or> (k = i \<and> v i)" for k
    using i by (auto simp: bit_simps)
  have "\<forall>k \<ge> i + 1. \<not> bit ?t k" using Suc.prems(2) unfolding b by auto
  have "n = 8 - (i + 1)" "i + 1 \<le> 8" using Suc.hyps(2) i by simp_all
  from Suc.hyps(1) [OF this \<open>\<forall>k \<ge> i + 1. \<not> bit ?t k\<close>] obtain t where t: "tag_loop f tm (i + 1) ?t = Inr t"
    "\<forall>k. bit t k \<longleftrightarrow> (if k < i + 1 then bit ?t k else k < 8 \<and> v k)" by blast
  have "bit t k \<longleftrightarrow> (if k < i then bit tag k else k < 8 \<and> v k)" for k
    using t(2) b Suc.prems(2) i by (cases "k = i") auto
  then show ?case using step t(1) by auto
qed

lemma tag_loop_spec:
  assumes "length tm = 8" and "\<forall>k < 8. f (tm ! k) = Inr (v k)"
  shows "\<exists>t. tag_loop f tm 0 0 = Inr t \<and> (\<forall>k. bit t k \<longleftrightarrow> k < 8 \<and> v k)"
  using tag_loop_bits [OF assms, of 0 0] by simp

lemma apic_bit_small: "unat b < 32 \<Longrightarrow> apic_bit a b = Inr (bit a (unat b))"
  by (simp add: apic_bit_def and_exp_eq_0_iff_not_bit push_bit_eq_mult)

text \<open>The bit of the tag that an entry of the map stands for.\<close>

definition apic_tag :: "u32 \<Rightarrow> u8 \<Rightarrow> bool" where
  "apic_tag a e = (if bit e 7 then bit a (unat e mod 128) else e \<noteq> 0)"

definition apic_tag3 :: "u32 \<Rightarrow> u8 \<Rightarrow> bool" where
  "apic_tag3 a e = (if bit e 6 then bit a (unat e mod 32) else if bit e 7 then \<not> bit a (unat e mod 32) else bit e 0)"

lemma bit_bound8: "bit (e :: u8) k \<Longrightarrow> k < 8"
  using bit_imp_le_length [of e k] by simp

lemma unat_mod_bits:
  "unat (e :: u8) mod 32 = unat (take_bit 5 e)" "unat e mod 64 = unat (take_bit 6 e)" "unat e mod 128 = unat (take_bit 7 e)"
  unfolding unsigned_take_bit_eq by (simp_all add: take_bit_eq_mod)

lemma u8_masks:
  fixes e :: u8
  shows "e AND 0x80 \<noteq> 0 \<longleftrightarrow> bit e 7" and "e AND 0x40 \<noteq> 0 \<longleftrightarrow> bit e 6" and "e AND 1 \<noteq> 0 \<longleftrightarrow> bit e 0"
    and "unat (e AND NOT 0x80) = unat e mod 128" and "unat (e AND NOT (0x40 OR 0x80)) = unat e mod 64"
proof -
  have b: "bit (0x80 :: u8) n \<longleftrightarrow> n = 7" "bit (0x40 :: u8) n \<longleftrightarrow> n = 6" for n
    using bit_exp_iff [where 'a = u8, of 7 n] bit_exp_iff [where 'a = u8, of 6 n] by auto
  show "e AND 0x80 \<noteq> 0 \<longleftrightarrow> bit e 7" "e AND 0x40 \<noteq> 0 \<longleftrightarrow> bit e 6"
    using and_exp_eq_0_iff_not_bit [of e 7] and_exp_eq_0_iff_not_bit [of e 6] by simp_all
  show "e AND 1 \<noteq> 0 \<longleftrightarrow> bit e 0" by (simp add: and_one_eq bit_0 odd_iff_mod_2_eq_one)
  have "e AND NOT 0x80 = take_bit 7 e"
    by (rule bit_eqI, unfold bit_and_iff bit_or_iff bit_not_iff bit_take_bit_iff b) (use bit_bound8 [of e] in force)
  then show "unat (e AND NOT 0x80) = unat e mod 128" by (simp only: unat_mod_bits)
  have "e AND NOT (0x40 OR 0x80) = take_bit 6 e"
    by (rule bit_eqI, unfold bit_and_iff bit_or_iff bit_not_iff bit_take_bit_iff b) (use bit_bound8 [of e] in force)
  then show "unat (e AND NOT (0x40 OR 0x80)) = unat e mod 64" by (simp only: unat_mod_bits)
qed

lemma dca_entry_defined:
  assumes "bit e 7 \<Longrightarrow> unat e mod 128 < 32"
  shows "dca_entry_value a e = Inr (apic_tag a e)"
proof -
  have "apic_bit a (e AND NOT 0x80) = Inr (bit a (unat e mod 128))" if "bit e 7"
    using apic_bit_small [of "e AND NOT 0x80" a] assms [OF that] by (simp only: u8_masks(4))
  then show ?thesis
    unfolding dca_entry_value_def DCA_TAG_MAP_VALID_def u8_masks(1) apic_tag_def by presburger
qed

text \<open>The mask of version 3 clears bit 5, which keeps the shift below 32.\<close>

lemma masked_entry_small:
  assumes "\<not> bit (e :: u8) 5"
  shows "unat e mod 64 = unat e mod 32" and "\<not> bit e 6 \<Longrightarrow> unat e mod 128 = unat e mod 32"
proof -
  have "take_bit 6 e = take_bit 5 e"
    using assms by (intro bit_eqI) (auto simp: bit_simps less_Suc_eq eval_nat_numeral)
  then show "unat e mod 64 = unat e mod 32" by (simp only: unat_mod_bits)
  show "unat e mod 128 = unat e mod 32" if "\<not> bit e 6"
  proof -
    have "take_bit 7 e = take_bit 5 e"
      using assms that by (intro bit_eqI) (auto simp: bit_simps less_Suc_eq eval_nat_numeral)
    then show ?thesis by (simp only: unat_mod_bits)
  qed
qed

lemma dca3_entry_defined:
  assumes "\<not> bit e 5"
  shows "dca3_entry_value a e = Inr (apic_tag3 a e)"
proof -
  have sel: "apic_bit a (e AND NOT (0x40 OR 0x80)) = Inr (bit a (unat e mod 32))"
    using apic_bit_small [of "e AND NOT (0x40 OR 0x80)" a] masked_entry_small(1) [OF assms] by (simp only: u8_masks(5))
  have "apic_bit a (e AND NOT 0x80) = Inr (bit a (unat e mod 32))" if "\<not> bit e 6"
    using apic_bit_small [of "e AND NOT 0x80" a] masked_entry_small(2) [OF assms that] by (simp only: u8_masks(4))
  then show ?thesis
    unfolding dca3_entry_value_def DCA3_TAG_MAP_BIT_TO_SEL_def DCA3_TAG_MAP_BIT_TO_INV_def DCA3_TAG_MAP_LITERAL_VAL_def
      u8_masks(1,2,3) apic_tag3_def sel by (cases "bit e 6"; cases "bit e 7") (simp_all del: numeral_One)
qed

lemma tag3_entry_bit5: "\<not> bit (tag3_entry full i) 5"
  by (simp add: tag3_entry_def DCA_TAG_MAP_MASK_def bit_simps)

subsection \<open>Start\<close>

text \<open>The DCA core hands out zeroed memory.\<close>

definition zeroed_providers :: "dca_env \<Rightarrow> bool" where
  "zeroed_providers env \<longleftrightarrow> (\<forall>n p. alloc_dca_provider env n = Some p \<longrightarrow>
     requester_count p = 0 \<and> req_slots p = replicate n \<lparr>slot_pdev = None, rid = 0\<rparr> \<and> tag_map p = replicate 8 0)"

text \<open>Each global table has an entry marked as the last one.\<close>

definition tables_end :: "dca_env \<Rightarrow> u64 \<Rightarrow> bool" where
  "tables_end env io \<longleftrightarrow> (\<forall>t. \<exists>k < 2 ^ 16. readl env (io + ucast (t :: u16) + of_nat (k * 4)) AND IOAT_DCA_GREQID_LASTID env \<noteq> 0)"

lemma count_slots_from:
  assumes "readl env (io + ucast t + of_nat ((s + k) * 4)) AND IOAT_DCA_GREQID_LASTID env \<noteq> 0"
  shows "\<exists>n. count_slots env io t s = Some n \<and> s < n \<and> n \<le> s + k + 1"
  using assms
proof (induction k arbitrary: s)
  case 0
  then show ?case by (subst count_slots.simps) (simp add: Let_def)
next
  case (Suc k)
  show ?case
  proof (cases "readl env (io + ucast t + of_nat (s * 4)) AND IOAT_DCA_GREQID_LASTID env = 0")
    case True
    then have "count_slots env io t s = count_slots env io t (s + 1)" by (subst count_slots.simps) (simp add: Let_def)
    then show ?thesis using Suc.IH [of "s + 1"] Suc.prems by auto
  next
    case False
    then show ?thesis by (subst count_slots.simps) (simp add: Let_def)
  qed
qed

lemma counted_slots:
  assumes "tables_end env io"
  shows "\<exists>n. ioat2_dca_count_dca_slots env io off = Some n \<and> n \<le> 2 ^ 16"
    and "\<exists>n. ioat3_dca_count_dca_slots env io off = Some n \<and> n \<le> 2 ^ 16"
proof -
  have "\<exists>n. count_slots env io t 0 = Some n \<and> n \<le> 2 ^ 16" for t
  proof -
    obtain k where k: "k < 2 ^ 16" "readl env (io + ucast t + of_nat (k * 4)) AND IOAT_DCA_GREQID_LASTID env \<noteq> 0"
      using assms unfolding tables_end_def by blast
    from k(2) have "readl env (io + ucast t + of_nat ((0 + k) * 4)) AND IOAT_DCA_GREQID_LASTID env \<noteq> 0" by simp
    from count_slots_from [OF this] k(1) show ?thesis by fastforce
  qed
  then show "\<exists>n. ioat2_dca_count_dca_slots env io off = Some n \<and> n \<le> 2 ^ 16"
    and "\<exists>n. ioat3_dca_count_dca_slots env io off = Some n \<and> n \<le> 2 ^ 16"
    by (auto simp: ioat2_dca_count_dca_slots_def ioat3_dca_count_dca_slots_def Let_def)
qed

text \<open>
  What a start routine promises: no provider and none left behind, or a registered provider with an
  empty table whose tags are defined for every CPU and have the bits \<open>meaning\<close> gives.
\<close>

definition init_ok :: "dca_env \<Rightarrow> (dca_env \<Rightarrow> nat \<Rightarrow> ioat_dca_priv \<Rightarrow> u8 outcome) \<Rightarrow> (u32 \<Rightarrow> u8 list \<Rightarrow> nat \<Rightarrow> bool)
    \<Rightarrow> dca_core \<Rightarrow> ioat_dca_priv option \<times> dca_core \<Rightarrow> bool" where
  "init_ok env get_tag meaning co res = (case res of
     (None, co') \<Rightarrow> providers co' = providers co \<and> registered co' = registered co
   | (Some p, co') \<Rightarrow> providers co' = providers co + 1 \<and> registered co' = registered co + 1 \<and> fresh_provider p \<and>
       (\<forall>cpu. \<exists>t. get_tag env cpu p = Inr t \<and> (\<forall>k. bit t k \<longleftrightarrow> meaning (cpu_physical_id env cpu) (tag_map p) k)))"

lemma init_ok_None [simp]:
  "init_ok env g m co (None, co') \<longleftrightarrow> providers co' = providers co \<and> registered co' = registered co"
  by (simp add: init_ok_def)

lemma finish_init_ok:
  assumes "fresh_provider p" and "providers co1 = providers co + 1" and "registered co1 = registered co"
    and "\<And>cpu. \<exists>t. get_tag env cpu p = Inr t \<and> (\<forall>k. bit t k \<longleftrightarrow> meaning (cpu_physical_id env cpu) (tag_map p) k)"
  shows "init_ok env get_tag meaning co (finish_init env pdev p co1)"
  using assms by (simp add: init_ok_def finish_init_def)

lemma fresh_zeroed:
  assumes "zeroed_providers env" and "alloc_dca_provider env n = Some p0" and "n < 2 ^ 31"
    and "max_requesters p = n" and "req_slots p = req_slots p0" and "requester_count p = requester_count p0"
  shows "fresh_provider p"
  using assms by (auto simp: zeroed_providers_def fresh_provider_def)

lemma legacy_entries:
  assumes "legacy_tag_map env pdev = Some tm" and "k < 8" and "bit (tm ! k) 7"
  shows "unat (tm ! k) mod 128 < 32"
proof -
  have "tm \<in> {ioat_tag_map_BNB, ioat_tag_map_CNB, ioat_tag_map_UNISYS}"
    using assms(1) by (auto simp: legacy_tag_map_def ioat_tag_map_BNB_def ioat_tag_map_SCNB_def split: if_splits)
  moreover have "\<forall>e \<in> set ioat_tag_map_BNB \<union> set ioat_tag_map_CNB \<union> set ioat_tag_map_UNISYS. unat e mod 128 < 32"
    by (simp add: ioat_tag_map_BNB_def ioat_tag_map_CNB_def ioat_tag_map_UNISYS_def APICID_BIT_def DCA_TAG_MAP_VALID_def)
  moreover have "tm ! k \<in> set tm" if "tm \<in> {ioat_tag_map_BNB, ioat_tag_map_CNB, ioat_tag_map_UNISYS}"
    using that assms(2) by (intro nth_mem) (auto simp: ioat_tag_map_BNB_def ioat_tag_map_CNB_def ioat_tag_map_UNISYS_def)
  ultimately show ?thesis by blast
qed

lemma ioat_dca_init_result:
  assumes "zeroed_providers env"
  shows "init_ok env ioat_dca_get_tag (\<lambda>a tm k. k < 8 \<and> apic_tag a (tm ! k)) co (ioat_dca_init env pdev io co)"
proof -
  have none: "init_ok env ioat_dca_get_tag (\<lambda>a tm k. k < 8 \<and> apic_tag a (tm ! k)) co (None, co)" by (simp add: init_ok_def)
  have "init_ok env ioat_dca_get_tag (\<lambda>a tm k. k < 8 \<and> apic_tag a (tm ! k)) co
      (finish_init env pdev (p\<lparr>max_requesters := n, dca_base := io + 0x54, tag_map := map (\<lambda>i. tm ! i) [0 ..< IOAT_TAG_MAP_LEN]\<rparr>)
        (co\<lparr>providers := providers co + 1\<rparr>))"
    if "legacy_tag_map env pdev = Some tm" "alloc_dca_provider env n = Some p" "n < 2 ^ 31" for tm n p
  proof (rule finish_init_ok)
    let ?p = "p\<lparr>max_requesters := n, dca_base := io + 0x54, tag_map := map (\<lambda>i. tm ! i) [0 ..< IOAT_TAG_MAP_LEN]\<rparr>"
    show "fresh_provider ?p" by (rule fresh_zeroed [OF assms that(2,3)]) simp_all
    fix cpu
    have "\<forall>k < 8. dca_entry_value (cpu_physical_id env cpu) (tag_map ?p ! k) = Inr (apic_tag (cpu_physical_id env cpu) (tag_map ?p ! k))"
      using legacy_entries [OF that(1)] by (auto simp: IOAT_TAG_MAP_LEN_def intro!: dca_entry_defined)
    from tag_loop_spec [OF _ this]
    show "\<exists>t. ioat_dca_get_tag env cpu ?p = Inr t \<and>
        (\<forall>k. bit t k \<longleftrightarrow> k < 8 \<and> apic_tag (cpu_physical_id env cpu) (tag_map ?p ! k))"
      unfolding ioat_dca_get_tag_def by (simp add: IOAT_TAG_MAP_LEN_def)
  qed simp_all
  then show ?thesis
    using none by (auto simp: ioat_dca_init_def Let_def IOAT_DCA_MAX_REQ_def IOAT3_DCA_MAX_REQ_def split: option.split)
qed

lemma tag2_map:
  assumes "tm = map (tag2_entry v) [0 ..< 5] @ drop 5 (replicate 8 0)" and "dca2_tag_map_valid tm"
  shows "tm = [0x80, 0, 0x81, 0x82, 0x82, 0, 0, 0]"
  using assms(2) unfolding assms(1) by (simp add: dca2_tag_map_valid_def upt_rec numeral_eq_Suc)

lemma ioat2_get_tag_bits:
  assumes "tag_map p = [0x80, 0, 0x81, 0x82, 0x82, 0, 0, 0]"
  shows "\<exists>t. ioat2_dca_get_tag env cpu p = Inr t \<and>
    (\<forall>k. bit t k \<longleftrightarrow> k < 5 \<and> \<not> apic_tag (cpu_physical_id env cpu) (tag_map p ! k))"
proof -
  let ?a = "cpu_physical_id env cpu"
  have small: "\<forall>e \<in> set (tag_map p). unat e mod 128 < 32" and len: "length (tag_map p) = 8" by (simp_all add: assms)
  have "\<forall>k < 8. dca_entry_value ?a (tag_map p ! k) = Inr (apic_tag ?a (tag_map p ! k))"
  proof (intro allI impI dca_entry_defined)
    fix k :: nat assume "k < 8"
    then have "tag_map p ! k \<in> set (tag_map p)" by (intro nth_mem) (simp only: len)
    then show "unat (tag_map p ! k) mod 128 < 32" using small by (rule bspec [rotated])
  qed
  from tag_loop_spec [OF len this] obtain t where t: "ioat_dca_get_tag env cpu p = Inr t"
    "\<And>k. bit t k \<longleftrightarrow> k < 8 \<and> apic_tag ?a (tag_map p ! k)"
    unfolding ioat_dca_get_tag_def by blast
  have m: "(0x1F :: u8) = mask 5" by (simp add: mask_eq_exp_minus_1)
  have "bit (NOT t AND 0x1F) k \<longleftrightarrow> k < 5 \<and> \<not> apic_tag ?a (tag_map p ! k)" for k
    using t(2) [of k] unfolding m bit_and_iff bit_not_iff bit_mask_iff by fastforce
  moreover have "ioat2_dca_get_tag env cpu p = Inr (NOT t AND 0x1F)"
    by (simp only: ioat2_dca_get_tag_def t(1) seq_ok_Inr)
  ultimately show ?thesis by (intro exI conjI allI)
qed

lemma ioat2_dca_init_result:
  assumes "zeroed_providers env" and "tables_end env io"
  shows "\<exists>res. ioat2_dca_init env pdev io co = Some res \<and>
    init_ok env ioat2_dca_get_tag (\<lambda>a tm k. k < 5 \<and> \<not> apic_tag a (tm ! k)) co res"
proof -
  let ?off = "readw env (io + IOAT_DCAOFFSET_OFFSET env)"
  obtain n where n: "ioat2_dca_count_dca_slots env io ?off = Some n" "n \<le> 2 ^ 16"
    using counted_slots(1) [OF assms(2)] by blast
  have "init_ok env ioat2_dca_get_tag (\<lambda>a tm k. k < 5 \<and> \<not> apic_tag a (tm ! k)) co (finish_init env pdev p co1)"
    if "alloc_dca_provider env n = Some p0" "p = p0\<lparr>iobase := io, dca_base := base, max_requesters := n,
        tag_map := map (tag2_entry v) [0 ..< 5] @ drop 5 (tag_map p0)\<rparr>" "dca2_tag_map_valid (tag_map p)"
      "providers co1 = providers co + 1" "registered co1 = registered co" for p p0 base v co1
  proof (rule finish_init_ok)
    show "fresh_provider p" using n(2) that(2) by (intro fresh_zeroed [OF assms(1) that(1)]) simp_all
    have "tag_map p = map (tag2_entry v) [0 ..< 5] @ drop 5 (replicate 8 0)"
      using assms(1) that(1,2) by (simp add: zeroed_providers_def)
    from tag2_map [OF this that(3)]
    show "\<exists>t. ioat2_dca_get_tag env cpu p = Inr t \<and>
        (\<forall>k. bit t k \<longleftrightarrow> k < 5 \<and> \<not> apic_tag (cpu_physical_id env cpu) (tag_map p ! k))" for cpu
      by (rule ioat2_get_tag_bits)
  qed (use that in simp_all)
  then show ?thesis
    using n(1) by (auto simp: ioat2_dca_init_def Let_def simp del: split_paired_Ex split: option.split)
qed

lemma ioat3_dca_init_result:
  assumes "zeroed_providers env" and "tables_end env io"
  shows "\<exists>res. ioat3_dca_init env pdev io co = Some res \<and>
    init_ok env ioat3_dca_get_tag (\<lambda>a tm k. k < 8 \<and> apic_tag3 a (tm ! k)) co res"
proof -
  let ?off = "readw env (io + IOAT_DCAOFFSET_OFFSET env)"
  obtain n where n: "ioat3_dca_count_dca_slots env io ?off = Some n" "n \<le> 2 ^ 16"
    using counted_slots(2) [OF assms(2)] by blast
  have "init_ok env ioat3_dca_get_tag (\<lambda>a tm k. k < 8 \<and> apic_tag3 a (tm ! k)) co (finish_init env pdev p co1)"
    if "alloc_dca_provider env n = Some p0" "p = p0\<lparr>iobase := io, dca_base := base, max_requesters := n,
        tag_map := map (tag3_entry full) [0 ..< 8]\<rparr>"
      "providers co1 = providers co + 1" "registered co1 = registered co" for p p0 base full co1
  proof (rule finish_init_ok)
    show "fresh_provider p" using n(2) that(2) by (intro fresh_zeroed [OF assms(1) that(1)]) simp_all
    fix cpu
    have "\<forall>k < 8. dca3_entry_value (cpu_physical_id env cpu) (tag_map p ! k) = Inr (apic_tag3 (cpu_physical_id env cpu) (tag_map p ! k))"
      using that(2) by (auto simp: tag3_entry_bit5 intro!: dca3_entry_defined)
    from tag_loop_spec [OF _ this] show "\<exists>t. ioat3_dca_get_tag env cpu p = Inr t \<and>
        (\<forall>k. bit t k \<longleftrightarrow> k < 8 \<and> apic_tag3 (cpu_physical_id env cpu) (tag_map p ! k))"
      unfolding ioat3_dca_get_tag_def using that(2) by simp
  qed (use that in simp_all)
  then show ?thesis
    using n(1) by (auto simp: ioat3_dca_init_def Let_def simp del: split_paired_Ex split: option.split)
qed

subsection \<open>Properties\<close>

text \<open>
  C31. The table of requesters stays consistent with its image in the device: in every state that
  adding and removing requesters reaches from a fresh provider, the count is the number of occupied
  slots, the last value written to each entry of the device is the id of the slot's requester or
  the cleared entry, no routine faults or reports the table out of order, an add succeeds exactly when
  a slot is free, a removal exactly when the device is in the table.
\<close>

theorem dca_requesters_consistent:
  assumes "fresh_provider p"
  shows "(dca_reach (ioat_dca_add_requester env) (ioat_dca_remove_requester env) p st \<longrightarrow>
      dca_inv dca1_entry W16 (\<lambda>a. W16 a 0) st \<and>
      requester_contract env (ioat_dca_add_requester env) (ioat_dca_remove_requester env) st) \<and>
    (dca_reach (ioat2_dca_add_requester env) (ioat2_dca_remove_requester env) p st \<longrightarrow>
      dca_inv (dca2_entry env) (table_id env) (\<lambda>a. W32 a 0) st \<and>
      requester_contract env (ioat2_dca_add_requester env) (ioat2_dca_remove_requester env) st) \<and>
    (dca_reach (ioat3_dca_add_requester env) (ioat3_dca_remove_requester env) p st \<longrightarrow>
      dca_inv (dca3_entry env) (table_id env) (\<lambda>a. W32 a 0) st \<and>
      requester_contract env (ioat3_dca_add_requester env) (ioat3_dca_remove_requester env) st)"
  unfolding ioat_dca_add_requester_def ioat_dca_remove_requester_def ioat2_dca_add_requester_def
    ioat2_dca_remove_requester_def ioat3_dca_add_requester_def ioat3_dca_remove_requester_def
  using dca1.reach_contract [OF _ assms] dca2.reach_contract [OF _ assms] dca3.reach_contract [OF _ assms] by blast

text \<open>
  C32. Starting DCA: with zeroed memory from the DCA core and tables that end, each start routine
  returns; it gives no provider and leaves none allocated, or a registered provider with an empty
  table, whose tag is defined for every CPU (no shift leaves the range of the type) and has in each bit
  the bit of the APIC id, its complement or the literal that the tag map selects.
\<close>

theorem dca_start_gives_defined_tags:
  assumes "zeroed_providers env" and "tables_end env io"
  shows "init_ok env ioat_dca_get_tag (\<lambda>a tm k. k < 8 \<and> apic_tag a (tm ! k)) co (ioat_dca_init env pdev io co) \<and>
    (\<exists>res. ioat2_dca_init env pdev io co = Some res \<and>
      init_ok env ioat2_dca_get_tag (\<lambda>a tm k. k < 5 \<and> \<not> apic_tag a (tm ! k)) co res) \<and>
    (\<exists>res. ioat3_dca_init env pdev io co = Some res \<and>
      init_ok env ioat3_dca_get_tag (\<lambda>a tm k. k < 8 \<and> apic_tag3 a (tm ! k)) co res)"
  using ioat_dca_init_result [OF assms(1)] ioat2_dca_init_result [OF assms] ioat3_dca_init_result [OF assms] by blast

definition demo_dca_env :: dca_env where
  "demo_dca_env = \<lparr>readb = (\<lambda>_. 0x12), readw = (\<lambda>_. 0x100), readl = (\<lambda>_. 0x80000000), IOAT_VER_OFFSET = 8, IOAT_VER_3_0 = 0x30,
     IOAT_DCAOFFSET_OFFSET = 0x14, IOAT_DCA_GREQID_OFFSET = 0x10, IOAT3_DCA_GREQID_OFFSET = 0x02,
     IOAT_DCA_GREQID_VALID = 0x20000000, IOAT_DCA_GREQID_LASTID = 0x80000000, IOAT_FSB_CAP_ENABLE_OFFSET = 4,
     IOAT_FSB_CAP_ENABLE_PREFETCH = 1, IOAT_PCI_CAP_ENABLE_OFFSET = 6, IOAT_PCI_CAP_ENABLE_MEMWR = 1,
     IOAT3_CSI_CONTROL_OFFSET = 0x1C, IOAT3_CSI_CONTROL_PREFETCH = 1, IOAT3_PCI_CONTROL_OFFSET = 0x22, IOAT3_PCI_CONTROL_MEMWR = 1,
     IOAT_APICID_TAG_MAP_OFFSET = 0xC, IOAT3_APICID_TAG_MAP_OFFSET_LOW = 0x10, IOAT3_APICID_TAG_MAP_OFFSET_HIGH = 0x14,
     PCI_VENDOR_ID_INTEL = 0x8086, PCI_DEVICE_ID_INTEL_IOAT = 1, PCI_DEVICE_ID_INTEL_IOAT_CNB = 2, PCI_DEVICE_ID_INTEL_IOAT_SCNB = 3,
     PCI_VENDOR_ID_UNISYS = 0x1018, PCI_DEVICE_ID_UNISYS_DMA_DIRECTOR = 4, on_pci_bus = (\<lambda>_. True), bus_number = (\<lambda>_. 2),
     devfn = (\<lambda>_. 9), pci_vendor = (\<lambda>_. 0x8086), pci_device = (\<lambda>_. 2), cpu_physical_id = (\<lambda>c. of_nat c),
     config_disable_dca = False, boot_cpu_has_dca = True, cpuid_eax_9 = 1,
     alloc_dca_provider = (\<lambda>n. Some \<lparr>iobase = 0, dca_base = 0, max_requesters = 0, requester_count = 0, tag_map = replicate 8 0,
       req_slots = replicate n \<lparr>slot_pdev = None, rid = 0\<rparr>\<rparr>),
     register_dca_provider = (\<lambda>_. 0)\<rparr>"

definition demo_provider :: ioat_dca_priv where
  "demo_provider = \<lparr>iobase = 0x1000, dca_base = 0x1054, max_requesters = 2, requester_count = 0, tag_map = ioat_tag_map_CNB,
     req_slots = [\<lparr>slot_pdev = None, rid = 0\<rparr>, \<lparr>slot_pdev = None, rid = 0\<rparr>]\<rparr>"

theorem dca_requesters_consistent_witness:
  "\<exists>st. ioat_dca_add_requester demo_dca_env 5 \<lparr>priv = demo_provider, mmio_log = []\<rparr> = Inr (0, st) \<and>
    last_write 0x1054 (mmio_log st) = Some (W16 0x1054 0x209) \<and> ioat_dca_dev_managed 5 st = Inr True"
proof -
  let ?st = "\<lparr>priv = take_slot 5 0x209 0 demo_provider, mmio_log = [W16 0x1054 0x209, W8 0x1056 0]\<rparr>"
  have run: "ioat_dca_add_requester demo_dca_env 5 \<lparr>priv = demo_provider, mmio_log = []\<rparr> = Inr (0, ?st)"
    by (simp add: ioat_dca_add_requester_def add_requester_def demo_provider_def demo_dca_env_def dcaid_from_pcidev_def
        slot_scan.simps)
  have fr: "fresh_provider demo_provider" by (simp add: fresh_provider_def demo_provider_def)
  have "dca_reach (ioat_dca_add_requester demo_dca_env) (ioat_dca_remove_requester demo_dca_env) demo_provider ?st"
    by (rule dca_reach.added [of "ioat_dca_add_requester demo_dca_env", OF dca_reach.started run])
  from dca_requesters_consistent [OF fr, of demo_dca_env ?st, THEN conjunct1, rule_format, OF this]
  have m: "mirrored dca1_entry W16 (\<lambda>a. W16 a 0) ?st"
    and d: "ioat_dca_dev_managed 5 ?st = Inr (Some 5 \<in> slot_pdev ` set (req_slots (priv ?st)))"
    by (simp_all only: dca_inv_def requester_contract_def Let_def)
  have "last_write 0x1054 (mmio_log ?st) = Some (W16 0x1054 0x209)"
    using m [unfolded mirrored_def, rule_format, of 0] by (simp add: demo_provider_def take_slot_def dca1_entry_def)
  moreover have "ioat_dca_dev_managed 5 ?st = Inr True" unfolding d by (simp add: demo_provider_def)
  ultimately show ?thesis using run by blast
qed

theorem dca_start_gives_defined_tags_witness:
  "\<exists>p co. ioat_dca_init demo_dca_env 7 0x1000 \<lparr>providers = 0, registered = 0, core_log = []\<rparr> = (Some p, co) \<and>
    registered co = 1 \<and> (\<exists>t. ioat_dca_get_tag demo_dca_env 8 p = Inr t \<and> bit t 0 \<and> \<not> bit t 1 \<and> bit t 2)"
proof -
  let ?co = "\<lparr>providers = 0, registered = 0, core_log = []\<rparr>"
  have z: "zeroed_providers demo_dca_env" by (simp add: zeroed_providers_def demo_dca_env_def)
  have "\<exists>k < 2 ^ 16. readl demo_dca_env (0x1000 + ucast t + of_nat (k * 4)) AND IOAT_DCA_GREQID_LASTID demo_dca_env \<noteq> 0" for t :: u16
    by (intro exI [of _ 0]) (simp add: demo_dca_env_def)
  then have "tables_end demo_dca_env 0x1000" unfolding tables_end_def by blast
  note ok = dca_start_gives_defined_tags [OF z this, of ?co 7, THEN conjunct1]
  obtain p co where run: "ioat_dca_init demo_dca_env 7 0x1000 ?co = (Some p, co)" and tm: "tag_map p = ioat_tag_map_CNB"
    by (simp add: ioat_dca_init_def demo_dca_env_def system_has_dca_enabled_def dca_enabled_in_bios_def legacy_tag_map_def
        finish_init_def IOAT_TAG_MAP_LEN_def upt_rec ioat_tag_map_CNB_def)
  have ap: "apic_tag 8 (tag_map p ! 0)" "\<not> apic_tag 8 (tag_map p ! 1)" "apic_tag 8 (tag_map p ! 2)"
    by (simp_all add: tm ioat_tag_map_CNB_def apic_tag_def APICID_BIT_def DCA_TAG_MAP_VALID_def)
  have "cpu_physical_id demo_dca_env 8 = 8" by (simp add: demo_dca_env_def)
  then have "\<exists>t. ioat_dca_get_tag demo_dca_env 8 p = Inr t \<and> (\<forall>k. bit t k \<longleftrightarrow> k < 8 \<and> apic_tag 8 (tag_map p ! k))"
    and "registered co = 1"
    using ok [unfolded run init_ok_def prod.case option.case] by (metis, simp)
  then show ?thesis using run ap by auto
qed

end
