(* ===== verification/Circular_Buffer.thy ===== *)
theory Circular_Buffer
  imports Prelude
begin

text \<open>
  The per-CPU measurement buffer of \<^verbatim>\<open>src/source/kernel/circular_buffer.c\<close> and
  \<^verbatim>\<open>src/source/include/linux/circular_buffer.h\<close>: a ring of \<^verbatim>\<open>struct unit_buff\<close> with two
  indices, one slot of which is always kept free. The theory models the two structures as
  records, every operation with its 32-bit index arithmetic, and the faults of a null array, an
  index outside it and a zero modulus. Its lemmas show that the ring refines a bounded queue
  that drops new elements when it is full, and state that contract as the locale
  \<open>bounded_fifo\<close>.
\<close>

definition CIRC_BUFF_SIZE :: u32 where
  "CIRC_BUFF_SIZE = 1024"

definition OP_COPY_NO_DEF :: u16 where
  "OP_COPY_NO_DEF = 0"

definition OP_COPY_CPU :: u16 where
  "OP_COPY_CPU = 1"

definition OP_COPY_DMA :: u16 where
  "OP_COPY_DMA = 2"

record unit_buff =
  index_cpu_event :: u16
  ub_count_event :: u64
  ub_addr :: u64
  ub_size :: u64
  type_op :: u16
  index_cpu :: u16
  clock_cpu_start :: u64
  clock_cpu_end :: u64

definition zero_unit :: unit_buff where
  "zero_unit = \<lparr>index_cpu_event = 0, ub_count_event = 0, ub_addr = 0, ub_size = 0,
     type_op = 0, index_cpu = 0, clock_cpu_start = 0, clock_cpu_end = 0\<rparr>"

record CircularBuffer =
  count_event :: u64
  cb_start :: u32
  cb_end :: u32
  cb_size :: u32
  array_element :: "unit_buff list option"

definition cbInit :: "bool \<Rightarrow> CircularBuffer \<Rightarrow> CircularBuffer" where
  "cbInit kzalloc_ok cb =
     cb\<lparr>cb_size := CIRC_BUFF_SIZE,
        array_element := (if kzalloc_ok then Some (replicate (unat CIRC_BUFF_SIZE) zero_unit)
                          else None),
        cb_start := 0, cb_end := 0, count_event := 0\<rparr>"

definition index_next :: "u32 \<Rightarrow> u32 \<Rightarrow> u32 \<Rightarrow> u32 outcome" where
  "index_next m i n = (if m = 0 then Inl Div_By_Zero else Inr ((i + n) mod m))"

definition cbIsFull :: "CircularBuffer \<Rightarrow> bool outcome" where
  "cbIsFull cb = seq_ok (index_next (cb_size cb) (cb_end cb) 1) (\<lambda>e. Inr (e = cb_start cb))"

definition cbIsEmpty :: "CircularBuffer \<Rightarrow> bool" where
  "cbIsEmpty cb \<longleftrightarrow> cb_end cb = cb_start cb"

definition get_counter :: "CircularBuffer \<Rightarrow> u64 \<times> CircularBuffer" where
  "get_counter cb = (count_event cb + 1, cb\<lparr>count_event := count_event cb + 1\<rparr>)"

text \<open>
  \<open>kfree\<close> leaves the pointer as it is; the memory behind it is gone. The model drops the array,
  so a later access is a fault.
\<close>

definition cbFree :: "CircularBuffer \<Rightarrow> CircularBuffer" where
  "cbFree cb = cb\<lparr>array_element := None\<rparr>"

definition store_unit :: "unit_buff list option \<Rightarrow> nat \<Rightarrow> unit_buff \<Rightarrow> unit_buff list outcome" where
  "store_unit arr i u = (case arr of None \<Rightarrow> Inl Null_Deref
     | Some a \<Rightarrow> if i < length a then Inr (a[i := u]) else Inl Out_Of_Bounds)"

definition load_units :: "unit_buff list option \<Rightarrow> nat \<Rightarrow> nat \<Rightarrow> unit_buff list outcome" where
  "load_units arr i n = (case arr of None \<Rightarrow> Inl Null_Deref
     | Some a \<Rightarrow> if i + n \<le> length a then Inr (take n (drop i a)) else Inl Out_Of_Bounds)"

definition cbWrite :: "CircularBuffer \<Rightarrow> unit_buff \<Rightarrow> CircularBuffer outcome" where
  "cbWrite cb elem =
     seq_ok (cbIsFull cb) (\<lambda>full.
       if \<not> full then
         seq_ok (store_unit (array_element cb) (unat (cb_end cb)) elem) (\<lambda>a.
         seq_ok (index_next (cb_size cb) (cb_end cb) 1) (\<lambda>e.
           Inr (cb\<lparr>array_element := Some a, cb_end := e\<rparr>)))
       else Inr cb)"

definition cbRead :: "CircularBuffer \<Rightarrow> (unit_buff \<times> CircularBuffer) outcome" where
  "cbRead cb =
     seq_ok (load_units (array_element cb) (unat (cb_start cb)) 1) (\<lambda>us.
     seq_ok (index_next (cb_size cb) (cb_start cb) 1) (\<lambda>s.
       Inr (hd us, cb\<lparr>cb_start := s\<rparr>)))"

text \<open>
  \<open>segments\<close> is the arithmetic of \<open>cbRead_list\<close>: the lengths of the two stretches to copy, the
  part up to the end of the array and the part from its beginning. The local variables are
  \<^verbatim>\<open>int\<close>, the fields of the structure \<^verbatim>\<open>uint\<close>: the comparisons with a field are unsigned, those
  with the parameter \<^verbatim>\<open>size\<close> signed.
\<close>

definition segments :: "CircularBuffer \<Rightarrow> u32 \<Rightarrow> u32 \<times> u32" where
  "segments cb lim =
     (if cb_end cb < cb_start cb then
        let segment_2 = cb_end cb; segment_1 = cb_size cb - cb_start cb in
          if c_less_int lim (segment_1 + segment_2) then
            if c_less_int lim segment_1 then (lim, 0) else (segment_1, lim - segment_1)
          else (segment_1, segment_2)
      else
        let segment_1 = cb_end cb - cb_start cb in
          if c_less_int lim segment_1 then (lim, 0) else (segment_1, 0))"

definition copy_segment :: "CircularBuffer \<Rightarrow> u32 \<Rightarrow> (unit_buff list \<times> CircularBuffer) outcome" where
  "copy_segment cb n =
     (if sint n < 0 then Inl Out_Of_Bounds else
      seq_ok (load_units (array_element cb) (unat (cb_start cb)) (unat n)) (\<lambda>us.
      seq_ok (index_next (cb_size cb) (cb_start cb) n) (\<lambda>s.
        Inr (us, cb\<lparr>cb_start := s\<rparr>))))"

definition cbRead_list ::
  "CircularBuffer \<Rightarrow> u32 \<Rightarrow> (u32 \<times> unit_buff list \<times> CircularBuffer) outcome" where
  "cbRead_list cb lim =
     (if cb_end cb = cb_start cb then Inr (0, [], cb)
      else case segments cb lim of (segment_1, segment_2) \<Rightarrow>
        seq_ok (copy_segment cb segment_1) (\<lambda>(us1, cb1).
          if segment_2 \<noteq> 0 then
            seq_ok (copy_segment cb1 segment_2) (\<lambda>(us2, cb2).
              Inr (segment_1 + segment_2, us1 @ us2, cb2))
          else Inr (segment_1 + segment_2, us1, cb1)))"

subsection \<open>Well-formed buffers and their contents\<close>

definition cb_wf :: "CircularBuffer \<Rightarrow> bool" where
  "cb_wf cb \<longleftrightarrow> 1 < unat (cb_size cb) \<and> unat (cb_size cb) < 2 ^ 31 \<and>
     unat (cb_start cb) < unat (cb_size cb) \<and> unat (cb_end cb) < unat (cb_size cb) \<and>
     (case array_element cb of None \<Rightarrow> False | Some a \<Rightarrow> length a = unat (cb_size cb))"

definition ring_dist :: "nat \<Rightarrow> nat \<Rightarrow> nat \<Rightarrow> nat" where
  "ring_dist n s e = (if s \<le> e then e - s else n - s + e)"

definition cb_used :: "CircularBuffer \<Rightarrow> nat" where
  "cb_used cb = ring_dist (unat (cb_size cb)) (unat (cb_start cb)) (unat (cb_end cb))"

definition cb_list :: "CircularBuffer \<Rightarrow> unit_buff list" where
  "cb_list cb = (case array_element cb of None \<Rightarrow> []
     | Some a \<Rightarrow> take (cb_used cb) (rotate (unat (cb_start cb)) a))"

text \<open>Sequences of operations on a queue, for a \<open>put\<close> and a batch \<open>get\<close> given as arguments.\<close>

fun put_all :: "('q \<Rightarrow> 'a \<Rightarrow> 'q outcome) \<Rightarrow> 'q \<Rightarrow> 'a list \<Rightarrow> 'q outcome" where
  "put_all put q [] = Inr q"
| "put_all put q (x # xs) = seq_ok (put q x) (\<lambda>q'. put_all put q' xs)"

fun get_rounds :: "('q \<Rightarrow> u32 \<Rightarrow> (u32 \<times> 'a list \<times> 'q) outcome) \<Rightarrow> nat \<Rightarrow> u32 \<Rightarrow> 'q
    \<Rightarrow> ('a list \<times> 'q) outcome" where
  "get_rounds get 0 lim q = Inr ([], q)"
| "get_rounds get (Suc r) lim q =
     seq_ok (get q lim) (\<lambda>(n, us, q'). seq_ok (get_rounds get r lim q') (\<lambda>(vs, q'').
       Inr (us @ vs, q'')))"

definition cb_capacity :: "CircularBuffer \<Rightarrow> nat" where
  "cb_capacity cb = unat (cb_size cb) - 1"

subsection \<open>Distances on the ring\<close>

lemma ring_dist_less: "s < n \<Longrightarrow> e < n \<Longrightarrow> ring_dist n s e < n"
  by (auto simp: ring_dist_def)

lemma ring_dist_reaches: "s < n \<Longrightarrow> e < n \<Longrightarrow> (s + ring_dist n s e) mod n = e"
  by (simp add: ring_dist_def mod_below_twice)

lemma ring_dist_not_before:
  "s < n \<Longrightarrow> e < n \<Longrightarrow> i < ring_dist n s e \<Longrightarrow> (s + i) mod n \<noteq> e"
  by (auto simp: ring_dist_def mod_below_twice split: if_splits)

lemma ring_dist_eq_0: "s < n \<Longrightarrow> e < n \<Longrightarrow> ring_dist n s e = 0 \<longleftrightarrow> s = e"
  by (auto simp: ring_dist_def)

lemma ring_full_iff:
  "s < n \<Longrightarrow> e < n \<Longrightarrow> (e + 1) mod n = s \<longleftrightarrow> ring_dist n s e = n - 1"
  by (auto simp: ring_dist_def mod_below_twice)

lemma ring_dist_write:
  "s < n \<Longrightarrow> e < n \<Longrightarrow> (e + 1) mod n \<noteq> s \<Longrightarrow>
    ring_dist n s ((e + 1) mod n) = ring_dist n s e + 1"
  by (auto simp: ring_dist_def mod_below_twice split: if_splits)

lemma ring_dist_read:
  "s < n \<Longrightarrow> e < n \<Longrightarrow> k \<le> ring_dist n s e \<Longrightarrow>
    ring_dist n ((s + k) mod n) e = ring_dist n s e - k"
  by (auto simp: ring_dist_def mod_below_twice split: if_splits)

subsection \<open>Every operation on a well-formed buffer\<close>

lemma cb_wfE:
  assumes "cb_wf cb"
  obtains a where "array_element cb = Some a" "length a = unat (cb_size cb)"
    "1 < unat (cb_size cb)" "unat (cb_size cb) < 2 ^ 31"
    "unat (cb_start cb) < unat (cb_size cb)" "unat (cb_end cb) < unat (cb_size cb)"
  using assms by (auto simp: cb_wf_def split: option.splits)

lemma index_next_unat:
  assumes "0 < unat m" and "unat i + unat n < 2 ^ 32"
  obtains w where "index_next m i n = Inr w" "unat w = (unat i + unat n) mod unat m"
proof -
  have "m \<noteq> 0" using assms(1) by auto
  moreover have "unat ((i + n) mod m) = (unat i + unat n) mod unat m"
    using assms(2) by (simp add: unat_mod_distrib unat_add_small)
  ultimately show ?thesis
    using that by (simp add: index_next_def)
qed

lemma cb_used_less: "cb_wf cb \<Longrightarrow> cb_used cb < unat (cb_size cb)"
  by (auto elim!: cb_wfE simp: cb_used_def ring_dist_less)

lemma length_cb_list [simp]: "cb_wf cb \<Longrightarrow> length (cb_list cb) = cb_used cb"
  using cb_used_less [of cb] by (auto elim!: cb_wfE simp: cb_list_def)

lemma cb_list_nth:
  assumes "cb_wf cb" and "array_element cb = Some a" and "i < cb_used cb"
  shows "cb_list cb ! i = a ! ((unat (cb_start cb) + i) mod unat (cb_size cb))"
  using assms cb_used_less [OF assms(1)]
  by (auto elim!: cb_wfE simp: cb_list_def nth_rotate add.commute)

lemma cb_list_within_capacity: "cb_wf cb \<Longrightarrow> length (cb_list cb) \<le> cb_capacity cb"
  using cb_used_less [of cb] by (simp add: cb_capacity_def)

lemma cbIsEmpty_iff:
  assumes "cb_wf cb"
  shows "cbIsEmpty cb \<longleftrightarrow> cb_list cb = []"
proof -
  have "cb_list cb = [] \<longleftrightarrow> cb_used cb = 0"
    using length_cb_list [OF assms] by (metis length_0_conv)
  also have "\<dots> \<longleftrightarrow> cb_start cb = cb_end cb"
    using assms by (auto elim!: cb_wfE simp: cb_used_def ring_dist_eq_0 intro: unsigned_word_eqI)
  finally show ?thesis by (auto simp: cbIsEmpty_def)
qed

lemma cbIsFull_iff:
  assumes "cb_wf cb"
  shows "cbIsFull cb = Inr (length (cb_list cb) = cb_capacity cb)"
proof -
  obtain a where wf: "1 < unat (cb_size cb)" "unat (cb_size cb) < 2 ^ 31"
    "unat (cb_start cb) < unat (cb_size cb)" "unat (cb_end cb) < unat (cb_size cb)"
    using assms by (elim cb_wfE)
  then obtain w where w: "index_next (cb_size cb) (cb_end cb) 1 = Inr w"
      "unat w = (unat (cb_end cb) + 1) mod unat (cb_size cb)"
    by (auto intro: index_next_unat [of "cb_size cb" "cb_end cb" 1])
  have "w = cb_start cb \<longleftrightarrow> ring_dist (unat (cb_size cb)) (unat (cb_start cb)) (unat (cb_end cb))
      = unat (cb_size cb) - 1"
    using w(2) ring_full_iff [OF wf(3,4)] by (simp add: word_unat_eq_iff)
  then show ?thesis
    using w(1) assms by (simp add: cbIsFull_def cb_capacity_def cb_used_def)
qed

lemma cbInit_wf: "cb_wf (cbInit True cb)" "cb_list (cbInit True cb) = []"
  "cb_capacity (cbInit True cb) = 1023"
  by (simp_all add: cb_wf_def cb_list_def cb_capacity_def cb_used_def ring_dist_def cbInit_def
      CIRC_BUFF_SIZE_def)

lemma cbWrite_full:
  "cb_wf cb \<Longrightarrow> length (cb_list cb) = cb_capacity cb \<Longrightarrow> cbWrite cb u = Inr cb"
  by (simp add: cbWrite_def cbIsFull_iff)

lemma cbWrite_room:
  assumes wf: "cb_wf cb" and room: "length (cb_list cb) < cb_capacity cb"
  obtains cb' where "cbWrite cb u = Inr cb'" "cb_wf cb'" "cb_list cb' = cb_list cb @ [u]"
    "cb_capacity cb' = cb_capacity cb" "count_event cb' = count_event cb"
proof -
  obtain a where a: "array_element cb = Some a" "length a = unat (cb_size cb)"
    and sz: "1 < unat (cb_size cb)" "unat (cb_size cb) < 2 ^ 31"
    and se: "unat (cb_start cb) < unat (cb_size cb)" "unat (cb_end cb) < unat (cb_size cb)"
    using wf by (elim cb_wfE)
  let ?n = "unat (cb_size cb)" and ?s = "unat (cb_start cb)" and ?e = "unat (cb_end cb)"
  obtain w where w: "index_next (cb_size cb) (cb_end cb) 1 = Inr w" "unat w = (?e + 1) mod ?n"
    using sz se by (auto intro: index_next_unat [of "cb_size cb" "cb_end cb" 1])
  define cb' where "cb' = cb\<lparr>array_element := Some (a[?e := u]), cb_end := w\<rparr>"
  have run: "cbWrite cb u = Inr cb'"
    using wf room a se w by (simp add: cbWrite_def cbIsFull_iff store_unit_def cb'_def)
  have wf': "cb_wf cb'"
    using a sz se w by (simp add: cb_wf_def cb'_def)
  have "ring_dist ?n ?s ?e \<noteq> ?n - 1"
    using room wf by (simp add: cb_capacity_def cb_used_def)
  then have "(?e + 1) mod ?n \<noteq> ?s"
    using ring_full_iff [OF se] by blast
  then have used: "cb_used cb' = cb_used cb + 1"
    using ring_dist_write [OF se] w by (simp add: cb_used_def cb'_def)
  have "cb_list cb' = cb_list cb @ [u]"
  proof (rule nth_equalityI)
    show "length (cb_list cb') = length (cb_list cb @ [u])"
      using wf wf' used by simp
  next
    fix i assume "i < length (cb_list cb')"
    then have i: "i < cb_used cb + 1" using wf' used by simp
    have lhs: "cb_list cb' ! i = (a[?e := u]) ! ((?s + i) mod ?n)"
      using cb_list_nth [OF wf', of "a[?e := u]" i] i used by (simp add: cb'_def)
    show "cb_list cb' ! i = (cb_list cb @ [u]) ! i"
    proof (cases "i < cb_used cb")
      case True
      then have "(?s + i) mod ?n \<noteq> ?e"
        using ring_dist_not_before [OF se] by (simp add: cb_used_def)
      then show ?thesis
        using lhs True cb_list_nth [OF wf a(1) True] wf by (simp add: nth_append)
    next
      case False
      then have "i = cb_used cb" using i by simp
      then show ?thesis
        using lhs ring_dist_reaches [OF se] wf a se by (simp add: nth_append cb_used_def)
    qed
  qed
  then show ?thesis
    using that run wf' by (simp add: cb'_def cb_capacity_def)
qed

lemma copy_segment_ok:
  assumes wf: "cb_wf cb" and used: "unat n \<le> cb_used cb"
    and room: "unat (cb_start cb) + unat n \<le> unat (cb_size cb)"
  obtains cb' where "copy_segment cb n = Inr (take (unat n) (cb_list cb), cb')" "cb_wf cb'"
    "cb_list cb' = drop (unat n) (cb_list cb)" "cb_capacity cb' = cb_capacity cb"
    "unat (cb_start cb') = (unat (cb_start cb) + unat n) mod unat (cb_size cb)"
    "cb_end cb' = cb_end cb" "cb_size cb' = cb_size cb" "count_event cb' = count_event cb"
proof -
  obtain a where a: "array_element cb = Some a" "length a = unat (cb_size cb)"
    and sz: "1 < unat (cb_size cb)" "unat (cb_size cb) < 2 ^ 31"
    and se: "unat (cb_start cb) < unat (cb_size cb)" "unat (cb_end cb) < unat (cb_size cb)"
    using wf by (elim cb_wfE)
  let ?n = "unat (cb_size cb)" and ?s = "unat (cb_start cb)" and ?k = "unat n"
  obtain w where w: "index_next (cb_size cb) (cb_start cb) n = Inr w" "unat w = (?s + ?k) mod ?n"
    using sz room by (auto intro: index_next_unat [of "cb_size cb" "cb_start cb" n])
  define cb' where "cb' = cb\<lparr>cb_start := w\<rparr>"
  have wf': "cb_wf cb'" using a sz se w by (simp add: cb_wf_def cb'_def)
  have used': "cb_used cb' = cb_used cb - ?k"
    using ring_dist_read [OF se, of ?k] used w by (simp add: cb_used_def cb'_def)
  have taken: "take ?k (drop ?s a) = take ?k (cb_list cb)"
  proof (rule nth_equalityI)
    show "length (take ?k (drop ?s a)) = length (take ?k (cb_list cb))"
      using room used wf a by simp
  next
    fix i assume "i < length (take ?k (drop ?s a))"
    then have "i < ?k" "i < cb_used cb" using used by auto
    then show "take ?k (drop ?s a) ! i = take ?k (cb_list cb) ! i"
      using cb_list_nth [OF wf a(1)] room a(2) by simp
  qed
  have left: "cb_list cb' = drop ?k (cb_list cb)"
  proof (rule nth_equalityI)
    show "length (cb_list cb') = length (drop ?k (cb_list cb))"
      using wf wf' used' by simp
  next
    fix i assume "i < length (cb_list cb')"
    then have "i < cb_used cb - ?k" using wf' used' by simp
    then show "cb_list cb' ! i = drop ?k (cb_list cb) ! i"
      using cb_list_nth [OF wf', of a i] cb_list_nth [OF wf a(1), of "?k + i"] used' used w wf
      by (simp add: cb'_def a mod_simps add.assoc)
  qed
  have "\<not> sint n < 0"
    using room sz by (simp add: sint_unat_small)
  then have "copy_segment cb n = Inr (take ?k (cb_list cb), cb')"
    using a room w taken by (simp add: copy_segment_def load_units_def cb'_def)
  then show ?thesis
    using that wf' left w by (simp add: cb'_def cb_capacity_def)
qed

lemma segments_split:
  assumes wf: "cb_wf cb" and lim: "unat lim < 2 ^ 31"
    and seg: "segments cb lim = (s1, s2)"
  shows "unat s1 + unat s2 = min (unat lim) (cb_used cb)"
    and "unat (cb_start cb) + unat s1 \<le> unat (cb_size cb)"
    and "s2 \<noteq> 0 \<longrightarrow> unat (cb_start cb) + unat s1 = unat (cb_size cb)"
proof -
  have b: "unat (cb_size cb) < 2 ^ 31" "unat (cb_start cb) < unat (cb_size cb)"
      "unat (cb_end cb) < unat (cb_size cb)"
    using wf by (auto elim: cb_wfE)
  have sub: "unat (cb_size cb - cb_start cb) = unat (cb_size cb) - unat (cb_start cb)"
    using b by (simp add: unat_diff_small)
  have tot: "unat (cb_size cb - cb_start cb + cb_end cb)
      = unat (cb_size cb) - unat (cb_start cb) + unat (cb_end cb)" if "cb_end cb < cb_start cb"
    using b sub that by (simp add: unat_add_small word_less_nat_alt)
  have straight: "unat (cb_end cb - cb_start cb) = unat (cb_end cb) - unat (cb_start cb)"
    if "\<not> cb_end cb < cb_start cb"
    using that by (simp add: unat_diff_small word_less_nat_alt)
  have rest: "unat (lim - (cb_size cb - cb_start cb))
      = unat lim - (unat (cb_size cb) - unat (cb_start cb))"
    if "\<not> unat lim < unat (cb_size cb) - unat (cb_start cb)"
    using that sub by (simp add: unat_diff_small)
  have "unat s1 + unat s2 = min (unat lim) (cb_used cb) \<and>
      unat (cb_start cb) + unat s1 \<le> unat (cb_size cb) \<and>
      (s2 \<noteq> 0 \<longrightarrow> unat (cb_start cb) + unat s1 = unat (cb_size cb))"
  proof (cases "cb_end cb < cb_start cb")
    case True
    then show ?thesis
      using seg b lim tot [OF True] sub rest
      by (auto simp: segments_def Let_def c_less_int_small cb_used_def ring_dist_def
          word_less_nat_alt min_def split: if_splits)
  next
    case False
    then show ?thesis
      using seg b lim straight [OF False]
      by (auto simp: segments_def Let_def c_less_int_small cb_used_def ring_dist_def
          word_less_nat_alt min_def split: if_splits)
  qed
  then show "unat s1 + unat s2 = min (unat lim) (cb_used cb)"
    and "unat (cb_start cb) + unat s1 \<le> unat (cb_size cb)"
    and "s2 \<noteq> 0 \<longrightarrow> unat (cb_start cb) + unat s1 = unat (cb_size cb)"
    by blast+
qed

lemma cbRead_list_ok:
  assumes wf: "cb_wf cb" and lim: "unat lim < 2 ^ 31"
  obtains n cb' where "cbRead_list cb lim = Inr (n, take (unat lim) (cb_list cb), cb')"
    "unat n = min (unat lim) (length (cb_list cb))" "cb_wf cb'"
    "cb_list cb' = drop (unat lim) (cb_list cb)" "cb_capacity cb' = cb_capacity cb"
    "count_event cb' = count_event cb"
proof (cases "cb_end cb = cb_start cb")
  case True
  then have "cb_list cb = []"
    using cbIsEmpty_iff [OF wf] by (simp add: cbIsEmpty_def)
  then show ?thesis
    using that [of 0 cb] True wf by (simp add: cbRead_list_def)
next
  case False
  obtain s1 s2 where seg: "segments cb lim = (s1, s2)" by fastforce
  note sp = segments_split [OF wf lim seg]
  let ?L = "cb_list cb"
  have len: "length ?L = cb_used cb" using wf by simp
  have "unat s1 \<le> cb_used cb" using sp(1) by (simp add: min_def split: if_splits)
  from copy_segment_ok [OF wf this sp(2)]
  obtain cb1 where c1: "copy_segment cb s1 = Inr (take (unat s1) ?L, cb1)" "cb_wf cb1"
      "cb_list cb1 = drop (unat s1) ?L" "cb_capacity cb1 = cb_capacity cb"
      "unat (cb_start cb1) = (unat (cb_start cb) + unat s1) mod unat (cb_size cb)"
      "cb_size cb1 = cb_size cb" "count_event cb1 = count_event cb"
    by blast
  have sum: "unat (s1 + s2) = unat s1 + unat s2"
    using sp(1) lim by (intro unat_add_small) simp
  have cut: "take (unat s1 + unat s2) ?L = take (unat lim) ?L"
      "drop (unat s1 + unat s2) ?L = drop (unat lim) ?L"
    using sp(1) len by (auto simp: min_def)
  show ?thesis
  proof (cases "s2 = 0")
    case True
    then show ?thesis
      using that [of "s1 + s2" cb1] False seg c1 cut sum sp(1) len by (simp add: cbRead_list_def)
  next
    case s2: False
    have fits: "unat s2 \<le> cb_used cb1"
      using length_cb_list [OF c1(2)] c1(3) sp(1) len by simp
    have room: "unat (cb_start cb1) + unat s2 \<le> unat (cb_size cb1)"
      using c1(5) sp(3) s2 fits cb_used_less [OF c1(2)] by simp
    from copy_segment_ok [OF c1(2) fits room]
    obtain cb2 where c2: "copy_segment cb1 s2 = Inr (take (unat s2) (cb_list cb1), cb2)"
        "cb_wf cb2" "cb_list cb2 = drop (unat s2) (cb_list cb1)"
        "cb_capacity cb2 = cb_capacity cb1" "count_event cb2 = count_event cb1"
      by blast
    have "take (unat s1) ?L @ take (unat s2) (drop (unat s1) ?L) = take (unat lim) ?L"
      using cut(1) by (simp add: take_add [symmetric])
    then show ?thesis
      using that [of "s1 + s2" cb2] False s2 seg c1 c2 cut(2) sum sp(1) len
      by (simp add: cbRead_list_def add.commute)
  qed
qed

lemma cbRead_ok:
  assumes wf: "cb_wf cb" and ne: "cb_list cb \<noteq> []"
  obtains cb' where "cbRead cb = Inr (hd (cb_list cb), cb')" "cb_wf cb'"
    "cb_list cb' = tl (cb_list cb)" "cb_capacity cb' = cb_capacity cb"
proof -
  have used: "0 < cb_used cb" using wf ne length_cb_list [OF wf] by (metis length_greater_0_conv)
  have room: "unat (cb_start cb) + 1 \<le> unat (cb_size cb)" using wf by (auto elim: cb_wfE)
  obtain cb' where c: "copy_segment cb 1 = Inr (take 1 (cb_list cb), cb')" "cb_wf cb'"
      "cb_list cb' = drop 1 (cb_list cb)" "cb_capacity cb' = cb_capacity cb"
    using copy_segment_ok [OF wf, of 1] used room by auto
  have "cbRead cb = Inr (hd (take 1 (cb_list cb)), cb')"
    using c(1) by (auto simp: copy_segment_def cbRead_def seq_ok_eq_Inr_iff split: if_splits)
  then show ?thesis
    using that c ne by (simp add: drop_Suc hd_take)
qed

subsection \<open>The contract: a bounded queue that drops new elements when full\<close>

locale bounded_fifo =
  fixes inv :: "'q \<Rightarrow> bool"
    and items :: "'q \<Rightarrow> 'a list"
    and cap :: "'q \<Rightarrow> nat"
    and put :: "'q \<Rightarrow> 'a \<Rightarrow> 'q outcome"
    and get :: "'q \<Rightarrow> u32 \<Rightarrow> (u32 \<times> 'a list \<times> 'q) outcome"
  assumes bounded: "inv q \<Longrightarrow> length (items q) \<le> cap q"
    and put_room: "inv q \<Longrightarrow> length (items q) < cap q \<Longrightarrow>
      \<exists>q'. put q x = Inr q' \<and> inv q' \<and> items q' = items q @ [x] \<and> cap q' = cap q"
    and put_full: "inv q \<Longrightarrow> length (items q) = cap q \<Longrightarrow> put q x = Inr q"
    and get_batch: "inv q \<Longrightarrow> unat lim < 2 ^ 31 \<Longrightarrow>
      \<exists>n q'. get q lim = Inr (n, take (unat lim) (items q), q') \<and>
        unat n = min (unat lim) (length (items q)) \<and> inv q' \<and>
        items q' = drop (unat lim) (items q) \<and> cap q' = cap q"
begin

lemma put_step:
  assumes "inv q"
  shows "\<exists>q'. put q x = Inr q' \<and> inv q' \<and> items q' = take (cap q) (items q @ [x]) \<and>
    cap q' = cap q"
proof (cases "length (items q) < cap q")
  case True
  then show ?thesis using put_room [OF assms True, of x] by auto
next
  case False
  then have "length (items q) = cap q" using bounded [OF assms] by simp
  then show ?thesis using put_full [OF assms, of x] assms by simp
qed

lemma put_all_items:
  "inv q \<Longrightarrow> \<exists>q'. put_all put q xs = Inr q' \<and> inv q' \<and>
    items q' = take (cap q) (items q @ xs) \<and> cap q' = cap q"
proof (induction xs arbitrary: q)
  case Nil
  then show ?case using bounded by simp
next
  case (Cons x xs)
  obtain q1 where q1: "put q x = Inr q1" "inv q1" "items q1 = take (cap q) (items q @ [x])"
      "cap q1 = cap q"
    using put_step [OF Cons.prems, of x] by blast
  have "take (cap q) (take (cap q) (items q @ [x]) @ xs) = take (cap q) (items q @ x # xs)"
    by (cases "length (items q) < cap q") auto
  then show ?case
    using Cons.IH [OF q1(2)] q1 by auto
qed

lemma get_rounds_items:
  assumes "inv q" and "unat lim < 2 ^ 31"
  shows "\<exists>q'. get_rounds get r lim q = Inr (take (r * unat lim) (items q), q') \<and> inv q' \<and>
    items q' = drop (r * unat lim) (items q) \<and> cap q' = cap q"
  using assms
proof (induction r arbitrary: q)
  case 0
  then show ?case by simp
next
  case (Suc r)
  obtain n q1 where q1: "get q lim = Inr (n, take (unat lim) (items q), q1)" "inv q1"
      "items q1 = drop (unat lim) (items q)" "cap q1 = cap q"
    using get_batch [OF Suc.prems] by blast
  then show ?case
    using Suc.IH [OF q1(2) Suc.prems(2)] by (auto simp: take_add [symmetric] add.commute)
qed

lemma get_rounds_empties:
  assumes "inv q" and "unat lim < 2 ^ 31" and "cap q \<le> r * unat lim"
  shows "\<exists>q'. get_rounds get r lim q = Inr (items q, q') \<and> inv q' \<and> items q' = []"
  using get_rounds_items [OF assms(1,2), of r] bounded [OF assms(1)] assms(3) by auto

end

interpretation cb_fifo: bounded_fifo cb_wf cb_list cb_capacity cbWrite cbRead_list
proof
  fix cb u and lim :: u32
  assume wf: "cb_wf cb"
  show "length (cb_list cb) \<le> cb_capacity cb"
    by (rule cb_list_within_capacity [OF wf])
  show "\<exists>cb'. cbWrite cb u = Inr cb' \<and> cb_wf cb' \<and> cb_list cb' = cb_list cb @ [u] \<and>
      cb_capacity cb' = cb_capacity cb" if "length (cb_list cb) < cb_capacity cb"
    using cbWrite_room [OF wf that, of u] by metis
  show "cbWrite cb u = Inr cb" if "length (cb_list cb) = cb_capacity cb"
    by (rule cbWrite_full [OF wf that])
  show "\<exists>n cb'. cbRead_list cb lim = Inr (n, take (unat lim) (cb_list cb), cb') \<and>
      unat n = min (unat lim) (length (cb_list cb)) \<and> cb_wf cb' \<and>
      cb_list cb' = drop (unat lim) (cb_list cb) \<and> cb_capacity cb' = cb_capacity cb"
    if "unat lim < 2 ^ 31"
    using cbRead_list_ok [OF wf that] by metis
qed

subsection \<open>Properties\<close>

text \<open>
  C9. On a well-formed ring \<open>cbWrite\<close> never faults and refines a bounded queue: it appends the
  element when fewer than \<open>size - 1\<close> elements are stored and leaves the contents as they are
  when the ring is full; the ring stays well-formed.
\<close>

theorem cbWrite_refines_bounded_queue:
  assumes "cb_wf cb"
  shows "\<exists>cb'. cbWrite cb u = Inr cb' \<and> cb_wf cb' \<and> cb_capacity cb' = cb_capacity cb \<and>
    cb_list cb' = (if length (cb_list cb) < cb_capacity cb then cb_list cb @ [u] else cb_list cb)"
  using cb_fifo.put_step [OF assms, of u] cb_list_within_capacity [OF assms] by auto

theorem cbWrite_refines_bounded_queue_witness:
  "\<exists>cb'. cbWrite (cbInit True \<lparr>count_event = 7, cb_start = 3, cb_end = 9, cb_size = 0,
      array_element = None\<rparr>) zero_unit = Inr cb' \<and> cb_list cb' = [zero_unit]"
  using cbWrite_refines_bounded_queue [OF cbInit_wf(1), of _ zero_unit]
  by (fastforce simp: cbInit_wf)

text \<open>
  \<open>cbRead_list\<close> with a non-negative limit returns the oldest elements in order, as many as
  the limit allows and the ring holds, reports their number, and removes exactly these elements,
  whether or not the stored stretch wraps around the end of the array.
\<close>

theorem cbRead_list_takes_oldest:
  assumes "cb_wf cb" and "unat lim < 2 ^ 31"
  shows "\<exists>n cb'. cbRead_list cb lim = Inr (n, take (unat lim) (cb_list cb), cb') \<and>
    unat n = min (unat lim) (length (cb_list cb)) \<and> cb_wf cb' \<and>
    cb_list cb' = drop (unat lim) (cb_list cb)"
  using cb_fifo.get_batch [OF assms] by blast

theorem cbRead_list_takes_oldest_witness:
  "\<exists>n cb'. cbRead_list \<lparr>count_event = 0, cb_start = 2, cb_end = 1, cb_size = 3,
      array_element = Some [zero_unit, zero_unit, zero_unit\<lparr>type_op := 2\<rparr>]\<rparr> 5
      = Inr (n, [zero_unit\<lparr>type_op := 2\<rparr>, zero_unit], cb') \<and> unat n = 2 \<and> cb_list cb' = []"
proof -
  let ?cb = "\<lparr>count_event = 0, cb_start = 2, cb_end = 1, cb_size = 3,
      array_element = Some [zero_unit, zero_unit, zero_unit\<lparr>type_op := 2\<rparr>]\<rparr>"
  have wf: "cb_wf ?cb" by (simp add: cb_wf_def)
  have items: "cb_list ?cb = [zero_unit\<lparr>type_op := 2\<rparr>, zero_unit]"
    by (simp add: cb_list_def cb_used_def ring_dist_def rotate_drop_take)
  show ?thesis
    using cbRead_list_takes_oldest [OF wf, of 5] by (auto simp: items)
qed

end
