(* ===== verification/User_Copy.thy ===== *)
theory User_Copy
  imports Circular_Buffer Copy_Policy
begin

text \<open>
  The user-copy routines of \<^verbatim>\<open>src/source/arch/x86/include/asm/uaccess_64.h\<close>: the plain CPU copies, the
  copies that try the DMA engine first and fall back to the CPU, and the traced versions that record
  every copy in the ring buffer of the CPU. Which routines \<^verbatim>\<open>copy_from_user\<close> and its three relatives are is
  decided by the kernel configuration, here an argument.

  Parameters, the record \<open>cpu_env\<close>: the out-of-line and assembly copies (each gives the number of
  bytes it leaves), whether one access of 1, 2, 4 or 8 bytes faults, what the compiler knows
  about sizes, the clock and the CPU the code runs on before and after the copy.
\<close>

record cpu_env =
  copy_from_oob :: "u64 \<Rightarrow> u64 \<Rightarrow> u32 \<Rightarrow> u64"
  copy_to_oob :: "u64 \<Rightarrow> u64 \<Rightarrow> u32 \<Rightarrow> u64"
  copy_generic :: "u64 \<Rightarrow> u64 \<Rightarrow> u32 \<Rightarrow> u32"
  copy_nocache :: "u64 \<Rightarrow> u64 \<Rightarrow> u32 \<Rightarrow> bool \<Rightarrow> u32"
  get_faults :: "u64 \<Rightarrow> nat \<Rightarrow> bool"
  put_faults :: "u64 \<Rightarrow> nat \<Rightarrow> bool"
  object_size :: "u64 \<Rightarrow> int"
  const_size :: bool
  cpu_before :: nat
  cpu_after :: nat
  clock_before :: "nat \<Rightarrow> u64"
  clock_after :: "nat \<Rightarrow> u64"
  return_address :: u64

subsection \<open>Copies by the CPU\<close>

definition copy_user_generic :: "cpu_env \<Rightarrow> u64 \<Rightarrow> u64 \<Rightarrow> u32 \<Rightarrow> u32" where
  "copy_user_generic ce dst src n = copy_generic ce dst src n"

text \<open>A result in C's type \<^verbatim>\<open>int\<close>.\<close>

definition as_int :: "u32 \<Rightarrow> int" where
  "as_int w = sint w"

text \<open>The length is cut to 32 bits on its way to \<^verbatim>\<open>_copy_from_user\<close>.\<close>

definition copy_from_user_pure :: "cpu_env \<Rightarrow> u64 \<Rightarrow> u64 \<Rightarrow> u64 \<Rightarrow> u64" where
  "copy_from_user_pure ce to fr n =
     (let sz = object_size ce to in
      if sz = - 1 \<or> unat n \<le> unat (word_of_int sz :: u64) then copy_from_oob ce to fr (ucast n) else n)"

definition copy_to_user_pure :: "cpu_env \<Rightarrow> u64 \<Rightarrow> u64 \<Rightarrow> u32 \<Rightarrow> int" where
  "copy_to_user_pure ce dst src n = as_int (ucast (copy_to_oob ce dst src n))"

text \<open>One access: the value the macro leaves in \<^verbatim>\<open>ret\<close>, the error value on a fault.\<close>

definition get_user_asm :: "cpu_env \<Rightarrow> u64 \<Rightarrow> nat \<Rightarrow> int \<Rightarrow> int" where
  "get_user_asm ce src w errret = (if get_faults ce src w then errret else 0)"

definition put_user_asm :: "cpu_env \<Rightarrow> u64 \<Rightarrow> nat \<Rightarrow> int \<Rightarrow> int" where
  "put_user_asm ce dst w errret = (if put_faults ce dst w then errret else 0)"

definition copy_from_user_pure_inl :: "cpu_env \<Rightarrow> u64 \<Rightarrow> u64 \<Rightarrow> u32 \<Rightarrow> int" where
  "copy_from_user_pure_inl ce dst src n =
     (if \<not> const_size ce then as_int (copy_user_generic ce dst src n)
      else if n = 1 then get_user_asm ce src 1 1
      else if n = 2 then get_user_asm ce src 2 2
      else if n = 4 then get_user_asm ce src 4 4
      else if n = 8 then get_user_asm ce src 8 8
      else if n = 10 then
        (let ret = get_user_asm ce src 8 10 in if ret \<noteq> 0 then ret else get_user_asm ce (8 + src) 2 2)
      else if n = 16 then
        (let ret = get_user_asm ce src 8 16 in if ret \<noteq> 0 then ret else get_user_asm ce (8 + src) 8 8)
      else as_int (copy_user_generic ce dst src n))"

definition copy_to_user_pure_inl :: "cpu_env \<Rightarrow> u64 \<Rightarrow> u64 \<Rightarrow> u32 \<Rightarrow> int" where
  "copy_to_user_pure_inl ce dst src n =
     (if \<not> const_size ce then as_int (copy_user_generic ce dst src n)
      else if n = 1 then put_user_asm ce dst 1 1
      else if n = 2 then put_user_asm ce dst 2 2
      else if n = 4 then put_user_asm ce dst 4 4
      else if n = 8 then put_user_asm ce dst 8 8
      else if n = 10 then
        (let ret = put_user_asm ce dst 8 10 in if ret \<noteq> 0 then ret else put_user_asm ce (dst + 4 * 2) 2 2)
      else if n = 16 then
        (let ret = put_user_asm ce dst 8 16 in if ret \<noteq> 0 then ret else put_user_asm ce (dst + 1 * 8) 8 8)
      else as_int (copy_user_generic ce dst src n))"

definition copy_in_user_inl :: "cpu_env \<Rightarrow> u64 \<Rightarrow> u64 \<Rightarrow> u32 \<Rightarrow> int" where
  "copy_in_user_inl ce dst src n =
     (let through = (\<lambda>w. let ret = get_user_asm ce src w (int w) in if ret = 0 then put_user_asm ce dst w (int w) else ret) in
      if \<not> const_size ce then as_int (copy_user_generic ce dst src n)
      else if n = 1 then through 1 else if n = 2 then through 2 else if n = 4 then through 4 else if n = 8 then through 8
      else as_int (copy_user_generic ce dst src n))"

definition copy_from_user_inatomic :: "cpu_env \<Rightarrow> u64 \<Rightarrow> u64 \<Rightarrow> u32 \<Rightarrow> int" where
  "copy_from_user_inatomic ce dst src n = as_int (copy_user_generic ce dst src n)"

definition copy_to_user_inatomic :: "cpu_env \<Rightarrow> u64 \<Rightarrow> u64 \<Rightarrow> u32 \<Rightarrow> int" where
  "copy_to_user_inatomic ce dst src n = as_int (copy_user_generic ce dst src n)"

definition copy_from_user_nocache :: "cpu_env \<Rightarrow> u64 \<Rightarrow> u64 \<Rightarrow> u32 \<Rightarrow> int" where
  "copy_from_user_nocache ce dst src n = as_int (copy_nocache ce dst src n True)"

definition copy_from_user_inatomic_nocache :: "cpu_env \<Rightarrow> u64 \<Rightarrow> u64 \<Rightarrow> u32 \<Rightarrow> int" where
  "copy_from_user_inatomic_nocache ce dst src n = as_int (copy_nocache ce dst src n False)"

subsection \<open>Copies by the DMA engine with the CPU behind it\<close>

type_synonym 'd dma_copy = "request_copy \<Rightarrow> 'd kstate \<Rightarrow> (int \<times> request_copy \<times> 'd kstate) outcome option"

text \<open>The test of the four routines, which also says who copied: the DMA engine or the CPU.\<close>

definition dma_or_cpu :: "'d dma_copy \<Rightarrow> request_copy \<Rightarrow> int \<Rightarrow> 'd kstate \<Rightarrow> (int \<times> u16 \<times> 'd kstate) outcome option" where
  "dma_or_cpu dma r cpu_result ks = (case dma r ks of None \<Rightarrow> None | Some (Inl e) \<Rightarrow> Some (Inl e)
     | Some (Inr (ret, r1, ks1)) \<Rightarrow>
         if ret < 0 \<or> rq_status r1 \<noteq> DMA_SUCCESS then Some (Inr (cpu_result, OP_COPY_CPU, ks1))
         else Some (Inr (ret, OP_COPY_DMA, ks1)))"

definition forget_op :: "(int \<times> u16 \<times> 'd kstate) outcome option \<Rightarrow> (int \<times> 'd kstate) outcome option" where
  "forget_op res = map_option (map_sum id (\<lambda>(ret, op, ks). (ret, ks))) res"

text \<open>
  \<^verbatim>\<open>copy_from_user_dma_pure\<close> keeps its result in an \<^verbatim>\<open>int\<close>, which its \<^verbatim>\<open>unsigned long\<close> result extends.
\<close>

definition copy_from_user_dma_pure :: "cpu_env \<Rightarrow> 'd dma_copy \<Rightarrow> u64 \<Rightarrow> u64 \<Rightarrow> u64 \<Rightarrow> 'd kstate \<Rightarrow> (u64 \<times> 'd kstate) outcome option" where
  "copy_from_user_dma_pure ce dma to fr n ks = map_option (map_sum id (\<lambda>(ret, ks1). (word_of_int ret, ks1)))
     (forget_op (dma_or_cpu dma (init_req_copy fr to n) (as_int (ucast (copy_from_user_pure ce to fr n))) ks))"

definition copy_to_user_dma_pure :: "cpu_env \<Rightarrow> 'd dma_copy \<Rightarrow> u64 \<Rightarrow> u64 \<Rightarrow> u32 \<Rightarrow> 'd kstate \<Rightarrow> (int \<times> 'd kstate) outcome option" where
  "copy_to_user_dma_pure ce dma dst src n ks =
     forget_op (dma_or_cpu dma (init_req_copy dst src (ucast n)) (copy_to_user_pure ce dst src n) ks)"

definition copy_from_user_dma_pure_inl :: "cpu_env \<Rightarrow> 'd dma_copy \<Rightarrow> u64 \<Rightarrow> u64 \<Rightarrow> u32 \<Rightarrow> 'd kstate \<Rightarrow> (int \<times> 'd kstate) outcome option" where
  "copy_from_user_dma_pure_inl ce dma dst src n ks =
     forget_op (dma_or_cpu dma (init_req_copy src dst (ucast n)) (copy_from_user_pure_inl ce dst src n) ks)"

definition copy_to_user_dma_pure_inl :: "cpu_env \<Rightarrow> 'd dma_copy \<Rightarrow> u64 \<Rightarrow> u64 \<Rightarrow> u32 \<Rightarrow> 'd kstate \<Rightarrow> (int \<times> 'd kstate) outcome option" where
  "copy_to_user_dma_pure_inl ce dma dst src n ks =
     forget_op (dma_or_cpu dma (init_req_copy dst src (ucast n)) (copy_to_user_pure_inl ce dst src n) ks)"

subsection \<open>Traced copies\<close>

text \<open>Four rings per CPU: one for each routine.\<close>

datatype ring = Mem_Buff_From | Mem_Buff_To | Mem_Buff_From_Inl | Mem_Buff_To_Inl

record 'd trace_state =
  ts_k :: "'d kstate"
  rings :: "ring \<Rightarrow> nat \<Rightarrow> CircularBuffer"

text \<open>The end of a measurement: the record goes to the ring of the CPU that finishes the copy.\<close>

definition record_copy :: "cpu_env \<Rightarrow> ring \<Rightarrow> u16 \<Rightarrow> u64 \<Rightarrow> 'd trace_state \<Rightarrow> 'd trace_state outcome" where
  "record_copy ce b op copied ts =
     (let c = cpu_after ce in
      case get_counter (rings ts b c) of (cnt, cb1) \<Rightarrow>
        seq_ok (cbWrite cb1 \<lparr>index_cpu_event = of_nat c, ub_count_event = cnt, ub_addr = return_address ce, ub_size = copied,
            type_op = op, index_cpu = of_nat (cpu_before ce), clock_cpu_start = clock_before ce (cpu_before ce),
            clock_cpu_end = clock_after ce (cpu_before ce)\<rparr>)
          (\<lambda>cb2. Inr (ts\<lparr>rings := (rings ts)(b := (rings ts b)(c := cb2))\<rparr>)))"

definition traced :: "cpu_env \<Rightarrow> ring \<Rightarrow> ('r \<Rightarrow> u64) \<Rightarrow> ('r \<times> u16 \<times> 'd kstate) outcome option \<Rightarrow> 'd trace_state
    \<Rightarrow> ('r \<times> 'd trace_state) outcome option" where
  "traced ce b copied res ts = (case res of None \<Rightarrow> None | Some (Inl e) \<Rightarrow> Some (Inl e)
     | Some (Inr (ret, op, ks)) \<Rightarrow>
         Some (seq_ok (record_copy ce b op (copied ret) (ts\<lparr>ts_k := ks\<rparr>)) (\<lambda>ts1. Inr (ret, ts1))))"

text \<open>
  The copy inside \<^verbatim>\<open>copy_from_user\<close>: the variable is unsigned, so that only the status is tested.
  Without the DMA configuration the CPU copies.
\<close>

definition copy_from_user_step :: "cpu_env \<Rightarrow> 'd dma_copy option \<Rightarrow> u64 \<Rightarrow> u64 \<Rightarrow> u64 \<Rightarrow> 'd kstate
    \<Rightarrow> (u64 \<times> u16 \<times> 'd kstate) outcome option" where
  "copy_from_user_step ce dma to fr n ks = (case dma of
     None \<Rightarrow> Some (Inr (copy_from_user_pure ce to fr n, OP_COPY_CPU, ks))
   | Some f \<Rightarrow> (case f (init_req_copy fr to n) ks of None \<Rightarrow> None | Some (Inl e) \<Rightarrow> Some (Inl e)
       | Some (Inr (ret, r1, ks1)) \<Rightarrow>
           if rq_status r1 \<noteq> DMA_SUCCESS then Some (Inr (copy_from_user_pure ce to fr (rq_len r1), OP_COPY_CPU, ks1))
           else Some (Inr (word_of_int ret, OP_COPY_DMA, ks1))))"

definition int_step :: "'d dma_copy option \<Rightarrow> request_copy \<Rightarrow> int \<Rightarrow> 'd kstate \<Rightarrow> (int \<times> u16 \<times> 'd kstate) outcome option" where
  "int_step dma r cpu_result ks = (case dma of None \<Rightarrow> Some (Inr (cpu_result, OP_COPY_CPU, ks))
     | Some f \<Rightarrow> dma_or_cpu f r cpu_result ks)"

definition copy_from_user_traced :: "cpu_env \<Rightarrow> 'd dma_copy option \<Rightarrow> u64 \<Rightarrow> u64 \<Rightarrow> u64 \<Rightarrow> 'd trace_state
    \<Rightarrow> (u64 \<times> 'd trace_state) outcome option" where
  "copy_from_user_traced ce dma to fr n ts =
     traced ce Mem_Buff_From (\<lambda>left. n - left) (copy_from_user_step ce dma to fr n (ts_k ts)) ts"

definition copy_to_user_traced :: "cpu_env \<Rightarrow> 'd dma_copy option \<Rightarrow> u64 \<Rightarrow> u64 \<Rightarrow> u32 \<Rightarrow> 'd trace_state
    \<Rightarrow> (int \<times> 'd trace_state) outcome option" where
  "copy_to_user_traced ce dma dst src n ts = traced ce Mem_Buff_To (\<lambda>left. ucast (n - word_of_int left))
     (int_step dma (init_req_copy dst src (ucast n)) (copy_to_user_pure ce dst src n) (ts_k ts)) ts"

definition copy_from_user_inl_traced :: "cpu_env \<Rightarrow> 'd dma_copy option \<Rightarrow> u64 \<Rightarrow> u64 \<Rightarrow> u32 \<Rightarrow> 'd trace_state
    \<Rightarrow> (int \<times> 'd trace_state) outcome option" where
  "copy_from_user_inl_traced ce dma dst src n ts = traced ce Mem_Buff_From_Inl (\<lambda>left. ucast n - word_of_int left)
     (int_step dma (init_req_copy src dst (ucast n)) (copy_from_user_pure_inl ce dst src n) (ts_k ts)) ts"

definition copy_to_user_inl_traced :: "cpu_env \<Rightarrow> 'd dma_copy option \<Rightarrow> u64 \<Rightarrow> u64 \<Rightarrow> u32 \<Rightarrow> 'd trace_state
    \<Rightarrow> (int \<times> 'd trace_state) outcome option" where
  "copy_to_user_inl_traced ce dma dst src n ts = traced ce Mem_Buff_To_Inl (\<lambda>left. ucast n - word_of_int left)
     (int_step dma (init_req_copy dst src (ucast n)) (copy_to_user_pure_inl ce dst src n) (ts_k ts)) ts"

subsection \<open>The routines without tracing\<close>

definition copy_from_user :: "cpu_env \<Rightarrow> 'd dma_copy option \<Rightarrow> u64 \<Rightarrow> u64 \<Rightarrow> u64 \<Rightarrow> 'd kstate \<Rightarrow> (u64 \<times> 'd kstate) outcome option" where
  "copy_from_user ce dma to fr n ks = (case dma of None \<Rightarrow> Some (Inr (copy_from_user_pure ce to fr n, ks))
     | Some f \<Rightarrow> copy_from_user_dma_pure ce f to fr n ks)"

definition copy_to_user :: "cpu_env \<Rightarrow> 'd dma_copy option \<Rightarrow> u64 \<Rightarrow> u64 \<Rightarrow> u32 \<Rightarrow> 'd kstate \<Rightarrow> (int \<times> 'd kstate) outcome option" where
  "copy_to_user ce dma dst src n ks = (case dma of None \<Rightarrow> Some (Inr (copy_to_user_pure ce dst src n, ks))
     | Some f \<Rightarrow> copy_to_user_dma_pure ce f dst src n ks)"

definition copy_from_user_inl :: "cpu_env \<Rightarrow> 'd dma_copy option \<Rightarrow> u64 \<Rightarrow> u64 \<Rightarrow> u32 \<Rightarrow> 'd kstate \<Rightarrow> (int \<times> 'd kstate) outcome option" where
  "copy_from_user_inl ce dma dst src n ks = (case dma of None \<Rightarrow> Some (Inr (copy_from_user_pure_inl ce dst src n, ks))
     | Some f \<Rightarrow> copy_from_user_dma_pure_inl ce f dst src n ks)"

definition copy_to_user_inl :: "cpu_env \<Rightarrow> 'd dma_copy option \<Rightarrow> u64 \<Rightarrow> u64 \<Rightarrow> u32 \<Rightarrow> 'd kstate \<Rightarrow> (int \<times> 'd kstate) outcome option" where
  "copy_to_user_inl ce dma dst src n ks = (case dma of None \<Rightarrow> Some (Inr (copy_to_user_pure_inl ce dst src n, ks))
     | Some f \<Rightarrow> copy_to_user_dma_pure_inl ce f dst src n ks)"

subsection \<open>What the requests keep\<close>

lemma unpin_keeps_request:
  assumes "dma_unpin_user_pages r dirty ks = Inr (r', ks')"
  shows "rq_len r' = rq_len r \<and> rq_status r' = rq_status r"
  using assms by (auto simp: dma_unpin_user_pages_def seq_ok_eq_Inr_iff split: page_array.splits)

lemma pin_keeps_request:
  assumes "dma_pin_user_pages pe r wr fo ks = Inr (c, r', ks')"
  shows "rq_len r' = rq_len r \<and> rq_status r' = rq_status r"
  using assms unpin_keeps_request
  by (fastforce simp: dma_pin_user_pages_def pin_pages_def pin_fail_def Let_def seq_ok_eq_Inr_iff
      split: if_splits option.splits prod.splits)

lemma raw_copy_keeps_length:
  assumes "copy_raw we xf chan r s = Some (Inr (ret, r', s'))"
  shows "rq_len r' = rq_len r \<and> ret = 0"
  using assms by (auto simp: copy_raw_def Let_def split: page_array.splits option.splits sum.splits)

lemma kernel_copy_keeps_length:
  assumes "kernel_copy we xf r s = Some (Inr (ret, r', s'))"
  shows "rq_len r' = rq_len r \<and> ret = 0"
  using assms by (auto simp: kernel_copy_def split: option.splits sum.splits)

lemma on_engine_eq:
  "on_engine f ks = Some (Inr (ret, r, ks')) \<longleftrightarrow> (\<exists>s. f (eng ks) = Some (Inr (ret, r, s)) \<and> ks' = ks\<lparr>eng := s\<rparr>)"
  by (auto simp: on_engine_def split: option.splits sum.splits)

lemma unpin_after_eq:
  "unpin_after dirty res = Some (Inr (ret, r', ks')) \<longleftrightarrow>
    (\<exists>r ks. res = Some (Inr (ret, r, ks)) \<and> dma_unpin_user_pages r dirty ks = Inr (r', ks'))"
  by (auto simp: unpin_after_def seq_ok_eq_Inr_iff split: option.splits sum.splits)

text \<open>A negative result is an early return: the request then has the status it came with.\<close>

lemma failed_copy_keeps_status:
  assumes "dma_copy_from_user cfg me env we pe r ks = Some (Inr (ret, r', ks'))"
  shows "rq_len r' = rq_len r \<and> (ret < 0 \<longrightarrow> rq_status r' = rq_status r)"
proof -
  have raw: "rq_len r2 = rq_len r1 \<and> ret1 = 0" if "dma_copy_from_user_raw me env we r1 s = Some (Inr (ret1, r2, s'))" for r1 r2 s s' ret1
    using that by (auto simp: dma_copy_from_user_raw_def split: option.splits dest!: raw_copy_keeps_length)
  have krn: "rq_len r2 = rq_len r1 \<and> ret1 = 0" if "dma_copy_from_kernel me env we r1 s = Some (Inr (ret1, r2, s'))" for r1 r2 s s' ret1
    using that by (auto simp: dma_copy_from_kernel_def dest!: kernel_copy_keeps_length)
  show ?thesis
    using assms
    by (auto simp: dma_copy_from_user_def Let_def on_engine_eq unpin_after_eq split: if_splits sum.splits prod.splits
        dest!: pin_keeps_request unpin_keeps_request raw krn)
qed

subsection \<open>Tracing does not change a copy\<close>

text \<open>
  The record \<open>u\<close> is appended to one ring (or lost when that ring is full); every other ring is untouched.
\<close>

definition appended :: "ring \<Rightarrow> nat \<Rightarrow> unit_buff \<Rightarrow> 'd trace_state \<Rightarrow> 'd trace_state \<Rightarrow> bool" where
  "appended b c u ts ts' \<longleftrightarrow> cb_wf (rings ts' b c) \<and>
     cb_list (rings ts' b c) = take (cb_capacity (rings ts b c)) (cb_list (rings ts b c) @ [u]) \<and>
     (\<forall>b' c'. (b', c') \<noteq> (b, c) \<longrightarrow> rings ts' b' c' = rings ts b' c')"

definition copied_by_dma :: "'d dma_copy option \<Rightarrow> request_copy \<Rightarrow> 'd kstate \<Rightarrow> bool" where
  "copied_by_dma dma r ks = (case dma of None \<Rightarrow> False | Some f \<Rightarrow>
     (case f r ks of Some (Inr (ret, r1, _)) \<Rightarrow> 0 \<le> ret \<and> rq_status r1 = DMA_SUCCESS | _ \<Rightarrow> False))"

text \<open>
  What a traced routine owes its untraced counterpart: the same result, fault or endless wait, the
  same kernel state, and one record that names the bytes copied, who copied them and the two CPUs.
\<close>

definition transparent :: "cpu_env \<Rightarrow> ring \<Rightarrow> ('r \<Rightarrow> u64) \<Rightarrow> bool \<Rightarrow> ('r \<times> 'd kstate) outcome option
    \<Rightarrow> ('r \<times> 'd trace_state) outcome option \<Rightarrow> 'd trace_state \<Rightarrow> bool" where
  "transparent ce b copied by_dma plain tr ts = (case plain of
     None \<Rightarrow> tr = None
   | Some (Inl e) \<Rightarrow> tr = Some (Inl e)
   | Some (Inr (ret, ks)) \<Rightarrow>
       (\<exists>ts' u. tr = Some (Inr (ret, ts')) \<and> ts_k ts' = ks \<and> appended b (cpu_after ce) u ts ts' \<and>
          ub_size u = copied ret \<and> type_op u = (if by_dma then OP_COPY_DMA else OP_COPY_CPU) \<and>
          index_cpu u = of_nat (cpu_before ce) \<and> index_cpu_event u = of_nat (cpu_after ce) \<and>
          ub_count_event u = count_event (rings ts b (cpu_after ce)) + 1))"

lemma counter_keeps_ring [simp]:
  "cb_wf (cb\<lparr>count_event := k\<rparr>) = cb_wf cb" "cb_list (cb\<lparr>count_event := k\<rparr>) = cb_list cb"
  "cb_capacity (cb\<lparr>count_event := k\<rparr>) = cb_capacity cb"
  by (simp_all add: cb_wf_def cb_list_def cb_used_def cb_capacity_def split: option.split)

lemma record_copy_appends:
  assumes "cb_wf (rings ts b (cpu_after ce))"
  shows "\<exists>ts' u. record_copy ce b op sz ts = Inr ts' \<and> ts_k ts' = ts_k ts \<and> appended b (cpu_after ce) u ts ts' \<and>
    ub_size u = sz \<and> type_op u = op \<and> index_cpu u = of_nat (cpu_before ce) \<and> index_cpu_event u = of_nat (cpu_after ce) \<and>
    ub_count_event u = count_event (rings ts b (cpu_after ce)) + 1"
proof -
  let ?c = "cpu_after ce"
  let ?cb = "rings ts b ?c"
  let ?u = "\<lparr>index_cpu_event = of_nat ?c, ub_count_event = count_event ?cb + 1, ub_addr = return_address ce, ub_size = sz,
    type_op = op, index_cpu = of_nat (cpu_before ce), clock_cpu_start = clock_before ce (cpu_before ce),
    clock_cpu_end = clock_after ce (cpu_before ce)\<rparr>"
  obtain cb' where w: "cbWrite (?cb\<lparr>count_event := count_event ?cb + 1\<rparr>) ?u = Inr cb'" "cb_wf cb'"
      "cb_list cb' = take (cb_capacity ?cb) (cb_list ?cb @ [?u])"
    using cb_fifo.put_step [of "?cb\<lparr>count_event := count_event ?cb + 1\<rparr>" ?u] assms by auto
  let ?ts = "ts\<lparr>rings := (rings ts)(b := (rings ts b)(?c := cb'))\<rparr>"
  have "record_copy ce b op sz ts = Inr ?ts"
    using w(1) by (simp add: record_copy_def get_counter_def Let_def)
  moreover have "appended b ?c ?u ts ?ts"
    using w(2,3) by (auto simp: appended_def)
  ultimately show ?thesis by (intro exI [of _ ?ts] exI [of _ ?u]) simp
qed

lemma traced_transparent:
  assumes "cb_wf (rings ts b (cpu_after ce))"
    and "\<And>ret op ks. res = Some (Inr (ret, op, ks)) \<Longrightarrow> op = (if by_dma then OP_COPY_DMA else OP_COPY_CPU)"
  shows "transparent ce b copied by_dma (map_option (map_sum id (\<lambda>(ret, op, ks). (ret, ks))) res) (traced ce b copied res ts) ts"
proof (cases "\<exists>ret op ks. res = Some (Inr (ret, op, ks))")
  case True
  then obtain ret op ks where res: "res = Some (Inr (ret, op, ks))" by blast
  have "cb_wf (rings (ts\<lparr>ts_k := ks\<rparr>) b (cpu_after ce))" using assms(1) by simp
  from record_copy_appends [OF this, of op "copied ret"] obtain ts' u where
    "record_copy ce b op (copied ret) (ts\<lparr>ts_k := ks\<rparr>) = Inr ts'" "ts_k ts' = ks" "appended b (cpu_after ce) u ts ts'"
    "ub_size u = copied ret" "type_op u = op" "index_cpu u = of_nat (cpu_before ce)" "index_cpu_event u = of_nat (cpu_after ce)"
    "ub_count_event u = count_event (rings ts b (cpu_after ce)) + 1"
    by (auto simp: appended_def)
  then show ?thesis
    using assms(2) [OF res] by (auto simp: transparent_def traced_def res)
qed (auto simp: transparent_def traced_def split: option.splits sum.splits)

lemma int_step_op:
  assumes "int_step dma r cpu ks = Some (Inr (ret, op, ks'))"
  shows "op = (if copied_by_dma dma r ks then OP_COPY_DMA else OP_COPY_CPU)"
  using assms by (auto simp: int_step_def dma_or_cpu_def copied_by_dma_def split: option.splits sum.splits if_splits)

lemma int_step_transparent:
  assumes "cb_wf (rings ts b (cpu_after ce))"
    and "plain = (case dma of None \<Rightarrow> Some (Inr (cpu, ts_k ts)) | Some f \<Rightarrow> forget_op (dma_or_cpu f r cpu (ts_k ts)))"
  shows "transparent ce b copied (copied_by_dma dma r (ts_k ts)) plain
    (traced ce b copied (int_step dma r cpu (ts_k ts)) ts) ts"
proof -
  have "plain = map_option (map_sum id (\<lambda>(ret, op, ks). (ret, ks))) (int_step dma r cpu (ts_k ts))"
    by (simp add: assms(2) int_step_def forget_op_def split: option.splits)
  then show ?thesis by (simp only:) (rule traced_transparent [OF assms(1) int_step_op])
qed

definition leaves_at_most :: "cpu_env \<Rightarrow> bool" where
  "leaves_at_most ce \<longleftrightarrow> (\<forall>to fr k. unat (copy_from_oob ce to fr k) \<le> unat k)"

lemma copy_from_user_pure_small:
  assumes "leaves_at_most ce" and "unat n < 2 ^ 31"
  shows "unat (copy_from_user_pure ce to fr n) < 2 ^ 31"
proof -
  have "unat (ucast n :: u32) = unat n" using assms(2) by (simp add: unsigned_ucast_eq take_bit_nat_eq_self)
  then have "unat (copy_from_oob ce to fr (ucast n)) \<le> unat n" using assms(1) unfolding leaves_at_most_def by metis
  then show ?thesis using assms(2) by (simp add: copy_from_user_pure_def Let_def)
qed

lemma int_of_small:
  assumes "unat (x :: u64) < 2 ^ 31"
  shows "word_of_int (as_int (ucast x)) = x"
proof -
  have u: "unat (ucast x :: u32) = unat x" using assms by (simp add: unsigned_ucast_eq take_bit_nat_eq_self)
  then have "as_int (ucast x) = int (unat x)" using assms by (simp add: as_int_def sint_unat_small)
  then show ?thesis by simp
qed

lemma copy_from_user_step_plain:
  assumes "leaves_at_most ce" and "unat n < 2 ^ 31" and "dma = None \<or> dma = Some (dma_copy_from_user cfg me env we pe)"
  shows "copy_from_user ce dma to fr n ks =
    map_option (map_sum id (\<lambda>(ret, op, ks). (ret, ks))) (copy_from_user_step ce dma to fr n ks)"
proof -
  have cpu: "word_of_int (as_int (ucast (copy_from_user_pure ce to fr n))) = copy_from_user_pure ce to fr n"
    by (rule int_of_small [OF copy_from_user_pure_small [OF assms(1,2)]])
  show ?thesis
    using assms(3) cpu
    by (auto simp: copy_from_user_def copy_from_user_step_def copy_from_user_dma_pure_def forget_op_def dma_or_cpu_def
        init_req_copy_def split: option.splits sum.splits dest!: failed_copy_keeps_status)
qed

lemma copy_from_user_step_op:
  assumes "dma = None \<or> dma = Some (dma_copy_from_user cfg me env we pe)"
    and "copy_from_user_step ce dma to fr n ks = Some (Inr (ret, op, ks'))"
  shows "op = (if copied_by_dma dma (init_req_copy fr to n) ks then OP_COPY_DMA else OP_COPY_CPU)"
proof -
  have "0 \<le> ret1" if "dma_copy_from_user cfg me env we pe (init_req_copy fr to n) ks = Some (Inr (ret1, r1, ks1))"
    and "rq_status r1 = DMA_SUCCESS" for ret1 r1 ks1
    using failed_copy_keeps_status [OF that(1)] that(2) by (cases "ret1 < 0") (auto simp: init_req_copy_def)
  then show ?thesis
    using assms by (auto simp: copy_from_user_step_def copied_by_dma_def split: option.splits sum.splits if_splits)
qed

lemma traced_routines:
  assumes "\<forall>b. cb_wf (rings ts b (cpu_after ce))"
    and "dma_from = None \<or> dma_from = Some (dma_copy_from_user cfg me env we pe)"
    and "leaves_at_most ce" and "unat n < 2 ^ 31"
  shows "transparent ce Mem_Buff_From (\<lambda>left. n - left) (copied_by_dma dma_from (init_req_copy user kern n) (ts_k ts))
      (copy_from_user ce dma_from kern user n (ts_k ts)) (copy_from_user_traced ce dma_from kern user n ts) ts"
    and "transparent ce Mem_Buff_To (\<lambda>left. ucast (m - word_of_int left))
      (copied_by_dma dma_to (init_req_copy user kern (ucast m)) (ts_k ts))
      (copy_to_user ce dma_to user kern m (ts_k ts)) (copy_to_user_traced ce dma_to user kern m ts) ts"
    and "transparent ce Mem_Buff_From_Inl (\<lambda>left. ucast m - word_of_int left)
      (copied_by_dma dma_from (init_req_copy user kern (ucast m)) (ts_k ts))
      (copy_from_user_inl ce dma_from kern user m (ts_k ts)) (copy_from_user_inl_traced ce dma_from kern user m ts) ts"
    and "transparent ce Mem_Buff_To_Inl (\<lambda>left. ucast m - word_of_int left)
      (copied_by_dma dma_to (init_req_copy user kern (ucast m)) (ts_k ts))
      (copy_to_user_inl ce dma_to user kern m (ts_k ts)) (copy_to_user_inl_traced ce dma_to user kern m ts) ts"
proof -
  note wf = spec [OF assms(1)]
  show "transparent ce Mem_Buff_From (\<lambda>left. n - left) (copied_by_dma dma_from (init_req_copy user kern n) (ts_k ts))
      (copy_from_user ce dma_from kern user n (ts_k ts)) (copy_from_user_traced ce dma_from kern user n ts) ts"
    unfolding copy_from_user_traced_def copy_from_user_step_plain [OF assms(3,4,2)]
    by (rule traced_transparent [OF wf copy_from_user_step_op [OF assms(2)]])
qed (auto simp: copy_to_user_traced_def copy_from_user_inl_traced_def copy_to_user_inl_traced_def copy_to_user_def
      copy_from_user_inl_def copy_to_user_inl_def copy_to_user_dma_pure_def copy_from_user_dma_pure_inl_def
      copy_to_user_dma_pure_inl_def split: option.splits intro!: int_step_transparent spec [OF assms(1)])

text \<open>
  C30. Tracing is transparent: each of the four traced routines returns what its untraced counterpart
  returns, leaves the same kernel state, faults and waits exactly when it does, and appends one record
  with the bytes copied, whether the DMA engine or the CPU copied them, and the two CPUs. For
  \<open>copy_from_user\<close>, which tests an unsigned variable for a negative value, this rests on the
  DMA routines keeping the initial status on every negative result.
\<close>

theorem tracing_is_transparent:
  assumes "\<forall>b. cb_wf (rings ts b (cpu_after ce))"
    and "dma_from = None \<or> dma_from = Some (dma_copy_from_user cfg me env we pe)"
    and "leaves_at_most ce" and "unat n < 2 ^ 31"
  shows "transparent ce Mem_Buff_From (\<lambda>left. n - left) (copied_by_dma dma_from (init_req_copy user kern n) (ts_k ts))
      (copy_from_user ce dma_from kern user n (ts_k ts)) (copy_from_user_traced ce dma_from kern user n ts) ts \<and>
    transparent ce Mem_Buff_To (\<lambda>left. ucast (m - word_of_int left))
      (copied_by_dma dma_to (init_req_copy user kern (ucast m)) (ts_k ts))
      (copy_to_user ce dma_to user kern m (ts_k ts)) (copy_to_user_traced ce dma_to user kern m ts) ts \<and>
    transparent ce Mem_Buff_From_Inl (\<lambda>left. ucast m - word_of_int left)
      (copied_by_dma dma_from (init_req_copy user kern (ucast m)) (ts_k ts))
      (copy_from_user_inl ce dma_from kern user m (ts_k ts)) (copy_from_user_inl_traced ce dma_from kern user m ts) ts \<and>
    transparent ce Mem_Buff_To_Inl (\<lambda>left. ucast m - word_of_int left)
      (copied_by_dma dma_to (init_req_copy user kern (ucast m)) (ts_k ts))
      (copy_to_user_inl ce dma_to user kern m (ts_k ts)) (copy_to_user_inl_traced ce dma_to user kern m ts) ts"
  using traced_routines [OF assms] by blast

definition demo_ce :: cpu_env where
  "demo_ce = \<lparr>copy_from_oob = (\<lambda>_ _ k. if k = 0 then 0 else 1), copy_to_oob = (\<lambda>_ _ _. 0), copy_generic = (\<lambda>_ _ _. 0),
     copy_nocache = (\<lambda>_ _ _ _. 0), get_faults = (\<lambda>_ _. False), put_faults = (\<lambda>_ _. False), object_size = (\<lambda>_. - 1),
     const_size = False, cpu_before = 2, cpu_after = 1, clock_before = (\<lambda>_. 10), clock_after = (\<lambda>_. 30), return_address = 77\<rparr>"

definition demo_ts :: "unit trace_state" where
  "demo_ts = \<lparr>ts_k = demo_kstate\<lparr>eng := (demo_engine 1)\<lparr>percpu_chan_copy := (\<lambda>_. \<lparr>cc_chan = None, cc_use = 0\<rparr>)\<rparr>\<rparr>,
     rings = (\<lambda>_ _. cbInit True \<lparr>count_event = 0, cb_start = 0, cb_end = 0, cb_size = 0, array_element = None\<rparr>)\<rparr>"

text \<open>The channel of the CPU is missing, so that the CPU copies, all bytes but one.\<close>

theorem tracing_is_transparent_witness:
  "\<exists>ts' u. copy_from_user_traced demo_ce (Some (dma_copy_from_user CONFIG_EXCL \<lparr>map_single = (\<lambda>_ _ _. 1), map_page = (\<lambda>_ _ _ _. 1)\<rparr>
      demo_env \<lparr>expired = (\<lambda>i. 3 \<le> i), hw = (\<lambda>_ d. d)\<rparr> demo_pin_env)) 100000 8000 5000 demo_ts = Some (Inr (1, ts')) \<and>
    cb_list (rings ts' Mem_Buff_From 1) = [u] \<and> ub_size u = 4999 \<and> type_op u = OP_COPY_CPU"
proof -
  let ?dma = "dma_copy_from_user CONFIG_EXCL \<lparr>map_single = (\<lambda>_ _ _. 1), map_page = (\<lambda>_ _ _ _. 1)\<rparr>
      demo_env \<lparr>expired = (\<lambda>i. 3 \<le> i), hw = (\<lambda>_ d. d)\<rparr> demo_pin_env"
  have wf: "\<forall>b. cb_wf (rings demo_ts b (cpu_after demo_ce))" by (simp add: demo_ts_def cbInit_wf)
  have lv: "leaves_at_most demo_ce" by (simp add: leaves_at_most_def demo_ce_def unat_gt_0 Suc_le_eq)
  have "?dma (init_req_copy 8000 100000 5000) (ts_k demo_ts) = Some (Inr (- 16, init_req_copy 8000 100000 5000, ts_k demo_ts))"
    by (simp add: dma_copy_from_user_def init_req_copy_def copy_dma_get_channel_boot_def copy_aligned_def demo_ts_def)
  then have "copy_from_user demo_ce (Some ?dma) 100000 8000 5000 (ts_k demo_ts) = Some (Inr (1, ts_k demo_ts))"
    and "\<not> copied_by_dma (Some ?dma) (init_req_copy 8000 100000 5000) (ts_k demo_ts)"
    by (simp_all add: copy_from_user_def copy_from_user_dma_pure_def forget_op_def dma_or_cpu_def copied_by_dma_def
        copy_from_user_pure_def demo_ce_def as_int_def)
  then show ?thesis
    using tracing_is_transparent [OF wf disjI2 [OF refl] lv, where cfg = CONFIG_EXCL and env = demo_env and pe = demo_pin_env and n = 5000 and
        user = 8000 and kern = 100000 and me = "\<lparr>map_single = (\<lambda>_ _ _. 1), map_page = (\<lambda>_ _ _ _. 1)\<rparr>" and
        we = "\<lparr>expired = (\<lambda>i. 3 \<le> i), hw = (\<lambda>_ d. d)\<rparr>"]
    by (fastforce simp: transparent_def appended_def demo_ts_def demo_ce_def cbInit_wf)
qed

end
