(* ===== verification/Char_Devices.thy ===== *)
theory Char_Devices
  imports Prelude
begin

text \<open>
  The character devices of the four modules of the repository, \<^verbatim>\<open>src/trace/driver\<close> and
  \<^verbatim>\<open>src/micro-benchmark_*/driver\<close>. Their \<^verbatim>\<open>driverops.c\<close> and \<^verbatim>\<open>*_register_driver\<close> have the same bodies; they are
  modelled once, on the fields every module has: the device numbers of its devices, the range
  of numbers, the class, the character devices and the sysfs devices in place. The kernel's routines are
  parameters, in \<open>chr_env\<close>: their results for each minor number.

  The locale \<open>chr_module\<close> is the contract between this layer and a module: the module prepares its memory
  and releases it, and loading and unloading it is then all or nothing.
\<close>

subsection \<open>Registration\<close>

type_synonym dev_t = "(nat \<times> nat) option"

record chr_devs =
  devts :: "dev_t list"
  base_dev :: dev_t
  dev_class :: bool
  cdevs :: "nat list"
  devices :: "dev_t list"

record chr_env =
  alloc_chrdev_region :: "int + nat"
  class_create_err :: "int option"
  cdev_add_result :: "nat \<Rightarrow> int"
  device_create_err :: "nat \<Rightarrow> int option"

definition cdev_del :: "nat \<Rightarrow> 'a chr_devs_scheme \<Rightarrow> 'a chr_devs_scheme" where
  "cdev_del i s = s\<lparr>cdevs := removeAll i (cdevs s)\<rparr>"

definition device_destroy :: "nat \<Rightarrow> 'a chr_devs_scheme \<Rightarrow> 'a chr_devs_scheme" where
  "device_destroy i s = s\<lparr>devices := removeAll (devts s ! i) (devices s)\<rparr>"

definition all_device_destroy :: "nat \<Rightarrow> 'a chr_devs_scheme \<Rightarrow> 'a chr_devs_scheme" where
  "all_device_destroy sz s = fold device_destroy [0 ..< sz] s"

definition all_driver_del_chardev :: "nat \<Rightarrow> 'a chr_devs_scheme \<Rightarrow> 'a chr_devs_scheme" where
  "all_driver_del_chardev sz s = fold cdev_del [0 ..< sz] s"

text \<open>The unwinding loops: from the last one made down to the first.\<close>

primrec unwind :: "(nat \<Rightarrow> 'a \<Rightarrow> 'a) \<Rightarrow> nat \<Rightarrow> 'a \<Rightarrow> 'a" where
  "unwind f 0 s = s"
| "unwind f (Suc i) s = unwind f i (f i s)"

fun add_chardevs :: "chr_env \<Rightarrow> nat \<Rightarrow> nat \<Rightarrow> nat \<Rightarrow> int \<Rightarrow> 'a chr_devs_scheme \<Rightarrow> int \<times> 'a chr_devs_scheme" where
  "add_chardevs env driver_major 0 i ret s = (ret, s)"
| "add_chardevs env driver_major (Suc n) i ret s =
     (let s1 = s\<lparr>devts := (devts s)[i := Some (driver_major, i)]\<rparr>;
          r = cdev_add_result env i
      in if r < 0 then (r, unwind cdev_del i s1)
         else add_chardevs env driver_major n (i + 1) r (s1\<lparr>cdevs := i # cdevs s1\<rparr>))"

definition driver_add_chardev :: "chr_env \<Rightarrow> nat \<Rightarrow> nat \<Rightarrow> 'a chr_devs_scheme \<Rightarrow> int \<times> 'a chr_devs_scheme" where
  "driver_add_chardev env sz driver_major s = add_chardevs env driver_major sz 0 0 s"

fun create_devices :: "chr_env \<Rightarrow> nat \<Rightarrow> nat \<Rightarrow> 'a chr_devs_scheme \<Rightarrow> int \<times> 'a chr_devs_scheme" where
  "create_devices env 0 i s = (0, s)"
| "create_devices env (Suc n) i s = (case device_create_err env i of
     Some r \<Rightarrow> (r, unwind device_destroy i s)
   | None \<Rightarrow> create_devices env n (i + 1) (s\<lparr>devices := devts s ! i # devices s\<rparr>))"

definition device_create_all :: "chr_env \<Rightarrow> nat \<Rightarrow> 'a chr_devs_scheme \<Rightarrow> int \<times> 'a chr_devs_scheme" where
  "device_create_all env sz s = create_devices env sz 0 s"

definition register_driver :: "chr_env \<Rightarrow> nat \<Rightarrow> 'a chr_devs_scheme \<Rightarrow> int \<times> 'a chr_devs_scheme" where
  "register_driver env sz s = (case alloc_chrdev_region env of
     Inl ret \<Rightarrow> (ret, s)
   | Inr major \<Rightarrow>
       let s1 = s\<lparr>base_dev := Some (major, 0)\<rparr>;
           err_class = (\<lambda>ret s. (ret, s\<lparr>base_dev := None\<rparr>));
           err_cdev = (\<lambda>ret s. err_class ret (s\<lparr>dev_class := False\<rparr>))
       in case class_create_err env of
            Some ret \<Rightarrow> err_class ret s1
          | None \<Rightarrow>
              (case driver_add_chardev env sz major (s1\<lparr>dev_class := True\<rparr>) of (ret, s2) \<Rightarrow>
               if ret < 0 then err_cdev ret s2
               else case device_create_all env sz s2 of (ret, s3) \<Rightarrow>
               if ret < 0 then err_cdev ret (all_driver_del_chardev sz s3)
               else (0, s3)))"

text \<open>The end of loading a module, and unloading it; both work on the module's own memory as well.\<close>

definition register_or_release :: "('a chr_devs_scheme \<Rightarrow> 'a chr_devs_scheme outcome) \<Rightarrow> chr_env \<Rightarrow> nat \<Rightarrow> 'a chr_devs_scheme
    \<Rightarrow> (int \<times> 'a chr_devs_scheme) outcome" where
  "register_or_release release env sz s = (case register_driver env sz s of (ret, s2) \<Rightarrow>
     if ret = 0 then Inr (0, s2) else seq_ok (release s2) (\<lambda>s3. Inr (ret, s3)))"

definition unregister :: "('a chr_devs_scheme \<Rightarrow> 'a chr_devs_scheme outcome) \<Rightarrow> nat \<Rightarrow> 'a chr_devs_scheme
    \<Rightarrow> 'a chr_devs_scheme outcome" where
  "unregister release sz s = (let s1 = all_driver_del_chardev sz (all_device_destroy sz s) in
     release (s1\<lparr>dev_class := False, base_dev := None\<rparr>))"

subsection \<open>What registration leaves\<close>

definition none_registered :: "'a chr_devs_scheme \<Rightarrow> bool" where
  "none_registered s \<longleftrightarrow> base_dev s = None \<and> \<not> dev_class s \<and> cdevs s = [] \<and> devices s = []"

definition all_registered :: "nat \<Rightarrow> nat \<Rightarrow> 'a chr_devs_scheme \<Rightarrow> bool" where
  "all_registered major sz s \<longleftrightarrow> base_dev s = Some (major, 0) \<and> dev_class s \<and> cdevs s = rev [0 ..< sz] \<and>
     devts s = map (\<lambda>i. Some (major, i)) [0 ..< sz] \<and> devices s = rev (devts s)"

text \<open>The kernel's routines report errors as negative numbers.\<close>

definition errors_negative :: "chr_env \<Rightarrow> bool" where
  "errors_negative env \<longleftrightarrow> (\<forall>r. alloc_chrdev_region env = Inl r \<longrightarrow> r < 0) \<and> (\<forall>r. class_create_err env = Some r \<longrightarrow> r < 0) \<and>
     (\<forall>i r. device_create_err env i = Some r \<longrightarrow> r < 0)"

lemma unwind_cdev_del: "unwind cdev_del i s = s\<lparr>cdevs := filter (\<lambda>k. i \<le> k) (cdevs s)\<rparr>"
proof (induction i arbitrary: s)
  case (Suc i)
  have "filter (\<lambda>k. i \<le> k) (removeAll i (cdevs s)) = filter (\<lambda>k. Suc i \<le> k) (cdevs s)"
    by (auto simp: removeAll_filter_not_eq filter_filter intro: filter_cong)
  then show ?case using Suc.IH [of "cdev_del i s"] by (simp add: cdev_del_def)
qed simp

lemma all_driver_del_chardev_eq: "all_driver_del_chardev sz s = s\<lparr>cdevs := filter (\<lambda>k. sz \<le> k) (cdevs s)\<rparr>"
proof (induction sz)
  case (Suc i)
  have "removeAll i (filter (\<lambda>k. i \<le> k) (cdevs s)) = filter (\<lambda>k. Suc i \<le> k) (cdevs s)"
    by (auto simp: removeAll_filter_not_eq filter_filter intro: filter_cong)
  then show ?case using Suc by (simp add: all_driver_del_chardev_def cdev_del_def)
qed (simp add: all_driver_del_chardev_def)

lemma filter_image_step:
  "filter (\<lambda>d. d \<notin> f ` {..<i}) (removeAll (f i) xs) = filter (\<lambda>d. d \<notin> f ` {..<Suc i}) xs"
  "removeAll (f i) (filter (\<lambda>d. d \<notin> f ` {..<i}) xs) = filter (\<lambda>d. d \<notin> f ` {..<Suc i}) xs"
  by (induction xs) (auto simp: lessThan_Suc)

lemma destroyed_devices:
  "unwind device_destroy i s = s\<lparr>devices := filter (\<lambda>d. d \<notin> (\<lambda>k. devts s ! k) ` {..<i}) (devices s)\<rparr>"
  "all_device_destroy i s = s\<lparr>devices := filter (\<lambda>d. d \<notin> (\<lambda>k. devts s ! k) ` {..<i}) (devices s)\<rparr>"
proof -
  show "unwind device_destroy i s = s\<lparr>devices := filter (\<lambda>d. d \<notin> (\<lambda>k. devts s ! k) ` {..<i}) (devices s)\<rparr>"
    by (induction i arbitrary: s) (simp_all add: device_destroy_def filter_image_step del: lessThan_Suc image_insert)
  show "all_device_destroy i s = s\<lparr>devices := filter (\<lambda>d. d \<notin> (\<lambda>k. devts s ! k) ` {..<i}) (devices s)\<rparr>"
    by (induction i) (simp_all add: all_device_destroy_def device_destroy_def filter_image_step)
qed

lemma add_chardevs_result:
  assumes "add_chardevs env major n i ret s = (r, s')" and "cdevs s = rev [0 ..< i]" and "length (devts s) = i + n"
    and "take i (devts s) = map (\<lambda>k. Some (major, k)) [0 ..< i]" and "0 \<le> ret"
  shows "s' = s\<lparr>devts := devts s', cdevs := cdevs s'\<rparr> \<and> length (devts s') = length (devts s) \<and>
    (if r < 0 then cdevs s' = [] else cdevs s' = rev [0 ..< i + n] \<and> devts s' = map (\<lambda>k. Some (major, k)) [0 ..< i + n])"
  using assms
proof (induction n arbitrary: i ret s)
  case 0
  then show ?case by simp
next
  case (Suc n)
  let ?s1 = "s\<lparr>devts := (devts s)[i := Some (major, i)]\<rparr>"
  let ?s2 = "?s1\<lparr>cdevs := i # cdevs s\<rparr>"
  show ?case
  proof (cases "cdev_add_result env i < 0")
    case True
    then show ?thesis using Suc.prems by (auto simp: unwind_cdev_del filter_empty_conv Let_def)
  next
    case False
    have t: "take (i + 1) (devts ?s2) = map (\<lambda>k. Some (major, k)) [0 ..< i + 1]"
      using Suc.prems(3,4) by (simp add: take_Suc_conv_app_nth)
    have "add_chardevs env major n (i + 1) (cdev_add_result env i) ?s2 = (r, s')"
      using Suc.prems(1) False by (simp add: Let_def)
    from Suc.IH [OF this _ _ t] Suc.prems(2,3) False
    have "s' = ?s2\<lparr>devts := devts s', cdevs := cdevs s'\<rparr> \<and> length (devts s') = length (devts s) \<and>
      (if r < 0 then cdevs s' = [] else cdevs s' = rev [0 ..< i + Suc n] \<and> devts s' = map (\<lambda>k. Some (major, k)) [0 ..< i + Suc n])"
      by simp
    then show ?thesis by simp
  qed
qed

lemma create_devices_result:
  assumes "create_devices env n i s = (r, s')" and "devices s = rev (take i (devts s))" and "length (devts s) = i + n"
    and "errors_negative env"
  shows "s' = s\<lparr>devices := devices s'\<rparr> \<and> (if r < 0 then devices s' = [] else r = 0 \<and> devices s' = rev (devts s))"
  using assms
proof (induction n arbitrary: i s)
  case 0
  then show ?case by auto
next
  case (Suc n)
  show ?case
  proof (cases "device_create_err env i")
    case (Some e)
    then have "e < 0" using assms(4) by (simp add: errors_negative_def)
    moreover have "set (devices s) = (\<lambda>k. devts s ! k) ` {..<i}"
      using Suc.prems(2,3) by (auto simp: nth_image [symmetric] atLeast0LessThan)
    ultimately show ?thesis using Suc.prems(1) Some by (auto simp: destroyed_devices filter_empty_conv)
  next
    case None
    let ?s = "s\<lparr>devices := devts s ! i # devices s\<rparr>"
    have "devices ?s = rev (take (i + 1) (devts ?s))" using Suc.prems(2,3) by (simp add: take_Suc_conv_app_nth)
    from Suc.IH [OF _ this _ assms(4)] Suc.prems None show ?thesis by simp
  qed
qed

lemma register_result:
  assumes "register_driver env sz s = (ret, s')" and "none_registered s" and "length (devts s) = sz" and "errors_negative env"
  shows "chr_devs.more s' = chr_devs.more s \<and> length (devts s') = sz \<and>
    (if ret = 0 then \<exists>major. all_registered major sz s' else ret < 0 \<and> none_registered s')"
proof (cases "alloc_chrdev_region env")
  case (Inl r)
  then show ?thesis using assms by (auto simp: register_driver_def errors_negative_def)
next
  case (Inr major)
  show ?thesis
  proof (cases "class_create_err env")
    case (Some r)
    then have "s' = s\<lparr>base_dev := None\<rparr>" "ret = r" "r < 0"
      using assms(1,4) Inr by (simp_all add: register_driver_def Let_def errors_negative_def)
    then show ?thesis using assms(2,3) by (simp add: none_registered_def)
  next
    case None
    let ?s = "s\<lparr>base_dev := Some (major, 0), dev_class := True\<rparr>"
    obtain r2 s2 where a: "add_chardevs env major sz 0 0 ?s = (r2, s2)" by fastforce
    from add_chardevs_result [OF a] assms(2,3)
    have s2: "s2 = ?s\<lparr>devts := devts s2, cdevs := cdevs s2\<rparr>" "length (devts s2) = sz"
      "if r2 < 0 then cdevs s2 = [] else cdevs s2 = rev [0 ..< sz] \<and> devts s2 = map (\<lambda>k. Some (major, k)) [0 ..< sz]"
      by (simp_all add: none_registered_def)
    have k2: "base_dev s2 = Some (major, 0)" "dev_class s2" "devices s2 = []" "chr_devs.more s2 = chr_devs.more s"
      by (subst s2(1), use assms(2) in \<open>simp add: none_registered_def\<close>)+
    show ?thesis
    proof (cases "r2 < 0")
      case True
      then have "ret = r2" "s' = s2\<lparr>dev_class := False, base_dev := None\<rparr>"
        using assms(1) Inr None a by (simp_all add: register_driver_def driver_add_chardev_def Let_def)
      then show ?thesis using True s2(2,3) k2 by (simp add: none_registered_def)
    next
      case False
      obtain r3 s3 where c: "create_devices env sz 0 s2 = (r3, s3)" by fastforce
      from create_devices_result [OF c _ _ assms(4)] k2(3) s2(2)
      have s3: "s3 = s2\<lparr>devices := devices s3\<rparr>" "if r3 < 0 then devices s3 = [] else r3 = 0 \<and> devices s3 = rev (devts s2)"
        by simp_all
      have k3: "base_dev s3 = Some (major, 0)" "dev_class s3" "devts s3 = devts s2" "cdevs s3 = cdevs s2"
        "chr_devs.more s3 = chr_devs.more s"
        by (subst s3(1), simp add: k2)+
      show ?thesis
      proof (cases "r3 < 0")
        case True
        then have "ret = r3" "s' = (s3\<lparr>cdevs := []\<rparr>)\<lparr>dev_class := False, base_dev := None\<rparr>"
          using assms(1) Inr None a c False s2(3) k3(4)
          by (simp_all add: register_driver_def driver_add_chardev_def device_create_all_def all_driver_del_chardev_eq Let_def
              filter_empty_conv)
        then show ?thesis using True s2(2) s3(2) k3 by (simp add: none_registered_def)
      next
        case ok: False
        then have "ret = 0" "s' = s3"
          using assms(1) Inr None a c False by (simp_all add: register_driver_def driver_add_chardev_def device_create_all_def Let_def)
        moreover have "all_registered major sz s3"
          unfolding all_registered_def using ok s2(3) s3(2) k3 False by simp
        ultimately show ?thesis using k3 s2(2) by auto
      qed
    qed
  qed
qed

lemma unregistered:
  assumes "all_registered major sz s"
  shows "none_registered ((all_driver_del_chardev sz (all_device_destroy sz s))\<lparr>dev_class := False, base_dev := None\<rparr>)"
proof -
  have "(\<lambda>k. devts s ! k) ` {..<sz} = set (devts s)"
    using assms by (auto simp: all_registered_def nth_image [symmetric] atLeast0LessThan)
  then show ?thesis
    using assms by (simp add: none_registered_def all_driver_del_chardev_eq destroyed_devices all_registered_def filter_empty_conv)
qed

subsection \<open>The contract of a module\<close>

definition load_module :: "('a chr_devs_scheme \<Rightarrow> (int \<times> 'a chr_devs_scheme) outcome) \<Rightarrow> ('a chr_devs_scheme \<Rightarrow> 'a chr_devs_scheme outcome)
    \<Rightarrow> chr_env \<Rightarrow> nat \<Rightarrow> 'a chr_devs_scheme \<Rightarrow> (int \<times> 'a chr_devs_scheme) outcome" where
  "load_module prepare release env sz s = seq_ok (prepare s) (\<lambda>(ret, s1).
     if ret \<noteq> 0 then Inr (ret, s1) else register_or_release release env sz s1)"

text \<open>What loading promises, for a module whose own memory is \<open>ready\<close> or \<open>freed\<close> afterwards.\<close>

definition loads_or_nothing :: "('a chr_devs_scheme \<Rightarrow> bool) \<Rightarrow> ('a chr_devs_scheme \<Rightarrow> bool) \<Rightarrow> nat
    \<Rightarrow> ('a chr_devs_scheme \<Rightarrow> 'a chr_devs_scheme outcome) \<Rightarrow> (int \<times> 'a chr_devs_scheme) outcome \<Rightarrow> bool" where
  "loads_or_nothing ready freed sz unload res \<longleftrightarrow> (\<exists>ret s'. res = Inr (ret, s') \<and>
     (if ret = 0
      then ready s' \<and> (\<exists>major. all_registered major sz s') \<and> (\<exists>s''. unload s' = Inr s'' \<and> none_registered s'' \<and> freed s'')
      else ret < 0 \<and> none_registered s' \<and> freed s'))"

locale chr_module =
  fixes prepare :: "'a chr_devs_scheme \<Rightarrow> (int \<times> 'a chr_devs_scheme) outcome"
    and release :: "'a chr_devs_scheme \<Rightarrow> 'a chr_devs_scheme outcome"
    and sz :: nat
    and start ready freed :: "'a chr_devs_scheme \<Rightarrow> bool"
  assumes ready_own: "chr_devs.more s' = chr_devs.more s \<Longrightarrow> ready s \<Longrightarrow> ready s'"
    and prepares: "start s \<Longrightarrow> none_registered s \<Longrightarrow> length (devts s) = sz \<Longrightarrow>
      \<exists>ret s'. prepare s = Inr (ret, s') \<and> none_registered s' \<and> length (devts s') = sz \<and>
        (if ret = 0 then ready s' else ret < 0 \<and> freed s')"
    and releases: "ready s \<Longrightarrow> none_registered s \<Longrightarrow> \<exists>s'. release s = Inr s' \<and> none_registered s' \<and> freed s'"
begin

lemma unload_ok:
  assumes "all_registered major sz s" and "ready s"
  shows "\<exists>s'. unregister release sz s = Inr s' \<and> none_registered s' \<and> freed s'"
proof -
  let ?s = "(all_driver_del_chardev sz (all_device_destroy sz s))\<lparr>dev_class := False, base_dev := None\<rparr>"
  have "ready ?s" by (rule ready_own [OF _ assms(2)]) (simp add: all_driver_del_chardev_eq destroyed_devices)
  then show ?thesis using releases [of ?s] unregistered [OF assms(1)] by (simp add: unregister_def Let_def)
qed

lemma load_ok:
  assumes "start s" and "none_registered s" and "length (devts s) = sz" and "errors_negative env"
  shows "loads_or_nothing ready freed sz (unregister release sz) (load_module prepare release env sz s)"
proof -
  obtain ret s1 where p: "prepare s = Inr (ret, s1)" "none_registered s1" "length (devts s1) = sz"
    "if ret = 0 then ready s1 else ret < 0 \<and> freed s1"
    using prepares [OF assms(1-3)] by blast
  show ?thesis
  proof (cases "ret = 0")
    case False
    then show ?thesis using p by (simp add: loads_or_nothing_def load_module_def)
  next
    case True
    obtain r s2 where r: "register_driver env sz s1 = (r, s2)" by fastforce
    note reg = register_result [OF r p(2,3) assms(4)]
    have rdy: "ready s2" using ready_own [of s2 s1] reg p(4) True by simp
    show ?thesis
    proof (cases "r = 0")
      case zero: True
      then obtain major where "all_registered major sz s2" using reg by auto
      then show ?thesis
        using unload_ok [of major s2] True zero p(1) rdy r
        by (auto simp: loads_or_nothing_def load_module_def register_or_release_def)
    next
      case err: False
      then obtain s3 where "release s2 = Inr s3" "none_registered s3" "freed s3"
        using releases [of s2] reg rdy by auto
      then show ?thesis
        using True err p(1) reg r by (simp add: loads_or_nothing_def load_module_def register_or_release_def)
    qed
  qed
qed

end

end
