(* ===== verification/Trace_Driver.thy ===== *)
theory Trace_Driver
  imports User_Copy Char_Devices
begin

text \<open>
  The trace module, \<^verbatim>\<open>src/trace/driver/\<close> (\<^verbatim>\<open>trace_copy.h\<close>, \<^verbatim>\<open>trace_copy.c\<close>, \<^verbatim>\<open>core_trace_copy.c\<close>, \<^verbatim>\<open>driverops.c\<close>), and
  the start of the rings, \<^verbatim>\<open>src/source/init/boot_trace_copy_tofrom.c\<close>: four character devices, one for
  each ring of the traced copies, whose \<^verbatim>\<open>read\<close> empties the rings of all CPUs into a user buffer.

  The registration of the devices is the common one of \<open>Char_Devices\<close>. Memory and the present CPUs are parameters,
  in \<open>trace_env\<close>, which extends the parameters of that theory.
\<close>

subsection \<open>State\<close>

definition BUFF_READ :: nat where
  "BUFF_READ = 500"

definition TRACE_MINOR :: nat where
  "TRACE_MINOR = 4"

definition MAX_CHAR_NAME :: nat where
  "MAX_CHAR_NAME = 128"

text \<open>
  \<^verbatim>\<open>struct unit_buff_user\<close> has the layout of \<^verbatim>\<open>struct unit_buff\<close>, to which the code casts it; with the
  alignment of x86-64 it takes 56 bytes, and a region 8 bytes more than its 500 measures.
\<close>

record region_mem =
  rm_count :: u32
  rm_buffer :: "unit_buff list"

definition sizeof_region_mem :: nat where
  "sizeof_region_mem = 8 + BUFF_READ * 56"

datatype region_ptr = No_Regions | Freed_Regions | Regions "region_mem list"

record trace_dev =
  ptr_region :: region_ptr
  ptr_cb :: ring
  td_name :: string

text \<open>The device numbers of the four devices are in the common part.\<close>

record trace_module = chr_devs +
  vector_trace :: "trace_dev list"
  count_region :: nat

record trace_env =
  present_cpus :: "nat list"
  kzalloc_ok :: "nat \<Rightarrow> bool"
  chr :: chr_env

subsection \<open>Set-up of the devices\<close>

text \<open>\<^verbatim>\<open>kfree\<close> of a null pointer does nothing; a second \<^verbatim>\<open>kfree\<close> is a fault.\<close>

definition clean_trace_region_mem :: "trace_dev \<Rightarrow> trace_dev outcome" where
  "clean_trace_region_mem t = (case ptr_region t of No_Regions \<Rightarrow> Inr t | Freed_Regions \<Rightarrow> Inl Use_After_Free
     | Regions rs \<Rightarrow> Inr (t\<lparr>ptr_region := Freed_Regions\<rparr>))"

definition init_trace_dev :: "bool \<Rightarrow> nat \<Rightarrow> trace_dev \<Rightarrow> ring \<Rightarrow> string \<Rightarrow> int \<times> trace_dev" where
  "init_trace_dev mem_ok n t cb name =
     (if \<not> mem_ok then (- errno_code ENOMEM, t\<lparr>ptr_region := No_Regions\<rparr>)
      else (0, t\<lparr>ptr_region := Regions (replicate n \<lparr>rm_count = 0, rm_buffer = replicate BUFF_READ zero_unit\<rparr>), ptr_cb := cb,
        td_name := take (MAX_CHAR_NAME - 1) name\<rparr>))"

definition init_dev :: "trace_env \<Rightarrow> nat \<Rightarrow> ring \<Rightarrow> string \<Rightarrow> trace_module \<Rightarrow> int \<times> trace_module" where
  "init_dev env i cb name s = (case init_trace_dev (kzalloc_ok env i) (count_region s) (vector_trace s ! i) cb name of
     (ret, t) \<Rightarrow> (ret, s\<lparr>devts := (if ret < 0 then devts s else (devts s)[i := None]), vector_trace := (vector_trace s)[i := t]\<rparr>))"

definition clean_dev :: "nat \<Rightarrow> trace_module \<Rightarrow> trace_module outcome" where
  "clean_dev i s = seq_ok (clean_trace_region_mem (vector_trace s ! i)) (\<lambda>t. Inr (s\<lparr>vector_trace := (vector_trace s)[i := t]\<rparr>))"

fun clean_devs :: "nat list \<Rightarrow> trace_module \<Rightarrow> trace_module outcome" where
  "clean_devs [] s = Inr s"
| "clean_devs (i # is) s = seq_ok (clean_dev i s) (clean_devs is)"

definition init_all_trace :: "trace_env \<Rightarrow> trace_module \<Rightarrow> (int \<times> trace_module) outcome" where
  "init_all_trace env s =
     (case init_dev env 0 Mem_Buff_From_Inl ''__mem_trace_from'' s of (ret, s1) \<Rightarrow>
      if ret < 0 then Inr (- errno_code ENOMEM, s1)
      else case init_dev env 1 Mem_Buff_To_Inl ''__mem_trace_to'' s1 of (ret, s2) \<Rightarrow>
      if ret < 0 then seq_ok (clean_devs [0] s2) (\<lambda>s'. Inr (- errno_code ENOMEM, s'))
      else case init_dev env 2 Mem_Buff_From ''mem_trace_from'' s2 of (ret, s3) \<Rightarrow>
      if ret < 0 then seq_ok (clean_devs [1, 0] s3) (\<lambda>s'. Inr (- errno_code ENOMEM, s'))
      else case init_dev env 3 Mem_Buff_To ''mem_trace_to'' s3 of (ret, s4) \<Rightarrow>
      if ret < 0 then seq_ok (clean_devs [2, 1, 0] s4) (\<lambda>s'. Inr (- errno_code ENOMEM, s'))
      else Inr (0, s4))"

subsection \<open>Registration\<close>

definition all_trace_device_destroy :: "nat \<Rightarrow> trace_module \<Rightarrow> trace_module" where
  "all_trace_device_destroy sz s = all_device_destroy sz s"

definition all_trace_driver_del_chardev :: "nat \<Rightarrow> trace_module \<Rightarrow> trace_module" where
  "all_trace_driver_del_chardev sz s = all_driver_del_chardev sz s"

definition trace_driver_add_chardev :: "trace_env \<Rightarrow> nat \<Rightarrow> nat \<Rightarrow> trace_module \<Rightarrow> int \<times> trace_module" where
  "trace_driver_add_chardev env sz driver_major s = driver_add_chardev (chr env) sz driver_major s"

definition trace_device_create :: "trace_env \<Rightarrow> nat \<Rightarrow> trace_module \<Rightarrow> int \<times> trace_module" where
  "trace_device_create env sz s = device_create_all (chr env) sz s"

definition trace_register_driver :: "trace_env \<Rightarrow> trace_module \<Rightarrow> int \<times> trace_module" where
  "trace_register_driver env s = register_driver (chr env) TRACE_MINOR s"

definition mem_trace_init :: "trace_env \<Rightarrow> trace_module \<Rightarrow> (int \<times> trace_module) outcome" where
  "mem_trace_init env s =
     (let s0 = s\<lparr>dev_class := False, base_dev := None, count_region := length (present_cpus env)\<rparr> in
      seq_ok (init_all_trace env s0) (\<lambda>(ret, s1).
        if ret < 0 then Inr (ret, s1)
        else case trace_register_driver env s1 of (ret, s2) \<Rightarrow>
          if ret = 0 then Inr (0, s2)
          else seq_ok (clean_devs [0 ..< TRACE_MINOR] s2) (\<lambda>s3. Inr (ret, s3))))"

definition mem_trace_exit :: "trace_module \<Rightarrow> trace_module outcome" where
  "mem_trace_exit s =
     (let s1 = all_trace_driver_del_chardev TRACE_MINOR (all_trace_device_destroy TRACE_MINOR s) in
      clean_devs [0 ..< TRACE_MINOR] (s1\<lparr>dev_class := False, base_dev := None\<rparr>))"

subsection \<open>File operations\<close>

text \<open>An open file: the device it is on, given by its index, and its position.\<close>

record trace_file =
  private_data :: "nat option"
  f_pos :: u64

definition trace_driver_open :: "nat \<Rightarrow> trace_file \<Rightarrow> int \<times> trace_file" where
  "trace_driver_open i filp = (0, filp\<lparr>private_data := Some i\<rparr>)"

definition trace_driver_close :: "trace_file \<Rightarrow> int \<times> trace_file" where
  "trace_driver_close filp = (0, filp)"

definition trace_driver_lseek :: "trace_file \<Rightarrow> u64 \<Rightarrow> int \<Rightarrow> int \<times> trace_file" where
  "trace_driver_lseek filp off whence =
     (let newpos = (if whence = 0 then Some off else if whence = 1 then Some (f_pos filp + off) else if whence = 2 then Some off else None) in
      case newpos of None \<Rightarrow> (- errno_code EINVAL, filp)
      | Some p \<Rightarrow> if sint p < 0 then (- errno_code EINVAL, filp) else (sint p, filp\<lparr>f_pos := p\<rparr>))"

definition trace_driver_write :: int where
  "trace_driver_write = - errno_code EPERM"

text \<open>Reads at most \<open>n\<close> measures into a region; the measures behind them stay in the region's buffer.\<close>

definition region_read_cpu :: "u32 \<Rightarrow> CircularBuffer \<Rightarrow> region_mem \<Rightarrow> (region_mem \<times> CircularBuffer) outcome" where
  "region_read_cpu n cb reg = seq_ok (cbRead_list cb n) (\<lambda>(k, us, cb').
     if length (rm_buffer reg) < length us then Inl Out_Of_Bounds
     else Inr (\<lparr>rm_count = 0 + k, rm_buffer = us @ drop (length us) (rm_buffer reg)\<rparr>, cb'))"

fun read_cpus :: "u32 \<Rightarrow> nat list \<Rightarrow> region_mem list \<Rightarrow> (nat \<Rightarrow> CircularBuffer)
    \<Rightarrow> (region_mem list \<times> (nat \<Rightarrow> CircularBuffer)) outcome" where
  "read_cpus n [] regs cbs = Inr (regs, cbs)"
| "read_cpus n (j # js) regs cbs = (if length regs \<le> j then Inl Out_Of_Bounds
     else seq_ok (region_read_cpu n (cbs j) (regs ! j)) (\<lambda>(reg, cb'). read_cpus n js (regs[j := reg]) (cbs(j := cb'))))"

text \<open>
  The result, the regions the user buffer holds afterwards (unknown when the copy left bytes), the
  device and the rings. \<open>n_regions\<close> is the module's \<open>count_region\<close>: so many regions are copied, and a
  copy past the end of the array is a fault.
\<close>

definition trace_driver_read :: "trace_env \<Rightarrow> cpu_env \<Rightarrow> nat \<Rightarrow> u64 \<Rightarrow> u64 \<Rightarrow> u64 \<Rightarrow> trace_dev \<Rightarrow> 'd trace_state
    \<Rightarrow> (int \<times> region_mem list option \<times> trace_dev \<times> 'd trace_state) outcome" where
  "trace_driver_read env ce n_regions buf region_addr len t ts =
     (if buf = 0 then Inr (- errno_code EINVAL, None, t, ts)
      else let n = (if unat len > BUFF_READ then of_nat BUFF_READ else len) in
      case ptr_region t of No_Regions \<Rightarrow> Inl Null_Deref | Freed_Regions \<Rightarrow> Inl Use_After_Free
      | Regions regs \<Rightarrow>
          seq_ok (read_cpus (ucast n) (present_cpus env) regs (rings ts (ptr_cb t))) (\<lambda>(regs', cbs').
            let t' = t\<lparr>ptr_region := Regions regs'\<rparr>;
                ts' = ts\<lparr>rings := (rings ts)(ptr_cb t := cbs')\<rparr>;
                size_reg = sizeof_region_mem * n_regions
            in if length regs' < n_regions then Inl Out_Of_Bounds
               else if copy_to_user_pure ce buf region_addr (of_nat size_reg) \<noteq> 0 then Inr (- errno_code EIO, None, t', ts')
               else Inr (int size_reg, Some (take n_regions regs'), t', ts')))"

subsection \<open>The rings at boot\<close>

text \<open>The four rings of a CPU, in the order of the code; \<open>mem_ok\<close> says whether each allocation succeeds.\<close>

definition boot_init_trace_copy :: "(ring \<Rightarrow> nat \<Rightarrow> bool) \<Rightarrow> nat list \<Rightarrow> 'd trace_state \<Rightarrow> 'd trace_state" where
  "boot_init_trace_copy mem_ok cpus ts = fold (\<lambda>i. fold (\<lambda>b ts. ts\<lparr>rings := (rings ts)(b := (rings ts b)(i := cbInit (mem_ok b i) (rings ts b i)))\<rparr>)
     [Mem_Buff_To, Mem_Buff_From, Mem_Buff_To_Inl, Mem_Buff_From_Inl]) cpus ts"

subsection \<open>Reading the rings\<close>

text \<open>
  What a read of at most \<open>n\<close> measures of one CPU delivers: the region has the oldest measures of the
  ring in order and says how many, and the ring keeps the others.
\<close>

definition delivers :: "nat \<Rightarrow> region_mem \<Rightarrow> CircularBuffer \<Rightarrow> CircularBuffer \<Rightarrow> bool" where
  "delivers n reg cb cb' \<longleftrightarrow> unat (rm_count reg) = min n (length (cb_list cb)) \<and>
     take (unat (rm_count reg)) (rm_buffer reg) = take n (cb_list cb) \<and> length (rm_buffer reg) = BUFF_READ \<and>
     cb_wf cb' \<and> cb_list cb' = drop n (cb_list cb) \<and> cb_capacity cb' = cb_capacity cb"

lemma region_read_cpu_ok:
  assumes "cb_wf cb" and "unat n \<le> BUFF_READ" and "length (rm_buffer reg) = BUFF_READ"
  shows "\<exists>reg' cb'. region_read_cpu n cb reg = Inr (reg', cb') \<and> delivers (unat n) reg' cb cb'"
proof -
  have lim: "unat n < 2 ^ 31" using assms(2) by (simp add: BUFF_READ_def)
  obtain k cb' where r: "cbRead_list cb n = Inr (k, take (unat n) (cb_list cb), cb')"
      "unat k = min (unat n) (length (cb_list cb))" "cb_wf cb'" "cb_list cb' = drop (unat n) (cb_list cb)"
      "cb_capacity cb' = cb_capacity cb"
    using cb_fifo.get_batch [OF assms(1) lim] by blast
  let ?us = "take (unat n) (cb_list cb)"
  have "region_read_cpu n cb reg = Inr (\<lparr>rm_count = k, rm_buffer = ?us @ drop (length ?us) (rm_buffer reg)\<rparr>, cb')"
    using r(1) assms(2,3) by (auto simp: region_read_cpu_def)
  then show ?thesis using r(2-) assms(2,3) by (cases "unat n \<le> length (cb_list cb)") (auto simp: delivers_def)
qed

lemma read_cpus_ok:
  assumes "distinct js" and "\<forall>j \<in> set js. j < length regs \<and> cb_wf (cbs j)" and "unat n \<le> BUFF_READ"
    and "\<forall>reg \<in> set regs. length (rm_buffer reg) = BUFF_READ"
  shows "\<exists>regs' cbs'. read_cpus n js regs cbs = Inr (regs', cbs') \<and> length regs' = length regs \<and>
    (\<forall>j \<in> set js. delivers (unat n) (regs' ! j) (cbs j) (cbs' j)) \<and>
    (\<forall>j. j \<notin> set js \<longrightarrow> regs' ! j = regs ! j \<and> cbs' j = cbs j)"
  using assms
proof (induction js arbitrary: regs cbs)
  case (Cons j js)
  obtain reg cb where r: "region_read_cpu n (cbs j) (regs ! j) = Inr (reg, cb)" "delivers (unat n) reg (cbs j) cb"
    using region_read_cpu_ok [of "cbs j" n "regs ! j"] Cons.prems by auto
  have "length (rm_buffer reg) = BUFF_READ" using r(2) by (simp add: delivers_def)
  then have regs: "\<forall>reg' \<in> set (regs[j := reg]). length (rm_buffer reg') = BUFF_READ"
    using Cons.prems(4) set_update_subset_insert [of regs j reg] by blast
  have cpus: "\<forall>i \<in> set js. i < length (regs[j := reg]) \<and> cb_wf ((cbs(j := cb)) i)"
    using Cons.prems(1,2) by auto
  obtain regs' cbs' where s: "read_cpus n js (regs[j := reg]) (cbs(j := cb)) = Inr (regs', cbs')"
    "length regs' = length regs" "\<forall>i \<in> set js. delivers (unat n) (regs' ! i) ((cbs(j := cb)) i) (cbs' i)"
    "\<forall>i. i \<notin> set js \<longrightarrow> regs' ! i = regs[j := reg] ! i \<and> cbs' i = (cbs(j := cb)) i"
    using Cons.IH [OF _ cpus Cons.prems(3) regs] Cons.prems(1) unfolding distinct.simps length_list_update by blast
  have j: "j < length regs" "j \<notin> set js" using Cons.prems by auto
  then have "delivers (unat n) (regs' ! i) (cbs i) (cbs' i)" if "i \<in> set js" for i
    using s(3) that by (metis fun_upd_other)
  then show ?case using r s(1,2,4) j by (auto intro!: exI [of _ regs'] exI [of _ cbs'])
qed simp

lemma read_cpus_overrun:
  assumes "\<forall>j \<in> set js. cb_wf (cbs j)" and "unat n \<le> BUFF_READ" and "\<forall>reg \<in> set regs. length (rm_buffer reg) = BUFF_READ"
    and "\<exists>j \<in> set js. length regs \<le> j"
  shows "read_cpus n js regs cbs = Inl Out_Of_Bounds"
  using assms
proof (induction js arbitrary: regs cbs)
  case (Cons j js)
  show ?case
  proof (cases "length regs \<le> j")
    case False
    then obtain reg cb where r: "region_read_cpu n (cbs j) (regs ! j) = Inr (reg, cb)" "delivers (unat n) reg (cbs j) cb"
      using region_read_cpu_ok [of "cbs j" n "regs ! j"] Cons.prems by auto
    have "\<forall>reg' \<in> set (regs[j := reg]). length (rm_buffer reg') = BUFF_READ"
      using Cons.prems(3) set_update_subset_insert [of regs j reg] r(2) unfolding delivers_def by blast
    moreover have "\<forall>i \<in> set js. cb_wf ((cbs(j := cb)) i)" using Cons.prems(1) r(2) by (auto simp: delivers_def)
    moreover have "\<exists>i \<in> set js. length (regs[j := reg]) \<le> i" using Cons.prems(4) False by auto
    ultimately have "read_cpus n js (regs[j := reg]) (cbs(j := cb)) = Inl Out_Of_Bounds"
      by (intro Cons.IH Cons.prems(2))
    then show ?thesis using False r(1) by simp
  qed simp
qed simp

lemma clipped_length: "unat (ucast (if unat len > BUFF_READ then of_nat BUFF_READ else len) :: u32) = min (unat len) BUFF_READ"
  for len :: u64
  by (simp add: BUFF_READ_def unsigned_ucast_eq take_bit_nat_eq_self min_def)

lemma trace_read_run:
  assumes "buf \<noteq> 0" and "ptr_region t = Regions regs" and "\<forall>reg \<in> set regs. length (rm_buffer reg) = BUFF_READ"
    and "distinct (present_cpus env)" and "\<forall>j \<in> set (present_cpus env). j < length regs \<and> cb_wf (rings ts (ptr_cb t) j)"
    and "n_regions \<le> length regs"
  shows "\<exists>regs' cbs'. length regs' = length regs \<and>
    (\<forall>j \<in> set (present_cpus env). delivers (min (unat len) BUFF_READ) (regs' ! j) (rings ts (ptr_cb t) j) (cbs' j)) \<and>
    (\<forall>j. j \<notin> set (present_cpus env) \<longrightarrow> cbs' j = rings ts (ptr_cb t) j) \<and>
    trace_driver_read env ce n_regions buf addr len t ts =
      Inr (if copy_to_user_pure ce buf addr (of_nat (sizeof_region_mem * n_regions)) = 0
        then (int (sizeof_region_mem * n_regions), Some (take n_regions regs'), t\<lparr>ptr_region := Regions regs'\<rparr>, ts\<lparr>rings := (rings ts)(ptr_cb t := cbs')\<rparr>)
        else (- 5, None, t\<lparr>ptr_region := Regions regs'\<rparr>, ts\<lparr>rings := (rings ts)(ptr_cb t := cbs')\<rparr>))"
proof -
  let ?n = "ucast (if unat len > BUFF_READ then of_nat BUFF_READ else len) :: u32"
  have n: "unat ?n = min (unat len) BUFF_READ" by (rule clipped_length)
  then have "unat ?n \<le> BUFF_READ" by simp
  from read_cpus_ok [OF assms(4,5) this assms(3)] obtain regs' cbs' where
    r: "read_cpus ?n (present_cpus env) regs (rings ts (ptr_cb t)) = Inr (regs', cbs')" "length regs' = length regs"
      "\<forall>j \<in> set (present_cpus env). delivers (min (unat len) BUFF_READ) (regs' ! j) (rings ts (ptr_cb t) j) (cbs' j)"
      "\<forall>j. j \<notin> set (present_cpus env) \<longrightarrow> cbs' j = rings ts (ptr_cb t) j"
    unfolding n by blast
  have "trace_driver_read env ce n_regions buf addr len t ts =
      Inr (if copy_to_user_pure ce buf addr (of_nat (sizeof_region_mem * n_regions)) = 0
        then (int (sizeof_region_mem * n_regions), Some (take n_regions regs'), t\<lparr>ptr_region := Regions regs'\<rparr>, ts\<lparr>rings := (rings ts)(ptr_cb t := cbs')\<rparr>)
        else (- 5, None, t\<lparr>ptr_region := Regions regs'\<rparr>, ts\<lparr>rings := (rings ts)(ptr_cb t := cbs')\<rparr>))"
    using assms(1,2,6) r(1,2) by (simp add: trace_driver_read_def Let_def)
  then show ?thesis using r(2-) by (intro exI conjI)
qed

lemma sparse_cpus_overrun:
  assumes "buf \<noteq> 0" and "ptr_region t = Regions regs" and "\<forall>reg \<in> set regs. length (rm_buffer reg) = BUFF_READ"
    and "\<forall>j \<in> set (present_cpus env). cb_wf (rings ts (ptr_cb t) j)" and "\<exists>j \<in> set (present_cpus env). length regs \<le> j"
  shows "trace_driver_read env ce n_regions buf addr len t ts = Inl Out_Of_Bounds"
proof -
  let ?n = "ucast (if unat len > BUFF_READ then of_nat BUFF_READ else len) :: u32"
  have "unat ?n \<le> BUFF_READ" unfolding clipped_length by simp
  from read_cpus_overrun [OF assms(4) this assms(3,5)] show ?thesis
    using assms(1,2) by (simp add: trace_driver_read_def Let_def)
qed

subsection \<open>Starting and stopping the module\<close>

definition trace_rings :: "ring list" where
  "trace_rings = [Mem_Buff_From_Inl, Mem_Buff_To_Inl, Mem_Buff_From, Mem_Buff_To]"

definition trace_start :: "trace_module \<Rightarrow> bool" where
  "trace_start s \<longleftrightarrow> length (vector_trace s) = 4 \<and> (\<forall>t \<in> set (vector_trace s). ptr_region t = No_Regions)"

definition trace_ready :: "nat \<Rightarrow> trace_module \<Rightarrow> bool" where
  "trace_ready n s \<longleftrightarrow> count_region s = n \<and> map ptr_cb (vector_trace s) = trace_rings \<and>
     map ptr_region (vector_trace s) = replicate 4 (Regions (replicate n \<lparr>rm_count = 0, rm_buffer = replicate BUFF_READ zero_unit\<rparr>))"

definition trace_freed :: "trace_module \<Rightarrow> bool" where
  "trace_freed s \<longleftrightarrow> (\<forall>t \<in> set (vector_trace s). \<forall>rs. ptr_region t \<noteq> Regions rs)"

lemma four_elements: "length xs = 4 \<Longrightarrow> \<exists>a b c d. xs = [a, b, c, d]"
  by (auto simp: length_Suc_conv eval_nat_numeral)

lemma replicate_four: "replicate 4 x = [x, x, x, x]"
  by (simp add: eval_nat_numeral)

lemma init_all_trace_result:
  assumes "trace_start s" and "none_registered s" and "length (devts s) = 4"
  shows "\<exists>ret s'. init_all_trace env s = Inr (ret, s') \<and> none_registered s' \<and> length (devts s') = 4 \<and>
    (if ret = 0 then trace_ready (count_region s) s' else ret < 0 \<and> trace_freed s')"
proof -
  obtain a b c d where v: "vector_trace s = [a, b, c, d]" using assms(1) four_elements [of "vector_trace s"] unfolding trace_start_def by blast
  have n: "ptr_region a = No_Regions" "ptr_region b = No_Regions" "ptr_region c = No_Regions" "ptr_region d = No_Regions"
    using assms(1) by (auto simp: trace_start_def v)
  note defs = init_all_trace_def init_dev_def init_trace_dev_def clean_dev_def clean_trace_region_mem_def trace_rings_def
    v n replicate_four numeral_2_eq_2 numeral_3_eq_3 trace_ready_def trace_freed_def none_registered_def assms(3)
  note none = assms(2) [unfolded none_registered_def]
  consider "\<not> kzalloc_ok env 0" | "kzalloc_ok env 0" "\<not> kzalloc_ok env 1"
    | "kzalloc_ok env 0" "kzalloc_ok env 1" "\<not> kzalloc_ok env 2"
    | "kzalloc_ok env 0" "kzalloc_ok env 1" "kzalloc_ok env 2" "\<not> kzalloc_ok env 3"
    | "kzalloc_ok env 0" "kzalloc_ok env 1" "kzalloc_ok env 2" "kzalloc_ok env 3" by blast
  then show ?thesis by cases (use none in \<open>simp_all add: defs\<close>)
qed

lemma clean_devs_all:
  assumes "trace_ready n s" and "none_registered s"
  shows "\<exists>s'. clean_devs [0 ..< TRACE_MINOR] s = Inr s' \<and> none_registered s' \<and> trace_freed s'"
proof -
  have "length (vector_trace s) = 4" using assms(1) by (metis trace_ready_def length_map length_replicate)
  then obtain a b c d where v: "vector_trace s = [a, b, c, d]" using four_elements by blast
  have up: "[0 ..< TRACE_MINOR] = [0, 1, 2, 3]" by (simp add: TRACE_MINOR_def upt_rec)
  show ?thesis
    using assms unfolding up
    by (simp add: clean_dev_def clean_trace_region_mem_def v numeral_2_eq_2 numeral_3_eq_3 trace_ready_def trace_freed_def
        replicate_four none_registered_def)
qed

interpretation trace_mod: chr_module "init_all_trace env" "clean_devs [0 ..< TRACE_MINOR]" 4
  "\<lambda>s. trace_start s \<and> count_region s = n" "trace_ready n" trace_freed for env n
proof
  fix s s' :: trace_module
  show "trace_ready n s'" if "chr_devs.more s' = chr_devs.more s" "trace_ready n s"
    using that by (cases s; cases s') (simp add: trace_ready_def)
  show "\<exists>ret s'. init_all_trace env s = Inr (ret, s') \<and> none_registered s' \<and> length (devts s') = 4 \<and>
      (if ret = 0 then trace_ready n s' else ret < 0 \<and> trace_freed s')"
    if "trace_start s \<and> count_region s = n" "none_registered s" "length (devts s) = 4"
  proof -
    have "trace_start s" and n: "n = count_region s" using that(1) by simp_all
    from init_all_trace_result [OF this(1) that(2,3), of env] show ?thesis unfolding n .
  qed
  show "\<exists>s'. clean_devs [0 ..< TRACE_MINOR] s = Inr s' \<and> none_registered s' \<and> trace_freed s'"
    if "trace_ready n s" "none_registered s" by (rule clean_devs_all [OF that])
qed

lemma mem_trace_init_loads:
  assumes "trace_start s" and "none_registered s" and "length (devts s) = 4"
  shows "mem_trace_init env s = load_module (init_all_trace env) (clean_devs [0 ..< TRACE_MINOR]) (chr env) TRACE_MINOR
    (s\<lparr>count_region := length (present_cpus env)\<rparr>)"
proof -
  let ?s = "s\<lparr>count_region := length (present_cpus env)\<rparr>"
  have s: "s\<lparr>dev_class := False, base_dev := None, count_region := length (present_cpus env)\<rparr> = ?s"
    using assms(2) by (cases s) (simp add: none_registered_def)
  have "trace_start ?s" "none_registered ?s" "length (devts ?s) = 4"
    using assms by (simp_all add: trace_start_def none_registered_def)
  from init_all_trace_result [OF this, of env] obtain ret s1 where i: "init_all_trace env ?s = Inr (ret, s1)" "ret = 0 \<or> ret < 0"
    by (auto split: if_splits)
  then show ?thesis
    unfolding mem_trace_init_def Let_def s load_module_def i(1)
    by (auto simp: trace_register_driver_def register_or_release_def split: prod.splits)
qed

subsection \<open>Properties\<close>

text \<open>
  C33. Loading the trace module is all or nothing: it returns zero with the device numbers, the class, four
  character devices, four sysfs devices and the region memory of all four in place, each device on the
  ring of its name, and unloading it then frees all of them; or it returns an error and holds
  none of them. No region is freed twice.
\<close>

theorem trace_module_all_or_nothing:
  assumes "trace_start s" and "none_registered s" and "length (devts s) = 4" and "errors_negative (chr env)"
  shows "loads_or_nothing (trace_ready (length (present_cpus env))) trace_freed TRACE_MINOR mem_trace_exit (mem_trace_init env s)"
proof -
  let ?s = "s\<lparr>count_region := length (present_cpus env)\<rparr>"
  have four: "TRACE_MINOR = 4" by (simp add: TRACE_MINOR_def)
  have exit: "mem_trace_exit = unregister (clean_devs [0 ..< TRACE_MINOR]) TRACE_MINOR"
    by (rule ext) (simp add: mem_trace_exit_def unregister_def all_trace_driver_del_chardev_def all_trace_device_destroy_def)
  have "trace_start ?s \<and> count_region ?s = length (present_cpus env)" "none_registered ?s" "length (devts ?s) = 4"
    using assms(1-3) by (simp_all add: trace_start_def none_registered_def)
  from trace_mod.load_ok [OF this assms(4), of env] show ?thesis
    unfolding exit mem_trace_init_loads [OF assms(1-3)] four .
qed

definition demo_trace_env :: trace_env where
  "demo_trace_env = \<lparr>present_cpus = [0, 1], kzalloc_ok = (\<lambda>_. True), chr = \<lparr>alloc_chrdev_region = Inr 250, class_create_err = None,
     cdev_add_result = (\<lambda>_. 0), device_create_err = (\<lambda>i. if i = 3 then Some (- 12) else None)\<rparr>\<rparr>"

definition demo_trace_module :: trace_module where
  "demo_trace_module = \<lparr>devts = replicate 4 None, base_dev = None, dev_class = False, cdevs = [], devices = [],
     vector_trace = replicate 4 \<lparr>ptr_region = No_Regions, ptr_cb = Mem_Buff_To, td_name = []\<rparr>, count_region = 0\<rparr>"

text \<open>A machine on which the fourth sysfs device cannot be made.\<close>

theorem trace_module_all_or_nothing_witness:
  "loads_or_nothing (trace_ready (length (present_cpus demo_trace_env))) trace_freed TRACE_MINOR mem_trace_exit
    (mem_trace_init demo_trace_env demo_trace_module)"
  by (rule trace_module_all_or_nothing)
     (simp_all add: trace_start_def none_registered_def errors_negative_def demo_trace_module_def demo_trace_env_def)

text \<open>
  C34. Reading a trace device: on a module whose \<open>count_region\<close> regions are in place and whose CPU numbers
  lie below their number, \<open>read\<close> takes the oldest measures of every present CPU (at most the
  number asked for and at most 500) out of the rings of the device and into the CPU's region,
  keeps the later ones in the rings and touches no other ring. The regions reach the user when the
  final copy leaves no byte, and the result is their size; otherwise the read returns \<open>-EIO\<close> and the
  measures taken are lost.
\<close>

theorem trace_read_delivers_oldest:
  assumes "buf \<noteq> 0" and "ptr_region t = Regions regs" and "\<forall>reg \<in> set regs. length (rm_buffer reg) = BUFF_READ"
    and "distinct (present_cpus env)" and "\<forall>j \<in> set (present_cpus env). j < length regs \<and> cb_wf (rings ts (ptr_cb t) j)"
    and "n_regions = length regs"
  shows "\<exists>ret out t' ts' regs'. trace_driver_read env ce n_regions buf addr len t ts = Inr (ret, out, t', ts') \<and>
    ptr_region t' = Regions regs' \<and> length regs' = length regs \<and> ts_k ts' = ts_k ts \<and>
    (\<forall>j \<in> set (present_cpus env). delivers (min (unat len) BUFF_READ) (regs' ! j) (rings ts (ptr_cb t) j) (rings ts' (ptr_cb t) j)) \<and>
    (\<forall>b j. b \<noteq> ptr_cb t \<or> j \<notin> set (present_cpus env) \<longrightarrow> rings ts' b j = rings ts b j) \<and>
    (if copy_to_user_pure ce buf addr (of_nat (sizeof_region_mem * n_regions)) = 0
     then ret = int (sizeof_region_mem * n_regions) \<and> out = Some regs' else ret = - 5 \<and> out = None)"
proof -
  obtain regs' cbs' where r: "length regs' = length regs"
    "\<forall>j \<in> set (present_cpus env). delivers (min (unat len) BUFF_READ) (regs' ! j) (rings ts (ptr_cb t) j) (cbs' j)"
    "\<forall>j. j \<notin> set (present_cpus env) \<longrightarrow> cbs' j = rings ts (ptr_cb t) j"
    "trace_driver_read env ce n_regions buf addr len t ts =
      Inr (if copy_to_user_pure ce buf addr (of_nat (sizeof_region_mem * n_regions)) = 0
        then (int (sizeof_region_mem * n_regions), Some regs', t\<lparr>ptr_region := Regions regs'\<rparr>, ts\<lparr>rings := (rings ts)(ptr_cb t := cbs')\<rparr>)
        else (- 5, None, t\<lparr>ptr_region := Regions regs'\<rparr>, ts\<lparr>rings := (rings ts)(ptr_cb t := cbs')\<rparr>))"
    using trace_read_run [OF assms(1-5), of n_regions len ce addr] assms(6) by auto
  let ?ok = "copy_to_user_pure ce buf addr (of_nat (sizeof_region_mem * n_regions)) = 0"
  let ?t = "t\<lparr>ptr_region := Regions regs'\<rparr>" and ?ts = "ts\<lparr>rings := (rings ts)(ptr_cb t := cbs')\<rparr>"
  have "\<forall>b j. b \<noteq> ptr_cb t \<or> j \<notin> set (present_cpus env) \<longrightarrow> rings ?ts b j = rings ts b j" using r(3) by simp
  moreover have "trace_driver_read env ce n_regions buf addr len t ts =
      Inr (if ?ok then int (sizeof_region_mem * n_regions) else - 5, if ?ok then Some regs' else None, ?t, ?ts)"
    unfolding r(4) by simp
  ultimately show ?thesis using r(1,2)
    by (intro exI [of _ "if ?ok then int (sizeof_region_mem * n_regions) else - 5"] exI [of _ "if ?ok then Some regs' else None"]
        exI [of _ ?t] exI [of _ ?ts] exI [of _ regs']) (cases ?ok; simp)
qed

definition demo_region :: region_mem where
  "demo_region = \<lparr>rm_count = 0, rm_buffer = replicate BUFF_READ zero_unit\<rparr>"

definition demo_trace_dev :: trace_dev where
  "demo_trace_dev = \<lparr>ptr_region = Regions [demo_region, demo_region], ptr_cb = Mem_Buff_To, td_name = []\<rparr>"

theorem trace_read_delivers_oldest_witness:
  "\<exists>ret out t' ts' regs'. trace_driver_read demo_trace_env demo_ce 2 4096 8192 10 demo_trace_dev demo_ts = Inr (ret, out, t', ts') \<and>
    ret = 56016 \<and> out = Some regs' \<and> rm_count (regs' ! 1) = 0"
proof -
  have wf: "cb_wf (rings demo_ts b j)" and nil: "cb_list (rings demo_ts b j) = []" for b j by (simp_all add: demo_ts_def cbInit_wf)
  have c: "copy_to_user_pure demo_ce 4096 8192 n = 0" for n by (simp add: copy_to_user_pure_def demo_ce_def as_int_def)
  have r: "ptr_region demo_trace_dev = Regions [demo_region, demo_region]" "present_cpus demo_trace_env = [0, 1]"
    "length (rm_buffer demo_region) = BUFF_READ"
    by (simp_all add: demo_trace_dev_def demo_trace_env_def demo_region_def)
  have "(4096 :: u64) \<noteq> 0" "2 = length [demo_region, demo_region]" by simp_all
  from trace_read_delivers_oldest [OF this(1) r(1) _ _ _ this(2), of demo_trace_env demo_ts demo_ce 8192 10] show ?thesis
    using r(2,3) c wf nil by (auto simp: delivers_def sizeof_region_mem_def BUFF_READ_def unat_eq_0)
qed

end
