(* ===== verification/Copy_Repeat.thy ===== *)
theory Copy_Repeat
  imports Prio_Policy
begin

text \<open>
  Copies one after the other. A copy changes of the engine only the driver's state, the live mappings and the
  statistics of channels; so the policies choose the same channels again, and a driver that
  drains and stays so while it is polled serves any number of copies. The micro-benchmarks
  rely on this: they repeat one request hundreds of times.
\<close>

definition has_local :: "dma_chan \<Rightarrow> bool" where
  "has_local ch \<longleftrightarrow> (\<exists>l. ch_local ch = Local l)"

definition moved :: "'d engine \<Rightarrow> 'd engine \<Rightarrow> bool" where
  "moved s s' \<longleftrightarrow> s' = s\<lparr>drv := drv s', live_maps := live_maps s', chans := chans s'\<rparr> \<and>
     (\<forall>c. ch_device (chans s' c) = ch_device (chans s c) \<and> has_local (chans s' c) = has_local (chans s c))"

lemma moved_refl [intro, simp]: "moved s s"
  by (simp add: moved_def)

lemma moved_trans:
  assumes "moved s s1" and "moved s1 s2"
  shows "moved s s2"
proof -
  have "s2 = (s\<lparr>drv := drv s1, live_maps := live_maps s1, chans := chans s1\<rparr>)\<lparr>drv := drv s2, live_maps := live_maps s2, chans := chans s2\<rparr>"
    using assms unfolding moved_def by metis
  then show ?thesis using assms by (simp add: moved_def)
qed

lemma moved_fields:
  assumes "moved s s'"
  shows "devs s' = devs s" "percpu_chan_copy s' = percpu_chan_copy s" "channel_table s' = channel_table s"
    "list_chan_prio s' = list_chan_prio s" "copy_dmaengine_ref_count s' = copy_dmaengine_ref_count s"
    "ch_device (chans s' c) = ch_device (chans s c)" "has_local (chans s' c) = has_local (chans s c)"
proof -
  have e: "s' = s\<lparr>drv := drv s', live_maps := live_maps s', chans := chans s'\<rparr>" using assms by (simp add: moved_def)
  show "devs s' = devs s" "percpu_chan_copy s' = percpu_chan_copy s" "channel_table s' = channel_table s"
    "list_chan_prio s' = list_chan_prio s" "copy_dmaengine_ref_count s' = copy_dmaengine_ref_count s"
    by (subst e, simp)+
  show "ch_device (chans s' c) = ch_device (chans s c)" "has_local (chans s' c) = has_local (chans s c)"
    using assms by (simp_all add: moved_def)
qed

text \<open>The policies choose as before.\<close>

lemma moved_selects:
  assumes "moved s s'"
  shows "copy_dma_get_channel_sh env s' = copy_dma_get_channel_sh env s"
    "copy_dma_get_channel_excl env s' = copy_dma_get_channel_excl env s"
    "copy_dma_get_channel_prio p s' = copy_dma_get_channel_prio p s"
  using moved_fields [OF assms]
  by (simp_all add: copy_dma_get_channel_sh_def copy_dma_get_channel_excl_def copy_dma_get_channel_prio_def
      copy_aligned_def dma_find_channel_def Let_def cong: option.case_cong)

subsection \<open>The pieces of a copy\<close>

text \<open>Being moved is an equivalence, so each step can be added or removed on either side.\<close>

lemma moved_sym: "moved s s' \<Longrightarrow> moved s' s"
proof -
  assume m: "moved s s'"
  have e: "s' = s\<lparr>drv := drv s', live_maps := live_maps s', chans := chans s'\<rparr>" using m by (simp add: moved_def)
  have "s = s'\<lparr>drv := drv s, live_maps := live_maps s, chans := chans s\<rparr>" by (subst e) simp
  then show ?thesis using m by (simp add: moved_def)
qed

lemma moved_cong: "moved s s1 \<Longrightarrow> moved t s1 = moved t s" "moved s s1 \<Longrightarrow> moved s1 t = moved s t"
  using moved_trans moved_sym by blast+

lemma moved_drv: "moved s (s\<lparr>drv := d\<rparr>)"
  by (simp add: moved_def)

lemma moved_note_map: "moved s (note_map k a n dir s)" and moved_unmap: "moved s (dma_unmap k a n dir s)"
  by (simp_all add: moved_def note_map_def dma_unmap_def)

lemma moved_issue: "moved s (dma_async_issue_pending c s)"
  by (simp add: dma_async_issue_pending_def moved_drv)

lemmas moved_simps [simp] = moved_drv [THEN moved_cong(1)] moved_drv [THEN moved_cong(2)]
  moved_note_map [THEN moved_cong(1)] moved_note_map [THEN moved_cong(2)]
  moved_unmap [THEN moved_cong(1)] moved_unmap [THEN moved_cong(2)]
  moved_issue [THEN moved_cong(1)] moved_issue [THEN moved_cong(2)]

lemma moved_prep: "call_prep c dd ds n fl s = (r, s') \<Longrightarrow> moved t s' = moved t s"
  by (auto simp: call_prep_def split: prod.splits)

lemma moved_submit:
  assumes "submit_and_count env c tx n s = Inr (k, s')"
  shows "moved t s' = moved t s"
proof (rule moved_cong)
  show "moved s s'"
    using assms
    by (auto simp: submit_and_count_def call_submit_def count_bytes_def moved_def has_local_def upd_chan_def Let_def
        split: prod.splits percpu_ptr.splits if_splits)
qed

lemma moved_buf_to_pg: "dma_async_memcpy_buf_to_pg me env c pg off ka n s = Inr (k, s') \<Longrightarrow> moved s s'"
  by (auto simp: dma_async_memcpy_buf_to_pg_def Let_def moved_prep moved_submit split: prod.splits option.splits)

lemma moved_pg_to_buf: "dma_async_memcpy_pg_to_buf me env c pg off ka n s = Inr (k, s') \<Longrightarrow> moved s s'"
  by (auto simp: dma_async_memcpy_pg_to_buf_def Let_def moved_prep moved_submit split: prod.splits option.splits if_splits)

subsection \<open>Drivers that keep serving\<close>

text \<open>
  On the states \<open>ok\<close> the driver drains, and starting a channel, asking for a status and the progress of
  the hardware all keep them.
\<close>

definition steady :: "('d \<Rightarrow> bool) \<Rightarrow> ('d \<Rightarrow> nat) \<Rightarrow> 'd wait_env \<Rightarrow> 'd dma_device \<Rightarrow> nat \<Rightarrow> bool" where
  "steady ok backlog we dev c \<longleftrightarrow> drains ok backlog dev c \<and>
     (\<forall>d. ok d \<longrightarrow> ok (device_issue_pending dev c d) \<and> (\<forall>k. ok (snd (device_tx_status dev c k d))) \<and> (\<forall>i. ok (hw we i d)))"

definition serves :: "('d \<Rightarrow> bool) \<Rightarrow> ('d \<Rightarrow> nat) \<Rightarrow> 'd wait_env \<Rightarrow> nat \<Rightarrow> 'd engine \<Rightarrow> bool" where
  "serves ok backlog we c s \<longleftrightarrow> steady ok backlog we (devs s (ch_device (chans s c))) c \<and> has_local (chans s c) \<and> ok (drv s)"

lemma serves_ready: "serves ok backlog we c s \<Longrightarrow> ready ok backlog c s"
  by (simp add: serves_def steady_def ready_def has_local_def)

lemma serves_moved: "serves ok backlog we c s \<Longrightarrow> moved s s' \<Longrightarrow> ok (drv s') \<Longrightarrow> serves ok backlog we c s'"
  using moved_fields [of s s'] by (simp add: serves_def)

lemma wait_keeps:
  assumes "serves ok backlog we c s" and "expired we (i + n)"
  shows "\<exists>st s'. sync_wait_loop we i c k s = Some (st, s') \<and> st \<noteq> DMA_IN_PROGRESS \<and> moved s s' \<and> ok (drv s')"
  using assms
proof (induction n arbitrary: i s)
  case 0
  obtain st s1 where p: "dma_async_is_tx_complete c k s = (st, s1)" by fastforce
  then have "moved s s1" "ok (drv s1)"
    using 0(1) by (auto simp: dma_async_is_tx_complete_def serves_def steady_def split: prod.splits) (metis snd_conv)
  then show ?case using 0(2) p by (subst sync_wait_loop.simps) simp
next
  case (Suc n)
  obtain st s1 where p: "dma_async_is_tx_complete c k s = (st, s1)" by fastforce
  then have m: "moved s s1" "ok (drv s1)"
    using Suc.prems(1) by (auto simp: dma_async_is_tx_complete_def serves_def steady_def split: prod.splits) (metis snd_conv)
  let ?s = "s1\<lparr>drv := hw we i (drv s1)\<rparr>"
  have "ok (drv ?s)" using m Suc.prems(1) by (simp add: serves_def steady_def)
  moreover have "moved s ?s" using m(1) by simp
  ultimately have "serves ok backlog we c ?s" using serves_moved [OF Suc.prems(1)] by blast
  from Suc.IH [OF this, of "Suc i"] Suc.prems(2) obtain st' s2 where
    "sync_wait_loop we (Suc i) c k ?s = Some (st', s2)" "st' \<noteq> DMA_IN_PROGRESS" "moved s1 s2" "ok (drv s2)" by auto
  moreover have "moved s s2" using moved_trans [OF m(1)] calculation(3) by blast
  ultimately show ?case using p m by (subst sync_wait_loop.simps) auto
qed

text \<open>The states the pieces of a copy go through.\<close>

definition under_way :: "('d \<Rightarrow> bool) \<Rightarrow> ('d \<Rightarrow> nat) \<Rightarrow> nat \<Rightarrow> 'd engine \<Rightarrow> 'd engine \<Rightarrow> bool" where
  "under_way ok backlog c s0 s \<longleftrightarrow> ready ok backlog c s \<and> moved s0 s"

interpretation to_user_again: polled_transfer "dma_async_memcpy_buf_to_pg me env chan" chan
    "under_way ok backlog chan s0" "\<lambda>s. backlog (drv s)"
  for me env chan ok s0 and backlog :: "'d \<Rightarrow> nat"
proof
  fix s :: "'d engine" and pg off ka m
  assume u: "under_way ok backlog chan s0 s"
  obtain c s1 where r: "dma_async_memcpy_buf_to_pg me env chan pg off ka m s = Inr (c, s1)"
    "if c < 0 then ready ok backlog chan (dma_async_issue_pending chan s1) \<and>
       backlog (drv (dma_async_issue_pending chan s1)) < backlog (drv s) else ready ok backlog chan s1"
    using to_user_accept [of ok backlog chan s me env pg off ka m] u by (auto simp: under_way_def)
  then show "\<exists>c s1. dma_async_memcpy_buf_to_pg me env chan pg off ka m s = Inr (c, s1) \<and>
    (if c < 0 then under_way ok backlog chan s0 (dma_async_issue_pending chan s1) \<and>
       backlog (drv (dma_async_issue_pending chan s1)) < backlog (drv s) else under_way ok backlog chan s0 s1)"
    using moved_trans [OF _ moved_buf_to_pg [OF r(1)]] u by (auto simp: under_way_def split: if_splits)
qed

interpretation from_user_again: polled_transfer "dma_async_memcpy_pg_to_buf me env chan" chan
    "\<lambda>s. under_way ok backlog chan s0 s \<and> maps_succeed me" "\<lambda>s. backlog (drv s)"
  for me env chan ok s0 and backlog :: "'d \<Rightarrow> nat"
proof
  fix s :: "'d engine" and pg off ka m
  assume u: "under_way ok backlog chan s0 s \<and> maps_succeed me"
  obtain c s1 where r: "dma_async_memcpy_pg_to_buf me env chan pg off ka m s = Inr (c, s1)"
    "if c < 0 then ready ok backlog chan (dma_async_issue_pending chan s1) \<and>
       backlog (drv (dma_async_issue_pending chan s1)) < backlog (drv s) else ready ok backlog chan s1"
    using from_user_accept [of ok backlog chan s me env pg off ka m] u by (auto simp: under_way_def)
  then show "\<exists>c s1. dma_async_memcpy_pg_to_buf me env chan pg off ka m s = Inr (c, s1) \<and>
    (if c < 0 then (under_way ok backlog chan s0 (dma_async_issue_pending chan s1) \<and> maps_succeed me) \<and>
       backlog (drv (dma_async_issue_pending chan s1)) < backlog (drv s) else under_way ok backlog chan s0 s1 \<and> maps_succeed me)"
    using moved_trans [OF _ moved_pg_to_buf [OF r(1)]] u by (auto simp: under_way_def split: if_splits)
qed

subsection \<open>A whole copy\<close>

lemma copy_raw_again:
  assumes "pages r = Pages pgs" and "moderate r" and "rq_len r \<noteq> 0" and "rq_page_count r \<le> length pgs"
    and "expired we t" and "polled_transfer xfer c okst backlog'" and "okst s"
    and "\<And>s1. okst s1 \<Longrightarrow> under_way ok backlog c s s1" and "serves ok backlog we c s"
  shows "\<exists>k st s'. copy_raw we xfer c r s = Some (Inr (0, r\<lparr>dma_cookie_f := k, rq_status := st\<rparr>, s')) \<and>
    transferred we xfer c pgs r s k st s' \<and> st \<noteq> DMA_IN_PROGRESS \<and> moved s s' \<and> ok (drv s')"
proof -
  have len: "0 < unat (rq_len r)" "unat (rq_len r) < 2 ^ 31" using assms(2,3) by (simp_all add: moderate_def unat_gt_0)
  have "map fst (rq_pieces r) = [0 ..< 0 + (unat (user_base r) mod 4096 + unat (rq_len r) + 4095) div 4096]"
    unfolding rq_pieces_def by (rule page_segments_indices) (use len in auto)
  then have "\<forall>i \<in> set (map fst (rq_pieces r)). i < length pgs" using assms(4) by (simp add: rq_page_count_def)
  then obtain k s1 where k: "run_pieces xfer c pgs 0 (rq_pieces r) s = Some (Inr (k, s1))" "okst s1"
    using polled_transfer.pieces_return [OF assms(6,7), of 0 "rq_pieces r" pgs] by auto
  have u: "ready ok backlog c s1" "moved s s1" using assms(8) [OF k(2)] by (simp_all add: under_way_def)
  then have "serves ok backlog we c s1" using serves_moved [OF assms(9)] by (simp add: ready_def)
  then have "serves ok backlog we c (dma_async_issue_pending c s1)"
    using serves_moved [of ok backlog we c s1 "dma_async_issue_pending c s1"]
    by (simp add: serves_def steady_def dma_async_issue_pending_def)
  from wait_keeps [OF this, of 0 t k] assms(5) obtain st s2 where
    "dma_sync_wait we c k s1 = Some (st, s2)" "st \<noteq> DMA_IN_PROGRESS" "moved s1 s2" "ok (drv s2)"
    by (auto simp: dma_sync_wait_def)
  moreover have "moved s s2" using moved_trans [OF u(2)] calculation(3) by blast
  moreover have "transferred we xfer c pgs r s k st s2" using k(1) calculation(1) by (auto simp: transferred_def)
  ultimately show ?thesis
    using transferred_raw [OF _ assms(1) len] by (intro exI [of _ k] exI [of _ st] exI [of _ s2]) simp
qed

lemma transferred_chan:
  "transferred we xfer c ps (r\<lparr>rq_chan := cp\<rparr>) s k st s' = transferred we xfer c ps r s k st s'"
  by (simp add: transferred_def rq_pieces_def)

text \<open>
  The effect on the engine of a copy on pinned pages: on the channel \<open>cp\<close>, if there is one, the pieces
  of the request were submitted by \<open>xfer\<close> and the last one was waited for; without one, nothing.
\<close>

definition transfer_on :: "'d wait_env \<Rightarrow> (nat \<Rightarrow> 'd xfer) \<Rightarrow> nat list \<Rightarrow> nat option \<Rightarrow> 'a request_copy_scheme
    \<Rightarrow> 'd engine \<Rightarrow> 'd engine \<Rightarrow> bool" where
  "transfer_on we xfer ps cp r s s' \<longleftrightarrow> (case cp of None \<Rightarrow> s' = s
     | Some c \<Rightarrow> \<exists>k st. transferred we (xfer c) c ps r s k st s' \<and> st \<noteq> DMA_IN_PROGRESS)"

lemma transfer_on_pieces:
  assumes "rq_pieces r = rq_pieces r'"
  shows "transfer_on we xfer ps cp r s s' = transfer_on we xfer ps cp r' s s'"
  using assms by (simp add: transfer_on_def transferred_def split: option.splits)

text \<open>What the copy leaves: its result, an engine that serves as before, and its effect.\<close>

definition copy_again :: "('d \<Rightarrow> bool) \<Rightarrow> 'd wait_env \<Rightarrow> (nat \<Rightarrow> 'd xfer) \<Rightarrow> nat list \<Rightarrow> nat option \<Rightarrow> 'a request_copy_scheme \<Rightarrow> 'd engine
    \<Rightarrow> (int \<times> 'a request_copy_scheme \<times> 'd engine) outcome option \<Rightarrow> bool" where
  "copy_again ok we xfer ps cp r s res \<longleftrightarrow> (\<exists>k st s'. res = Some (Inr (if cp = None then - 16 else 0,
     r\<lparr>rq_chan := cp, dma_cookie_f := k, rq_status := st\<rparr>, s')) \<and> moved s s' \<and> ok (drv s') \<and> transfer_on we xfer ps cp r s s')"

lemma entry_again:
  assumes "pages r = Pages ps" and "moderate r" and "rq_len r \<noteq> 0" and "rq_page_count r \<le> length ps"
    and "expired we t" and "maps_succeed me" and "\<forall>c. cp = Some c \<longrightarrow> serves ok backlog we c s" and "ok (drv s)"
  shows "copy_again ok we (dma_async_memcpy_buf_to_pg me env) ps cp r s
      (if cp = None then Some (Inr (- 16, r\<lparr>rq_chan := cp\<rparr>, s)) else case cp of
      None \<Rightarrow> Some (Inl Null_Deref) | Some c \<Rightarrow> copy_raw we (dma_async_memcpy_buf_to_pg me env c) c (r\<lparr>rq_chan := cp\<rparr>) s)"
    and "copy_again ok we (dma_async_memcpy_pg_to_buf me env) ps cp r s
      (if cp = None then Some (Inr (- 16, r\<lparr>rq_chan := cp\<rparr>, s)) else case cp of
      None \<Rightarrow> Some (Inl Null_Deref) | Some c \<Rightarrow> copy_raw we (dma_async_memcpy_pg_to_buf me env c) c (r\<lparr>rq_chan := cp\<rparr>) s)"
proof -
  have none: "copy_again ok we xfer ps None r s (Some (Inr (- 16, r\<lparr>rq_chan := None\<rparr>, s)))" for xfer
    unfolding copy_again_def
    by (rule exI [of _ "dma_cookie_f r"], rule exI [of _ "rq_status r"], rule exI [of _ s]) (simp add: assms(8) transfer_on_def)
  show "copy_again ok we (dma_async_memcpy_buf_to_pg me env) ps cp r s
      (if cp = None then Some (Inr (- 16, r\<lparr>rq_chan := cp\<rparr>, s)) else case cp of
      None \<Rightarrow> Some (Inl Null_Deref) | Some c \<Rightarrow> copy_raw we (dma_async_memcpy_buf_to_pg me env c) c (r\<lparr>rq_chan := cp\<rparr>) s)"
  proof (cases cp)
    case (Some c)
    let ?r = "r\<lparr>rq_chan := Some c\<rparr>"
    have f: "pages ?r = Pages ps" "moderate ?r" "rq_len ?r \<noteq> 0" "rq_page_count ?r \<le> length ps"
      using assms(1-4) by (simp_all add: moderate_def rq_page_count_def)
    have s: "serves ok backlog we c s" using assms(7) Some by simp
    then have u: "under_way ok backlog c s s" by (simp add: under_way_def serves_ready)
    show ?thesis
      using copy_raw_again [OF f assms(5) to_user_again.polled_transfer_axioms [of me env c ok backlog s] u _ s] Some
      by (auto simp: copy_again_def transfer_on_def transferred_chan) blast+
  qed (use none in simp)
  show "copy_again ok we (dma_async_memcpy_pg_to_buf me env) ps cp r s
      (if cp = None then Some (Inr (- 16, r\<lparr>rq_chan := cp\<rparr>, s)) else case cp of
      None \<Rightarrow> Some (Inl Null_Deref) | Some c \<Rightarrow> copy_raw we (dma_async_memcpy_pg_to_buf me env c) c (r\<lparr>rq_chan := cp\<rparr>) s)"
  proof (cases cp)
    case (Some c)
    let ?r = "r\<lparr>rq_chan := Some c\<rparr>"
    have f: "pages ?r = Pages ps" "moderate ?r" "rq_len ?r \<noteq> 0" "rq_page_count ?r \<le> length ps"
      using assms(1-4) by (simp_all add: moderate_def rq_page_count_def)
    have s: "serves ok backlog we c s" using assms(7) Some by simp
    then have u: "under_way ok backlog c s s" by (simp add: under_way_def serves_ready)
    show ?thesis
      using copy_raw_again [OF f assms(5) from_user_again.polled_transfer_axioms [of me env c ok backlog s]
          conjI [OF u assms(6)] _ s] Some
      by (auto simp: copy_again_def transfer_on_def transferred_chan) blast+
  qed (use none in simp)
qed

text \<open>The routines of the shared and the exclusive policy.\<close>

lemma policy_copies_again:
  assumes "pages r = Pages ps" and "moderate r" and "rq_len r \<noteq> 0" and "rq_page_count r \<le> length ps"
    and "expired we t" and "maps_succeed me" and "ok (drv s)"
  shows "(\<forall>c. copy_dma_get_channel_sh env s = Some c \<longrightarrow> serves ok backlog we c s) \<Longrightarrow>
      copy_again ok we (dma_async_memcpy_buf_to_pg me env) ps (copy_dma_get_channel_sh env s) r s (dma_copy_to_user_sh me env we r s) \<and>
      copy_again ok we (dma_async_memcpy_pg_to_buf me env) ps (copy_dma_get_channel_sh env s) r s (dma_copy_from_user_sh me env we r s)"
    and "(\<forall>c. copy_dma_get_channel_excl env s = Some c \<longrightarrow> serves ok backlog we c s) \<Longrightarrow>
      copy_again ok we (dma_async_memcpy_buf_to_pg me env) ps (copy_dma_get_channel_excl env s) r s (dma_copy_to_user_excl me env we r s) \<and>
      copy_again ok we (dma_async_memcpy_pg_to_buf me env) ps (copy_dma_get_channel_excl env s) r s (dma_copy_from_user_excl me env we r s)"
proof -
  have pos: "0 < rq_len r" using assms(3) by (simp add: word_neq_0_conv)
  note again = entry_again [where env = env and ok = ok and s = s, OF assms(1-6) _ assms(7)]
  note defs = dma_copy_to_user_sh_def dma_copy_to_user_excl_def dma_copy_from_user_sh_def dma_copy_from_user_excl_def
    dma_copy_to_user_raw_def dma_copy_from_user_raw_def
  show "(\<forall>c. copy_dma_get_channel_sh env s = Some c \<longrightarrow> serves ok backlog we c s) \<Longrightarrow>
      copy_again ok we (dma_async_memcpy_buf_to_pg me env) ps (copy_dma_get_channel_sh env s) r s (dma_copy_to_user_sh me env we r s) \<and>
      copy_again ok we (dma_async_memcpy_pg_to_buf me env) ps (copy_dma_get_channel_sh env s) r s (dma_copy_from_user_sh me env we r s)"
    using again [of "copy_dma_get_channel_sh env s" backlog] pos
    by (simp add: defs Let_def split del: if_split cong: if_cong option.case_cong)
  show "(\<forall>c. copy_dma_get_channel_excl env s = Some c \<longrightarrow> serves ok backlog we c s) \<Longrightarrow>
      copy_again ok we (dma_async_memcpy_buf_to_pg me env) ps (copy_dma_get_channel_excl env s) r s (dma_copy_to_user_excl me env we r s) \<and>
      copy_again ok we (dma_async_memcpy_pg_to_buf me env) ps (copy_dma_get_channel_excl env s) r s (dma_copy_from_user_excl me env we r s)"
    using again [of "copy_dma_get_channel_excl env s" backlog] pos
    by (simp add: defs Let_def split del: if_split cong: if_cong option.case_cong)
qed

end
