(* ===== verification/Bench_Module.thy ===== *)
theory Bench_Module
  imports User_Copy Copy_Repeat Char_Devices
begin

text \<open>
  What the three micro-benchmark modules \<^verbatim>\<open>src/micro-benchmark_{Msg,Band,Cache_2CPU}/driver\<close> share: the memory
  region reserved at boot (\<^verbatim>\<open>src/source/init/boot_mem_micro-benchmark.c\<close>), the array of devices each of which owns
  one allocation, the set-up of the array with its unwinding on failure, and its release.
  Each module has its own contents of a device, the type \<open>'m\<close>.

  The locale \<open>bench_memory\<close> is what a module owes this layer: its initialisation of one device allocates or
  reports an error, and its clean-up releases what was allocated. It gives the contract \<open>chr_module\<close> of
  the registration layer.
\<close>

subsection \<open>Memory\<close>

datatype 'a kptr = Null_Ptr | Freed_Ptr | Ptr 'a

text \<open>Releasing a null pointer does nothing; releasing twice is a fault.\<close>

definition kfree :: "'a kptr \<Rightarrow> 'a kptr outcome" where
  "kfree p = (case p of Null_Ptr \<Rightarrow> Inr Null_Ptr | Freed_Ptr \<Rightarrow> Inl Use_After_Free | Ptr x \<Rightarrow> Inr Freed_Ptr)"

definition owned_ptr :: "'a kptr \<Rightarrow> bool" where
  "owned_ptr p = (case p of Ptr x \<Rightarrow> True | _ \<Rightarrow> False)"

lemma owned_ptr_simps [simp]: "\<not> owned_ptr Null_Ptr" "\<not> owned_ptr Freed_Ptr" "owned_ptr (Ptr x)"
  by (simp_all add: owned_ptr_def)

text \<open>The region reserved at boot; a null address when the reservation failed.\<close>

record boot_mem =
  boot_mem_microBenchmark :: u64
  size_boot_mem_mb :: u64

datatype mem_config = MEM_NONE | MEM_32 | MEM_64 | MEM_128 | MEM_256 | MEM_512 | MEM_1024

definition boot_init_mem_mb :: "mem_config \<Rightarrow> (u64 \<Rightarrow> u64) \<Rightarrow> boot_mem" where
  "boot_init_mem_mb cfg alloc_bootmem =
     (let sz = (case cfg of MEM_NONE \<Rightarrow> 0 | MEM_32 \<Rightarrow> 33554432 | MEM_64 \<Rightarrow> 67108864 | MEM_128 \<Rightarrow> 134217728
        | MEM_256 \<Rightarrow> 268435456 | MEM_512 \<Rightarrow> 536870912 | MEM_1024 \<Rightarrow> 1073741824)
      in \<lparr>boot_mem_microBenchmark = alloc_bootmem sz, size_boot_mem_mb = sz\<rparr>)"

definition has_boot_mem :: "boot_mem \<Rightarrow> bool" where
  "has_boot_mem bm \<longleftrightarrow> boot_mem_microBenchmark bm \<noteq> 0 \<and> 0 < size_boot_mem_mb bm"

text \<open>
  \<^verbatim>\<open>get_random_bytes\<close> takes the number of bytes as an \<^verbatim>\<open>int\<close>, which becomes an unsigned size again on its way
  to the generator; filling bytes outside the region is a fault.
\<close>

definition in_boot_mem :: "boot_mem \<Rightarrow> u64 \<Rightarrow> nat \<Rightarrow> bool" where
  "in_boot_mem bm a n \<longleftrightarrow> unat (boot_mem_microBenchmark bm) \<le> unat a \<and>
     unat a + n \<le> unat (boot_mem_microBenchmark bm) + unat (size_boot_mem_mb bm)"

definition get_random_bytes :: "boot_mem \<Rightarrow> u64 \<Rightarrow> u64 \<Rightarrow> unit outcome" where
  "get_random_bytes bm a n = (let nbytes = unat (scast (ucast n :: u32) :: u64) in
     if nbytes = 0 \<or> in_boot_mem bm a nbytes then Inr () else Inl Out_Of_Bounds)"

subsection \<open>Copies\<close>

text \<open>A step that may fault or not return, and then the next one.\<close>

definition then_run :: "'a outcome option \<Rightarrow> ('a \<Rightarrow> 'b outcome option) \<Rightarrow> 'b outcome option" where
  "then_run x f = (case x of None \<Rightarrow> None | Some (Inl e) \<Rightarrow> Some (Inl e) | Some (Inr a) \<Rightarrow> f a)"

lemma then_run_simps [simp, fault_simps]:
  "then_run None f = None" "then_run (Some (Inl e)) f = Some (Inl e)" "then_run (Some (Inr a)) f = f a"
  by (simp_all add: then_run_def)

text \<open>The CPU, the machine and the hardware at the time of a copy.\<close>

record 'd run_env =
  run_cpu :: cpu_env
  run_k :: kenv
  run_map :: map_env
  run_wait :: "'d wait_env"

lemma sint_u64_small:
  fixes w :: u64
  assumes "unat w < 2 ^ 31"
  shows "sint w = int (unat w)"
proof -
  have "int (unat w) < int (2 ^ 31)" using assms by (simp only: of_nat_less_iff)
  then have "uint w < 2 ^ 63" by simp
  moreover have "- (2 ^ 63) \<le> uint w" by (rule order_trans [OF _ uint_ge_0]) simp
  ultimately have "signed_take_bit 63 (uint w) = uint w" by (rule signed_take_bit_int_eq_self [rotated])
  then show ?thesis by (simp add: sint_uint)
qed

lemma boot_size_less: "unat (size_boot_mem_mb (boot_init_mem_mb cfg alloc)) < 2 ^ 31"
  by (cases cfg) (simp_all add: boot_init_mem_mb_def Let_def)

lemma random_fits:
  assumes "n \<le> size_boot_mem_mb bm" and "unat (size_boot_mem_mb bm) < 2 ^ 31"
  shows "get_random_bytes bm (boot_mem_microBenchmark bm) n = Inr ()"
proof -
  have n: "unat n < 2 ^ 31" using assms by (simp add: word_le_nat_alt)
  then have "scast (ucast (of_nat (unat n) :: u64) :: u32) = (of_nat (unat n) :: u64)"
    by (simp only: ucast_of_nat_u64 scast_of_nat_u32)
  then have "unat (scast (ucast n :: u32) :: u64) = unat n" by simp
  then show ?thesis using assms(1) by (simp add: get_random_bytes_def in_boot_mem_def Let_def word_le_nat_alt)
qed

text \<open>A pinned request, as the copies and the release of its pages need it.\<close>

definition pin_held :: "nat list \<Rightarrow> request_copy \<Rightarrow> bool" where
  "pin_held ps r \<longleftrightarrow> pages r = Pages ps \<and> moderate r \<and> rq_len r \<noteq> 0 \<and> rq_page_count r \<le> length ps \<and>
     sint (nr_pages r) = int (length ps) \<and> 0 \<notin> set ps"

lemma pin_holds:
  assumes "pinnable pe r ps"
  shows "\<exists>r1. dma_pin_user_pages pe r wr False ks = Inr (PIN_SUCCESSFUL, r1, ks\<lparr>page_refs := refs_plus ps (page_refs ks)\<rparr>) \<and>
    pin_held ps r1 \<and> rq_len r1 = rq_len r \<and> rq_pieces r1 = rq_pieces r"
proof -
  have "\<exists>r1. dma_pin_user_pages pe r wr False ks = Inr (PIN_SUCCESSFUL, r1, ks\<lparr>page_refs := refs_plus ps (page_refs ks)\<rparr>) \<and>
      r1 = r\<lparr>nr_pages := nr_pages r1, pages := Pages ps\<rparr> \<and> sint (nr_pages r1) = int (length ps) \<and> 0 \<notin> set ps"
    using assms by (intro pin_accepts) (auto simp: pinnable_def)
  then obtain r1 where r1: "dma_pin_user_pages pe r wr False ks = Inr (PIN_SUCCESSFUL, r1, ks\<lparr>page_refs := refs_plus ps (page_refs ks)\<rparr>)"
    "r1 = r\<lparr>nr_pages := nr_pages r1, pages := Pages ps\<rparr>" "sint (nr_pages r1) = int (length ps)" "0 \<notin> set ps" by blast
  have "pages r1 = Pages ps" "rq_len r1 = rq_len r" "user_base r1 = user_base r" "kernel_base r1 = kernel_base r" by (subst r1(2), simp)+
  then show ?thesis
    using r1 assms by (auto simp: pin_held_def pinnable_def moderate_def rq_page_count_def word_neq_0_conv rq_pieces_def)
qed

lemma unpin_held:
  assumes "pin_held ps r" and "ks1 = ks\<lparr>page_refs := refs_plus ps (page_refs ks), eng := s\<rparr>"
  shows "dma_unpin_user_pages r dirty ks1 = Inr (r\<lparr>pages := Freed_Pages\<rparr>,
    ks\<lparr>eng := s, dirty_pages := (if dirty then dirty_pages ks \<union> set ps else dirty_pages ks)\<rparr>)"
  using assms unpin_pinned [of r ps ks1 "page_refs ks" dirty] by (simp add: pin_held_def)

lemma pin_held_update [simp]: "pin_held ps (r\<lparr>rq_chan := cp, dma_cookie_f := k, rq_status := st\<rparr>) = pin_held ps r"
  by (simp add: pin_held_def moderate_def rq_page_count_def)

text \<open>The two directions of a transfer: from the user's pages into the kernel buffer and back.\<close>

abbreviation pages_to_buffer :: "'d run_env \<Rightarrow> nat \<Rightarrow> 'd xfer" where
  "pages_to_buffer re \<equiv> dma_async_memcpy_pg_to_buf (run_map re) (run_k re)"

abbreviation buffer_to_pages :: "'d run_env \<Rightarrow> nat \<Rightarrow> 'd xfer" where
  "buffer_to_pages re \<equiv> dma_async_memcpy_buf_to_pg (run_map re) (run_k re)"

text \<open>Effects one after the other, one for each element of a list.\<close>

fun in_turn :: "('e \<Rightarrow> 's \<Rightarrow> 's \<Rightarrow> bool) \<Rightarrow> 'e list \<Rightarrow> 's \<Rightarrow> 's \<Rightarrow> bool" where
  "in_turn eff [] s s' = (s' = s)"
| "in_turn eff (e # es) s s' = (\<exists>s1. eff e s s1 \<and> in_turn eff es s1 s')"

subsection \<open>The devices of a module\<close>


definition MB_MINOR :: nat where
  "MB_MINOR = 4"

lemma four_minors: "i < MB_MINOR \<Longrightarrow> i = 0 \<or> i = 1 \<or> i = 2 \<or> i = 3"
  by (auto simp: MB_MINOR_def)

definition MAX_CHAR_NAME_mb :: nat where
  "MAX_CHAR_NAME_mb = 128"

record 'm benchmark_dev =
  bd_data :: 'm
  bd_name :: string

record 'm bench_module = chr_devs +
  vector_mb :: "'m benchmark_dev list"
  type_measure :: u16

text \<open>\<open>mb_kzalloc i\<close>: the allocation for device \<open>i\<close> succeeds.\<close>

record bench_env =
  mb_kzalloc :: "nat \<Rightarrow> bool"
  mb_chr :: chr_env
  mb_boot :: boot_mem

text \<open>An open file: the device it is on, given by its index, and its position.\<close>

record bench_file =
  bf_private_data :: "nat option"
  bf_pos :: u64

definition benchmark_driver_open :: "nat \<Rightarrow> bench_file \<Rightarrow> int \<times> bench_file" where
  "benchmark_driver_open i filp = (0, filp\<lparr>bf_private_data := Some i\<rparr>)"

definition benchmark_driver_close :: "bench_file \<Rightarrow> int \<times> bench_file" where
  "benchmark_driver_close filp = (0, filp)"

text \<open>Two of the modules give each device a quarter of the boot memory and the same names.\<close>

definition temp_size :: "boot_mem \<Rightarrow> u64" where
  "temp_size bm = size_boot_mem_mb bm div of_nat MB_MINOR"

definition quarter_addr :: "boot_mem \<Rightarrow> nat \<Rightarrow> u64" where
  "quarter_addr bm i = boot_mem_microBenchmark bm + temp_size bm * of_nat i"

definition ch_name :: "nat \<Rightarrow> string" where
  "ch_name i = [''micro-benchmark_ch0'', ''micro-benchmark_ch1'', ''micro-benchmark_ch2'', ''micro-benchmark_ch3''] ! i"

text \<open>A region that does not wrap around the address space.\<close>

definition no_wrap :: "boot_mem \<Rightarrow> bool" where
  "no_wrap bm \<longleftrightarrow> unat (boot_mem_microBenchmark bm) + unat (size_boot_mem_mb bm) < 2 ^ 64"

lemma word_nat_inv: "of_nat (unat w) = w" for w :: u64
  by simp

lemma unat_quarter:
  assumes "unat (size_boot_mem_mb bm) < 2 ^ 31" and "no_wrap bm" and "i < MB_MINOR"
  shows "unat (temp_size bm) = unat (size_boot_mem_mb bm) div 4"
    and "unat (quarter_addr bm i) = unat (boot_mem_microBenchmark bm) + unat (size_boot_mem_mb bm) div 4 * i"
proof -
  let ?q = "unat (size_boot_mem_mb bm) div 4"
  show t: "unat (temp_size bm) = ?q" by (simp add: temp_size_def MB_MINOR_def unat_div)
  have le: "?q * i \<le> unat (size_boot_mem_mb bm)"
    by (rule order_trans [of _ "?q * 4"]) (use assms(3) in \<open>simp_all add: MB_MINOR_def\<close>)
  then have "unat (of_nat (?q * i) :: u64) = ?q * i" using assms(1) by (intro unat_of_nat_u64) linarith
  moreover have "temp_size bm * of_nat i = of_nat (?q * i)" by (simp only: of_nat_mult t [symmetric] word_nat_inv)
  ultimately have "unat (temp_size bm * of_nat i) = ?q * i" by (simp only:)
  then show "unat (quarter_addr bm i) = unat (boot_mem_microBenchmark bm) + ?q * i"
    using le assms(2) unfolding quarter_addr_def by (subst unat_add_small) (simp_all add: no_wrap_def)
qed

text \<open>One device of the array; a device that could not be set up keeps its number.\<close>

definition init_mb_at :: "(nat \<Rightarrow> 'm benchmark_dev \<Rightarrow> int \<times> 'm benchmark_dev) \<Rightarrow> nat \<Rightarrow> 'm bench_module \<Rightarrow> int \<times> 'm bench_module" where
  "init_mb_at ini i s = (case ini i (vector_mb s ! i) of (ret, d) \<Rightarrow>
     (ret, s\<lparr>devts := (if ret < 0 then devts s else (devts s)[i := None]), vector_mb := (vector_mb s)[i := d]\<rparr>))"

fun clean_mbs :: "('m benchmark_dev \<Rightarrow> 'm benchmark_dev outcome) \<Rightarrow> nat list \<Rightarrow> 'm bench_module \<Rightarrow> 'm bench_module outcome" where
  "clean_mbs cl [] s = Inr s"
| "clean_mbs cl (i # is) s =
     seq_ok (cl (vector_mb s ! i)) (\<lambda>d. clean_mbs cl is (s\<lparr>vector_mb := (vector_mb s)[i := d]\<rparr>))"

text \<open>The devices in order; the first failure cleans those before it, the last one first.\<close>

fun init_mbs :: "(nat \<Rightarrow> 'm benchmark_dev \<Rightarrow> int \<times> 'm benchmark_dev) \<Rightarrow> ('m benchmark_dev \<Rightarrow> 'm benchmark_dev outcome)
    \<Rightarrow> nat list \<Rightarrow> nat list \<Rightarrow> 'm bench_module \<Rightarrow> (int \<times> 'm bench_module) outcome" where
  "init_mbs ini cl [] made s = Inr (0, s)"
| "init_mbs ini cl (i # is) made s = (case init_mb_at ini i s of (ret, s1) \<Rightarrow>
     if ret < 0 then seq_ok (clean_mbs cl made s1) (\<lambda>s2. Inr (- errno_code ENOMEM, s2))
     else init_mbs ini cl is (i # made) s1)"

definition mb_start :: "('m benchmark_dev \<Rightarrow> bool) \<Rightarrow> u16 \<Rightarrow> 'm bench_module \<Rightarrow> bool" where
  "mb_start live tm s \<longleftrightarrow> type_measure s = tm \<and> length (vector_mb s) = MB_MINOR \<and> (\<forall>d \<in> set (vector_mb s). \<not> live d)"

definition mb_ready :: "(nat \<Rightarrow> 'm benchmark_dev \<Rightarrow> bool) \<Rightarrow> u16 \<Rightarrow> 'm bench_module \<Rightarrow> bool" where
  "mb_ready made tm s \<longleftrightarrow> type_measure s = tm \<and> length (vector_mb s) = MB_MINOR \<and> (\<forall>i < MB_MINOR. made i (vector_mb s ! i))"

definition mb_freed :: "('m benchmark_dev \<Rightarrow> bool) \<Rightarrow> 'm bench_module \<Rightarrow> bool" where
  "mb_freed live s \<longleftrightarrow> length (vector_mb s) = MB_MINOR \<and> (\<forall>d \<in> set (vector_mb s). \<not> live d)"

text \<open>The tail of loading that the three modules share, with the value \<open>x\<close> the module passes through.\<close>

lemma init_mbs_ret: "init_mbs ini cl is md s = Inr (ret, s') \<Longrightarrow> ret = 0 \<or> ret = - 12"
  by (induction "is" arbitrary: md s) (auto simp: seq_ok_eq_Inr_iff split: prod.splits if_splits)

lemma bench_load_tail:
  assumes "none_registered s"
  shows "seq_ok (init_mbs ini cl [0 ..< MB_MINOR] [] (s\<lparr>base_dev := None\<rparr>)) (\<lambda>(r, s1).
      if r \<noteq> 0 then Inr (- errno_code ENOMEM, s1, x)
      else case register_driver env MB_MINOR s1 of (ret, s2) \<Rightarrow>
        if ret = 0 then Inr (0, s2, x) else seq_ok (clean_mbs cl [0 ..< MB_MINOR] s2) (\<lambda>s3. Inr (ret, s3, x))) =
    seq_ok (load_module (init_mbs ini cl [0 ..< MB_MINOR] []) (clean_mbs cl [0 ..< MB_MINOR]) env MB_MINOR s)
      (\<lambda>(ret, s'). Inr (ret, s', x))"
proof -
  have s: "s\<lparr>base_dev := None\<rparr> = s" using assms by (cases s) (simp add: none_registered_def)
  show ?thesis
  proof (cases "init_mbs ini cl [0 ..< MB_MINOR] [] s")
    case (Inr y)
    obtain r s1 where y: "y = (r, s1)" by fastforce
    have "r = 0 \<or> r = - 12" using init_mbs_ret Inr y by blast
    then show ?thesis
      unfolding s load_module_def Inr y
      by (auto simp: register_or_release_def seq_ok_assoc split: prod.splits)
  qed (simp add: s load_module_def)
qed

locale bench_memory =
  fixes ini :: "nat \<Rightarrow> 'm benchmark_dev \<Rightarrow> int \<times> 'm benchmark_dev"
    and cl :: "'m benchmark_dev \<Rightarrow> 'm benchmark_dev outcome"
    and live :: "'m benchmark_dev \<Rightarrow> bool"
    and made :: "nat \<Rightarrow> 'm benchmark_dev \<Rightarrow> bool"
    and tm :: u16
  assumes ini_result: "ini i d = (ret, d') \<Longrightarrow> if ret < 0 then \<not> live d' else ret = 0 \<and> made i d'"
    and made_live: "made i d \<Longrightarrow> live d"
    and cl_live: "live d \<Longrightarrow> \<exists>d'. cl d = Inr d' \<and> \<not> live d'"
begin

lemma clean_result:
  assumes "distinct is" and "\<forall>i \<in> set is. i < length (vector_mb s) \<and> live (vector_mb s ! i)"
  shows "\<exists>v. clean_mbs cl is s = Inr (s\<lparr>vector_mb := v\<rparr>) \<and> length v = length (vector_mb s) \<and>
    (\<forall>j < length v. if j \<in> set is then \<not> live (v ! j) else v ! j = vector_mb s ! j)"
  using assms
proof (induction "is" arbitrary: s)
  case Nil
  show ?case by (rule exI [of _ "vector_mb s"]) simp
next
  case (Cons i "is")
  obtain d where d: "cl (vector_mb s ! i) = Inr d" "\<not> live d" using cl_live Cons.prems(2) by fastforce
  let ?s = "s\<lparr>vector_mb := (vector_mb s)[i := d]\<rparr>"
  have "\<forall>j \<in> set is. j < length (vector_mb ?s) \<and> live (vector_mb ?s ! j)"
    using Cons.prems by (auto simp: nth_list_update)
  then obtain v where v: "clean_mbs cl is ?s = Inr (?s\<lparr>vector_mb := v\<rparr>)" "length v = length (vector_mb ?s)"
    "\<forall>j < length v. if j \<in> set is then \<not> live (v ! j) else v ! j = vector_mb ?s ! j"
    using Cons.IH [of ?s] Cons.prems(1) by auto
  then show ?case
    using d Cons.prems by (intro exI [of _ v]) (auto simp: nth_list_update)
qed

lemma init_result:
  assumes "length (vector_mb s) = k + n" and "\<forall>i < k. made i (vector_mb s ! i)"
    and "\<forall>i. k \<le> i \<longrightarrow> i < k + n \<longrightarrow> \<not> live (vector_mb s ! i)"
  shows "\<exists>ret s'. init_mbs ini cl [k ..< k + n] (rev [0 ..< k]) s = Inr (ret, s') \<and>
    s' = s\<lparr>devts := devts s', vector_mb := vector_mb s'\<rparr> \<and> length (devts s') = length (devts s) \<and> length (vector_mb s') = k + n \<and>
    (if ret = 0 then \<forall>i < k + n. made i (vector_mb s' ! i) else ret < 0 \<and> (\<forall>i < k + n. \<not> live (vector_mb s' ! i)))"
  using assms
proof (induction n arbitrary: k s)
  case 0
  then show ?case by (intro exI [of _ 0] exI [of _ s]) simp
next
  case (Suc n)
  obtain ret d where r: "ini k (vector_mb s ! k) = (ret, d)" by fastforce
  note res = ini_result [OF r]
  have u: "[k ..< k + Suc n] = k # [Suc k ..< Suc k + n]" by (simp add: upt_rec)
  let ?s = "\<lambda>dv. s\<lparr>devts := dv, vector_mb := (vector_mb s)[k := d]\<rparr>"
  show ?case
  proof (cases "ret < 0")
    case True
    have "\<forall>i \<in> set (rev [0 ..< k]). i < length (vector_mb (?s (devts s))) \<and> live (vector_mb (?s (devts s)) ! i)"
      using Suc.prems made_live by (auto simp: nth_list_update)
    from clean_result [OF _ this] obtain v where
      v: "clean_mbs cl (rev [0 ..< k]) (?s (devts s)) = Inr ((?s (devts s))\<lparr>vector_mb := v\<rparr>)" "length v = k + Suc n"
        "\<forall>j < length v. if j \<in> set (rev [0 ..< k]) then \<not> live (v ! j) else v ! j = vector_mb (?s (devts s)) ! j"
      using Suc.prems(1) by auto
    have "\<forall>i < k + Suc n. \<not> live (v ! i)"
      using v(2,3) res True Suc.prems(1,3) by (auto simp: nth_list_update split: if_splits)
    then show ?thesis
      unfolding u using v(1,2) r True by (intro exI [of _ "- errno_code ENOMEM"] exI [of _ "(?s (devts s))\<lparr>vector_mb := v\<rparr>"])
        (simp add: init_mb_at_def)
  next
    case False
    let ?s1 = "?s ((devts s)[k := None])"
    have "k < length (vector_mb s)" "length (vector_mb ?s1) = Suc k + n" using Suc.prems(1) by simp_all
    moreover have "made i (vector_mb ?s1 ! i)" if "i < Suc k" for i
      using that res False Suc.prems(1,2) by (cases "i = k") simp_all
    moreover have "\<not> live (vector_mb ?s1 ! i)" if "Suc k \<le> i" "i < Suc k + n" for i
      using that Suc.prems(3) by simp
    ultimately obtain ret' s' where
      s': "init_mbs ini cl [Suc k ..< Suc k + n] (rev [0 ..< Suc k]) ?s1 = Inr (ret', s')"
        "s' = ?s1\<lparr>devts := devts s', vector_mb := vector_mb s'\<rparr>" "length (devts s') = length (devts ?s1)"
        "length (vector_mb s') = Suc k + n"
        "if ret' = 0 then \<forall>i < Suc k + n. made i (vector_mb s' ! i) else ret' < 0 \<and> (\<forall>i < Suc k + n. \<not> live (vector_mb s' ! i))"
      using Suc.IH [of ?s1 "Suc k"] by blast
    then show ?thesis
      unfolding u using r False by (intro exI [of _ ret'] exI [of _ s']) (simp add: init_mb_at_def)
  qed
qed

lemma init_all_result:
  assumes "mb_start live tm s"
  shows "\<exists>ret s'. init_mbs ini cl [0 ..< MB_MINOR] [] s = Inr (ret, s') \<and>
    (none_registered s \<longrightarrow> none_registered s') \<and> length (devts s') = length (devts s) \<and>
    (if ret = 0 then mb_ready made tm s' else ret < 0 \<and> mb_freed live s')"
proof -
  from init_result [of s 0 MB_MINOR] assms obtain ret s' where
    i: "init_mbs ini cl [0 ..< MB_MINOR] [] s = Inr (ret, s')" "s' = s\<lparr>devts := devts s', vector_mb := vector_mb s'\<rparr>"
      "length (devts s') = length (devts s)" "length (vector_mb s') = MB_MINOR"
      "if ret = 0 then \<forall>i < MB_MINOR. made i (vector_mb s' ! i) else ret < 0 \<and> (\<forall>i < MB_MINOR. \<not> live (vector_mb s' ! i))"
    by (auto simp: mb_start_def)
  have "type_measure s' = type_measure s" by (subst i(2)) simp
  moreover have "none_registered s' \<longleftrightarrow> none_registered s" by (subst i(2)) (simp add: none_registered_def)
  moreover have "if ret = 0 then mb_ready made tm s' else ret < 0 \<and> mb_freed live s'"
    using i(4,5) calculation(1) assms by (auto simp: mb_ready_def mb_start_def mb_freed_def in_set_conv_nth split: if_splits)
  ultimately show ?thesis using i(1,3) by blast
qed

lemma clean_all_result:
  assumes "mb_ready made tm s"
  shows "\<exists>s'. clean_mbs cl [0 ..< MB_MINOR] s = Inr s' \<and> (none_registered s \<longrightarrow> none_registered s') \<and> mb_freed live s'"
proof -
  from assms have "\<forall>i \<in> set [0 ..< MB_MINOR]. i < length (vector_mb s) \<and> live (vector_mb s ! i)"
    using made_live by (auto simp: mb_ready_def)
  from clean_result [OF _ this] obtain v where v: "clean_mbs cl [0 ..< MB_MINOR] s = Inr (s\<lparr>vector_mb := v\<rparr>)"
    "length v = MB_MINOR" "\<forall>j < length v. \<not> live (v ! j)"
    using assms by (auto simp: mb_ready_def)
  then show ?thesis by (auto simp: none_registered_def mb_freed_def in_set_conv_nth)
qed

end

sublocale bench_memory \<subseteq> chr_module "init_mbs ini cl [0 ..< MB_MINOR] []" "clean_mbs cl [0 ..< MB_MINOR]" MB_MINOR
  "mb_start live tm" "mb_ready made tm" "mb_freed live"
proof
  fix s s' :: "'m bench_module"
  show "mb_ready made tm s'" if "chr_devs.more s' = chr_devs.more s" "mb_ready made tm s"
    using that by (cases s; cases s') (simp add: mb_ready_def)
  show "\<exists>ret s'. init_mbs ini cl [0 ..< MB_MINOR] [] s = Inr (ret, s') \<and> none_registered s' \<and> length (devts s') = MB_MINOR \<and>
      (if ret = 0 then mb_ready made tm s' else ret < 0 \<and> mb_freed live s')"
    if "mb_start live tm s" "none_registered s" "length (devts s) = MB_MINOR"
    using init_all_result [OF that(1)] that(2,3) by metis
  show "\<exists>s'. clean_mbs cl [0 ..< MB_MINOR] s = Inr s' \<and> none_registered s' \<and> mb_freed live s'"
    if "mb_ready made tm s" "none_registered s"
    using clean_all_result [OF that(1)] that(2) by blast
qed

end
