(* ===== verification/Bench_Msg.thy ===== *)
theory Bench_Msg
  imports Bench_Module
begin

text \<open>
  The message micro-benchmark, \<^verbatim>\<open>src/micro-benchmark_Msg/driver/\<close> (\<^verbatim>\<open>micro_benchmark.h\<close>, \<^verbatim>\<open>micro_benchmark.c\<close>,
  \<^verbatim>\<open>core_benchmark.c\<close>, \<^verbatim>\<open>driverops.c\<close>): four devices, for copies from and to the user with and without a cache flush;
  writing to a device repeats the copy of the user's buffer 300 times, with the CPU or with the DMA engine under the exclusive or
  the shared policy, and reading it delivers the times taken.

  Each run takes place on some CPU, at some time and with the hardware in some state: \<open>runs i\<close> are the
  parameters of run \<open>i\<close>, run 0 being the one that warms the cache. Flushing the cache changes nothing
  the model speaks about and is left out; so are \<^verbatim>\<open>schedule\<close> and the memory barriers.
\<close>

subsection \<open>Data\<close>

definition BUFF_MEASURE :: nat where
  "BUFF_MEASURE = 300"

definition ID_COPY_FROM :: u16 where "ID_COPY_FROM = 1"
definition ID_COPY_TO :: u16 where "ID_COPY_TO = 2"
definition ID_COPY_FROM_NC :: u16 where "ID_COPY_FROM_NC = 3"
definition ID_COPY_TO_NC :: u16 where "ID_COPY_TO_NC = 4"

definition CPU_MEASURE :: u16 where "CPU_MEASURE = 0"
definition EXCLUSIVE_MEASURE :: u16 where "EXCLUSIVE_MEASURE = 1"
definition SHARED_MEASURE :: u16 where "SHARED_MEASURE = 2"

lemmas msg_ids = ID_COPY_FROM_def ID_COPY_TO_def ID_COPY_FROM_NC_def ID_COPY_TO_NC_def
  CPU_MEASURE_def EXCLUSIVE_MEASURE_def SHARED_MEASURE_def

record unit_buff_user =
  um_index_cpu :: u16
  um_size :: u64
  um_clock_start :: u64
  um_clock_end :: u64

definition zero_measure :: unit_buff_user where
  "zero_measure = \<lparr>um_index_cpu = 0, um_size = 0, um_clock_start = 0, um_clock_end = 0\<rparr>"

record benchmark_output =
  bo_count :: u32
  bo_buffer :: "unit_buff_user list"

text \<open>Its size with the alignment of x86-64.\<close>

definition sizeof_benchmark_output :: nat where
  "sizeof_benchmark_output = 8 + BUFF_MEASURE * 32"

record benchmark_data =
  user_size :: u64
  user_buf :: u64
  kernel_size :: u64
  kernel_buf :: u64
  bd_type :: u16
  results :: "benchmark_output kptr"

type_synonym msg_dev = "benchmark_data benchmark_dev"
type_synonym msg_module = "benchmark_data bench_module"

subsection \<open>Set-up of the devices\<close>

definition clean_mb_results :: "msg_dev \<Rightarrow> msg_dev outcome" where
  "clean_mb_results d = seq_ok (kfree (results (bd_data d))) (\<lambda>p. Inr (d\<lparr>bd_data := (bd_data d)\<lparr>results := p\<rparr>\<rparr>))"

definition init_micro_bench_msg :: "bool \<Rightarrow> msg_dev \<Rightarrow> string \<Rightarrow> u64 \<Rightarrow> u64 \<Rightarrow> u16 \<Rightarrow> int \<times> msg_dev" where
  "init_micro_bench_msg mem_ok d name k_addr k_size type_id =
     (if \<not> mem_ok then (- errno_code ENOMEM, d\<lparr>bd_data := (bd_data d)\<lparr>results := Null_Ptr\<rparr>\<rparr>)
      else (0, \<lparr>bd_data = \<lparr>user_size = 0, user_buf = 0, kernel_size = k_size, kernel_buf = k_addr, bd_type = type_id,
          results = Ptr \<lparr>bo_count = 0, bo_buffer = replicate BUFF_MEASURE zero_measure\<rparr>\<rparr>,
        bd_name = take (MAX_CHAR_NAME_mb - 1) name\<rparr>))"

definition msg_table :: "nat \<Rightarrow> string \<times> u16" where
  "msg_table i = [(''micro-benchmark_from'', ID_COPY_FROM), (''micro-benchmark_to'', ID_COPY_TO),
     (''micro-benchmark_from_nc'', ID_COPY_FROM_NC), (''micro-benchmark_to_nc'', ID_COPY_TO_NC)] ! i"

definition init_msg_at :: "bench_env \<Rightarrow> nat \<Rightarrow> msg_dev \<Rightarrow> int \<times> msg_dev" where
  "init_msg_at be i d = (case msg_table i of (name, type_id) \<Rightarrow>
     init_micro_bench_msg (mb_kzalloc be i) d name (boot_mem_microBenchmark (mb_boot be)) (size_boot_mem_mb (mb_boot be)) type_id)"

definition init_all_micro_bench_msg :: "bench_env \<Rightarrow> msg_module \<Rightarrow> (int \<times> msg_module) outcome" where
  "init_all_micro_bench_msg be s = init_mbs (init_msg_at be) clean_mb_results [0 ..< MB_MINOR] [] s"

definition micro_bench_register_driver_msg :: "bench_env \<Rightarrow> msg_module \<Rightarrow> int \<times> msg_module" where
  "micro_bench_register_driver_msg be s = register_driver (mb_chr be) MB_MINOR s"

text \<open>The policy that goes with the kind of measure.\<close>

definition start_policy_msg :: "kenv \<Rightarrow> u16 \<Rightarrow> 'd engine \<Rightarrow> (int \<times> 'd engine) outcome" where
  "start_policy_msg env tm e =
     (if tm = CPU_MEASURE then Inr (0, e)
      else if tm = EXCLUSIVE_MEASURE then
        seq_ok (start_policy_excl env e) (\<lambda>(ret, e1). Inr (if ret < 0 then - errno_code EPERM else 0, e1))
      else if tm = SHARED_MEASURE then Inr (0, start_policy_sh env e)
      else Inr (- errno_code EPERM, e))"

definition stop_policy_msg :: "kenv \<Rightarrow> u16 \<Rightarrow> 'd engine \<Rightarrow> 'd engine outcome" where
  "stop_policy_msg env tm e =
     seq_ok (if tm = EXCLUSIVE_MEASURE then stop_policy_excl env e else Inr e) (\<lambda>e1.
       if tm = SHARED_MEASURE then stop_policy_sh env e1 else Inr e1)"

definition micro_benchmark_init_msg :: "bench_env \<Rightarrow> kenv \<Rightarrow> msg_module \<Rightarrow> 'd engine \<Rightarrow> (int \<times> msg_module \<times> 'd engine) outcome" where
  "micro_benchmark_init_msg be env s e =
     (if \<not> has_boot_mem (mb_boot be) then Inr (- errno_code ENOMEM, s, e)
      else seq_ok (start_policy_msg env (type_measure s) e) (\<lambda>(ret, e1).
        if ret < 0 then Inr (ret, s, e1)
        else seq_ok (init_all_micro_bench_msg be (s\<lparr>base_dev := None\<rparr>)) (\<lambda>(r, s1).
          if r \<noteq> 0 then Inr (- errno_code ENOMEM, s1, e1)
          else case micro_bench_register_driver_msg be s1 of (ret, s2) \<Rightarrow>
            if ret = 0 then Inr (0, s2, e1)
            else seq_ok (clean_mbs clean_mb_results [0 ..< MB_MINOR] s2) (\<lambda>s3. Inr (ret, s3, e1)))))"

definition micro_benchmark_exit_msg :: "kenv \<Rightarrow> msg_module \<Rightarrow> 'd engine \<Rightarrow> (msg_module \<times> 'd engine) outcome" where
  "micro_benchmark_exit_msg env s e =
     seq_ok (stop_policy_msg env (type_measure s) e) (\<lambda>e1.
       let s1 = all_driver_del_chardev MB_MINOR (all_device_destroy MB_MINOR s) in
       seq_ok (clean_mbs clean_mb_results [0 ..< MB_MINOR] (s1\<lparr>dev_class := False, base_dev := None\<rparr>)) (\<lambda>s2. Inr (s2, e1)))"

subsection \<open>One measured copy\<close>

type_synonym 'd copy_routine = "'d run_env \<Rightarrow> request_copy \<Rightarrow> 'd engine \<Rightarrow> (int \<times> request_copy \<times> 'd engine) outcome option"
type_synonym 'd ptr_copy = "'d run_env \<Rightarrow> unit_buff_user \<Rightarrow> request_copy \<Rightarrow> 'd engine
  \<Rightarrow> (int \<times> unit_buff_user \<times> request_copy \<times> 'd engine) outcome option"

text \<open>The frame of the six routines: the clock of the CPU before and after the copy.\<close>

definition clocked :: "'d copy_routine \<Rightarrow> 'd ptr_copy" where
  "clocked cp re u r s =
     (let u1 = u\<lparr>um_clock_start := clock_before (run_cpu re) (unat (um_index_cpu u))\<rparr> in
      then_run (cp re r s) (\<lambda>(ret, r1, s1).
        Some (Inr (ret, u1\<lparr>um_clock_end := clock_after (run_cpu re) (unat (um_index_cpu u))\<rparr>, r1, s1))))"

definition cpu_from :: "'d copy_routine" where
  "cpu_from re r s = Some (Inr (as_int (ucast (copy_from_user_pure (run_cpu re) (kernel_base r) (user_base r) (rq_len r))), r, s))"

definition cpu_to :: "'d copy_routine" where
  "cpu_to re r s = Some (Inr (copy_to_user_pure (run_cpu re) (user_base r) (kernel_base r) (ucast (rq_len r)), r, s))"

definition cpu_copy_from_measure :: "'d ptr_copy" where
  "cpu_copy_from_measure = clocked cpu_from"

definition cpu_copy_to_measure :: "'d ptr_copy" where
  "cpu_copy_to_measure = clocked cpu_to"

definition dma_copy_from_measure_ex :: "'d ptr_copy" where
  "dma_copy_from_measure_ex = clocked (\<lambda>re. dma_copy_from_user_excl (run_map re) (run_k re) (run_wait re))"

definition dma_copy_to_measure_ex :: "'d ptr_copy" where
  "dma_copy_to_measure_ex = clocked (\<lambda>re. dma_copy_to_user_excl (run_map re) (run_k re) (run_wait re))"

definition dma_copy_from_measure_sh :: "'d ptr_copy" where
  "dma_copy_from_measure_sh = clocked (\<lambda>re. dma_copy_from_user_sh (run_map re) (run_k re) (run_wait re))"

definition dma_copy_to_measure_sh :: "'d ptr_copy" where
  "dma_copy_to_measure_sh = clocked (\<lambda>re. dma_copy_to_user_sh (run_map re) (run_k re) (run_wait re))"

subsection \<open>The measuring loop\<close>

text \<open>\<open>get_cpu\<close> fixes the CPU of the run until \<open>put_cpu\<close>. The size is the length less what the copy returned.\<close>

definition on_cpu :: "'d run_env \<Rightarrow> unit_buff_user \<Rightarrow> unit_buff_user" where
  "on_cpu re u = u\<lparr>um_index_cpu := of_nat (this_cpu (run_k re))\<rparr>"

fun measure_runs :: "'d ptr_copy \<Rightarrow> (nat \<Rightarrow> 'd run_env) \<Rightarrow> nat \<Rightarrow> nat \<Rightarrow> benchmark_output \<Rightarrow> request_copy \<Rightarrow> 'd engine
    \<Rightarrow> (benchmark_output \<times> request_copy \<times> 'd engine) outcome option" where
  "measure_runs ptr_copy runs 0 i out r s = Some (Inr (out, r, s))"
| "measure_runs ptr_copy runs (Suc n) i out r s =
     (let re = runs (Suc i) in
      then_run (ptr_copy re (on_cpu re (bo_buffer out ! i)) r s) (\<lambda>(ret, u, r1, s1).
        measure_runs ptr_copy runs n (Suc i) (out\<lparr>bo_buffer := (bo_buffer out)[i := u\<lparr>um_size := rq_len r1 - word_of_int ret\<rparr>],
          bo_count := bo_count out + 1\<rparr>) r1 s1))"

definition all_runs :: "'d ptr_copy \<Rightarrow> (nat \<Rightarrow> 'd run_env) \<Rightarrow> benchmark_output \<Rightarrow> request_copy \<Rightarrow> 'd engine
    \<Rightarrow> (benchmark_output \<times> request_copy \<times> 'd engine) outcome option" where
  "all_runs ptr_copy runs out r s =
     then_run (ptr_copy (runs 0) (on_cpu (runs 0) (bo_buffer out ! 0)) r s) (\<lambda>(ret, u, r1, s1).
       measure_runs ptr_copy runs BUFF_MEASURE 0 (out\<lparr>bo_buffer := (bo_buffer out)[0 := u]\<rparr>) r1 s1)"

definition is_dma :: "u16 \<Rightarrow> bool" where
  "is_dma tm \<longleftrightarrow> tm = EXCLUSIVE_MEASURE \<or> tm = SHARED_MEASURE"

definition is_from :: "u16 \<Rightarrow> bool" where
  "is_from ty \<longleftrightarrow> ty = ID_COPY_FROM \<or> ty = ID_COPY_FROM_NC"

definition start_measure :: "u16 \<Rightarrow> (nat \<Rightarrow> 'd run_env) \<Rightarrow> pin_env \<Rightarrow> 'd ptr_copy option \<Rightarrow> benchmark_data \<Rightarrow> 'd kstate
    \<Rightarrow> (int \<times> benchmark_data \<times> 'd kstate) outcome option" where
  "start_measure tm runs pe ptr_copy b ks =
     (let req = init_req_copy (user_buf b) (kernel_buf b) (user_size b) in
      case results b of Null_Ptr \<Rightarrow> Some (Inl Null_Deref) | Freed_Ptr \<Rightarrow> Some (Inl Use_After_Free)
      | Ptr out \<Rightarrow>
          let out0 = out\<lparr>bo_count := 0\<rparr>; b0 = b\<lparr>results := Ptr out0\<rparr> in
          then_run (Some (if is_dma tm then dma_pin_user_pages pe req (if is_from (bd_type b) then PIN_READ else PIN_WRITE) False ks
              else Inr (PIN_SUCCESSFUL, req, ks))) (\<lambda>(ret, req1, ks1).
            if ret \<noteq> PIN_SUCCESSFUL then Some (Inr (- errno_code EACCES, b0, ks1))
            else case ptr_copy of None \<Rightarrow> Some (Inl Uninitialised)
            | Some cp \<Rightarrow> then_run (all_runs cp runs out0 req1 (eng ks1)) (\<lambda>(out1, req2, e).
                let ks2 = ks1\<lparr>eng := e\<rparr>; b1 = b0\<lparr>results := Ptr out1\<rparr> in
                Some (if is_dma tm
                  then seq_ok (dma_unpin_user_pages req2 (if is_from (bd_type b) then SET_DIRTY_OFF else SET_DIRTY_ON) ks2)
                    (\<lambda>(req3, ks3). Inr (0, b1, ks3))
                  else Inr (0, b1, ks2)))))"

text \<open>The routine the kind of measure selects; none of the three kinds, none selected.\<close>

definition select_from :: "u16 \<Rightarrow> 'd ptr_copy option" where
  "select_from tm = (if tm = CPU_MEASURE then Some cpu_copy_from_measure
     else if tm = EXCLUSIVE_MEASURE then Some dma_copy_from_measure_ex
     else if tm = SHARED_MEASURE then Some dma_copy_from_measure_sh else None)"

definition select_to :: "u16 \<Rightarrow> 'd ptr_copy option" where
  "select_to tm = (if tm = CPU_MEASURE then Some cpu_copy_to_measure
     else if tm = EXCLUSIVE_MEASURE then Some dma_copy_to_measure_ex
     else if tm = SHARED_MEASURE then Some dma_copy_to_measure_sh else None)"

definition init_measure :: "u16 \<Rightarrow> (nat \<Rightarrow> 'd run_env) \<Rightarrow> pin_env \<Rightarrow> benchmark_data \<Rightarrow> 'd kstate
    \<Rightarrow> (int \<times> benchmark_data \<times> 'd kstate) outcome option" where
  "init_measure tm runs pe b ks =
     (if kernel_buf b = 0 then Some (Inr (- errno_code ENOMEM, b, ks))
      else if bd_type b = ID_COPY_FROM then start_measure tm runs pe (select_from tm) b ks
      else if bd_type b = ID_COPY_TO then start_measure tm runs pe (select_to tm) b ks
      else if bd_type b = ID_COPY_FROM_NC then start_measure tm runs pe (select_from tm) b ks
      else if bd_type b = ID_COPY_TO_NC then start_measure tm runs pe (select_to tm) b ks
      else Some (Inr (- errno_code EINVAL, b, ks)))"

subsection \<open>File operations\<close>

definition benchmark_driver_lseek :: "bench_file \<Rightarrow> u64 \<Rightarrow> int \<Rightarrow> int \<times> bench_file" where
  "benchmark_driver_lseek filp off whence =
     (let newpos = (if whence = 0 then Some off else if whence = 1 then Some (bf_pos filp + off) else if whence = 2 then Some off else None) in
      case newpos of None \<Rightarrow> (- errno_code EINVAL, filp)
      | Some p \<Rightarrow> if sint p < 0 then (- errno_code EINVAL, filp) else (sint p, filp\<lparr>bf_pos := p\<rparr>))"

definition benchmark_driver_write_msg :: "boot_mem \<Rightarrow> u16 \<Rightarrow> (nat \<Rightarrow> 'd run_env) \<Rightarrow> pin_env \<Rightarrow> u64 \<Rightarrow> u64 \<Rightarrow> benchmark_data \<Rightarrow> 'd kstate
    \<Rightarrow> (int \<times> benchmark_data \<times> 'd kstate) outcome option" where
  "benchmark_driver_write_msg bm tm runs pe buf len b ks =
     (if buf = 0 then Some (Inr (- errno_code EINVAL, b, ks))
      else if kernel_size b < len then Some (Inr (- errno_code EFAULT, b, ks))
      else let b1 = b\<lparr>user_size := len, user_buf := buf\<rparr> in
        then_run (Some (get_random_bytes bm (kernel_buf b1) (user_size b1))) (\<lambda>_.
        then_run (init_measure tm runs pe b1 ks) (\<lambda>(ret, b2, ks1).
          if ret < 0 then Some (Inr (- errno_code EFAULT, b2, ks1)) else Some (Inr (sint len, b2, ks1)))))"

text \<open>The result and what the user's buffer holds afterwards (unknown when the copy left bytes).\<close>

definition benchmark_driver_read_msg :: "cpu_env \<Rightarrow> u64 \<Rightarrow> u64 \<Rightarrow> benchmark_data \<Rightarrow> (int \<times> benchmark_output option) outcome" where
  "benchmark_driver_read_msg ce buf results_addr b =
     (if buf = 0 then Inr (- errno_code EINVAL, None)
      else case results b of Null_Ptr \<Rightarrow> Inl Null_Deref | Freed_Ptr \<Rightarrow> Inl Use_After_Free
      | Ptr out \<Rightarrow> if copy_to_user_pure ce buf results_addr (of_nat sizeof_benchmark_output) \<noteq> 0 then Inr (- errno_code EFAULT, None)
          else Inr (int sizeof_benchmark_output, Some out))"

subsection \<open>Loading and unloading\<close>

definition msg_live :: "msg_dev \<Rightarrow> bool" where
  "msg_live d \<longleftrightarrow> owned_ptr (results (bd_data d))"

text \<open>A device after its set-up: all of the boot memory, the operation of its position, room for every measure.\<close>

definition msg_made :: "boot_mem \<Rightarrow> nat \<Rightarrow> msg_dev \<Rightarrow> bool" where
  "msg_made bm i d \<longleftrightarrow> kernel_buf (bd_data d) = boot_mem_microBenchmark bm \<and> kernel_size (bd_data d) = size_boot_mem_mb bm \<and>
     bd_type (bd_data d) = snd (msg_table i) \<and> (\<exists>out. results (bd_data d) = Ptr out \<and> length (bo_buffer out) = BUFF_MEASURE)"

interpretation msg_mem: bench_memory "init_msg_at be" clean_mb_results msg_live "msg_made (mb_boot be)" tm for be tm
proof
  fix i d and ret :: int and d'
  show "if ret < 0 then \<not> msg_live d' else ret = 0 \<and> msg_made (mb_boot be) i d'" if "init_msg_at be i d = (ret, d')"
    using that by (auto simp: init_msg_at_def init_micro_bench_msg_def msg_live_def msg_made_def split: prod.splits if_splits)
  show "msg_live d" if "msg_made (mb_boot be) i d" using that by (auto simp: msg_made_def msg_live_def)
  show "\<exists>d'. clean_mb_results d = Inr d' \<and> \<not> msg_live d'" if "msg_live d"
    using that by (cases "results (bd_data d)") (auto simp: clean_mb_results_def kfree_def msg_live_def)
qed

text \<open>Once the policy runs, loading is the common routine.\<close>

lemma micro_benchmark_init_msg_loads:
  assumes "has_boot_mem (mb_boot be)" and "start_policy_msg env (type_measure s) e = Inr (0, e1)" and "none_registered s"
  shows "micro_benchmark_init_msg be env s e = seq_ok (load_module (init_mbs (init_msg_at be) clean_mb_results [0 ..< MB_MINOR] [])
    (clean_mbs clean_mb_results [0 ..< MB_MINOR]) (mb_chr be) MB_MINOR s) (\<lambda>(ret, s'). Inr (ret, s', e1))"
  unfolding bench_load_tail [OF assms(3), symmetric] micro_benchmark_init_msg_def init_all_micro_bench_msg_def
    micro_bench_register_driver_msg_def
  using assms(1,2) by simp

lemma micro_benchmark_exit_msg_unloads:
  "micro_benchmark_exit_msg env s e = seq_ok (stop_policy_msg env (type_measure s) e) (\<lambda>e1.
     seq_ok (unregister (clean_mbs clean_mb_results [0 ..< MB_MINOR]) MB_MINOR s) (\<lambda>s2. Inr (s2, e1)))"
  by (simp add: micro_benchmark_exit_msg_def unregister_def Let_def)

subsection \<open>Repeated measures\<close>

text \<open>The measure of one run: everything but the result of the copy is given by the run.\<close>

definition measure_of :: "'d run_env \<Rightarrow> u64 \<Rightarrow> int \<Rightarrow> unit_buff_user" where
  "measure_of re len ret = \<lparr>um_index_cpu = of_nat (this_cpu (run_k re)), um_size = len - word_of_int ret,
     um_clock_start = clock_before (run_cpu re) (unat (of_nat (this_cpu (run_k re)) :: u16)),
     um_clock_end = clock_after (run_cpu re) (unat (of_nat (this_cpu (run_k re)) :: u16))\<rparr>"

text \<open>
  A copy that can be repeated: on the states \<open>good\<close>, which it keeps, it returns, with the result \<open>ret\<close> that
  the run determines and the effect \<open>eff\<close> on the engine.
\<close>

locale repeatable_copy =
  fixes cp :: "'d copy_routine" and len :: u64 and ret :: "'d run_env \<Rightarrow> int"
    and good :: "request_copy \<Rightarrow> 'd engine \<Rightarrow> bool" and fit :: "'d run_env \<Rightarrow> bool"
    and eff :: "'d run_env \<Rightarrow> 'd engine \<Rightarrow> 'd engine \<Rightarrow> bool"
  assumes copy_good: "fit re \<Longrightarrow> good r s \<Longrightarrow> \<exists>r' s'. cp re r s = Some (Inr (ret re, r', s')) \<and> good r' s' \<and> eff re s s'"
    and good_len: "good r s \<Longrightarrow> rq_len r = len"
begin

lemma clocked_good:
  assumes "fit re" and "good r s"
  shows "\<exists>r' s' u'. clocked cp re (on_cpu re u) r s = Some (Inr (ret re, u', r', s')) \<and>
    u'\<lparr>um_size := rq_len r' - word_of_int (ret re)\<rparr> = measure_of re len (ret re) \<and> good r' s' \<and> eff re s s'"
proof -
  obtain r' s' where "cp re r s = Some (Inr (ret re, r', s'))" "good r' s'" "eff re s s'" using copy_good [OF assms] by blast
  then show ?thesis using good_len by (simp add: clocked_def on_cpu_def measure_of_def Let_def)
qed

lemma runs_good:
  assumes "\<And>j. fit (runs j)" and "good r s" and "i + n \<le> length (bo_buffer out)"
  shows "\<exists>out' r' s'. measure_runs (clocked cp) runs n i out r s = Some (Inr (out', r', s')) \<and> good r' s' \<and>
    in_turn eff (map runs [Suc i ..< Suc (i + n)]) s s' \<and>
    bo_count out' = bo_count out + of_nat n \<and> length (bo_buffer out') = length (bo_buffer out) \<and>
    (\<forall>j < length (bo_buffer out'). bo_buffer out' ! j =
       (if i \<le> j \<and> j < i + n then measure_of (runs (Suc j)) len (ret (runs (Suc j))) else bo_buffer out ! j))"
  using assms(2,3)
proof (induction n arbitrary: i out r s)
  case 0
  then show ?case by auto
next
  case (Suc n)
  let ?re = "runs (Suc i)"
  obtain r1 s1 u where u: "clocked cp ?re (on_cpu ?re (bo_buffer out ! i)) r s = Some (Inr (ret ?re, u, r1, s1))"
    "u\<lparr>um_size := rq_len r1 - word_of_int (ret ?re)\<rparr> = measure_of ?re len (ret ?re)" "good r1 s1" "eff ?re s s1"
    using clocked_good [OF assms(1) Suc.prems(1)] by blast
  let ?out = "out\<lparr>bo_buffer := (bo_buffer out)[i := measure_of ?re len (ret ?re)], bo_count := bo_count out + 1\<rparr>"
  obtain out' r' s' where o: "measure_runs (clocked cp) runs n (Suc i) ?out r1 s1 = Some (Inr (out', r', s'))" "good r' s'"
    "in_turn eff (map runs [Suc (Suc i) ..< Suc (Suc i + n)]) s1 s'"
    "bo_count out' = bo_count ?out + of_nat n" "length (bo_buffer out') = length (bo_buffer ?out)"
    "\<forall>j < length (bo_buffer out'). bo_buffer out' ! j =
       (if Suc i \<le> j \<and> j < Suc i + n then measure_of (runs (Suc j)) len (ret (runs (Suc j))) else bo_buffer ?out ! j)"
    using Suc.IH [OF u(3), of "Suc i" ?out] Suc.prems(2) by auto
  have "\<forall>j < length (bo_buffer out'). bo_buffer out' ! j =
      (if i \<le> j \<and> j < i + Suc n then measure_of (runs (Suc j)) len (ret (runs (Suc j))) else bo_buffer out ! j)"
    using o(5,6) Suc.prems(2) by (auto simp: nth_list_update le_Suc_eq not_le less_Suc_eq_le dest: le_antisym)
  moreover have "in_turn eff (map runs [Suc i ..< Suc (i + Suc n)]) s s'"
    using o(3) u(4) by (subst upt_conv_Cons) auto
  ultimately show ?case
    using o(1,2,4,5) u(1) by (intro exI [of _ out'] exI [of _ r'] exI [of _ s']) (simp add: u(2) Let_def)
qed

lemma all_runs_good:
  assumes "\<And>j. fit (runs j)" and "good r s" and "length (bo_buffer out) = BUFF_MEASURE" and "bo_count out = 0"
  shows "\<exists>r' s'. all_runs (clocked cp) runs out r s = Some (Inr (\<lparr>bo_count = of_nat BUFF_MEASURE,
      bo_buffer = map (\<lambda>j. measure_of (runs (Suc j)) len (ret (runs (Suc j)))) [0 ..< BUFF_MEASURE]\<rparr>, r', s')) \<and> good r' s' \<and>
    in_turn eff (map runs [0 ..< Suc BUFF_MEASURE]) s s'"
proof -
  obtain r1 s1 u where u: "clocked cp (runs 0) (on_cpu (runs 0) (bo_buffer out ! 0)) r s = Some (Inr (ret (runs 0), u, r1, s1))"
    "good r1 s1" "eff (runs 0) s s1" using clocked_good [OF assms(1,2)] by blast
  let ?out = "out\<lparr>bo_buffer := (bo_buffer out)[0 := u]\<rparr>"
  obtain out' r' s' where o: "measure_runs (clocked cp) runs BUFF_MEASURE 0 ?out r1 s1 = Some (Inr (out', r', s'))" "good r' s'"
    "in_turn eff (map runs [Suc 0 ..< Suc BUFF_MEASURE]) s1 s'"
    "bo_count out' = of_nat BUFF_MEASURE" "length (bo_buffer out') = BUFF_MEASURE"
    "\<forall>j < length (bo_buffer out'). bo_buffer out' ! j =
       (if j < BUFF_MEASURE then measure_of (runs (Suc j)) len (ret (runs (Suc j))) else bo_buffer ?out ! j)"
    using runs_good [of runs r1 s1 0 BUFF_MEASURE ?out, OF assms(1) u(2)] assms(3,4) by auto
  have "bo_buffer out' = map (\<lambda>j. measure_of (runs (Suc j)) len (ret (runs (Suc j)))) [0 ..< BUFF_MEASURE]"
    using o(5,6) by (intro nth_equalityI) simp_all
  then have "out' = \<lparr>bo_count = of_nat BUFF_MEASURE,
      bo_buffer = map (\<lambda>j. measure_of (runs (Suc j)) len (ret (runs (Suc j)))) [0 ..< BUFF_MEASURE]\<rparr>"
    using o(4) by (cases out') simp
  moreover have "in_turn eff (map runs [0 ..< Suc BUFF_MEASURE]) s s'"
    using o(3) u(3) by (subst upt_conv_Cons) auto
  ultimately show ?thesis using u(1) o(1,2) by (auto simp: all_runs_def)
qed

end

interpretation cpu_from_rep: repeatable_copy cpu_from "rq_len r0"
  "\<lambda>re. as_int (ucast (copy_from_user_pure (run_cpu re) (kernel_base r0) (user_base r0) (rq_len r0)))"
  "\<lambda>r s. r = r0 \<and> s = s0" "\<lambda>_. True" "\<lambda>_ s s'. s' = s" for r0 s0
  by unfold_locales (simp_all add: cpu_from_def)

interpretation cpu_to_rep: repeatable_copy cpu_to "rq_len r0"
  "\<lambda>re. copy_to_user_pure (run_cpu re) (user_base r0) (kernel_base r0) (ucast (rq_len r0))"
  "\<lambda>r s. r = r0 \<and> s = s0" "\<lambda>_. True" "\<lambda>_ s s'. s' = s" for r0 s0
  by unfold_locales (simp_all add: cpu_to_def)

text \<open>Between two runs with the engine: the pinned request but for its channel and status, on an engine that serves.\<close>

definition measuring :: "('d \<Rightarrow> bool) \<Rightarrow> nat list \<Rightarrow> request_copy \<Rightarrow> 'd engine \<Rightarrow> request_copy \<Rightarrow> 'd engine \<Rightarrow> bool" where
  "measuring ok ps r0 s0 r s \<longleftrightarrow> pin_held ps r0 \<and>
     (\<exists>cp k st. r = r0\<lparr>rq_chan := cp, dma_cookie_f := k, rq_status := st\<rparr>) \<and> moved s0 s \<and> ok (drv s)"

definition serviced :: "('d \<Rightarrow> bool) \<Rightarrow> ('d \<Rightarrow> nat) \<Rightarrow> (kenv \<Rightarrow> 'd engine \<Rightarrow> nat option) \<Rightarrow> 'd engine \<Rightarrow> 'd run_env \<Rightarrow> bool" where
  "serviced ok backlog sel s0 re \<longleftrightarrow> (\<exists>t. expired (run_wait re) t) \<and> maps_succeed (run_map re) \<and>
     (\<forall>c. sel (run_k re) s0 = Some c \<longrightarrow> serves ok backlog (run_wait re) c s0)"

definition dma_ret :: "(kenv \<Rightarrow> 'd engine \<Rightarrow> nat option) \<Rightarrow> 'd engine \<Rightarrow> 'd run_env \<Rightarrow> int" where
  "dma_ret sel s0 re = (if sel (run_k re) s0 = None then - 16 else 0)"

lemma measuring_request:
  assumes "measuring ok ps r0 s0 r s"
  shows "pages r = Pages ps" "moderate r" "rq_len r \<noteq> 0" "rq_page_count r \<le> length ps" "ok (drv s)"
    "rq_len r = rq_len r0" "moved s0 s" "pin_held ps r"
  using assms by (auto simp: measuring_def pin_held_def moderate_def rq_page_count_def)

text \<open>The effect of one run: the pieces of the request on the channel of the policy, in the direction of \<open>xfer\<close>.\<close>

definition run_effect :: "('d run_env \<Rightarrow> nat \<Rightarrow> 'd xfer) \<Rightarrow> (kenv \<Rightarrow> 'd engine \<Rightarrow> nat option) \<Rightarrow> nat list \<Rightarrow> request_copy \<Rightarrow> 'd engine
    \<Rightarrow> 'd run_env \<Rightarrow> 'd engine \<Rightarrow> 'd engine \<Rightarrow> bool" where
  "run_effect xfer sel ps r s0 re s s' \<longleftrightarrow> transfer_on (run_wait re) (xfer re) ps (sel (run_k re) s0) r s s'"

lemma again_step:
  assumes "measuring ok ps r0 s0 r s" and "copy_again ok (run_wait re) (xfer re) ps (sel (run_k re) s) r s res"
    and "sel (run_k re) s = sel (run_k re) s0"
  shows "\<exists>r' s'. res = Some (Inr (dma_ret sel s0 re, r', s')) \<and> measuring ok ps r0 s0 r' s' \<and> run_effect xfer sel ps r0 s0 re s s'"
proof -
  obtain k st s' where res: "res = Some (Inr (dma_ret sel s0 re, r\<lparr>rq_chan := sel (run_k re) s, dma_cookie_f := k, rq_status := st\<rparr>, s'))"
    "moved s s'" "ok (drv s')" "transfer_on (run_wait re) (xfer re) ps (sel (run_k re) s0) r s s'"
    using assms(2,3) by (auto simp: copy_again_def dma_ret_def)
  obtain cp k0 st0 where r: "r = r0\<lparr>rq_chan := cp, dma_cookie_f := k0, rq_status := st0\<rparr>" using assms(1) by (auto simp: measuring_def)
  have "r\<lparr>rq_chan := sel (run_k re) s, dma_cookie_f := k, rq_status := st\<rparr> =
      r0\<lparr>rq_chan := sel (run_k re) s, dma_cookie_f := k, rq_status := st\<rparr>" by (simp add: r)
  moreover have "moved s0 s'" using moved_trans [OF measuring_request(7) [OF assms(1)] res(2)] .
  ultimately have "measuring ok ps r0 s0 (r\<lparr>rq_chan := sel (run_k re) s, dma_cookie_f := k, rq_status := st\<rparr>) s'"
    using assms(1) res(3) unfolding measuring_def by blast
  moreover have "run_effect xfer sel ps r0 s0 re s s'"
    using res(4) transfer_on_pieces [of r r0 "run_wait re" "xfer re"] by (simp add: run_effect_def r rq_pieces_def)
  ultimately show ?thesis using res(1) by blast
qed

lemma serviced_now:
  assumes "measuring ok ps r0 s0 r s" and "serviced ok backlog sel s0 re" and "sel (run_k re) s = sel (run_k re) s0"
  shows "\<forall>c. sel (run_k re) s = Some c \<longrightarrow> serves ok backlog (run_wait re) c s"
  using assms(2,3) serves_moved [where ok = ok, OF _ measuring_request(7,5) [OF assms(1)]] by (auto simp: serviced_def)

lemma excl_step:
  assumes "serviced ok backlog copy_dma_get_channel_excl s0 re" and "measuring ok ps r0 s0 r s"
  shows "\<exists>r' s'. dma_copy_from_user_excl (run_map re) (run_k re) (run_wait re) r s =
      Some (Inr (dma_ret copy_dma_get_channel_excl s0 re, r', s')) \<and> measuring ok ps r0 s0 r' s' \<and>
      run_effect pages_to_buffer copy_dma_get_channel_excl ps r0 s0 re s s'"
    and "\<exists>r' s'. dma_copy_to_user_excl (run_map re) (run_k re) (run_wait re) r s =
      Some (Inr (dma_ret copy_dma_get_channel_excl s0 re, r', s')) \<and> measuring ok ps r0 s0 r' s' \<and>
      run_effect buffer_to_pages copy_dma_get_channel_excl ps r0 s0 re s s'"
proof -
  obtain t where t: "expired (run_wait re) t" "maps_succeed (run_map re)" using assms(1) by (auto simp: serviced_def)
  note rq = measuring_request [OF assms(2)]
  have sel: "copy_dma_get_channel_excl (run_k re) s = copy_dma_get_channel_excl (run_k re) s0" by (rule moved_selects(2) [OF rq(7)])
  note again = policy_copies_again(2) [where ok = ok, OF rq(1-4) t rq(5) serviced_now [OF assms(2,1) sel]]
  show "\<exists>r' s'. dma_copy_from_user_excl (run_map re) (run_k re) (run_wait re) r s =
      Some (Inr (dma_ret copy_dma_get_channel_excl s0 re, r', s')) \<and> measuring ok ps r0 s0 r' s' \<and>
      run_effect pages_to_buffer copy_dma_get_channel_excl ps r0 s0 re s s'"
    by (rule again_step [where sel = copy_dma_get_channel_excl and xfer = pages_to_buffer, OF assms(2) conjunct2 [OF again] sel])
  show "\<exists>r' s'. dma_copy_to_user_excl (run_map re) (run_k re) (run_wait re) r s =
      Some (Inr (dma_ret copy_dma_get_channel_excl s0 re, r', s')) \<and> measuring ok ps r0 s0 r' s' \<and>
      run_effect buffer_to_pages copy_dma_get_channel_excl ps r0 s0 re s s'"
    by (rule again_step [where sel = copy_dma_get_channel_excl and xfer = buffer_to_pages, OF assms(2) conjunct1 [OF again] sel])
qed

lemma sh_step:
  assumes "serviced ok backlog copy_dma_get_channel_sh s0 re" and "measuring ok ps r0 s0 r s"
  shows "\<exists>r' s'. dma_copy_from_user_sh (run_map re) (run_k re) (run_wait re) r s =
      Some (Inr (dma_ret copy_dma_get_channel_sh s0 re, r', s')) \<and> measuring ok ps r0 s0 r' s' \<and>
      run_effect pages_to_buffer copy_dma_get_channel_sh ps r0 s0 re s s'"
    and "\<exists>r' s'. dma_copy_to_user_sh (run_map re) (run_k re) (run_wait re) r s =
      Some (Inr (dma_ret copy_dma_get_channel_sh s0 re, r', s')) \<and> measuring ok ps r0 s0 r' s' \<and>
      run_effect buffer_to_pages copy_dma_get_channel_sh ps r0 s0 re s s'"
proof -
  obtain t where t: "expired (run_wait re) t" "maps_succeed (run_map re)" using assms(1) by (auto simp: serviced_def)
  note rq = measuring_request [OF assms(2)]
  have sel: "copy_dma_get_channel_sh (run_k re) s = copy_dma_get_channel_sh (run_k re) s0" by (rule moved_selects(1) [OF rq(7)])
  note again = policy_copies_again(1) [where ok = ok, OF rq(1-4) t rq(5) serviced_now [OF assms(2,1) sel]]
  show "\<exists>r' s'. dma_copy_from_user_sh (run_map re) (run_k re) (run_wait re) r s =
      Some (Inr (dma_ret copy_dma_get_channel_sh s0 re, r', s')) \<and> measuring ok ps r0 s0 r' s' \<and>
      run_effect pages_to_buffer copy_dma_get_channel_sh ps r0 s0 re s s'"
    by (rule again_step [where sel = copy_dma_get_channel_sh and xfer = pages_to_buffer, OF assms(2) conjunct2 [OF again] sel])
  show "\<exists>r' s'. dma_copy_to_user_sh (run_map re) (run_k re) (run_wait re) r s =
      Some (Inr (dma_ret copy_dma_get_channel_sh s0 re, r', s')) \<and> measuring ok ps r0 s0 r' s' \<and>
      run_effect buffer_to_pages copy_dma_get_channel_sh ps r0 s0 re s s'"
    by (rule again_step [where sel = copy_dma_get_channel_sh and xfer = buffer_to_pages, OF assms(2) conjunct1 [OF again] sel])
qed

interpretation excl_from_rep: repeatable_copy "\<lambda>re. dma_copy_from_user_excl (run_map re) (run_k re) (run_wait re)" "rq_len r0"
  "dma_ret copy_dma_get_channel_excl s0" "measuring ok ps r0 s0" "serviced ok backlog copy_dma_get_channel_excl s0"
  "run_effect pages_to_buffer copy_dma_get_channel_excl ps r0 s0"
  for r0 s0 ok ps backlog
  by unfold_locales (rule excl_step(1) measuring_request(6); assumption)+

interpretation excl_to_rep: repeatable_copy "\<lambda>re. dma_copy_to_user_excl (run_map re) (run_k re) (run_wait re)" "rq_len r0"
  "dma_ret copy_dma_get_channel_excl s0" "measuring ok ps r0 s0" "serviced ok backlog copy_dma_get_channel_excl s0"
  "run_effect buffer_to_pages copy_dma_get_channel_excl ps r0 s0"
  for r0 s0 ok ps backlog
  by unfold_locales (rule excl_step(2) measuring_request(6); assumption)+

interpretation sh_from_rep: repeatable_copy "\<lambda>re. dma_copy_from_user_sh (run_map re) (run_k re) (run_wait re)" "rq_len r0"
  "dma_ret copy_dma_get_channel_sh s0" "measuring ok ps r0 s0" "serviced ok backlog copy_dma_get_channel_sh s0"
  "run_effect pages_to_buffer copy_dma_get_channel_sh ps r0 s0"
  for r0 s0 ok ps backlog
  by unfold_locales (rule sh_step(1) measuring_request(6); assumption)+

interpretation sh_to_rep: repeatable_copy "\<lambda>re. dma_copy_to_user_sh (run_map re) (run_k re) (run_wait re)" "rq_len r0"
  "dma_ret copy_dma_get_channel_sh s0" "measuring ok ps r0 s0" "serviced ok backlog copy_dma_get_channel_sh s0"
  "run_effect buffer_to_pages copy_dma_get_channel_sh ps r0 s0"
  for r0 s0 ok ps backlog
  by unfold_locales (rule sh_step(2) measuring_request(6); assumption)+

subsection \<open>A whole measurement\<close>

definition all_measures :: "(nat \<Rightarrow> 'd run_env) \<Rightarrow> u64 \<Rightarrow> ('d run_env \<Rightarrow> int) \<Rightarrow> benchmark_output" where
  "all_measures runs len ret = \<lparr>bo_count = of_nat BUFF_MEASURE,
     bo_buffer = map (\<lambda>j. measure_of (runs (Suc j)) len (ret (runs (Suc j)))) [0 ..< BUFF_MEASURE]\<rparr>"

lemma start_measure_dma:
  assumes "is_dma tm" and "pinnable pe (init_req_copy (user_buf b) (kernel_buf b) (user_size b)) ps"
    and "results b = Ptr out" and "length (bo_buffer out) = BUFF_MEASURE" and "ok (drv (eng ks))" and "\<And>j. fit (runs j)"
    and "\<And>r0. repeatable_copy cp (rq_len r0) ret (measuring ok ps r0 (eng ks)) fit (run_effect xfer sel ps r0 (eng ks))"
  shows "\<exists>s'. start_measure tm runs pe (Some (clocked cp)) b ks = Some (Inr (0, b\<lparr>results := Ptr (all_measures runs (user_size b) ret)\<rparr>,
      ks\<lparr>eng := s', dirty_pages := (if is_from (bd_type b) then dirty_pages ks else dirty_pages ks \<union> set ps)\<rparr>)) \<and>
    in_turn (run_effect xfer sel ps (init_req_copy (user_buf b) (kernel_buf b) (user_size b)) (eng ks)) (map runs [0 ..< Suc BUFF_MEASURE])
      (eng ks) s'"
proof -
  let ?req = "init_req_copy (user_buf b) (kernel_buf b) (user_size b)" and ?wr = "if is_from (bd_type b) then PIN_READ else PIN_WRITE"
  let ?ks = "ks\<lparr>page_refs := refs_plus ps (page_refs ks)\<rparr>"
  obtain r1 where r1: "dma_pin_user_pages pe ?req ?wr False ks = Inr (PIN_SUCCESSFUL, r1, ?ks)" "pin_held ps r1" "rq_len r1 = user_size b"
    "rq_pieces r1 = rq_pieces ?req"
    using pin_holds [OF assms(2), of ?wr ks] by (auto simp: init_req_copy_def)
  have "measuring ok ps r1 (eng ks) r1 (eng ks)"
    unfolding measuring_def using assms(5) r1(2)
    by (intro conjI exI [of _ "rq_chan r1"] exI [of _ "dma_cookie_f r1"] exI [of _ "rq_status r1"]) simp_all
  from repeatable_copy.all_runs_good [of _ _ _ _ _ _ runs, OF assms(7) [of r1] assms(6) this, of "out\<lparr>bo_count := 0\<rparr>"] assms(4)
  obtain r2 s2 where
    run: "all_runs (clocked cp) runs (out\<lparr>bo_count := 0\<rparr>) r1 (eng ks) = Some (Inr (all_measures runs (user_size b) ret, r2, s2))"
    and m: "measuring ok ps r1 (eng ks) r2 s2"
    and tr: "in_turn (run_effect xfer sel ps r1 (eng ks)) (map runs [0 ..< Suc BUFF_MEASURE]) (eng ks) s2"
    by (auto simp: all_measures_def r1(3))
  let ?dirty = "if is_from (bd_type b) then SET_DIRTY_OFF else SET_DIRTY_ON"
  have "dma_unpin_user_pages r2 ?dirty (?ks\<lparr>eng := s2\<rparr>) = Inr (r2\<lparr>pages := Freed_Pages\<rparr>,
      ks\<lparr>eng := s2, dirty_pages := (if is_from (bd_type b) then dirty_pages ks else dirty_pages ks \<union> set ps)\<rparr>)"
    using unpin_held [where ks = ks and s = s2 and dirty = ?dirty, OF measuring_request(8) [OF m] refl] by (simp add: SET_DIRTY_ON_def SET_DIRTY_OFF_def)
  moreover have "run_effect xfer sel ps r1 (eng ks) = run_effect xfer sel ps ?req (eng ks)"
    by (simp add: fun_eq_iff run_effect_def transfer_on_pieces [OF r1(4)])
  ultimately show ?thesis
    using assms(1,3) r1(1) run tr by (intro exI [of _ s2]) (simp add: start_measure_def Let_def)
qed

definition policy_channel :: "u16 \<Rightarrow> kenv \<Rightarrow> 'd engine \<Rightarrow> nat option" where
  "policy_channel tm = (if tm = EXCLUSIVE_MEASURE then copy_dma_get_channel_excl else copy_dma_get_channel_sh)"

lemma msg_table_type: "i < MB_MINOR \<Longrightarrow> is_from (snd (msg_table i)) = even i"
  using four_minors [of i] by (auto simp: msg_table_def is_from_def msg_ids)

lemma init_measure_dma:
  assumes "kernel_buf b \<noteq> 0" and "bd_type b = snd (msg_table i)" and "i < MB_MINOR" and "is_dma tm"
    and "pinnable pe (init_req_copy (user_buf b) (kernel_buf b) (user_size b)) ps"
    and "results b = Ptr out" and "length (bo_buffer out) = BUFF_MEASURE" and "ok (drv (eng ks))"
    and "\<And>j. serviced ok backlog (policy_channel tm) (eng ks) (runs j)"
  shows "\<exists>s'. init_measure tm runs pe b ks =
      Some (Inr (0, b\<lparr>results := Ptr (all_measures runs (user_size b) (dma_ret (policy_channel tm) (eng ks)))\<rparr>,
      ks\<lparr>eng := s', dirty_pages := (if even i then dirty_pages ks else dirty_pages ks \<union> set ps)\<rparr>)) \<and>
    in_turn (run_effect (if even i then pages_to_buffer else buffer_to_pages) (policy_channel tm) ps
      (init_req_copy (user_buf b) (kernel_buf b) (user_size b)) (eng ks)) (map runs [0 ..< Suc BUFF_MEASURE]) (eng ks) s'"
proof -
  note ty = msg_table_type [OF assms(3)]
  note start = start_measure_dma [where ok = ok and ks = ks and out = out and runs = runs, OF assms(4-8)]
  have ex: "serviced ok backlog copy_dma_get_channel_excl (eng ks) (runs j)" if "tm = EXCLUSIVE_MEASURE" for j
    using assms(9) [of j] that by (simp add: policy_channel_def)
  have sh: "serviced ok backlog copy_dma_get_channel_sh (eng ks) (runs j)" if "tm = SHARED_MEASURE" for j
    using assms(9) [of j] that by (simp add: policy_channel_def msg_ids)
  have disp: "init_measure tm runs pe b ks = start_measure tm runs pe (if even i then select_from tm else select_to tm) b ks"
    using four_minors [OF assms(3)] assms(1,2) by (auto simp: init_measure_def msg_table_def msg_ids)
  consider "tm = EXCLUSIVE_MEASURE" | "tm = SHARED_MEASURE" using assms(4) by (auto simp: is_dma_def)
  then show ?thesis
  proof cases
    case 1
    then have sel: "select_from tm = Some (clocked (\<lambda>re. dma_copy_from_user_excl (run_map re) (run_k re) (run_wait re)))"
      "select_to tm = Some (clocked (\<lambda>re. dma_copy_to_user_excl (run_map re) (run_k re) (run_wait re)))"
      by (simp_all add: select_from_def select_to_def dma_copy_from_measure_ex_def dma_copy_to_measure_ex_def msg_ids)
    show ?thesis
      using start [OF ex [OF 1] excl_from_rep.repeatable_copy_axioms] start [OF ex [OF 1] excl_to_rep.repeatable_copy_axioms]
        ty assms(2) 1 unfolding disp sel policy_channel_def by (cases "even i") simp_all
  next
    case 2
    then have sel: "select_from tm = Some (clocked (\<lambda>re. dma_copy_from_user_sh (run_map re) (run_k re) (run_wait re)))"
      "select_to tm = Some (clocked (\<lambda>re. dma_copy_to_user_sh (run_map re) (run_k re) (run_wait re)))"
      by (simp_all add: select_from_def select_to_def dma_copy_from_measure_sh_def dma_copy_to_measure_sh_def msg_ids)
    show ?thesis
      using start [OF sh [OF 2] sh_from_rep.repeatable_copy_axioms] start [OF sh [OF 2] sh_to_rep.repeatable_copy_axioms]
        ty assms(2) 2 unfolding disp sel policy_channel_def by (cases "even i") (simp_all add: msg_ids)
  qed
qed

subsection \<open>Properties\<close>

text \<open>
  C36. Writing to a device of the message benchmark with the engine as the subject: for a buffer that can be pinned, no larger than the boot memory
  of any configuration, and a driver that serves the channels of the policy, the call returns the length of the
  buffer. The engine has gone through 301 copies of the whole buffer, a first one and the 300 that are measured, each on the
  channel of the policy on the CPU of its run: from the user's pages to the kernel buffer on the two devices whose name
  says \<open>from\<close>, and to the user's pages on the other two. The 300 measures name the CPUs of their runs; every page reference taken is given
  back, and the pages are marked dirty exactly for the two devices that write to the user. The size
  recorded is the length for a run whose CPU has a channel, and 16 more for a run that had none and copied nothing.
\<close>

theorem dma_measurement_complete:
  assumes "bm = boot_init_mem_mb cfg alloc" and "msg_made bm i d" and "i < MB_MINOR" and "kernel_buf (bd_data d) \<noteq> 0"
    and "is_dma tm" and "buf \<noteq> 0" and "len \<le> kernel_size (bd_data d)"
    and "pinnable pe (init_req_copy buf (kernel_buf (bd_data d)) len) ps" and "ok (drv (eng ks))"
    and "\<forall>j. serviced ok backlog (policy_channel tm) (eng ks) (runs j)"
  shows "\<exists>out s'. benchmark_driver_write_msg bm tm runs pe buf len (bd_data d) ks =
      Some (Inr (int (unat len), (bd_data d)\<lparr>user_size := len, user_buf := buf, results := Ptr out\<rparr>,
        ks\<lparr>eng := s', dirty_pages := (if even i then dirty_pages ks else dirty_pages ks \<union> set ps)\<rparr>)) \<and>
    bo_count out = 300 \<and> length (bo_buffer out) = 300 \<and>
    (\<forall>j < 300. um_index_cpu (bo_buffer out ! j) = of_nat (this_cpu (run_k (runs (Suc j)))) \<and>
      um_size (bo_buffer out ! j) = (if policy_channel tm (run_k (runs (Suc j))) (eng ks) = None then len + 16 else len)) \<and>
    in_turn (run_effect (if even i then pages_to_buffer else buffer_to_pages) (policy_channel tm) ps
      (init_req_copy buf (kernel_buf (bd_data d)) len) (eng ks)) (map runs [0 ..< 301]) (eng ks) s'"
proof -
  let ?b = "(bd_data d)\<lparr>user_size := len, user_buf := buf\<rparr>"
  let ?out = "all_measures runs len (dma_ret (policy_channel tm) (eng ks))"
  obtain out where made: "kernel_buf (bd_data d) = boot_mem_microBenchmark bm" "kernel_size (bd_data d) = size_boot_mem_mb bm"
    "bd_type (bd_data d) = snd (msg_table i)" "results (bd_data d) = Ptr out" "length (bo_buffer out) = BUFF_MEASURE"
    using assms(2) by (auto simp: msg_made_def)
  have sz: "unat (size_boot_mem_mb bm) < 2 ^ 31" unfolding assms(1) by (rule boot_size_less)
  have rnd: "get_random_bytes bm (kernel_buf ?b) (user_size ?b) = Inr ()"
    using random_fits [of len bm] assms(7) made(1,2) sz by simp
  have "unat len < 2 ^ 31" using assms(7) made(2) sz by (simp add: word_le_nat_alt)
  then have len: "sint len = int (unat len)" by (rule sint_u64_small)
  obtain s' where "init_measure tm runs pe ?b ks = Some (Inr (0, ?b\<lparr>results := Ptr ?out\<rparr>,
      ks\<lparr>eng := s', dirty_pages := (if even i then dirty_pages ks else dirty_pages ks \<union> set ps)\<rparr>))"
    and tr: "in_turn (run_effect (if even i then pages_to_buffer else buffer_to_pages) (policy_channel tm) ps
      (init_req_copy buf (kernel_buf (bd_data d)) len) (eng ks)) (map runs [0 ..< Suc BUFF_MEASURE]) (eng ks) s'"
    using init_measure_dma [of ?b i tm pe ps out ok ks backlog runs] assms(3-5,8-10) made(3-5) by auto
  then have "benchmark_driver_write_msg bm tm runs pe buf len (bd_data d) ks =
      Some (Inr (int (unat len), (bd_data d)\<lparr>user_size := len, user_buf := buf, results := Ptr ?out\<rparr>,
        ks\<lparr>eng := s', dirty_pages := (if even i then dirty_pages ks else dirty_pages ks \<union> set ps)\<rparr>))"
    using rnd assms(6) leD [OF assms(7)] len by (simp add: benchmark_driver_write_msg_def Let_def)
  moreover have "Suc BUFF_MEASURE = 301" by (simp add: BUFF_MEASURE_def)
  ultimately show ?thesis using tr
    by (intro exI [of _ ?out] exI [of _ s'] conjI)
       (simp_all add: all_measures_def measure_of_def dma_ret_def BUFF_MEASURE_def)
qed

definition demo_msg_dev :: msg_dev where
  "demo_msg_dev = snd (init_msg_at \<lparr>mb_kzalloc = (\<lambda>_. True), mb_chr = \<lparr>alloc_chrdev_region = Inr 250, class_create_err = None,
     cdev_add_result = (\<lambda>_. 0), device_create_err = (\<lambda>_. None)\<rparr>, mb_boot = boot_init_mem_mb MEM_32 (\<lambda>_. 100000)\<rparr> 1
     \<lparr>bd_data = \<lparr>user_size = 0, user_buf = 0, kernel_size = 0, kernel_buf = 0, bd_type = 0, results = Null_Ptr\<rparr>, bd_name = []\<rparr>)"

definition demo_run :: "nat \<Rightarrow> unit run_env" where
  "demo_run j = \<lparr>run_cpu = demo_ce, run_k = demo_env, run_map = \<lparr>map_single = (\<lambda>_ _ _. 1), map_page = (\<lambda>_ _ _ _. 1)\<rparr>,
     run_wait = \<lparr>expired = (\<lambda>i. 3 \<le> i), hw = (\<lambda>_ d. d)\<rparr>\<rparr>"

text \<open>The device \<^verbatim>\<open>micro-benchmark_to\<close> on a machine whose CPUs share channel 4.\<close>

theorem dma_measurement_complete_witness:
  "\<exists>out s'. benchmark_driver_write_msg (boot_init_mem_mb MEM_32 (\<lambda>_. 100000)) EXCLUSIVE_MEASURE demo_run demo_pin_env 8000 5000
      (bd_data demo_msg_dev) demo_excl_kstate =
    Some (Inr (5000, (bd_data demo_msg_dev)\<lparr>user_size := 5000, user_buf := 8000, results := Ptr out\<rparr>,
      demo_excl_kstate\<lparr>eng := s', dirty_pages := {21, 22, 23}\<rparr>)) \<and>
    bo_count out = 300 \<and> um_size (bo_buffer out ! 299) = 5000"
proof -
  have made: "msg_made (boot_init_mem_mb MEM_32 (\<lambda>_. 100000)) 1 demo_msg_dev"
    and k: "kernel_buf (bd_data demo_msg_dev) = 100000" "kernel_size (bd_data demo_msg_dev) = 33554432"
    by (simp_all add: demo_msg_dev_def init_msg_at_def init_micro_bench_msg_def msg_made_def msg_table_def boot_init_mem_mb_def)
  have ch: "policy_channel EXCLUSIVE_MEASURE demo_env (eng demo_excl_kstate) = Some 4"
    by (simp add: policy_channel_def copy_dma_get_channel_excl_def copy_aligned_def demo_excl_kstate_def dmaengine_check_align_def)
  have "serviced (\<lambda>_. True) (\<lambda>_. 0) (policy_channel EXCLUSIVE_MEASURE) (eng demo_excl_kstate) (demo_run j)" for j
    using ch
    by (auto simp: serviced_def demo_run_def maps_succeed_def serves_def steady_def drains_def has_local_def demo_excl_kstate_def)
       (auto simp: demo_device_def demo_chan_def)
  moreover have "is_dma EXCLUSIVE_MEASURE" "1 < MB_MINOR" by (simp_all add: is_dma_def MB_MINOR_def)
  ultimately show ?thesis
    using dma_measurement_complete [OF refl made, of EXCLUSIVE_MEASURE 8000 5000 demo_pin_env "[21, 22, 23]" "\<lambda>_. True" demo_excl_kstate
        "\<lambda>_. 0" demo_run] demo_pinnable ch k
    by (simp add: demo_run_def) (auto simp: demo_excl_kstate_def demo_kstate_def)
qed

text \<open>
  C37. Loading the message benchmark for the exclusive policy. When the policy cannot start, loading fails and changes nothing
  but what the policy has undone. When it starts, either loading succeeds, all four devices are in
  place, and unloading gives back the devices, their memory and every channel; or it fails, frees the devices and their
  memory, and keeps the channels: nothing stops the policy, and every CPU's channel stays
  taken although the module is not loaded.
\<close>

theorem exclusive_benchmark_load:
  assumes "env_wf env" and "eng_inv K e" and "has_boot_mem (mb_boot be)" and "mb_start msg_live EXCLUSIVE_MEASURE s"
    and "none_registered s" and "length (devts s) = MB_MINOR" and "errors_negative (mb_chr be)"
  shows "\<exists>st e1 ret s'. start_policy_excl env e = Inr (st, e1) \<and> micro_benchmark_init_msg be env s e = Inr (ret, s', e1) \<and>
    (if st < 0 then ret = - 1 \<and> s' = s \<and> owned_set K e1 = owned_set K e
     else if ret = 0 then mb_ready (msg_made (mb_boot be)) EXCLUSIVE_MEASURE s' \<and> (\<exists>major. all_registered major MB_MINOR s') \<and>
       (\<exists>s2 e2. micro_benchmark_exit_msg env s' e1 = Inr (s2, e2) \<and> none_registered s2 \<and> mb_freed msg_live s2 \<and>
          owned_set K e2 = owned_set K e)
     else ret < 0 \<and> none_registered s' \<and> mb_freed msg_live s' \<and>
       (\<forall>i \<in> set (present_cpus env). \<exists>c. cc_chan (percpu_chan_copy e1 i) = Some c \<and> c \<in> owned_set K e1 - owned_set K e))"
proof -
  let ?P = "present_cpus env"
  have tm: "type_measure s = EXCLUSIVE_MEASURE" using assms(4) by (simp add: mb_start_def)
  from start_excl_cases [OF assms(1,2)] obtain st e1 where st: "start_policy_excl env e = Inr (st, e1)" "eng_inv K e1"
    and cs: "st = 0 \<and> (\<forall>i \<in> set ?P. cc_use (percpu_chan_copy e1 i) = 1) \<and> cpus_hold K ?P e1 \<and>
        owned_set K e \<inter> set (assigned e1 ?P) = {} \<and> owned_set K e1 = owned_set K e \<union> set (assigned e1 ?P) \<or>
      st = - 1 \<and> owned_set K e1 = owned_set K e" by blast
  show ?thesis
  proof (cases "st < 0")
    case True
    then have "micro_benchmark_init_msg be env s e = Inr (- 1, s, e1)"
      using st(1) tm assms(3) by (simp add: micro_benchmark_init_msg_def start_policy_msg_def msg_ids)
    then show ?thesis using True st(1) cs by auto
  next
    case False
    then have h: "st = 0" "\<forall>i \<in> set ?P. cc_use (percpu_chan_copy e1 i) = 1" "cpus_hold K ?P e1"
      "owned_set K e \<inter> set (assigned e1 ?P) = {}" "owned_set K e1 = owned_set K e \<union> set (assigned e1 ?P)"
      using cs by auto
    have "start_policy_msg env (type_measure s) e = Inr (0, e1)" using st(1) tm h(1) by (simp add: start_policy_msg_def msg_ids)
    note load = micro_benchmark_init_msg_loads [OF assms(3) this assms(5)]
    from msg_mem.load_ok [OF assms(4-7), of be] obtain ret s' where
      l: "micro_benchmark_init_msg be env s e = Inr (ret, s', e1)" and
      r: "if ret = 0 then mb_ready (msg_made (mb_boot be)) EXCLUSIVE_MEASURE s' \<and> (\<exists>major. all_registered major MB_MINOR s') \<and>
          (\<exists>s2. unregister (clean_mbs clean_mb_results [0 ..< MB_MINOR]) MB_MINOR s' = Inr s2 \<and> none_registered s2 \<and> mb_freed msg_live s2)
        else ret < 0 \<and> none_registered s' \<and> mb_freed msg_live s'"
      by (auto simp: loads_or_nothing_def load)
    show ?thesis
    proof (cases "ret = 0")
      case True
      obtain e2 where e2: "stop_policy_excl env e1 = Inr e2" "owned_set K e2 = owned_set K e1 - set (assigned e1 ?P)"
        using release_cpus_ok [OF assms(1) st(2) _ h(3)] assms(1)
        by (auto simp: stop_policy_excl_def release_dma_chan_excl_def env_wf_def)
      have "stop_policy_msg env (type_measure s') e1 = Inr e2"
        using e2(1) r True by (simp add: stop_policy_msg_def mb_ready_def msg_ids)
      moreover have "owned_set K e2 = owned_set K e" using e2(2) h(4,5) by auto
      ultimately show ?thesis
        using True False r st(1) l by (auto simp: micro_benchmark_exit_msg_unloads)
    next
      case err: False
      have "\<exists>c. cc_chan (percpu_chan_copy e1 i) = Some c \<and> c \<in> owned_set K e1 - owned_set K e" if i: "i \<in> set ?P" for i
      proof -
        have "percpu_chan_copy e1 i \<noteq> no_chan" using h(2) i by (auto simp: no_chan_def)
        then obtain c where c: "percpu_chan_copy e1 i = \<lparr>cc_chan = Some c, cc_use = 1\<rparr>"
          using h(3) i unfolding cpus_hold_def by blast
        then have "c \<in> set (assigned e1 ?P)" using i by (force simp: assigned_def)
        then show ?thesis using c h(4,5) by auto
      qed
      then show ?thesis using False err r st(1) l by auto
    qed
  qed
qed

definition demo_bench_env :: bench_env where
  "demo_bench_env = \<lparr>mb_kzalloc = (\<lambda>i. i < 1), mb_chr = \<lparr>alloc_chrdev_region = Inr 250, class_create_err = None, cdev_add_result = (\<lambda>_. 0),
     device_create_err = (\<lambda>_. None)\<rparr>, mb_boot = boot_init_mem_mb MEM_32 (\<lambda>_. 100000)\<rparr>"

definition demo_msg_module :: msg_module where
  "demo_msg_module = \<lparr>devts = replicate 4 None, base_dev = None, dev_class = False, cdevs = [], devices = [],
     vector_mb = replicate 4 \<lparr>bd_data = \<lparr>user_size = 0, user_buf = 0, kernel_size = 0, kernel_buf = 0, bd_type = 0, results = Null_Ptr\<rparr>,
       bd_name = []\<rparr>, type_measure = EXCLUSIVE_MEASURE\<rparr>"

text \<open>A machine without memory for the second device: the channel of CPU 0 is lost.\<close>

theorem exclusive_benchmark_load_witness:
  "\<exists>e1 ret s' c. micro_benchmark_init_msg demo_bench_env demo_env demo_msg_module (demo_engine 0) = Inr (ret, s', e1) \<and> ret \<noteq> 0 \<and>
    none_registered s' \<and> cc_chan (percpu_chan_copy e1 0) = Some c \<and> c \<in> owned_set {0} e1 - owned_set {0} (demo_engine 0)"
proof -
  have pre: "has_boot_mem (mb_boot demo_bench_env)" "mb_start msg_live EXCLUSIVE_MEASURE demo_msg_module" "none_registered demo_msg_module"
    "length (devts demo_msg_module) = MB_MINOR" "errors_negative (mb_chr demo_bench_env)"
    by (simp_all add: demo_bench_env_def demo_msg_module_def has_boot_mem_def boot_init_mem_mb_def mb_start_def none_registered_def
        errors_negative_def msg_live_def MB_MINOR_def)
  have "case start_policy_excl demo_env (demo_engine 0) of Inr (e, s') \<Rightarrow> e = 0 | Inl _ \<Rightarrow> False" by code_simp
  then obtain e0 where st: "start_policy_excl demo_env (demo_engine 0) = Inr (0, e0)" by (auto split: sum.splits)
  have "fst (projr (init_all_micro_bench_msg demo_bench_env (demo_msg_module\<lparr>base_dev := None\<rparr>))) = - 12" by code_simp
  then have "ret \<noteq> 0" if "micro_benchmark_init_msg demo_bench_env demo_env demo_msg_module (demo_engine 0) = Inr (ret, s', e1)" for ret s' e1
    using that pre(1,2) st
    by (auto simp: micro_benchmark_init_msg_def start_policy_msg_def mb_start_def msg_ids seq_ok_eq_Inr_iff)
  then show ?thesis
    using exclusive_benchmark_load [OF demo_wf demo_inv [of 0] pre] st by (auto split: if_splits)
qed

end
