(* ===== verification/Bench_Cache.thy ===== *)
theory Bench_Cache
  imports Bench_Module
begin

text \<open>
  The cache micro-benchmark, \<^verbatim>\<open>src/micro-benchmark_Cache_2CPU/driver/\<close> (\<^verbatim>\<open>micro_benchmark.h\<close>, \<^verbatim>\<open>micro_benchmark.c\<close>,
  \<^verbatim>\<open>core_benchmark.c\<close>, \<^verbatim>\<open>driverops.c\<close>): four devices, each on a quarter of the boot memory; reading and
  writing copy the user's buffer from and to the next slot of the quarter, with the CPU or with the
  DMA engine under the shared policy. Loading fills the boot memory with random bytes, 16 MiB at a time.
\<close>

subsection \<open>Data\<close>

definition CPU_MEASURE_cache :: u16 where "CPU_MEASURE_cache = 1"
definition DMA_MEASURE :: u16 where "DMA_MEASURE = 2"

definition MB16_TO_BYTE :: u64 where
  "MB16_TO_BYTE = 16777216"

record cache_data =
  cd_kernel_size :: u64
  cd_kernel_buf :: u64
  counter_op_read :: u64
  counter_op_write :: u64
  cd_type :: u16

type_synonym cache_dev = "cache_data kptr benchmark_dev"
type_synonym cache_module = "cache_data kptr bench_module"

subsection \<open>Set-up and loading\<close>

definition clean_mb_data_cache :: "cache_dev \<Rightarrow> cache_dev outcome" where
  "clean_mb_data_cache d = seq_ok (kfree (bd_data d)) (\<lambda>p. Inr (d\<lparr>bd_data := p\<rparr>))"

definition init_micro_bench_cache :: "bool \<Rightarrow> cache_dev \<Rightarrow> string \<Rightarrow> u64 \<Rightarrow> u64 \<Rightarrow> u16 \<Rightarrow> int \<times> cache_dev" where
  "init_micro_bench_cache mem_ok d name k_addr k_size type_id =
     (if \<not> mem_ok then (- errno_code ENOMEM, d\<lparr>bd_data := Null_Ptr\<rparr>)
      else (0, \<lparr>bd_data = Ptr \<lparr>cd_kernel_size = k_size, cd_kernel_buf = k_addr, counter_op_read = 0, counter_op_write = 0,
          cd_type = type_id\<rparr>, bd_name = take (MAX_CHAR_NAME_mb - 1) name\<rparr>))"

definition init_cache_at :: "bench_env \<Rightarrow> u16 \<Rightarrow> nat \<Rightarrow> cache_dev \<Rightarrow> int \<times> cache_dev" where
  "init_cache_at be type_id i d =
     init_micro_bench_cache (mb_kzalloc be i) d (ch_name i) (quarter_addr (mb_boot be) i) (temp_size (mb_boot be)) type_id"

definition init_all_micro_bench_cache :: "bench_env \<Rightarrow> u16 \<Rightarrow> cache_module \<Rightarrow> (int \<times> cache_module) outcome" where
  "init_all_micro_bench_cache be type_id s = init_mbs (init_cache_at be type_id) clean_mb_data_cache [0 ..< MB_MINOR] [] s"

definition micro_bench_register_driver_cache :: "bench_env \<Rightarrow> cache_module \<Rightarrow> int \<times> cache_module" where
  "micro_bench_register_driver_cache be s = register_driver (mb_chr be) MB_MINOR s"

definition micro_bench_print_info_cache :: "kenv \<Rightarrow> u16 \<Rightarrow> 'd engine \<Rightarrow> int \<times> 'd engine" where
  "micro_bench_print_info_cache env tm e =
     (if tm = CPU_MEASURE_cache then (0, e)
      else if tm = DMA_MEASURE then (0, start_policy_sh env e)
      else (- errno_code EPERM, e))"

text \<open>The loop that fills the memory; it keeps the offsets of the blocks it has filled. The bound is unsigned.\<close>

partial_function (option) fill_loop :: "boot_mem \<Rightarrow> u64 \<Rightarrow> u64 list \<Rightarrow> u64 list outcome option" where
  [code]: "fill_loop bm i filled =
     (if i \<le> size_boot_mem_mb bm - MB16_TO_BYTE then
        (case get_random_bytes bm (boot_mem_microBenchmark bm + i) MB16_TO_BYTE of
           Inl f \<Rightarrow> Some (Inl f)
         | Inr _ \<Rightarrow> fill_loop bm (i + MB16_TO_BYTE) (filled @ [i]))
      else Some (Inr filled))"

definition micro_benchmark_init_cache :: "bench_env \<Rightarrow> kenv \<Rightarrow> cache_module \<Rightarrow> 'd engine
    \<Rightarrow> (int \<times> cache_module \<times> 'd engine) outcome option" where
  "micro_benchmark_init_cache be env s e =
     (case micro_bench_print_info_cache env (type_measure s) e of (ret, e1) \<Rightarrow>
      if ret < 0 then Some (Inr (- errno_code EINVAL, s, e1))
      else if \<not> has_boot_mem (mb_boot be) then Some (Inr (- errno_code ENOMEM, s\<lparr>base_dev := None\<rparr>, e1))
      else then_run (fill_loop (mb_boot be) 0 []) (\<lambda>_. Some (
        seq_ok (init_all_micro_bench_cache be (type_measure s) (s\<lparr>base_dev := None\<rparr>)) (\<lambda>(r, s1).
          if r \<noteq> 0 then Inr (- errno_code ENOMEM, s1, e1)
          else case micro_bench_register_driver_cache be s1 of (ret, s2) \<Rightarrow>
            if ret = 0 then Inr (0, s2, e1)
            else seq_ok (clean_mbs clean_mb_data_cache [0 ..< MB_MINOR] s2) (\<lambda>s3. Inr (ret, s3, e1))))))"

definition micro_benchmark_exit_cache :: "kenv \<Rightarrow> cache_module \<Rightarrow> 'd engine \<Rightarrow> (cache_module \<times> 'd engine) outcome" where
  "micro_benchmark_exit_cache env s e =
     seq_ok (if type_measure s = DMA_MEASURE then stop_policy_sh env e else Inr e) (\<lambda>e1.
       let s1 = all_driver_del_chardev MB_MINOR (all_device_destroy MB_MINOR s) in
       seq_ok (clean_mbs clean_mb_data_cache [0 ..< MB_MINOR] (s1\<lparr>dev_class := False, base_dev := None\<rparr>)) (\<lambda>s2. Inr (s2, e1)))"

subsection \<open>File operations\<close>

text \<open>
  The offset of the slot: the counter modulo the number of slots, which is cut to an \<^verbatim>\<open>int\<close> and made unsigned
  again for the remainder; the index is an \<^verbatim>\<open>int\<close> too.
\<close>

definition mem_slot :: "u64 \<Rightarrow> u64 \<Rightarrow> u64 \<Rightarrow> u64 outcome" where
  "mem_slot counter k_size len =
     (if len = 0 then Inl Div_By_Zero
      else let slots = scast (ucast (k_size div len) :: u32) :: u64 in
      if slots = 0 then Inl Div_By_Zero
      else let mem_index = ucast (counter mod slots) :: u32 in Inr (scast mem_index * len))"

text \<open>A copy on pages pinned for it, with the value of \<^verbatim>\<open>ret\<close> it leaves.\<close>

definition pinned_copy :: "pin_env \<Rightarrow> bool \<Rightarrow> bool \<Rightarrow> (request_copy \<Rightarrow> 'd engine \<Rightarrow> (int \<times> request_copy \<times> 'd engine) outcome option)
    \<Rightarrow> request_copy \<Rightarrow> 'd kstate \<Rightarrow> (int \<times> 'd kstate) outcome option" where
  "pinned_copy pe wr dirty cp req ks =
     then_run (Some (dma_pin_user_pages pe req wr False ks)) (\<lambda>(ret, req1, ks1).
       if ret \<noteq> PIN_SUCCESSFUL then Some (Inr (- errno_code EACCES, ks1))
       else then_run (cp req1 (eng ks1)) (\<lambda>(ret, req2, e).
         then_run (Some (dma_unpin_user_pages req2 dirty (ks1\<lparr>eng := e\<rparr>))) (\<lambda>(req3, ks2). Some (Inr (ret, ks2)))))"

text \<open>
  The frame of reading and writing: the guards, the slot, the copy and the result. The file position, which both set to
  zero and no operation of the module reads, is left out.
\<close>

definition cache_transfer :: "u64 \<Rightarrow> u64 \<Rightarrow> cache_data kptr \<Rightarrow> (cache_data \<Rightarrow> u64) \<Rightarrow> (cache_data \<Rightarrow> cache_data)
    \<Rightarrow> (cache_data \<Rightarrow> u64 \<Rightarrow> 'd kstate \<Rightarrow> (int \<times> 'd kstate) outcome option) \<Rightarrow> 'd kstate
    \<Rightarrow> (int \<times> cache_data kptr \<times> 'd kstate) outcome option" where
  "cache_transfer buf len p counter tick copy ks =
     (if buf = 0 then Some (Inr (- errno_code EINVAL, p, ks))
      else case p of Null_Ptr \<Rightarrow> Some (Inl Null_Deref) | Freed_Ptr \<Rightarrow> Some (Inl Use_After_Free)
      | Ptr b \<Rightarrow>
          if cd_kernel_size b < len then Some (Inr (- errno_code EFAULT, p, ks))
          else then_run (Some (mem_slot (counter b) (cd_kernel_size b) len)) (\<lambda>off.
            then_run (copy b (cd_kernel_buf b + off) ks) (\<lambda>(ret, ks1).
              if ret < 0 then Some (Inr (ret, p, ks1))
              else Some (Inr (sint (len - word_of_int ret), Ptr (tick b), ks1)))))"

definition benchmark_driver_write_cache :: "'d run_env \<Rightarrow> pin_env \<Rightarrow> u64 \<Rightarrow> u64 \<Rightarrow> cache_data kptr \<Rightarrow> 'd kstate
    \<Rightarrow> (int \<times> cache_data kptr \<times> 'd kstate) outcome option" where
  "benchmark_driver_write_cache re pe buf len p ks =
     cache_transfer buf len p counter_op_write (\<lambda>b. b\<lparr>counter_op_write := counter_op_write b + 1\<rparr>) (\<lambda>b tmp_buf ks.
       if cd_type b = CPU_MEASURE_cache then Some (Inr (as_int (ucast (copy_from_user_pure (run_cpu re) tmp_buf buf len)), ks))
       else if cd_type b = DMA_MEASURE then
         pinned_copy pe True SET_DIRTY_ON (dma_copy_from_user_sh (run_map re) (run_k re) (run_wait re)) (init_req_copy buf tmp_buf len) ks
       else Some (Inr (- errno_code EPERM, ks))) ks"

definition benchmark_driver_read_cache :: "'d run_env \<Rightarrow> pin_env \<Rightarrow> u64 \<Rightarrow> u64 \<Rightarrow> cache_data kptr \<Rightarrow> 'd kstate
    \<Rightarrow> (int \<times> cache_data kptr \<times> 'd kstate) outcome option" where
  "benchmark_driver_read_cache re pe buf len p ks =
     cache_transfer buf len p counter_op_read (\<lambda>b. b\<lparr>counter_op_read := counter_op_read b + 1\<rparr>) (\<lambda>b tmp_buf ks.
       if cd_type b = CPU_MEASURE_cache then Some (Inr (copy_to_user_pure (run_cpu re) buf tmp_buf (ucast len), ks))
       else if cd_type b = DMA_MEASURE then
         pinned_copy pe False SET_DIRTY_OFF (dma_copy_to_user_sh (run_map re) (run_k re) (run_wait re)) (init_req_copy buf tmp_buf len) ks
       else Some (Inr (- errno_code EPERM, ks))) ks"

subsection \<open>The devices\<close>

definition cache_live :: "cache_dev \<Rightarrow> bool" where
  "cache_live d \<longleftrightarrow> owned_ptr (bd_data d)"

definition cache_made :: "boot_mem \<Rightarrow> u16 \<Rightarrow> nat \<Rightarrow> cache_dev \<Rightarrow> bool" where
  "cache_made bm ty i d \<longleftrightarrow> (\<exists>b. bd_data d = Ptr b \<and> cd_kernel_size b = temp_size bm \<and> cd_kernel_buf b = quarter_addr bm i \<and>
     cd_type b = ty)"

interpretation cache_mem: bench_memory "init_cache_at be ty" clean_mb_data_cache cache_live "cache_made (mb_boot be) ty" tm for be ty tm
proof
  fix i d and ret :: int and d'
  show "if ret < 0 then \<not> cache_live d' else ret = 0 \<and> cache_made (mb_boot be) ty i d'" if "init_cache_at be ty i d = (ret, d')"
    using that by (auto simp: init_cache_at_def init_micro_bench_cache_def cache_live_def cache_made_def split: if_splits)
  show "cache_live d" if "cache_made (mb_boot be) ty i d" using that by (auto simp: cache_made_def cache_live_def)
  show "\<exists>d'. clean_mb_data_cache d = Inr d' \<and> \<not> cache_live d'" if "cache_live d"
    using that by (cases "bd_data d") (auto simp: clean_mb_data_cache_def kfree_def cache_live_def)
qed

subsection \<open>Filling the memory\<close>

lemma block_fits:
  assumes "unat (size_boot_mem_mb bm) = n * 2 ^ 24" and "k < n" and "n \<le> 64" and "no_wrap bm"
  shows "get_random_bytes bm (boot_mem_microBenchmark bm + of_nat (k * 2 ^ 24)) MB16_TO_BYTE = Inr ()"
proof -
  have "k * 2 ^ 24 + 2 ^ 24 \<le> unat (size_boot_mem_mb bm)"
    using assms(2) mult_le_mono1 [of "k + 1" n "2 ^ 24"] unfolding assms(1) by simp
  moreover have "unat (of_nat (k * 2 ^ 24) :: u64) = k * 2 ^ 24" using assms(2,3) by (intro unat_of_nat_lt64) simp
  moreover from calculation have "unat (boot_mem_microBenchmark bm + of_nat (k * 2 ^ 24)) = unat (boot_mem_microBenchmark bm) + k * 2 ^ 24"
    using assms(4) by (subst unat_add_small) (simp_all add: no_wrap_def)
  moreover have "unat (scast (ucast MB16_TO_BYTE :: u32) :: u64) = 2 ^ 24" by (simp add: MB16_TO_BYTE_def)
  ultimately show ?thesis by (simp add: get_random_bytes_def in_boot_mem_def)
qed

lemma block_left:
  assumes "unat (size_boot_mem_mb bm) = n * 2 ^ 24" and "0 < n" and "n \<le> 64" and "k \<le> n"
  shows "(of_nat (k * 2 ^ 24) \<le> size_boot_mem_mb bm - MB16_TO_BYTE) = (k < n)"
proof -
  have sz: "unat (size_boot_mem_mb bm - MB16_TO_BYTE) = n * 2 ^ 24 - 2 ^ 24"
    using assms(1,2) by (subst unat_diff_small) (simp_all add: MB16_TO_BYTE_def)
  have "unat (of_nat (k * 2 ^ 24) :: u64) = k * 2 ^ 24" using assms(3,4) by (intro unat_of_nat_lt64) simp
  then have "(of_nat (k * 2 ^ 24) \<le> size_boot_mem_mb bm - MB16_TO_BYTE) = (k * 2 ^ 24 \<le> n * 2 ^ 24 - 2 ^ 24)"
    by (simp only: word_le_nat_alt sz)
  also have "\<dots> = (k < n)" using assms(2) by auto
  finally show ?thesis .
qed

lemma fill_loop_blocks:
  assumes "unat (size_boot_mem_mb bm) = n * 2 ^ 24" and "0 < n" and "n \<le> 64" and "no_wrap bm" and "k \<le> n"
  shows "fill_loop bm (of_nat (k * 2 ^ 24)) filled = Some (Inr (filled @ map (\<lambda>j. of_nat (j * 2 ^ 24)) [k ..< n]))"
  using assms(5)
proof (induction "n - k" arbitrary: k filled)
  case 0
  then show ?case using block_left [OF assms(1-3), of k] by (subst fill_loop.simps) simp
next
  case (Suc m)
  then have k: "k < n" "Suc k \<le> n" "m = n - Suc k" by simp_all
  have s: "of_nat (Suc k * 2 ^ 24) = (of_nat (k * 2 ^ 24) :: u64) + MB16_TO_BYTE" by (simp add: MB16_TO_BYTE_def)
  have "fill_loop bm (of_nat (k * 2 ^ 24)) filled = fill_loop bm (of_nat (Suc k * 2 ^ 24)) (filled @ [of_nat (k * 2 ^ 24)])"
    unfolding s using block_left [OF assms(1-3) Suc.prems] k(1) block_fits [OF assms(1) k(1) assms(3,4)]
    by (subst fill_loop.simps) simp
  then show ?case using Suc.hyps(1) [OF k(3,2)] k(1) by (simp add: upt_conv_Cons)
qed

lemma boot_blocks:
  assumes "cfg \<noteq> MEM_NONE"
  shows "\<exists>n. 0 < n \<and> n \<le> 64 \<and> unat (size_boot_mem_mb (boot_init_mem_mb cfg alloc)) = n * 2 ^ 24"
proof -
  have "\<exists>n \<in> {2, 4, 8, 16, 32, 64}. unat (size_boot_mem_mb (boot_init_mem_mb cfg alloc)) = n * 2 ^ 24"
    using assms by (cases cfg) (simp_all add: boot_init_mem_mb_def Let_def)
  then show ?thesis by auto
qed

subsection \<open>The slots\<close>

lemma mem_slot_value:
  assumes "0 < len" and "len \<le> k_size" and "unat k_size < 2 ^ 31"
  shows "\<exists>off. mem_slot counter k_size len = Inr off \<and>
    unat off = unat counter mod (unat k_size div unat len) * unat len \<and> unat off + unat len \<le> unat k_size"
proof -
  let ?q = "unat k_size div unat len" and ?c = "unat counter"
  have l: "0 < unat len" "unat len \<le> unat k_size" using assms(1,2) by (simp_all add: word_less_nat_alt word_le_nat_alt)
  then have q: "0 < ?q" by (simp add: div_greater_zero_iff)
  have q31: "?q < 2 ^ 31" using assms(3) div_le_dividend [of "unat k_size" "unat len"] by (rule le_less_trans [rotated])
  have "k_size div len = of_nat ?q" unfolding unat_div [symmetric] by (rule word_nat_inv [symmetric])
  then have sl: "(scast (ucast (k_size div len) :: u32) :: u64) = of_nat ?q"
    using q31 by (simp only: ucast_of_nat_u64 scast_of_nat_u32)
  have uq: "unat (of_nat ?q :: u64) = ?q" using q31 by (rule unat_of_nat_u64)
  have m: "?c mod ?q < ?q" using q by simp
  then have m31: "?c mod ?q < 2 ^ 31" using q31 by linarith
  have "unat (counter mod of_nat ?q) = ?c mod ?q" by (simp only: unat_mod uq)
  then have "counter mod of_nat ?q = of_nat (?c mod ?q)" using word_nat_inv [of "counter mod of_nat ?q"] by (simp only:)
  then have idx: "(scast (ucast (counter mod of_nat ?q) :: u32) :: u64) = of_nat (?c mod ?q)"
    using m31 by (simp only: ucast_of_nat_u64 scast_of_nat_u32)
  have "?c mod ?q * unat len + unat len \<le> ?q * unat len"
    using mult_le_mono1 [of "Suc (?c mod ?q)" ?q "unat len"] m by simp
  also have "\<dots> \<le> unat k_size" by simp
  finally have b: "?c mod ?q * unat len + unat len \<le> unat k_size" .
  then have "unat (of_nat (?c mod ?q * unat len) :: u64) = ?c mod ?q * unat len"
    using assms(3) by (intro unat_of_nat_u64) linarith
  moreover have "of_nat (?c mod ?q) * len = (of_nat (?c mod ?q * unat len) :: u64)" by (simp only: of_nat_mult word_nat_inv)
  moreover have "(of_nat ?q :: u64) \<noteq> 0" using q uq by (intro notI) (simp only: unat_0)
  moreover have "len \<noteq> 0" using assms(1) by auto
  ultimately have "mem_slot counter k_size len = Inr (of_nat (?c mod ?q * unat len))"
    by (simp only: mem_slot_def Let_def sl idx if_False)
  then show ?thesis using b \<open>unat (of_nat (?c mod ?q * unat len) :: u64) = _\<close> by auto
qed

lemma cache_slot_address:
  assumes "bm = boot_init_mem_mb cfg alloc" and "no_wrap bm" and "i < MB_MINOR"
    and "0 < len" and "len \<le> temp_size bm"
  defines "q \<equiv> unat (size_boot_mem_mb bm) div 4"
  shows "\<exists>off. mem_slot counter (temp_size bm) len = Inr off \<and>
    unat (quarter_addr bm i + off) = unat (boot_mem_microBenchmark bm) + q * i + unat counter mod (q div unat len) * unat len \<and>
    unat counter mod (q div unat len) * unat len + unat len \<le> q \<and> q * i + q \<le> unat (size_boot_mem_mb bm)"
proof -
  have sz: "unat (size_boot_mem_mb bm) < 2 ^ 31" unfolding assms(1) by (rule boot_size_less)
  note uq = unat_quarter [OF sz assms(2,3), folded q_def]
  have "unat (temp_size bm) < 2 ^ 31" using sz uq(1) by (simp add: q_def)
  from mem_slot_value [OF assms(4,5) this, of counter] obtain off where
    off: "mem_slot counter (temp_size bm) len = Inr off" "unat off = unat counter mod (q div unat len) * unat len"
      "unat off + unat len \<le> q" unfolding uq(1) by blast
  have "q * i + q \<le> q * 4" using mult_le_mono2 [of "Suc i" 4 q] assms(3) by (simp add: MB_MINOR_def)
  also have "\<dots> \<le> unat (size_boot_mem_mb bm)" by (simp add: q_def)
  finally have top: "q * i + q \<le> unat (size_boot_mem_mb bm)" .
  have "unat (quarter_addr bm i + off) = unat (boot_mem_microBenchmark bm) + q * i + unat off"
    using off(3) top assms(2) by (subst unat_add_small) (simp_all add: uq(2) no_wrap_def)
  then show ?thesis using off top by auto
qed

subsection \<open>Copies with the engine\<close>

lemma pinned_copy_result:
  assumes "pinnable pe req ps" and "ok (drv (eng ks))"
    and "\<And>r. pin_held ps r \<Longrightarrow> copy_again ok we xfer ps ch r (eng ks) (cp r (eng ks))"
  shows "\<exists>s'. pinned_copy pe wr dirty cp req ks = Some (Inr (if ch = None then - 16 else 0,
    ks\<lparr>eng := s', dirty_pages := (if dirty then dirty_pages ks \<union> set ps else dirty_pages ks)\<rparr>)) \<and>
    transfer_on we xfer ps ch req (eng ks) s'"
proof -
  let ?ks = "ks\<lparr>page_refs := refs_plus ps (page_refs ks)\<rparr>"
  obtain r1 where r1: "dma_pin_user_pages pe req wr False ks = Inr (PIN_SUCCESSFUL, r1, ?ks)" "pin_held ps r1" "rq_pieces r1 = rq_pieces req"
    using pin_holds [OF assms(1)] by blast
  obtain k st s' where c: "cp r1 (eng ks) = Some (Inr (if ch = None then - 16 else 0,
      r1\<lparr>rq_chan := ch, dma_cookie_f := k, rq_status := st\<rparr>, s'))" "transfer_on we xfer ps ch r1 (eng ks) s'"
    using assms(3) [OF r1(2)] unfolding copy_again_def by blast
  have "pin_held ps (r1\<lparr>rq_chan := ch, dma_cookie_f := k, rq_status := st\<rparr>)" using r1(2) by simp
  from unpin_held [where ks = ks and s = s' and dirty = dirty, OF this refl] show ?thesis
    using r1(1) c transfer_on_pieces [OF r1(3), of we xfer] by (intro exI [of _ s']) (simp add: pinned_copy_def)
qed

lemma sh_copies_again:
  assumes "pin_held ps r" and "expired (run_wait re) t" and "maps_succeed (run_map re)" and "ok (drv s)"
    and "\<forall>c. copy_dma_get_channel_sh (run_k re) s = Some c \<longrightarrow> serves ok backlog (run_wait re) c s"
  shows "copy_again ok (run_wait re) (buffer_to_pages re) ps (copy_dma_get_channel_sh (run_k re) s) r s (dma_copy_to_user_sh (run_map re) (run_k re) (run_wait re) r s)"
    and "copy_again ok (run_wait re) (pages_to_buffer re) ps (copy_dma_get_channel_sh (run_k re) s) r s (dma_copy_from_user_sh (run_map re) (run_k re) (run_wait re) r s)"
  using policy_copies_again(1) [where ok = ok and s = s, OF _ _ _ _ assms(2,3,4,5), of r ps] assms(1) by (auto simp: pin_held_def)

subsection \<open>Properties\<close>

text \<open>
  C38. Reading and writing a device of the cache benchmark use slots inside the quarter of the boot memory that belongs to the
  device: for every configured size, every length up to the quarter and every count of operations, the slot is
  the count modulo the number of whole slots, it lies between the bounds of the quarter, and the four quarters follow one another
  inside the reserved region. A length of zero divides by zero.
\<close>

theorem cache_slots_in_quarter:
  assumes "bm = boot_init_mem_mb cfg alloc" and "no_wrap bm" and "i < MB_MINOR" and "cache_made bm ty i d" and "bd_data d = Ptr b"
    and "len \<le> cd_kernel_size b" and "q = unat (size_boot_mem_mb bm) div 4" and "lo = unat (boot_mem_microBenchmark bm) + q * i"
  shows "(len = 0 \<longrightarrow> mem_slot counter (cd_kernel_size b) len = Inl Div_By_Zero) \<and>
    (len \<noteq> 0 \<longrightarrow> (\<exists>off. mem_slot counter (cd_kernel_size b) len = Inr off \<and>
      unat (cd_kernel_buf b + off) = lo + unat counter mod (q div unat len) * unat len \<and>
      unat (cd_kernel_buf b + off) + unat len \<le> lo + q \<and>
      lo + q \<le> unat (boot_mem_microBenchmark bm) + unat (size_boot_mem_mb bm)))"
proof -
  have b: "cd_kernel_size b = temp_size bm" "cd_kernel_buf b = quarter_addr bm i" using assms(4,5) by (auto simp: cache_made_def)
  have "len \<le> temp_size bm" using assms(6) b(1) by simp
  then show ?thesis
    using cache_slot_address [OF assms(1-3), of len counter] assms(7,8)
    by (cases "len = 0") (auto simp: b mem_slot_def word_neq_0_conv)
qed

definition demo_cache_env :: bench_env where
  "demo_cache_env = \<lparr>mb_kzalloc = (\<lambda>_. True), mb_chr = \<lparr>alloc_chrdev_region = Inr 250, class_create_err = None, cdev_add_result = (\<lambda>_. 0),
     device_create_err = (\<lambda>_. None)\<rparr>, mb_boot = boot_init_mem_mb MEM_32 (\<lambda>_. 65536)\<rparr>"

definition demo_cache_dev :: cache_dev where
  "demo_cache_dev = snd (init_cache_at demo_cache_env DMA_MEASURE 3 \<lparr>bd_data = Null_Ptr, bd_name = []\<rparr>)"

theorem cache_slots_in_quarter_witness:
  "\<exists>off b. bd_data demo_cache_dev = Ptr b \<and> mem_slot 9 (cd_kernel_size b) 3000000 = Inr off \<and>
    unat (cd_kernel_buf b + off) = 65536 + 3 * 8388608 + 3000000"
proof -
  let ?bm = "boot_init_mem_mb MEM_32 (\<lambda>_. 65536)"
  let ?b = "\<lparr>cd_kernel_size = temp_size ?bm, cd_kernel_buf = quarter_addr ?bm 3, counter_op_read = 0, counter_op_write = 0,
    cd_type = DMA_MEASURE\<rparr>"
  have d: "bd_data demo_cache_dev = Ptr ?b"
    by (simp add: demo_cache_dev_def demo_cache_env_def init_cache_at_def init_micro_bench_cache_def)
  then have m: "cache_made ?bm DMA_MEASURE 3 demo_cache_dev" by (simp add: cache_made_def)
  have t: "temp_size ?bm = 8388608" by (simp add: temp_size_def boot_init_mem_mb_def MB_MINOR_def)
  have nw: "no_wrap ?bm" by (simp add: no_wrap_def boot_init_mem_mb_def)
  have sz: "unat (size_boot_mem_mb ?bm) div 4 = 8388608" "unat (boot_mem_microBenchmark ?bm) = 65536"
    by (simp_all add: boot_init_mem_mb_def)
  have "3000000 \<le> cd_kernel_size ?b" "3 < MB_MINOR" by (simp_all add: t MB_MINOR_def)
  from cache_slots_in_quarter [OF refl nw this(2) m d this(1) refl refl, of 9] show ?thesis
    unfolding d sz by auto
qed

text \<open>
  C39. Reading and writing a device of the cache benchmark with the engine, for a buffer that can be pinned: with a channel that serves, both return the whole length, step
  their counter and give back every page reference; with none, both return \<open>-EBUSY\<close>, step nothing and leave the engine alone. The engine has
  copied the whole buffer, writing from the user's pages to the slot of the operation and reading from the slot to the pages. In
  either case the marks are the wrong way round: writing, which only reads the user's pages, marks them all
  dirty, and reading, which makes the device write to them, marks none.
\<close>

theorem cache_dma_transfers:
  assumes "bm = boot_init_mem_mb cfg alloc" and "no_wrap bm" and "i < MB_MINOR" and "cache_made bm DMA_MEASURE i d" and "bd_data d = Ptr b"
    and "buf \<noteq> 0" and "len \<le> cd_kernel_size b" and "\<forall>a. pinnable pe (init_req_copy buf a len) ps" and "ok (drv (eng ks))"
    and "expired (run_wait re) t" and "maps_succeed (run_map re)" and "copy_dma_get_channel_sh (run_k re) (eng ks) = ch"
    and "\<forall>c. ch = Some c \<longrightarrow> serves ok backlog (run_wait re) c (eng ks)"
  shows "(\<exists>off s'. mem_slot (counter_op_write b) (cd_kernel_size b) len = Inr off \<and> benchmark_driver_write_cache re pe buf len (Ptr b) ks =
      Some (Inr (if ch = None then - 16 else int (unat len), Ptr (if ch = None then b else b\<lparr>counter_op_write := counter_op_write b + 1\<rparr>),
        ks\<lparr>eng := s', dirty_pages := dirty_pages ks \<union> set ps\<rparr>)) \<and>
      transfer_on (run_wait re) (pages_to_buffer re) ps ch (init_req_copy buf (cd_kernel_buf b + off) len) (eng ks) s') \<and>
    (\<exists>off s'. mem_slot (counter_op_read b) (cd_kernel_size b) len = Inr off \<and> benchmark_driver_read_cache re pe buf len (Ptr b) ks =
      Some (Inr (if ch = None then - 16 else int (unat len), Ptr (if ch = None then b else b\<lparr>counter_op_read := counter_op_read b + 1\<rparr>),
        ks\<lparr>eng := s'\<rparr>)) \<and>
      transfer_on (run_wait re) (buffer_to_pages re) ps ch (init_req_copy buf (cd_kernel_buf b + off) len) (eng ks) s')"
proof -
  have b: "cd_kernel_size b = temp_size bm" "cd_kernel_buf b = quarter_addr bm i" "cd_type b = DMA_MEASURE"
    using assms(4,5) by (auto simp: cache_made_def)
  have len: "0 < len" "len \<le> temp_size bm" using assms(7,8) b(1) by (auto simp: pinnable_def init_req_copy_def)
  have "unat len < 2 ^ 31" using assms(8) by (auto simp: pinnable_def moderate_def init_req_copy_def)
  then have sl: "sint len = int (unat len)" by (rule sint_u64_small)
  obtain w where w: "mem_slot (counter_op_write b) (temp_size bm) len = Inr w"
    using cache_slot_address [OF assms(1-3) len] by blast
  obtain r where r: "mem_slot (counter_op_read b) (temp_size bm) len = Inr r"
    using cache_slot_address [OF assms(1-3) len] by blast
  have pn: "pinnable pe (init_req_copy buf a len) ps" for a using assms(8) by blast
  note again = sh_copies_again [where ok = ok and ps = ps and s = "eng ks" and re = re, OF _ assms(10,11,9), unfolded assms(12), OF _ assms(13)]
  obtain s1 where "pinned_copy pe True SET_DIRTY_ON (dma_copy_from_user_sh (run_map re) (run_k re) (run_wait re))
      (init_req_copy buf (cd_kernel_buf b + w) len) ks =
    Some (Inr (if ch = None then - 16 else 0, ks\<lparr>eng := s1, dirty_pages := dirty_pages ks \<union> set ps\<rparr>))"
    "transfer_on (run_wait re) (pages_to_buffer re) ps ch (init_req_copy buf (cd_kernel_buf b + w) len) (eng ks) s1"
    using pinned_copy_result [where ok = ok and ks = ks and dirty = SET_DIRTY_ON and wr = True and
        cp = "dma_copy_from_user_sh (run_map re) (run_k re) (run_wait re)", OF pn assms(9) again(2)]
    by (auto simp: SET_DIRTY_ON_def)
  moreover obtain s2 where "pinned_copy pe False SET_DIRTY_OFF (dma_copy_to_user_sh (run_map re) (run_k re) (run_wait re))
      (init_req_copy buf (cd_kernel_buf b + r) len) ks = Some (Inr (if ch = None then - 16 else 0, ks\<lparr>eng := s2\<rparr>))"
    "transfer_on (run_wait re) (buffer_to_pages re) ps ch (init_req_copy buf (cd_kernel_buf b + r) len) (eng ks) s2"
    using pinned_copy_result [where ok = ok and ks = ks and dirty = SET_DIRTY_OFF and wr = False and
        cp = "dma_copy_to_user_sh (run_map re) (run_k re) (run_wait re)", OF pn assms(9) again(1)]
    by (auto simp: SET_DIRTY_OFF_def)
  ultimately show ?thesis
    using assms(6) leD [OF len(2)] w r sl
    by (auto simp: benchmark_driver_write_cache_def benchmark_driver_read_cache_def cache_transfer_def b DMA_MEASURE_def CPU_MEASURE_cache_def)
qed

definition demo_sh_kstate :: "unit kstate" where
  "demo_sh_kstate = demo_kstate\<lparr>eng := (demo_engine 1)\<lparr>copy_dmaengine_ref_count := 1, channel_table := (\<lambda>_ _. Some 4)\<rparr>\<rparr>"

definition demo_sh_run :: "unit run_env" where
  "demo_sh_run = \<lparr>run_cpu = demo_ce, run_k = demo_env, run_map = \<lparr>map_single = (\<lambda>_ _ _. 1), map_page = (\<lambda>_ _ _ _. 1)\<rparr>,
     run_wait = \<lparr>expired = (\<lambda>i. 3 \<le> i), hw = (\<lambda>_ d. d)\<rparr>\<rparr>"

theorem cache_dma_transfers_witness:
  "\<exists>s' b. bd_data demo_cache_dev = Ptr b \<and> benchmark_driver_read_cache demo_sh_run demo_pin_env 8000 5000 (Ptr b) demo_sh_kstate =
    Some (Inr (5000, Ptr (b\<lparr>counter_op_read := 1\<rparr>), demo_sh_kstate\<lparr>eng := s'\<rparr>))"
proof -
  let ?bm = "boot_init_mem_mb MEM_32 (\<lambda>_. 65536)"
  let ?b = "\<lparr>cd_kernel_size = temp_size ?bm, cd_kernel_buf = quarter_addr ?bm 3, counter_op_read = 0, counter_op_write = 0,
    cd_type = DMA_MEASURE\<rparr>"
  have d: "bd_data demo_cache_dev = Ptr ?b"
    by (simp add: demo_cache_dev_def demo_cache_env_def init_cache_at_def init_micro_bench_cache_def)
  then have m: "cache_made ?bm DMA_MEASURE 3 demo_cache_dev" by (simp add: cache_made_def)
  have nw: "no_wrap ?bm" and len: "5000 \<le> cd_kernel_size ?b" and i: "3 < MB_MINOR"
    by (simp_all add: no_wrap_def boot_init_mem_mb_def temp_size_def MB_MINOR_def)
  have pn: "\<forall>a. pinnable demo_pin_env (init_req_copy 8000 a 5000) [21, 22, 23]"
    using demo_pinnable by (simp add: pinnable_def init_req_copy_def moderate_def rq_page_count_def)
  have ch: "copy_dma_get_channel_sh (run_k demo_sh_run) (eng demo_sh_kstate) = Some 4"
    by (simp add: copy_dma_get_channel_sh_def copy_aligned_def dma_find_channel_def demo_sh_run_def demo_sh_kstate_def dmaengine_check_align_def)
  have sv: "\<forall>c. Some 4 = Some c \<longrightarrow> serves (\<lambda>_. True) (\<lambda>_. 0) (run_wait demo_sh_run) c (eng demo_sh_kstate)"
    by (simp add: serves_def steady_def drains_def has_local_def demo_sh_kstate_def) (auto simp: demo_device_def demo_chan_def)
  have ex: "expired (run_wait demo_sh_run) 3" and mp: "maps_succeed (run_map demo_sh_run)"
    by (simp_all add: demo_sh_run_def maps_succeed_def)
  from cache_dma_transfers [where ok = "\<lambda>_. True", OF refl nw i m d _ len pn _ ex mp ch sv] d show ?thesis
    by (auto simp: demo_sh_kstate_def demo_kstate_def)
qed

text \<open>
  Filling the memory ends for every configured size and fills every block of 16 MiB of the region once, in order, and nothing
  outside it.
\<close>

theorem boot_memory_filled_once:
  assumes "bm = boot_init_mem_mb cfg alloc" and "cfg \<noteq> MEM_NONE" and "no_wrap bm"
  shows "fill_loop bm 0 [] = Some (Inr (map (\<lambda>j. of_nat (j * 2 ^ 24)) [0 ..< unat (size_boot_mem_mb bm) div 2 ^ 24]))"
proof -
  obtain n where n: "0 < n" "n \<le> 64" "unat (size_boot_mem_mb bm) = n * 2 ^ 24"
    using boot_blocks [OF assms(2), of alloc] unfolding assms(1) by blast
  from fill_loop_blocks [OF n(3,1,2) assms(3), of 0 "[]"] show ?thesis unfolding n(3) by simp
qed

text \<open>
  Loading the cache benchmark under the shared policy: all of the devices or none of them, and in every
  case the policy is left started; only unloading stops it.
\<close>

theorem cache_module_load:
  assumes "mb_boot be = boot_init_mem_mb cfg alloc" and "has_boot_mem (mb_boot be)" and "no_wrap (mb_boot be)"
    and "mb_start cache_live DMA_MEASURE s" and "none_registered s" and "length (devts s) = MB_MINOR" and "errors_negative (mb_chr be)"
  shows "\<exists>ret s'. micro_benchmark_init_cache be env s e = Some (Inr (ret, s', start_policy_sh env e)) \<and>
    (if ret = 0 then mb_ready (cache_made (mb_boot be) DMA_MEASURE) DMA_MEASURE s' \<and> (\<exists>major. all_registered major MB_MINOR s') \<and>
       (\<exists>s2. none_registered s2 \<and> mb_freed cache_live s2 \<and>
          micro_benchmark_exit_cache env s' e1 = seq_ok (stop_policy_sh env e1) (\<lambda>e2. Inr (s2, e2)))
     else ret < 0 \<and> none_registered s' \<and> mb_freed cache_live s')"
proof -
  have tm: "type_measure s = DMA_MEASURE" using assms(4) by (simp add: mb_start_def)
  have cfg: "cfg \<noteq> MEM_NONE" using assms(1,2) by (auto simp: has_boot_mem_def boot_init_mem_mb_def)
  note fill = boot_memory_filled_once [OF assms(1) cfg assms(3)]
  have load: "micro_benchmark_init_cache be env s e = Some (seq_ok (load_module (init_mbs (init_cache_at be DMA_MEASURE) clean_mb_data_cache [0 ..< MB_MINOR] [])
      (clean_mbs clean_mb_data_cache [0 ..< MB_MINOR]) (mb_chr be) MB_MINOR s) (\<lambda>(ret, s'). Inr (ret, s', start_policy_sh env e)))"
    unfolding bench_load_tail [OF assms(5), symmetric] micro_benchmark_init_cache_def init_all_micro_bench_cache_def
      micro_bench_register_driver_cache_def micro_bench_print_info_cache_def tm
    using assms(2) fill by (simp add: DMA_MEASURE_def CPU_MEASURE_cache_def)
  from cache_mem.load_ok [OF assms(4-7), of be DMA_MEASURE] obtain ret s' where
    l: "micro_benchmark_init_cache be env s e = Some (Inr (ret, s', start_policy_sh env e))" and
    r: "if ret = 0 then mb_ready (cache_made (mb_boot be) DMA_MEASURE) DMA_MEASURE s' \<and> (\<exists>major. all_registered major MB_MINOR s') \<and>
        (\<exists>s2. unregister (clean_mbs clean_mb_data_cache [0 ..< MB_MINOR]) MB_MINOR s' = Inr s2 \<and> none_registered s2 \<and> mb_freed cache_live s2)
      else ret < 0 \<and> none_registered s' \<and> mb_freed cache_live s'"
    by (auto simp: loads_or_nothing_def load)
  have "micro_benchmark_exit_cache env s' e1 = seq_ok (stop_policy_sh env e1) (\<lambda>e2. Inr (s2, e2))"
    if "mb_ready (cache_made (mb_boot be) DMA_MEASURE) DMA_MEASURE s'"
      "unregister (clean_mbs clean_mb_data_cache [0 ..< MB_MINOR]) MB_MINOR s' = Inr s2" for s2
    using that by (simp add: micro_benchmark_exit_cache_def unregister_def Let_def mb_ready_def)
  then show ?thesis using l r by (intro exI [of _ ret] exI [of _ s']) (auto split: if_splits)
qed

end
