(* ===== verification/Bench_Band.thy ===== *)
theory Bench_Band
  imports Bench_Module
begin

text \<open>
  The bandwidth micro-benchmark, \<^verbatim>\<open>src/micro-benchmark_Band/driver/\<close> (\<^verbatim>\<open>micro_benchmark.h\<close>, \<^verbatim>\<open>ioctl_mb.h\<close>,
  \<^verbatim>\<open>micro_benchmark.c\<close>, \<^verbatim>\<open>core_benchmark.c\<close>, \<^verbatim>\<open>driverops.c\<close>): four devices, each on a quarter of the boot memory. An \<^verbatim>\<open>ioctl\<close>
  names the user's buffer and pins it, reading and writing then copy that buffer with the CPU or with the DMA engine
  under one of the three policies, and a second \<^verbatim>\<open>ioctl\<close> releases the pages.
\<close>

subsection \<open>Data\<close>

definition CPU_MEASURE_band :: u16 where "CPU_MEASURE_band = 1"
definition EXCLUSIVE_MEASURE_band :: u16 where "EXCLUSIVE_MEASURE_band = 2"
definition SHARED_MEASURE_band :: u16 where "SHARED_MEASURE_band = 3"
definition PRIORITY_MEASURE :: u16 where "PRIORITY_MEASURE = 4"

lemmas band_ids = CPU_MEASURE_band_def EXCLUSIVE_MEASURE_band_def SHARED_MEASURE_band_def PRIORITY_MEASURE_def

definition NANOSEC_HIGH :: u64 where "NANOSEC_HIGH = 30000"
definition NANOSEC_LOW :: u64 where "NANOSEC_LOW = 60000"

text \<open>The argument of the \<^verbatim>\<open>ioctl\<close> and the numbers the macro \<^verbatim>\<open>_IOW\<close> gives its two commands.\<close>

record query_arg =
  q_write :: u16
  q_buf_user :: u64
  q_len :: u64

definition sizeof_query_arg :: u64 where "sizeof_query_arg = 24"

definition MB_LOAD :: u32 where "MB_LOAD = 0x40087101"
definition MB_UNLOAD :: u32 where "MB_UNLOAD = 0x40087102"

record band_data =
  bn_user_size :: u64
  bn_user_buf :: u64
  bn_kernel_size :: u64
  bn_kernel_buf :: u64
  bn_id_chan :: u16
  bn_req :: request_copy
  bn_req_prio :: request_copy_prio
  bn_type :: u16

type_synonym band_dev = "band_data kptr benchmark_dev"
type_synonym band_module = "band_data kptr bench_module"

text \<open>Requests as \<^verbatim>\<open>kzalloc\<close> leaves them.\<close>

definition zero_req :: request_copy where
  "zero_req = \<lparr>rq_chan = None, user_base = 0, kernel_base = 0, rq_len = 0, pages = No_Pages, nr_pages = 0, dma_cookie_f = 0,
     rq_status = DMA_SUCCESS\<rparr>"

definition zero_req_prio :: request_copy_prio where
  "zero_req_prio = \<lparr>rq_chan = None, user_base = 0, kernel_base = 0, rq_len = 0, pages = No_Pages, nr_pages = 0, dma_cookie_f = 0,
     rq_status = DMA_SUCCESS, rq_priority = 0\<rparr>"

subsection \<open>Set-up and loading\<close>

definition clean_mb_data_band :: "band_dev \<Rightarrow> band_dev outcome" where
  "clean_mb_data_band d = seq_ok (kfree (bd_data d)) (\<lambda>p. Inr (d\<lparr>bd_data := p\<rparr>))"

definition init_micro_bench_band :: "bool \<Rightarrow> band_dev \<Rightarrow> string \<Rightarrow> u64 \<Rightarrow> u64 \<Rightarrow> u16 \<Rightarrow> u16 \<Rightarrow> int \<times> band_dev" where
  "init_micro_bench_band mem_ok d name k_addr k_size type_id id_chan =
     (if \<not> mem_ok then (- errno_code ENOMEM, d\<lparr>bd_data := Null_Ptr\<rparr>)
      else (0, \<lparr>bd_data = Ptr \<lparr>bn_user_size = 0, bn_user_buf = 0, bn_kernel_size = k_size, bn_kernel_buf = k_addr, bn_id_chan = id_chan,
          bn_req = zero_req, bn_req_prio = zero_req_prio, bn_type = type_id\<rparr>,
        bd_name = take (MAX_CHAR_NAME_mb - 1) name\<rparr>))"

definition init_band_at :: "bench_env \<Rightarrow> u16 \<Rightarrow> nat \<Rightarrow> band_dev \<Rightarrow> int \<times> band_dev" where
  "init_band_at be type_id i d =
     init_micro_bench_band (mb_kzalloc be i) d (ch_name i) (quarter_addr (mb_boot be) i) (temp_size (mb_boot be)) type_id (of_nat i)"

definition init_all_micro_bench_band :: "bench_env \<Rightarrow> u16 \<Rightarrow> band_module \<Rightarrow> (int \<times> band_module) outcome" where
  "init_all_micro_bench_band be type_id s = init_mbs (init_band_at be type_id) clean_mb_data_band [0 ..< MB_MINOR] [] s"

definition micro_bench_register_driver_band :: "bench_env \<Rightarrow> band_module \<Rightarrow> int \<times> band_module" where
  "micro_bench_register_driver_band be s = register_driver (mb_chr be) MB_MINOR s"

definition micro_bench_print_info_band :: "kenv \<Rightarrow> u16 \<Rightarrow> 'd prio_state \<Rightarrow> (int \<times> 'd prio_state) outcome" where
  "micro_bench_print_info_band env tm ps =
     (if tm = CPU_MEASURE_band then Inr (0, ps)
      else if tm = EXCLUSIVE_MEASURE_band then
        seq_ok (start_policy_excl env (pr_eng ps)) (\<lambda>(ret, e). Inr (if ret < 0 then - errno_code EPERM else 0, ps\<lparr>pr_eng := e\<rparr>))
      else if tm = SHARED_MEASURE_band then Inr (0, ps\<lparr>pr_eng := start_policy_sh env (pr_eng ps)\<rparr>)
      else if tm = PRIORITY_MEASURE then
        seq_ok (start_policy_prio2 env NANOSEC_HIGH NANOSEC_LOW ps) (\<lambda>(ret, ps1). Inr (if ret < int MB_MINOR then - errno_code EIO else 0, ps1))
      else Inr (- errno_code EPERM, ps))"

definition micro_benchmark_init_band :: "bench_env \<Rightarrow> kenv \<Rightarrow> band_module \<Rightarrow> 'd prio_state \<Rightarrow> (int \<times> band_module \<times> 'd prio_state) outcome" where
  "micro_benchmark_init_band be env s ps =
     seq_ok (micro_bench_print_info_band env (type_measure s) ps) (\<lambda>(ret, ps1).
       if ret < 0 then Inr (- errno_code EINVAL, s, ps1)
       else if \<not> has_boot_mem (mb_boot be) then Inr (- errno_code ENOMEM, s\<lparr>base_dev := None\<rparr>, ps1)
       else seq_ok (init_all_micro_bench_band be (type_measure s) (s\<lparr>base_dev := None\<rparr>)) (\<lambda>(r, s1).
         if r \<noteq> 0 then Inr (- errno_code ENOMEM, s1, ps1)
         else case micro_bench_register_driver_band be s1 of (ret, s2) \<Rightarrow>
           if ret = 0 then Inr (0, s2, ps1)
           else seq_ok (clean_mbs clean_mb_data_band [0 ..< MB_MINOR] s2) (\<lambda>s3. Inr (ret, s3, ps1))))"

definition stop_policy_band :: "kenv \<Rightarrow> 'd chan_cmds \<Rightarrow> u16 \<Rightarrow> 'd prio_state \<Rightarrow> 'd prio_state outcome" where
  "stop_policy_band env cmds tm ps =
     seq_ok (if tm = EXCLUSIVE_MEASURE_band then seq_ok (stop_policy_excl env (pr_eng ps)) (\<lambda>e. Inr (ps\<lparr>pr_eng := e\<rparr>)) else Inr ps) (\<lambda>ps1.
     seq_ok (if tm = SHARED_MEASURE_band then seq_ok (stop_policy_sh env (pr_eng ps1)) (\<lambda>e. Inr (ps1\<lparr>pr_eng := e\<rparr>)) else Inr ps1) (\<lambda>ps2.
       if tm = PRIORITY_MEASURE then stop_policy_prio env cmds ps2 else Inr ps2))"

definition micro_benchmark_exit_band :: "kenv \<Rightarrow> 'd chan_cmds \<Rightarrow> band_module \<Rightarrow> 'd prio_state \<Rightarrow> (band_module \<times> 'd prio_state) outcome" where
  "micro_benchmark_exit_band env cmds s ps =
     seq_ok (stop_policy_band env cmds (type_measure s) ps) (\<lambda>ps1.
       let s1 = all_driver_del_chardev MB_MINOR (all_device_destroy MB_MINOR s) in
       seq_ok (clean_mbs clean_mb_data_band [0 ..< MB_MINOR] (s1\<lparr>dev_class := False, base_dev := None\<rparr>)) (\<lambda>s2. Inr (s2, ps1)))"

subsection \<open>File operations\<close>

text \<open>
  The copy of a request of the device, with the value of \<^verbatim>\<open>ret\<close> it leaves; the request stays in the device.
  The length given to the call is only checked and used for the result. The file position, which both calls set to
  zero and no operation of the module reads, is left out.
\<close>

definition on_req :: "(request_copy \<Rightarrow> 'd engine \<Rightarrow> (int \<times> request_copy \<times> 'd engine) outcome option) \<Rightarrow> band_data \<Rightarrow> 'd kstate
    \<Rightarrow> (int \<times> band_data \<times> 'd kstate) outcome option" where
  "on_req cp b ks = then_run (cp (bn_req b) (eng ks)) (\<lambda>(ret, r, e). Some (Inr (ret, b\<lparr>bn_req := r\<rparr>, ks\<lparr>eng := e\<rparr>)))"

definition on_req_prio :: "(request_copy_prio \<Rightarrow> 'd engine \<Rightarrow> (int \<times> request_copy_prio \<times> 'd engine) outcome option) \<Rightarrow> band_data
    \<Rightarrow> 'd kstate \<Rightarrow> (int \<times> band_data \<times> 'd kstate) outcome option" where
  "on_req_prio cp b ks = then_run (cp (bn_req_prio b) (eng ks)) (\<lambda>(ret, r, e). Some (Inr (ret, b\<lparr>bn_req_prio := r\<rparr>, ks\<lparr>eng := e\<rparr>)))"

definition band_transfer :: "u64 \<Rightarrow> u64 \<Rightarrow> (band_data \<Rightarrow> 'd kstate \<Rightarrow> (int \<times> band_data \<times> 'd kstate) outcome option) \<Rightarrow> band_data kptr
    \<Rightarrow> 'd kstate \<Rightarrow> (int \<times> band_data kptr \<times> 'd kstate) outcome option" where
  "band_transfer buf len copy p ks =
     (if buf = 0 then Some (Inr (- errno_code EINVAL, p, ks))
      else case p of Null_Ptr \<Rightarrow> Some (Inl Null_Deref) | Freed_Ptr \<Rightarrow> Some (Inl Use_After_Free)
      | Ptr b \<Rightarrow>
          if bn_kernel_size b < len then Some (Inr (- errno_code EFAULT, p, ks))
          else then_run (copy b ks) (\<lambda>(ret, b1, ks1).
            if ret < 0 then Some (Inr (ret, Ptr b1, ks1)) else Some (Inr (sint (len - word_of_int ret), Ptr b1, ks1))))"

definition benchmark_driver_write_band :: "'d run_env \<Rightarrow> u64 \<Rightarrow> u64 \<Rightarrow> band_data kptr \<Rightarrow> 'd kstate
    \<Rightarrow> (int \<times> band_data kptr \<times> 'd kstate) outcome option" where
  "benchmark_driver_write_band re buf len p ks = band_transfer buf len (\<lambda>b ks.
     if bn_type b = CPU_MEASURE_band then
       Some (Inr (as_int (ucast (copy_from_user_pure (run_cpu re) (bn_kernel_buf b) (bn_user_buf b) (bn_user_size b))), b, ks))
     else if bn_type b = EXCLUSIVE_MEASURE_band then on_req (dma_copy_from_user_excl (run_map re) (run_k re) (run_wait re)) b ks
     else if bn_type b = SHARED_MEASURE_band then on_req (dma_copy_from_user_sh (run_map re) (run_k re) (run_wait re)) b ks
     else if bn_type b = PRIORITY_MEASURE then on_req_prio (dma_copy_from_user_prio (run_map re) (run_k re) (run_wait re)) b ks
     else Some (Inr (- errno_code EPERM, b, ks))) p ks"

definition benchmark_driver_read_band :: "'d run_env \<Rightarrow> u64 \<Rightarrow> u64 \<Rightarrow> band_data kptr \<Rightarrow> 'd kstate
    \<Rightarrow> (int \<times> band_data kptr \<times> 'd kstate) outcome option" where
  "benchmark_driver_read_band re buf len p ks = band_transfer buf len (\<lambda>b ks.
     if bn_type b = CPU_MEASURE_band then
       Some (Inr (copy_to_user_pure (run_cpu re) (bn_user_buf b) (bn_kernel_buf b) (ucast (bn_user_size b)), b, ks))
     else if bn_type b = EXCLUSIVE_MEASURE_band then on_req (dma_copy_to_user_excl (run_map re) (run_k re) (run_wait re)) b ks
     else if bn_type b = SHARED_MEASURE_band then on_req (dma_copy_to_user_sh (run_map re) (run_k re) (run_wait re)) b ks
     else if bn_type b = PRIORITY_MEASURE then on_req_prio (dma_copy_to_user_prio (run_map re) (run_k re) (run_wait re)) b ks
     else Some (Inr (- errno_code EPERM, b, ks))) p ks"

text \<open>The two commands, once the argument \<open>q\<close> has been read.\<close>

definition uses_req :: "u16 \<Rightarrow> bool" where
  "uses_req tm \<longleftrightarrow> tm = EXCLUSIVE_MEASURE_band \<or> tm = SHARED_MEASURE_band"

definition mb_load :: "boot_mem \<Rightarrow> u16 \<Rightarrow> pin_env \<Rightarrow> query_arg \<Rightarrow> band_data \<Rightarrow> 'd kstate \<Rightarrow> (int \<times> band_data \<times> 'd kstate) outcome" where
  "mb_load bm tm pe q b ks =
     (let b1 = b\<lparr>bn_user_size := q_len q, bn_user_buf := q_buf_user q\<rparr>; wr = (q_write q \<noteq> 0) in
      seq_ok (get_random_bytes bm (bn_kernel_buf b1) (bn_user_size b1)) (\<lambda>_.
        if uses_req tm then
          seq_ok (dma_pin_user_pages pe (init_req_copy (bn_user_buf b1) (bn_kernel_buf b1) (bn_user_size b1)) wr False ks) (\<lambda>(ret, r, ks1).
            Inr (if ret \<noteq> PIN_SUCCESSFUL then - errno_code EACCES else 0, b1\<lparr>bn_req := r\<rparr>, ks1))
        else if tm = PRIORITY_MEASURE then
          seq_ok (dma_pin_user_pages_prio pe (init_req_copy_prio (bn_user_buf b1) (bn_kernel_buf b1) (bn_user_size b1) (bn_id_chan b1)) wr False ks)
            (\<lambda>(ret, r, ks1). Inr (if ret \<noteq> PIN_SUCCESSFUL then - errno_code EACCES else 0, b1\<lparr>bn_req_prio := r\<rparr>, ks1))
        else Inr (0, b1, ks)))"

definition mb_unload :: "u16 \<Rightarrow> query_arg \<Rightarrow> band_data \<Rightarrow> 'd kstate \<Rightarrow> (int \<times> band_data \<times> 'd kstate) outcome" where
  "mb_unload tm q b ks =
     (let dirty = (if q_write q = 0 then SET_DIRTY_OFF else SET_DIRTY_ON) in
      if uses_req tm then seq_ok (dma_unpin_user_pages (bn_req b) dirty ks) (\<lambda>(r, ks1). Inr (0, b\<lparr>bn_req := r\<rparr>, ks1))
      else if tm = PRIORITY_MEASURE then
        seq_ok (dma_unpin_user_pages_prio (bn_req_prio b) dirty ks) (\<lambda>(r, ks1). Inr (0, b\<lparr>bn_req_prio := r\<rparr>, ks1))
      else Inr (0, b, ks))"

text \<open>\<open>q\<close> is what the user's memory holds at \<open>arg\<close>, \<open>q_addr\<close> the address of the local copy.\<close>

definition benchmark_driver_ioctl :: "boot_mem \<Rightarrow> u16 \<Rightarrow> cpu_env \<Rightarrow> pin_env \<Rightarrow> u64 \<Rightarrow> query_arg \<Rightarrow> u32 \<Rightarrow> u64 \<Rightarrow> band_data kptr \<Rightarrow> 'd kstate
    \<Rightarrow> (int \<times> band_data kptr \<times> 'd kstate) outcome" where
  "benchmark_driver_ioctl bm tm ce pe q_addr q cmd arg p ks =
     (if cmd \<noteq> MB_LOAD \<and> cmd \<noteq> MB_UNLOAD then Inr (- errno_code EINVAL, p, ks)
      else if copy_from_user_pure ce q_addr arg sizeof_query_arg \<noteq> 0 then Inr (- errno_code EACCES, p, ks)
      else case p of Null_Ptr \<Rightarrow> Inl Null_Deref | Freed_Ptr \<Rightarrow> Inl Use_After_Free
      | Ptr b \<Rightarrow> seq_ok (if cmd = MB_LOAD then mb_load bm tm pe q b ks else mb_unload tm q b ks) (\<lambda>(ret, b1, ks1). Inr (ret, Ptr b1, ks1)))"

subsection \<open>The devices\<close>

definition band_live :: "band_dev \<Rightarrow> bool" where
  "band_live d \<longleftrightarrow> owned_ptr (bd_data d)"

definition band_made :: "boot_mem \<Rightarrow> u16 \<Rightarrow> nat \<Rightarrow> band_dev \<Rightarrow> bool" where
  "band_made bm ty i d \<longleftrightarrow> (\<exists>b. bd_data d = Ptr b \<and> bn_kernel_size b = temp_size bm \<and> bn_kernel_buf b = quarter_addr bm i \<and>
     bn_type b = ty \<and> bn_id_chan b = of_nat i)"

interpretation band_mem: bench_memory "init_band_at be ty" clean_mb_data_band band_live "band_made (mb_boot be) ty" tm for be ty tm
proof
  fix i d and ret :: int and d'
  show "if ret < 0 then \<not> band_live d' else ret = 0 \<and> band_made (mb_boot be) ty i d'" if "init_band_at be ty i d = (ret, d')"
    using that by (auto simp: init_band_at_def init_micro_bench_band_def band_live_def band_made_def split: if_splits)
  show "band_live d" if "band_made (mb_boot be) ty i d" using that by (auto simp: band_made_def band_live_def)
  show "\<exists>d'. clean_mb_data_band d = Inr d' \<and> \<not> band_live d'" if "band_live d"
    using that by (cases "bd_data d") (auto simp: clean_mb_data_band_def kfree_def band_live_def)
qed

subsection \<open>A session\<close>

definition band_channel :: "u16 \<Rightarrow> kenv \<Rightarrow> 'd engine \<Rightarrow> nat option" where
  "band_channel tm = (if tm = EXCLUSIVE_MEASURE_band then copy_dma_get_channel_excl else copy_dma_get_channel_sh)"

lemma random_bytes_iff:
  assumes "unat n < 2 ^ 31"
  shows "get_random_bytes bm a n = (if n = 0 \<or> in_boot_mem bm a (unat n) then Inr () else Inl Out_Of_Bounds)"
proof -
  have "(scast (ucast (of_nat (unat n) :: u64) :: u32) :: u64) = of_nat (unat n)"
    using assms by (simp only: ucast_of_nat_u64 scast_of_nat_u32)
  then have "unat (scast (ucast n :: u32) :: u64) = unat n" by (simp only: word_nat_inv)
  then show ?thesis by (auto simp: get_random_bytes_def unat_eq_zero)
qed

lemma quarter_in_boot_mem:
  assumes "unat (size_boot_mem_mb bm) < 2 ^ 31" and "no_wrap bm" and "i < MB_MINOR" and "n \<le> temp_size bm"
  shows "in_boot_mem bm (quarter_addr bm i) (unat n)"
proof -
  let ?q = "unat (size_boot_mem_mb bm) div 4"
  have "unat n \<le> ?q" using assms(4) unat_quarter(1) [OF assms(1-3)] by (simp add: word_le_nat_alt)
  moreover have "?q * i + ?q \<le> ?q * 4" using mult_le_mono2 [of "Suc i" 4 ?q] assms(3) by (simp add: MB_MINOR_def)
  moreover have "?q * 4 \<le> unat (size_boot_mem_mb bm)" by simp
  ultimately show ?thesis unfolding in_boot_mem_def unat_quarter(2) [OF assms(1-3)] by linarith
qed

text \<open>One transfer of a pinned request.\<close>

lemma band_copies:
  "bn_type b = EXCLUSIVE_MEASURE_band \<Longrightarrow> benchmark_driver_write_band re buf len (Ptr b) ks =
    band_transfer buf len (on_req (dma_copy_from_user_excl (run_map re) (run_k re) (run_wait re))) (Ptr b) ks"
  "bn_type b = EXCLUSIVE_MEASURE_band \<Longrightarrow> benchmark_driver_read_band re buf len (Ptr b) ks =
    band_transfer buf len (on_req (dma_copy_to_user_excl (run_map re) (run_k re) (run_wait re))) (Ptr b) ks"
  "bn_type b = SHARED_MEASURE_band \<Longrightarrow> benchmark_driver_write_band re buf len (Ptr b) ks =
    band_transfer buf len (on_req (dma_copy_from_user_sh (run_map re) (run_k re) (run_wait re))) (Ptr b) ks"
  "bn_type b = SHARED_MEASURE_band \<Longrightarrow> benchmark_driver_read_band re buf len (Ptr b) ks =
    band_transfer buf len (on_req (dma_copy_to_user_sh (run_map re) (run_k re) (run_wait re))) (Ptr b) ks"
  by (simp_all add: benchmark_driver_write_band_def benchmark_driver_read_band_def band_transfer_def band_ids)

lemma band_transfer_held:
  assumes "uses_req (bn_type b)" and "pin_held ps (bn_req b)" and "buf \<noteq> 0" and "len \<le> bn_kernel_size b" and "unat len < 2 ^ 31"
    and "ok (drv (eng ks))" and "expired (run_wait re) t" and "maps_succeed (run_map re)"
    and "band_channel (bn_type b) (run_k re) (eng ks) = ch" and "\<forall>c. ch = Some c \<longrightarrow> serves ok backlog (run_wait re) c (eng ks)"
    and "(op, xfer) = (benchmark_driver_write_band re, pages_to_buffer re) \<or> (op, xfer) = (benchmark_driver_read_band re, buffer_to_pages re)"
  shows "\<exists>r s'. op buf len (Ptr b) ks = Some (Inr (if ch = None then - 16 else int (unat len), Ptr (b\<lparr>bn_req := r\<rparr>), ks\<lparr>eng := s'\<rparr>)) \<and>
    pin_held ps r \<and> transfer_on (run_wait re) xfer ps ch (bn_req b) (eng ks) s'"
proof -
  note h = assms(2) [unfolded pin_held_def]
  note again = policy_copies_again [where ok = ok and s = "eng ks" and r = "bn_req b" and ps = ps and env = "run_k re" and backlog = backlog,
      OF _ _ _ _ assms(7,8,6)]
  have sl: "sint len = int (unat len)" by (rule sint_u64_small [OF assms(5)])
  have res: "\<exists>r s'. on_req cp b ks = Some (Inr (if ch = None then - 16 else 0, b\<lparr>bn_req := r\<rparr>, ks\<lparr>eng := s'\<rparr>)) \<and> pin_held ps r \<and>
      transfer_on (run_wait re) xfer ps ch (bn_req b) (eng ks) s'"
    if c: "copy_again ok (run_wait re) xfer ps ch (bn_req b) (eng ks) (cp (bn_req b) (eng ks))" for cp
  proof -
    obtain k st s' where c: "cp (bn_req b) (eng ks) = Some (Inr (if ch = None then - 16 else 0,
        (bn_req b)\<lparr>rq_chan := ch, dma_cookie_f := k, rq_status := st\<rparr>, s'))"
      "transfer_on (run_wait re) xfer ps ch (bn_req b) (eng ks) s'"
      using c unfolding copy_again_def by blast
    have "pin_held ps ((bn_req b)\<lparr>rq_chan := ch, dma_cookie_f := k, rq_status := st\<rparr>)" using assms(2) by simp
    then show ?thesis using c
      by (intro exI [of _ "(bn_req b)\<lparr>rq_chan := ch, dma_cookie_f := k, rq_status := st\<rparr>"] exI [of _ s']) (simp add: on_req_def)
  qed
  have fin: ?thesis if c: "copy_again ok (run_wait re) xfer ps ch (bn_req b) (eng ks) (cp (bn_req b) (eng ks))"
    and o: "op buf len (Ptr b) ks = band_transfer buf len (on_req cp) (Ptr b) ks" for cp
  proof -
    obtain r s' where "on_req cp b ks = Some (Inr (if ch = None then - 16 else 0, b\<lparr>bn_req := r\<rparr>, ks\<lparr>eng := s'\<rparr>))" "pin_held ps r"
      "transfer_on (run_wait re) xfer ps ch (bn_req b) (eng ks) s'"
      using res [of cp, OF c] by blast
    then show ?thesis using o assms(3) leD [OF assms(4)] sl
      by (intro exI [of _ r] exI [of _ s']) (simp add: band_transfer_def)
  qed
  consider "bn_type b = EXCLUSIVE_MEASURE_band" | "bn_type b = SHARED_MEASURE_band" using assms(1) by (auto simp: uses_req_def)
  then show ?thesis
  proof cases
    case 1
    have "copy_dma_get_channel_excl (run_k re) (eng ks) = ch" using assms(9) 1 by (simp add: band_channel_def)
    note a = again(2) [unfolded this, OF _ _ _ _ assms(10)]
    show ?thesis
      using assms(11) fin [of "dma_copy_to_user_excl (run_map re) (run_k re) (run_wait re)"]
        fin [of "dma_copy_from_user_excl (run_map re) (run_k re) (run_wait re)"] a h
      by (auto simp: band_copies(1,2) [OF 1])
  next
    case 2
    have "copy_dma_get_channel_sh (run_k re) (eng ks) = ch" using assms(9) 2 by (simp add: band_channel_def band_ids)
    note a = again(1) [unfolded this, OF _ _ _ _ assms(10)]
    show ?thesis
      using assms(11) fin [of "dma_copy_to_user_sh (run_map re) (run_k re) (run_wait re)"]
        fin [of "dma_copy_from_user_sh (run_map re) (run_k re) (run_wait re)"] a h
      by (auto simp: band_copies(3,4) [OF 2])
  qed
qed

lemma mb_load_ok:
  assumes "uses_req tm" and "get_random_bytes bm (bn_kernel_buf b) (q_len q) = Inr ()"
    and "pinnable pe (init_req_copy (q_buf_user q) (bn_kernel_buf b) (q_len q)) ps"
  shows "\<exists>r. mb_load bm tm pe q b ks = Inr (0, b\<lparr>bn_user_size := q_len q, bn_user_buf := q_buf_user q, bn_req := r\<rparr>,
    ks\<lparr>page_refs := refs_plus ps (page_refs ks)\<rparr>) \<and> pin_held ps r \<and>
    rq_pieces r = rq_pieces (init_req_copy (q_buf_user q) (bn_kernel_buf b) (q_len q))"
proof -
  obtain r where "dma_pin_user_pages pe (init_req_copy (q_buf_user q) (bn_kernel_buf b) (q_len q)) (q_write q \<noteq> 0) False ks =
      Inr (PIN_SUCCESSFUL, r, ks\<lparr>page_refs := refs_plus ps (page_refs ks)\<rparr>)" "pin_held ps r"
      "rq_pieces r = rq_pieces (init_req_copy (q_buf_user q) (bn_kernel_buf b) (q_len q))"
    using pin_holds [OF assms(3)] by blast
  then show ?thesis using assms(1,2) by (intro exI [of _ r]) (simp add: mb_load_def Let_def)
qed

lemma mb_unload_held:
  assumes "uses_req tm" and "pin_held ps (bn_req b)" and "ks1 = ks\<lparr>page_refs := refs_plus ps (page_refs ks), eng := s\<rparr>"
  shows "mb_unload tm q b ks1 = Inr (0, b\<lparr>bn_req := (bn_req b)\<lparr>pages := Freed_Pages\<rparr>\<rparr>,
    ks\<lparr>eng := s, dirty_pages := (if q_write q = 0 then dirty_pages ks else dirty_pages ks \<union> set ps)\<rparr>)"
  using assms(1) unpin_held [OF assms(2,3), of "q_write q \<noteq> 0"]
  by (cases "q_write q = 0") (simp_all add: mb_unload_def SET_DIRTY_ON_def SET_DIRTY_OFF_def)

subsection \<open>Properties\<close>

text \<open>
  C40. A session on a device of the bandwidth benchmark under the exclusive or the shared policy: \<open>MB_LOAD\<close> of a buffer that fits the quarter of the device and
  can be pinned takes a reference to each of its pages; a write then copies the whole loaded buffer from its pages to the quarter of the device and a
  read copies it from the quarter to the pages, and either returns the length it was called with, whatever the length of the loaded
  buffer (\<open>-EBUSY\<close> without a channel), and keeps the pages; \<open>MB_UNLOAD\<close> gives every reference back and marks the pages dirty exactly when the
  query says they were written. A second \<open>MB_UNLOAD\<close> uses the freed page array.
\<close>

theorem band_session_roundtrip:
  assumes "bm = boot_init_mem_mb cfg alloc" and "no_wrap bm" and "i < MB_MINOR" and "band_made bm tm i d" and "bd_data d = Ptr b"
    and "uses_req tm" and "copy_from_user_pure ce q_addr arg sizeof_query_arg = 0" and "q_len q \<le> bn_kernel_size b"
    and "pinnable pe (init_req_copy (q_buf_user q) (bn_kernel_buf b) (q_len q)) ps" and "buf \<noteq> 0" and "len \<le> bn_kernel_size b"
    and "ok (drv (eng ks))" and "expired (run_wait re) t" and "maps_succeed (run_map re)" and "band_channel tm (run_k re) (eng ks) = ch"
    and "\<forall>c. ch = Some c \<longrightarrow> serves ok backlog (run_wait re) c (eng ks)"
    and "(op, xfer) = (benchmark_driver_write_band re, pages_to_buffer re) \<or> (op, xfer) = (benchmark_driver_read_band re, buffer_to_pages re)"
  shows "\<exists>b1 b2 s2 b3. let ks1 = ks\<lparr>page_refs := refs_plus ps (page_refs ks)\<rparr> in
    benchmark_driver_ioctl bm tm ce pe q_addr q MB_LOAD arg (Ptr b) ks = Inr (0, Ptr b1, ks1) \<and>
    op buf len (Ptr b1) ks1 = Some (Inr (if ch = None then - 16 else int (unat len), Ptr b2, ks1\<lparr>eng := s2\<rparr>)) \<and>
    transfer_on (run_wait re) xfer ps ch (init_req_copy (q_buf_user q) (bn_kernel_buf b) (q_len q)) (eng ks) s2 \<and>
    benchmark_driver_ioctl bm tm ce pe q_addr q MB_UNLOAD arg (Ptr b2) (ks1\<lparr>eng := s2\<rparr>) = Inr (0, Ptr b3,
      ks\<lparr>eng := s2, dirty_pages := (if q_write q = 0 then dirty_pages ks else dirty_pages ks \<union> set ps)\<rparr>) \<and>
    benchmark_driver_ioctl bm tm ce pe q_addr q MB_UNLOAD arg (Ptr b3) ks = Inl Use_After_Free"
proof -
  let ?ks = "ks\<lparr>page_refs := refs_plus ps (page_refs ks)\<rparr>"
  have b: "bn_kernel_size b = temp_size bm" "bn_kernel_buf b = quarter_addr bm i" "bn_type b = tm"
    using assms(4,5) by (auto simp: band_made_def)
  have sz: "unat (size_boot_mem_mb bm) < 2 ^ 31" unfolding assms(1) by (rule boot_size_less)
  have small: "unat n < 2 ^ 31" if "n \<le> bn_kernel_size b" for n
    using that unat_quarter(1) [OF sz assms(2,3)] sz by (simp add: b word_le_nat_alt)
  have "get_random_bytes bm (bn_kernel_buf b) (q_len q) = Inr ()"
    using random_bytes_iff [OF small [OF assms(8)]] quarter_in_boot_mem [OF sz assms(2,3)] assms(8) by (simp add: b)
  from mb_load_ok [OF assms(6) this assms(9), of ks] obtain r where
    load: "mb_load bm tm pe q b ks = Inr (0, b\<lparr>bn_user_size := q_len q, bn_user_buf := q_buf_user q, bn_req := r\<rparr>, ?ks)" "pin_held ps r"
    "rq_pieces r = rq_pieces (init_req_copy (q_buf_user q) (bn_kernel_buf b) (q_len q))"
    by blast
  let ?b1 = "b\<lparr>bn_user_size := q_len q, bn_user_buf := q_buf_user q, bn_req := r\<rparr>"
  have "\<exists>r s'. op buf len (Ptr ?b1) ?ks = Some (Inr (if ch = None then - 16 else int (unat len), Ptr (?b1\<lparr>bn_req := r\<rparr>), ?ks\<lparr>eng := s'\<rparr>)) \<and>
      pin_held ps r \<and> transfer_on (run_wait re) xfer ps ch (bn_req ?b1) (eng ?ks) s'"
    by (rule band_transfer_held [where ok = ok and re = re and ps = ps, OF _ _ assms(10) _ small [OF assms(11)] _ assms(13,14) _ _ assms(17)])
       (use assms(6,11,12,15,16) b(3) load(2) in simp_all)
  then obtain r2 s2 where
    op: "op buf len (Ptr ?b1) ?ks = Some (Inr (if ch = None then - 16 else int (unat len), Ptr (?b1\<lparr>bn_req := r2\<rparr>), ?ks\<lparr>eng := s2\<rparr>))" "pin_held ps r2"
    "transfer_on (run_wait re) xfer ps ch r (eng ks) s2"
    by auto
  let ?b2 = "?b1\<lparr>bn_req := r2\<rparr>"
  have un: "mb_unload tm q ?b2 (?ks\<lparr>eng := s2\<rparr>) = Inr (0, ?b2\<lparr>bn_req := r2\<lparr>pages := Freed_Pages\<rparr>\<rparr>,
      ks\<lparr>eng := s2, dirty_pages := (if q_write q = 0 then dirty_pages ks else dirty_pages ks \<union> set ps)\<rparr>)"
    using mb_unload_held [where ks = ks and s = s2 and b = ?b2 and ps = ps and q = q, OF assms(6) _ refl] op(2) by simp
  let ?b3 = "?b2\<lparr>bn_req := r2\<lparr>pages := Freed_Pages\<rparr>\<rparr>"
  have "mb_unload tm q ?b3 ks = Inl Use_After_Free" using assms(6) by (simp add: mb_unload_def dma_unpin_user_pages_def)
  then show ?thesis
    unfolding Let_def using load(1) op(1,3) un assms(7) transfer_on_pieces [OF load(3), of "run_wait re" xfer]
    by (intro exI [of _ ?b1] exI [of _ ?b2] exI [of _ s2] exI [of _ ?b3] conjI) (simp_all add: benchmark_driver_ioctl_def MB_LOAD_def MB_UNLOAD_def)
qed

definition demo_band_dev :: band_dev where
  "demo_band_dev = snd (init_micro_bench_band True \<lparr>bd_data = Null_Ptr, bd_name = []\<rparr> (ch_name 1)
     (quarter_addr (boot_init_mem_mb MEM_32 (\<lambda>_. 65536)) 1) (temp_size (boot_init_mem_mb MEM_32 (\<lambda>_. 65536))) EXCLUSIVE_MEASURE_band 1)"

definition demo_band_run :: "unit run_env" where
  "demo_band_run = \<lparr>run_cpu = demo_ce, run_k = demo_env, run_map = \<lparr>map_single = (\<lambda>_ _ _. 1), map_page = (\<lambda>_ _ _ _. 1)\<rparr>,
     run_wait = \<lparr>expired = (\<lambda>i. 3 \<le> i), hw = (\<lambda>_ d. d)\<rparr>\<rparr>"

definition demo_query :: query_arg where
  "demo_query = \<lparr>q_write = 1, q_buf_user = 8000, q_len = 5000\<rparr>"

theorem band_session_roundtrip_witness:
  "\<exists>b b1 b2 s2. bd_data demo_band_dev = Ptr b \<and>
    benchmark_driver_ioctl (boot_init_mem_mb MEM_32 (\<lambda>_. 65536)) EXCLUSIVE_MEASURE_band (demo_ce\<lparr>copy_from_oob := (\<lambda>_ _ _. 0)\<rparr>) demo_pin_env 512
      demo_query MB_LOAD 1024 (Ptr b) demo_excl_kstate = Inr (0, Ptr b1, demo_excl_kstate\<lparr>page_refs := (\<lambda>_. 1)(21 := 2, 22 := 2, 23 := 2)\<rparr>) \<and>
    benchmark_driver_read_band demo_band_run 4096 700 (Ptr b1) (demo_excl_kstate\<lparr>page_refs := (\<lambda>_. 1)(21 := 2, 22 := 2, 23 := 2)\<rparr>) =
      Some (Inr (700, Ptr b2, demo_excl_kstate\<lparr>page_refs := (\<lambda>_. 1)(21 := 2, 22 := 2, 23 := 2), eng := s2\<rparr>))"
proof -
  let ?bm = "boot_init_mem_mb MEM_32 (\<lambda>_. 65536)" and ?ce = "demo_ce\<lparr>copy_from_oob := (\<lambda>_ _ _. 0)\<rparr>"
  let ?b = "\<lparr>bn_user_size = 0, bn_user_buf = 0, bn_kernel_size = temp_size ?bm, bn_kernel_buf = quarter_addr ?bm 1, bn_id_chan = 1,
    bn_req = zero_req, bn_req_prio = zero_req_prio, bn_type = EXCLUSIVE_MEASURE_band\<rparr>"
  have d: "bd_data demo_band_dev = Ptr ?b" by (simp add: demo_band_dev_def init_micro_bench_band_def)
  then have m: "band_made ?bm EXCLUSIVE_MEASURE_band 1 demo_band_dev" by (simp add: band_made_def)
  have nw: "no_wrap ?bm" and i: "1 < MB_MINOR" and l: "q_len demo_query \<le> bn_kernel_size ?b" "700 \<le> bn_kernel_size ?b"
    by (simp_all add: no_wrap_def boot_init_mem_mb_def temp_size_def MB_MINOR_def demo_query_def)
  have cp: "copy_from_user_pure ?ce 512 1024 sizeof_query_arg = 0" by (simp add: copy_from_user_pure_def demo_ce_def)
  have pn: "pinnable demo_pin_env (init_req_copy (q_buf_user demo_query) (bn_kernel_buf ?b) (q_len demo_query)) [21, 22, 23]"
    using demo_pinnable by (simp add: pinnable_def init_req_copy_def moderate_def rq_page_count_def demo_query_def)
  have ch: "band_channel EXCLUSIVE_MEASURE_band (run_k demo_band_run) (eng demo_excl_kstate) = Some 4"
    by (simp add: band_channel_def copy_dma_get_channel_excl_def copy_aligned_def demo_excl_kstate_def dmaengine_check_align_def demo_band_run_def)
  have sv: "\<forall>c. Some 4 = Some c \<longrightarrow> serves (\<lambda>_. True) (\<lambda>_. 0) (run_wait demo_band_run) c (eng demo_excl_kstate)"
    by (simp add: serves_def steady_def drains_def has_local_def demo_excl_kstate_def) (auto simp: demo_device_def demo_chan_def)
  have ex: "expired (run_wait demo_band_run) 3" and mp: "maps_succeed (run_map demo_band_run)"
    by (simp_all add: demo_band_run_def maps_succeed_def)
  have refs: "refs_plus [21, 22, 23] (page_refs demo_excl_kstate) = (\<lambda>_. 1)(21 := 2, 22 := 2, 23 := 2)"
    by (auto simp: refs_plus_def demo_excl_kstate_def demo_kstate_def)
  have "uses_req EXCLUSIVE_MEASURE_band" by (simp add: uses_req_def)
  from band_session_roundtrip [where ok = "\<lambda>_. True" and op = "benchmark_driver_read_band demo_band_run" and xfer = "buffer_to_pages demo_band_run" and buf = 4096 and len = 700,
      OF refl nw i m d this cp l(1) pn _ l(2) _ ex mp ch sv] d show ?thesis
    by (simp add: Let_def refs) blast
qed

text \<open>
  Nothing bounds the length that \<open>MB_LOAD\<close> is given: a buffer that reaches past the end of the boot memory
  makes it fill memory that does not belong to the benchmark, before any other check.
\<close>

theorem band_load_overruns:
  assumes "copy_from_user_pure ce q_addr arg sizeof_query_arg = 0" and "unat (q_len q) < 2 ^ 31"
    and "unat (boot_mem_microBenchmark bm) + unat (size_boot_mem_mb bm) < unat (bn_kernel_buf b) + unat (q_len q)" and "q_len q \<noteq> 0"
  shows "benchmark_driver_ioctl bm tm ce pe q_addr q MB_LOAD arg (Ptr b) ks = Inl Out_Of_Bounds"
  using assms by (simp add: benchmark_driver_ioctl_def mb_load_def random_bytes_iff in_boot_mem_def)

text \<open>
  Loading the bandwidth benchmark once its policy has started: all of the devices or none of them, and in
  both cases the policy runs on.
\<close>

theorem band_module_load:
  assumes "micro_bench_print_info_band env tm ps = Inr (0, ps1)" and "has_boot_mem (mb_boot be)"
    and "mb_start band_live tm s" and "none_registered s" and "length (devts s) = MB_MINOR" and "errors_negative (mb_chr be)"
  shows "\<exists>ret s'. micro_benchmark_init_band be env s ps = Inr (ret, s', ps1) \<and>
    (if ret = 0 then mb_ready (band_made (mb_boot be) tm) tm s' \<and> (\<exists>major. all_registered major MB_MINOR s') \<and>
       (\<exists>s2. none_registered s2 \<and> mb_freed band_live s2 \<and>
          micro_benchmark_exit_band env cmds s' ps2 = seq_ok (stop_policy_band env cmds tm ps2) (\<lambda>ps3. Inr (s2, ps3)))
     else ret < 0 \<and> none_registered s' \<and> mb_freed band_live s')"
proof -
  have tm: "type_measure s = tm" using assms(3) by (simp add: mb_start_def)
  have load: "micro_benchmark_init_band be env s ps = seq_ok (load_module (init_mbs (init_band_at be tm) clean_mb_data_band [0 ..< MB_MINOR] [])
      (clean_mbs clean_mb_data_band [0 ..< MB_MINOR]) (mb_chr be) MB_MINOR s) (\<lambda>(ret, s'). Inr (ret, s', ps1))"
    unfolding bench_load_tail [OF assms(4), symmetric] micro_benchmark_init_band_def init_all_micro_bench_band_def
      micro_bench_register_driver_band_def tm
    using assms(1,2) by simp
  from band_mem.load_ok [OF assms(3-6), of be tm] obtain ret s' where
    l: "micro_benchmark_init_band be env s ps = Inr (ret, s', ps1)" and
    r: "if ret = 0 then mb_ready (band_made (mb_boot be) tm) tm s' \<and> (\<exists>major. all_registered major MB_MINOR s') \<and>
        (\<exists>s2. unregister (clean_mbs clean_mb_data_band [0 ..< MB_MINOR]) MB_MINOR s' = Inr s2 \<and> none_registered s2 \<and> mb_freed band_live s2)
      else ret < 0 \<and> none_registered s' \<and> mb_freed band_live s'"
    by (auto simp: loads_or_nothing_def load)
  have "micro_benchmark_exit_band env cmds s' ps2 = seq_ok (stop_policy_band env cmds tm ps2) (\<lambda>ps3. Inr (s2, ps3))"
    if "mb_ready (band_made (mb_boot be) tm) tm s'"
      "unregister (clean_mbs clean_mb_data_band [0 ..< MB_MINOR]) MB_MINOR s' = Inr s2" for s2
    using that by (simp add: micro_benchmark_exit_band_def unregister_def Let_def mb_ready_def)
  then show ?thesis using l r by (intro exI [of _ ret] exI [of _ s']) (auto split: if_splits)
qed

end
