(* ===== verification/Spec2Isabelle.thy ===== *)
theory Spec2Isabelle
  imports Prio_Ioat Ioat_Dca Trace_Driver Bench_Msg Bench_Cache Bench_Band
begin

text \<open>
  A verification of Dmacftu, a set of changes to the Linux kernel that carries out the copies between
  kernel and user memory with a DMA engine (Intel I/OAT), of the module that traces these copies
  and of the three modules that measure them.

  \<^bold>\<open>The program and the theories.\<close> Paths are below \<^verbatim>\<open>src/source/\<close> unless they start with \<^verbatim>\<open>trace/\<close> or \<^verbatim>\<open>micro-benchmark\<close>.

  \<^item> \<open>Prelude\<close>: fixed-width integers, run-time faults (null dereference, access out of bounds, division by
    zero, \<^verbatim>\<open>BUG_ON\<close>, use after free, undefined shift, use of an unset variable), error codes, the result type \<open>fault + 'a\<close>.
  \<^item> \<open>Module_Ref\<close>: the reference counts of \<^verbatim>\<open>kernel/module.c\<close> (\<^verbatim>\<open>try_module_get\<close>, \<^verbatim>\<open>module_put\<close>,
    \<^verbatim>\<open>module_refcount\<close>, \<^verbatim>\<open>try_stop_module\<close>), one pair of counters for each CPU.
  \<^item> \<open>Dma_Types\<close>: data of \<^verbatim>\<open>include/linux/dmaengine.h\<close>: capabilities, statuses, cookies, requests, channels, devices.
  \<^item> \<open>Dma_Engine\<close>: \<^verbatim>\<open>drivers/dma/dmaengine.c\<close>: channel references, public and private clients, the table of
    channels for each CPU, registration. The state is the record \<open>engine\<close>, with devices and channels by number.
    \<open>Dma_Engine_Inv\<close> has the invariant and its preservation by each operation, \<open>Dma_Table\<close> the distribution of
    channels, \<open>Dma_Reach\<close> the reachable states and the properties that hold in all of them.
  \<^item> \<open>Dma_Memcpy\<close>: the offloaded copies of \<^verbatim>\<open>dmaengine.c\<close> with their DMA mappings, the waiting loops, dependent descriptors.
  \<^item> \<open>Excl_Policy\<close>: which channel a CPU copies on, \<^verbatim>\<open>drivers/dma/dma_policy_ex_sh.c\<close> and \<^verbatim>\<open>init/boot_copy_dma_chan.c\<close>.
  \<^item> \<open>Copy_Loop\<close>: the loops that cut a request at page boundaries (\<^verbatim>\<open>__dma_copy_from_user\<close>, \<^verbatim>\<open>__dma_copy_to_user\<close>).
  \<^item> \<open>Copy_Policy\<close>: pinning of user pages and the copies under the shared, exclusive and boot policies.
  \<^item> \<open>Prio_Policy\<close>: \<^verbatim>\<open>drivers/dma/dma_policy_prio.c\<close>, channels with priorities and the timer that suspends them.
  \<^item> \<open>Ioat_Channel\<close>: descriptors and operations of one channel, \<^verbatim>\<open>drivers/dma/ioat/dma.c\<close> and \<^verbatim>\<open>dma.h\<close>. \<open>Ioat_Prep\<close>,
    \<open>Ioat_Cleanup\<close>, \<open>Ioat_Run\<close>, \<open>Ioat_Driver\<close> and \<open>Ioat_Transfer\<close> have the lemmas on preparation, cleanup, the invariant,
    the reachable states and whole transfers. \<open>Ioat_Device\<close>: the rest of \<^verbatim>\<open>ioat/dma.c\<close>, from probe to removal.
    \<open>Prio_Ioat\<close>: the timer of the priority policy on I/OAT channels. \<open>Ioat_Dca\<close>: \<^verbatim>\<open>ioat/dca.c\<close>, direct cache access.
  \<^item> \<open>Circular_Buffer\<close>: the rings of the trace, \<^verbatim>\<open>kernel/circular_buffer.c\<close>. \<open>User_Copy\<close>: \<^verbatim>\<open>copy_to_user\<close>, \<^verbatim>\<open>copy_from_user\<close> and
    their relatives of \<^verbatim>\<open>arch/x86/include/asm/uaccess_64.h\<close>, plain, offloaded and traced. \<open>Char_Devices\<close>: the registration of
    character devices, which the modules share. \<open>Trace_Driver\<close>: the module \<^verbatim>\<open>trace/driver\<close> that hands the rings to user space, and
    \<^verbatim>\<open>init/boot_trace_copy_tofrom.c\<close>.
  \<^item> \<open>Copy_Repeat\<close>: what a copy leaves unchanged in the engine, and that a steady driver serves any number of copies.
    \<open>Bench_Module\<close>: the boot memory of \<^verbatim>\<open>init/boot_mem_micro-benchmark.c\<close> and the array of devices of the benchmark modules.
    \<open>Bench_Msg\<close>, \<open>Bench_Cache\<close>, \<open>Bench_Band\<close>: the modules \<^verbatim>\<open>micro-benchmark_Msg/driver\<close>, \<^verbatim>\<open>micro-benchmark_Cache_2CPU/driver\<close> and
    \<^verbatim>\<open>micro-benchmark_Band/driver\<close>, whose definitions carry a suffix where the modules use one name for different routines.

  \<^bold>\<open>How they interact.\<close> A user copy builds a request, takes a channel from the policy in force, pins the user
  pages, submits the pieces through the memory-copy routines of the engine to the driver, waits for the cookie of
  the last piece and unpins; on any failure the CPU copies. The traced versions add one record to the ring of the CPU,
  which the trace module reads. The benchmark modules start a policy when they are loaded, pin a user buffer and repeat copies on it. Interfaces are locales: reference-counted objects (interpreted by the
  module references), exclusive channels (by the engine), transfers that can be polled (by the page-wise copies), suspendable channels
  (by the I/OAT channels), the registers behind a requester table (by the three versions of DCA), bounded queues (by the
  rings) and modules that prepare and release memory around the registration of their devices (by the trace
  module), devices that own an allocation (by the three benchmark modules, which gives the former) and copies that can be repeated (by the
  copies of the CPU and of two policies). Each is interpreted on the definitions of the model, and the properties use the facts of the interpretations.

  \<^bold>\<open>What the lemmas show.\<close>
  \<^item> Engine: a driver module carries exactly the references held on its channels; a device is public or private;
    a public channel that could be allocated is held once per client; private channels have one holder; requesting and releasing is a round trip; the table of channels names live
    channels, and its computation equals a reference definition.
  \<^item> Copies: the pieces name every byte once, in the direction of the copy; the loops end when the driver drains; pinning and unpinning balance;
    policies start completely or not at all and stopping them undoes the start.
  \<^item> I/OAT: no descriptor is lost or on two lists in any reachable state, where no operation faults; a prepared chain covers the
    request; a finished transfer is completed by the next cleanup, with its mappings released; a hanging channel is
    restarted; interrupts are set up completely or not at all.
  \<^item> DCA: the requester table agrees with the writes to the device; tags are defined for every CPU.
  \<^item> Trace: rings are bounded queues; tracing changes no copy; the module loads completely or not at all;
    a recorded copy reaches the reader.
  \<^item> Benchmarks: a measurement ends with all its copies made in their direction, all its measures and every page released; unloading undoes loading; slots
    stay inside the memory of their device; a session gives back what it pinned; filling the memory ends and covers it once.
  \<^item> Where the code does not do what it means to, the theorem states what it does: a shared channel that outlives its
    last client, the leak of a second exclusive start, the release of pages never pinned, the copy that never
    returns after a failed mapping, the overrun of huge requests, the mappings leaked by a failed self test,
    the channels kept by a benchmark that failed to load, its failed copies recorded as data, its pages marked dirty the wrong way round.

  \<^bold>\<open>Bounds and fuel.\<close> Loops that may not end (waiting, retrying on a full descriptor ring, scanning the global DCA table)
  are partial functions into \<open>option\<close>, where \<open>None\<close> is not returning; the theorems on them prove that they return, with
  the time-out or the draining of the driver as a hypothesis. All other loops terminate by structure or by a
  measure. Lengths, addresses, ring indices and register values have the width of the C types; copies are shown
  correct below \<open>2 ^ 31\<close> bytes, where the code's \<^verbatim>\<open>int\<close> is exact. Reference counts, cookies and statistics are
  unbounded integers, since their wrap-around plays no part in the claims.

  \<^bold>\<open>Parameters.\<close> Code outside the repository is an argument: registers and their bits (\<^verbatim>\<open>registers.h\<close>, \<^verbatim>\<open>hw.h\<close>), the DMA
  mapping interface, memory allocation, pinning of pages, PCI, interrupts, timers, sysfs, character devices, the DCA core, the
  assembly copies. What a theorem needs of them is a named hypothesis, which its witness satisfies with concrete functions.
  Operations are atomic where the code holds the lock; interleavings are sequences of operations, and \<^verbatim>\<open>copy_dmaengine_put\<close> is
  the list of its two critical sections.

  \<^bold>\<open>Not modelled.\<close> The rest of \<^verbatim>\<open>kernel/module.c\<close> (the ELF loader, kallsyms, sysfs) and \<^verbatim>\<open>init/main.c\<close> are the unchanged
  kernel around one added call. The programs \<^verbatim>\<open>micro-benchmark_*/daemon\<close> and \<^verbatim>\<open>trace/daemon\<close> run in user space, start the measures and
  write statistics to files; \<^verbatim>\<open>micro-benchmark_Cache_2CPU/mibench_automotive\<close> is the third-party MiBench. Of the benchmark modules,
  messages, cache flushes, barriers and the contents of the copied memory are left out.
\<close>

lemma copy_to_user_transparent:
  assumes "cb_wf (rings ts Mem_Buff_To (cpu_after ce))"
  shows "transparent ce Mem_Buff_To (\<lambda>left. ucast (m - word_of_int left)) (copied_by_dma dma (init_req_copy user kern (ucast m)) (ts_k ts))
    (copy_to_user ce dma user kern m (ts_k ts)) (copy_to_user_traced ce dma user kern m ts) ts"
  unfolding copy_to_user_traced_def
  by (rule int_step_transparent [OF assms]) (simp add: copy_to_user_def copy_to_user_dma_pure_def split: option.split)

text \<open>
  C35. From copy to reader: a traced copy to user space that ends leaves exactly one measure behind the
  ones already in the ring of its CPU, and the next read of the trace device, if it has room and the region of that CPU is among the ones it copies, delivers the earlier
  measures followed by this one, with the number of bytes copied and who copied them, and leaves
  the ring empty.
\<close>

theorem traced_copy_is_read_back:
  assumes "\<forall>j. cb_wf (rings ts Mem_Buff_To j)" and "copy_to_user ce dma user kern m (ts_k ts) = Some (Inr (left, ks))"
    and "earlier = cb_list (rings ts Mem_Buff_To (cpu_after ce))"
    and "length earlier < min (unat len) BUFF_READ" and "length earlier < cb_capacity (rings ts Mem_Buff_To (cpu_after ce))"
    and "buf \<noteq> 0" and "ptr_region t = Regions regs" and "ptr_cb t = Mem_Buff_To"
    and "\<forall>reg \<in> set regs. length (rm_buffer reg) = BUFF_READ"
    and "distinct (present_cpus env)" and "\<forall>j \<in> set (present_cpus env). j < length regs" and "cpu_after ce \<in> set (present_cpus env)"
    and "copy_to_user_pure ce buf addr (of_nat (sizeof_region_mem * n_regions)) = 0"
    and "cpu_after ce < n_regions" and "n_regions \<le> length regs"
  shows "\<exists>ts1 ret regs' t' ts2 u. copy_to_user_traced ce dma user kern m ts = Some (Inr (left, ts1)) \<and>
    trace_driver_read env ce n_regions buf addr len t ts1 = Inr (ret, Some regs', t', ts2) \<and>
    unat (rm_count (regs' ! cpu_after ce)) = length earlier + 1 \<and>
    take (length earlier + 1) (rm_buffer (regs' ! cpu_after ce)) = earlier @ [u] \<and>
    ub_size u = ucast (m - word_of_int left) \<and>
    type_op u = (if copied_by_dma dma (init_req_copy user kern (ucast m)) (ts_k ts) then OP_COPY_DMA else OP_COPY_CPU) \<and>
    cb_list (rings ts2 Mem_Buff_To (cpu_after ce)) = []"
proof -
  let ?c = "cpu_after ce"
  have "cb_wf (rings ts Mem_Buff_To ?c)" using assms(1) by blast
  from copy_to_user_transparent [OF this, of m dma user kern, unfolded transparent_def assms(2) option.case sum.case prod.case]
  obtain ts1 u where w: "copy_to_user_traced ce dma user kern m ts = Some (Inr (left, ts1))" "appended Mem_Buff_To ?c u ts ts1"
    "ub_size u = ucast (m - word_of_int left)"
    "type_op u = (if copied_by_dma dma (init_req_copy user kern (ucast m)) (ts_k ts) then OP_COPY_DMA else OP_COPY_CPU)" by blast
  have ring: "cb_list (rings ts1 Mem_Buff_To ?c) = earlier @ [u]"
    using w(2) assms(3,5) by (simp add: appended_def)
  have "cb_wf (rings ts1 Mem_Buff_To j)" for j
    using w(2) assms(1) unfolding appended_def by (cases "j = ?c") auto
  then have wf: "\<forall>j \<in> set (present_cpus env). j < length regs \<and> cb_wf (rings ts1 (ptr_cb t) j)" using assms(8,11) by simp
  obtain regs0 cbs' where r: "\<forall>j \<in> set (present_cpus env).
      delivers (min (unat len) BUFF_READ) (regs0 ! j) (rings ts1 (ptr_cb t) j) (cbs' j)"
    "trace_driver_read env ce n_regions buf addr len t ts1 = Inr (int (sizeof_region_mem * n_regions), Some (take n_regions regs0),
      t\<lparr>ptr_region := Regions regs0\<rparr>, ts1\<lparr>rings := (rings ts1)(ptr_cb t := cbs')\<rparr>)"
    using trace_read_run [OF assms(6,7,9,10) wf assms(15), of len ce addr] unfolding assms(13) by auto
  let ?n = "min (unat len) BUFF_READ"
  have "min ?n (length (earlier @ [u])) = length earlier + 1" "take ?n (earlier @ [u]) = earlier @ [u]" "drop ?n (earlier @ [u]) = []"
    using assms(4) by auto
  moreover have "delivers ?n (take n_regions regs0 ! ?c) (rings ts1 Mem_Buff_To ?c) (cbs' ?c)"
    using r(1) assms(8,12,14) by (metis nth_take)
  ultimately have "unat (rm_count (take n_regions regs0 ! ?c)) = length earlier + 1"
    "take (length earlier + 1) (rm_buffer (take n_regions regs0 ! ?c)) = earlier @ [u]" "cb_list (cbs' ?c) = []"
    unfolding delivers_def ring by metis+
  then show ?thesis using w r(2) assms(8) by (intro exI conjI) (auto)
qed

text \<open>A copy by the CPU that leaves no byte, read back on a machine with two CPUs.\<close>

theorem traced_copy_is_read_back_witness:
  "\<exists>ts1 ret regs' t' ts2 u. copy_to_user_traced demo_ce None 8000 100000 5000 demo_ts = Some (Inr (0, ts1)) \<and>
    trace_driver_read demo_trace_env demo_ce 2 4096 8192 10 demo_trace_dev ts1 = Inr (ret, Some regs', t', ts2) \<and>
    unat (rm_count (regs' ! 1)) = 1 \<and> take 1 (rm_buffer (regs' ! 1)) = [u] \<and> ub_size u = 5000 \<and> type_op u = OP_COPY_CPU"
proof -
  have ring: "cb_wf (rings demo_ts b j)" "cb_list (rings demo_ts b j) = []" "0 < cb_capacity (rings demo_ts b j)" for b j
    by (simp_all add: demo_ts_def cbInit_wf)
  have pure: "copy_to_user_pure demo_ce dst src n = 0" for dst src n by (simp add: copy_to_user_pure_def demo_ce_def as_int_def)
  have c: "cpu_after demo_ce = 1" by (simp add: demo_ce_def)
  have ucast_5000: "(ucast (5000 :: u32) :: u64) = 5000" by simp
  have "\<exists>ts1 ret regs' t' ts2 u. copy_to_user_traced demo_ce None 8000 100000 5000 demo_ts = Some (Inr (0, ts1)) \<and>
    trace_driver_read demo_trace_env demo_ce 2 4096 8192 10 demo_trace_dev ts1 = Inr (ret, Some regs', t', ts2) \<and>
    unat (rm_count (regs' ! cpu_after demo_ce)) = length ([] :: unit_buff list) + 1 \<and>
    take (length ([] :: unit_buff list) + 1) (rm_buffer (regs' ! cpu_after demo_ce)) = [] @ [u] \<and>
    ub_size u = ucast (5000 - word_of_int 0 :: u32) \<and>
    type_op u = (if copied_by_dma None (init_req_copy 8000 100000 (ucast (5000 :: u32))) (ts_k demo_ts) then OP_COPY_DMA else OP_COPY_CPU) \<and>
    cb_list (rings ts2 Mem_Buff_To (cpu_after demo_ce)) = []"
    by (rule traced_copy_is_read_back [where ks = "ts_k demo_ts" and regs = "[demo_region, demo_region]"])
       (simp_all add: ring pure c copy_to_user_def demo_trace_dev_def demo_trace_env_def demo_region_def BUFF_READ_def)
  then show ?thesis
    unfolding c copied_by_dma_def option.case if_False append_Nil list.size add_0 word_of_int_0 diff_zero by (simp only: ucast_5000) blast
qed

end
